(* ===== verification/Prelude.thy ===== *)
theory Prelude
  imports Main "HOL-Library.Word" "HOL-Library.Monad_Syntax"
begin

text \<open>
  Shared ground of the development: the machine types of the target (an AVR, little endian,
  with a 16-bit \<^verbatim>\<open>int\<close>), the byte-order macros of Host.h, overwriting a window of a byte
  list, byte-wise copies between memories, and the sequencing of calls that report success
  as a \<^verbatim>\<open>bool\<close>.
\<close>

unbundle bit_operations_syntax

type_synonym u8 = "8 word"
type_synonym u16 = "16 word"
type_synonym u32 = "32 word"

named_theorems buf_simps "facts about reading and writing buffers"
named_theorems bo_simps "byte order"

section \<open>Machine words\<close>

lemma unat16_less [simp]: "unat (x :: u16) < 65536"
  using unsigned_less [of x] by simp

lemma unat16_le: "unat (x :: u16) \<le> 65535"
  using unat16_less [of x] by linarith

lemma unat32_less [simp]: "unat (x :: u32) < 4294967296"
  using unsigned_less [of x] by simp

lemma unat8_less [simp]: "unat (x :: u8) < 256"
  using unsigned_less [of x] by simp

lemma unat_add16: "unat (a :: u16) + unat b < 65536 \<Longrightarrow> unat (a + b) = unat a + unat b"
  by (simp add: unat_word_ariths)

lemma unat_add16_below:
  assumes "unat (a :: u16) + unat b < unat (c :: u16)"
  shows "unat (a + b) = unat a + unat b"
  using assms unat16_less [of c] by (intro unat_add16) linarith

lemma unat_Suc16:
  assumes "unat (a :: u16) < unat (c :: u16)"
  shows "unat (a + 1) = unat a + 1"
  using assms unat16_less [of c] unat_add16 [of a 1] by (simp del: unat16_less)

lemma unat_sub16: "b \<le> (a :: u16) \<Longrightarrow> unat (a - b) = unat a - unat b"
  by (rule unat_sub)

lemma unat_of_nat16: "n < 65536 \<Longrightarrow> unat (word_of_nat n :: u16) = n"
  by (simp add: unat_of_nat)

lemma less16: "((a :: u16) < b) = (unat a < unat b)"
  by (rule word_less_nat_alt)

lemma le16_iff: "((a :: u16) \<le> b) = (unat a \<le> unat b)"
  by (rule word_le_nat_alt)

text \<open>Addition of 16-bit sizes, as the bounds checks of the buffers compute it.\<close>

lemma sum_fits16:
  assumes "unat a + unat b \<le> unat (c :: u16)"
  shows "\<not> c < a + b" and "unat (a + b) = unat a + unat b"
proof -
  have "unat a + unat b < 65536" using assms unat16_less [of c] by linarith
  then show eq: "unat (a + b) = unat a + unat b" by (rule unat_add16)
  show "\<not> c < a + b" using assms by (simp add: less16 eq)
qed

lemma sum_exceeds16:
  assumes "unat (c :: u16) < unat a + unat b" and "unat a + unat b < 65536"
  shows "c < a + b"
  using assms by (simp add: less16 unat_add16)

lemma unat_drop16: "unat (drop_bit 16 (x :: u32)) = unat x div 65536"
  unfolding unat_drop_bit_eq by (simp add: drop_bit_eq_div)

lemma unat_low16: "unat (x AND 0xFFFF :: u32) = unat x mod 65536"
proof -
  have "x AND 0xFFFF = take_bit 16 x" by (simp add: take_bit_eq_mask mask_eq_exp_minus_1)
  then have "unat (x AND 0xFFFF) = take_bit 16 (unat x)" by (simp only: unsigned_take_bit_eq)
  then show ?thesis by (simp add: take_bit_eq_mod)
qed

section \<open>Byte order (Host.h)\<close>

definition HTONS :: "u16 \<Rightarrow> u16" where
  "HTONS s = (drop_bit 8 s OR push_bit 8 s)"

definition HTONL :: "u32 \<Rightarrow> u32" where
  "HTONL w = (drop_bit 24 w
     OR push_bit 8 (drop_bit 24 (push_bit 8 w))
     OR drop_bit 8 (push_bit 24 (drop_bit 8 w))
     OR push_bit 24 w)"

text \<open>
  The bytes of a word in the memory of the little-endian target, and the word that bytes in
  memory denote.
\<close>

definition mem16 :: "u16 \<Rightarrow> u8 list" where
  "mem16 w = [ucast w, ucast (drop_bit 8 w)]"

definition mem32 :: "u32 \<Rightarrow> u8 list" where
  "mem32 w = [ucast w, ucast (drop_bit 8 w), ucast (drop_bit 16 w), ucast (drop_bit 24 w)]"

definition word16 :: "u8 list \<Rightarrow> u16" where
  "word16 bs = (ucast (bs ! 0) OR push_bit 8 (ucast (bs ! 1)))"

definition word32 :: "u8 list \<Rightarrow> u32" where
  "word32 bs = (ucast (bs ! 0) OR push_bit 8 (ucast (bs ! 1))
     OR push_bit 16 (ucast (bs ! 2)) OR push_bit 24 (ucast (bs ! 3)))"

text \<open>Network byte order: the most significant byte first.\<close>

definition be16 :: "u16 \<Rightarrow> u8 list" where
  "be16 w = [ucast (drop_bit 8 w), ucast w]"

definition be32 :: "u32 \<Rightarrow> u8 list" where
  "be32 w = [ucast (drop_bit 24 w), ucast (drop_bit 16 w), ucast (drop_bit 8 w), ucast w]"

definition net16 :: "u8 \<Rightarrow> u8 \<Rightarrow> u16" where
  "net16 hi lo = (push_bit 8 (ucast hi) OR ucast lo)"

definition net32 :: "u8 \<Rightarrow> u8 \<Rightarrow> u8 \<Rightarrow> u8 \<Rightarrow> u32" where
  "net32 a b c d = (push_bit 24 (ucast a) OR push_bit 16 (ucast b)
     OR push_bit 8 (ucast c) OR ucast d)"

lemma length_mem16 [simp]: "length (mem16 w) = 2"
  by (simp add: mem16_def)

lemma length_mem32 [simp]: "length (mem32 w) = 4"
  by (simp add: mem32_def)

lemma length_be16 [simp]: "length (be16 w) = 2"
  by (simp add: be16_def)

lemma length_be32 [simp]: "length (be32 w) = 4"
  by (simp add: be32_def)

lemma HTONS_bit:
  "bit (HTONS w) n \<longleftrightarrow> n < 16 \<and> (if n < 8 then bit w (n + 8) else bit w (n - 8))"
  unfolding HTONS_def
  by (cases "n < 8") (auto simp: bit_simps ac_simps not_less dest: bit_imp_le_length)

lemma HTONL_bit:
  "bit (HTONL w) n \<longleftrightarrow> n < 32 \<and>
     (if n < 8 then bit w (n + 24) else if n < 16 then bit w (n + 8)
      else if n < 24 then bit w (n - 8) else bit w (n - 24))"
  unfolding HTONL_def
  by (auto simp: bit_simps not_less ac_simps dest: bit_imp_le_length)

lemma HTONS_HTONS [simp]: "HTONS (HTONS w) = w"
  by (rule bit_word_eqI) (auto simp: HTONS_bit not_less)

lemma HTONL_HTONL [simp]: "HTONL (HTONL w) = w"
  by (rule bit_word_eqI) (auto simp: HTONL_bit not_less)

lemma mem16_HTONS [bo_simps]: "mem16 (HTONS w) = be16 w"
  unfolding mem16_def be16_def
  by (auto intro!: bit_word_eqI simp: HTONS_bit bit_simps ac_simps)

lemma mem32_HTONL [bo_simps]: "mem32 (HTONL w) = be32 w"
  unfolding mem32_def be32_def
  by (auto intro!: bit_word_eqI simp: HTONL_bit bit_simps ac_simps)

lemma net16_bit:
  "bit (net16 a b) n \<longleftrightarrow> n < 16 \<and> (if n < 8 then bit b n else bit a (n - 8))"
  unfolding net16_def
  by (auto simp: bit_simps not_less dest: bit_imp_le_length)

lemma net32_bit:
  "bit (net32 a b c d) n \<longleftrightarrow> n < 32 \<and>
     (if n < 8 then bit d n else if n < 16 then bit c (n - 8)
      else if n < 24 then bit b (n - 16) else bit a (n - 24))"
  unfolding net32_def
  by (auto simp: bit_simps not_less dest: bit_imp_le_length)

lemma word16_bit:
  "bit (word16 [a, b]) n \<longleftrightarrow> n < 16 \<and> (if n < 8 then bit a n else bit b (n - 8))"
  unfolding word16_def
  by (auto simp: bit_simps not_less dest: bit_imp_le_length)

lemma word32_bit:
  "bit (word32 [a, b, c, d]) n \<longleftrightarrow> n < 32 \<and>
     (if n < 8 then bit a n else if n < 16 then bit b (n - 8)
      else if n < 24 then bit c (n - 16) else bit d (n - 24))"
  unfolding word32_def
  by (auto simp: bit_simps not_less dest: bit_imp_le_length)

lemma HTONS_word16 [bo_simps]: "HTONS (word16 [a, b]) = net16 a b"
  by (rule bit_word_eqI) (auto simp: HTONS_bit word16_bit net16_bit)

lemma HTONL_word32 [bo_simps]: "HTONL (word32 [a, b, c, d]) = net32 a b c d"
  by (rule bit_word_eqI) (auto simp: HTONL_bit word32_bit net32_bit)

lemma net16_be16 [bo_simps]: "net16 (ucast (drop_bit 8 w)) (ucast w) = w"
  by (rule bit_word_eqI) (auto simp: net16_bit bit_simps not_less)

lemma net32_be32 [bo_simps]:
  "net32 (ucast (drop_bit 24 w)) (ucast (drop_bit 16 w)) (ucast (drop_bit 8 w)) (ucast w) = w"
  by (rule bit_word_eqI) (auto simp: net32_bit bit_simps not_less)

lemma be16_net16 [bo_simps]: "be16 (net16 a b) = [a, b]"
  unfolding be16_def
  by (auto intro!: bit_word_eqI simp: net16_bit bit_simps ac_simps)

section \<open>Windows of a byte list\<close>

definition window :: "nat \<Rightarrow> nat \<Rightarrow> 'a list \<Rightarrow> 'a list" where
  "window n m bs = take m (drop n bs)"

text \<open>Overwriting the window that starts at \<open>n\<close> with \<open>xs\<close>.\<close>

definition put :: "nat \<Rightarrow> 'a list \<Rightarrow> 'a list \<Rightarrow> 'a list" where
  "put n xs bs = take n bs @ xs @ drop (n + length xs) bs"

lemma length_window [simp]: "n + m \<le> length bs \<Longrightarrow> length (window n m bs) = m"
  by (simp add: window_def)

lemma nth_window: "n + m \<le> length bs \<Longrightarrow> i < m \<Longrightarrow> window n m bs ! i = bs ! (n + i)"
  by (simp add: window_def)

lemma window_all [simp]: "m = length bs \<Longrightarrow> window 0 m bs = bs"
  by (simp add: window_def)

lemma window_window:
  "k + j \<le> m \<Longrightarrow> window k j (window n m bs) = window (n + k) j bs"
  by (simp add: window_def drop_take add.commute min_def)

lemma window_append: "n + m \<le> length xs \<Longrightarrow> window n m (xs @ ys) = window n m xs"
  by (simp add: window_def)

lemma map_window: "map f (window n m bs) = window n m (map f bs)"
  by (simp add: window_def take_map drop_map)

lemma distinct_window [simp]: "distinct bs \<Longrightarrow> distinct (window n m bs)"
  by (simp add: window_def)

lemma set_window: "set (window n m bs) \<subseteq> set bs"
  unfolding window_def by (meson set_drop_subset set_take_subset subset_trans)

lemma window_eqI:
  assumes "length xs = m" and "n + m \<le> length bs" and "\<And>i. i < m \<Longrightarrow> bs ! (n + i) = xs ! i"
  shows "window n m bs = xs"
  using assms by (intro nth_equalityI) (auto simp: nth_window)

lemma length_put [simp]: "n + length xs \<le> length bs \<Longrightarrow> length (put n xs bs) = length bs"
  by (simp add: put_def)

lemma nth_put:
  assumes "n + length xs \<le> length bs" and "i < length bs"
  shows "put n xs bs ! i = (if n \<le> i \<and> i < n + length xs then xs ! (i - n) else bs ! i)"
  using assms by (auto simp: put_def nth_append min_def)

lemma window_put_same: "n + length xs \<le> length bs \<Longrightarrow> window n (length xs) (put n xs bs) = xs"
  by (rule window_eqI) (auto simp: nth_put)

lemma window_put_disjoint:
  assumes "n + length xs \<le> length bs" and "k + m \<le> length bs" and "k + m \<le> n \<or> n + length xs \<le> k"
  shows "window k m (put n xs bs) = window k m bs"
  using assms by (intro nth_equalityI) (auto simp: nth_window nth_put)

lemma window_put_inside:
  assumes "n + m \<le> length bs" and "k + length xs \<le> m"
  shows "window n m (put (n + k) xs bs) = put k xs (window n m bs)"
  using assms by (intro nth_equalityI) (auto simp: nth_window nth_put)

lemma put_nth2: "n + 2 \<le> length bs \<Longrightarrow> put n [bs ! n, bs ! (n + 1)] bs = bs"
  by (simp add: put_def Cons_nth_drop_Suc)

lemma put_put_same: "n + length xs \<le> length bs \<Longrightarrow> length ys = length xs \<Longrightarrow>
    put n ys (put n xs bs) = put n ys bs"
  by (intro nth_equalityI) (auto simp: nth_put)

lemma put_Cons:
  "n + 1 + length ys \<le> length bs \<Longrightarrow> put (n + 1) ys (put n [x] bs) = put n (x # ys) bs"
  by (intro nth_equalityI) (auto simp: nth_put nth_Cons')

lemma put_append:
  "n + length xs + length ys \<le> length bs \<Longrightarrow>
    put (n + length xs) ys (put n xs bs) = put n (xs @ ys) bs"
  by (intro nth_equalityI) (auto simp: nth_put nth_append)

lemma map_put: "map f (put n xs bs) = put n (map f xs) (map f bs)"
  by (simp add: put_def take_map drop_map)

section \<open>Byte-wise copies\<close>

text \<open>
  The addresses a copy of \<open>n\<close> bytes visits, when the address steps with \<open>nx\<close>, and the
  memory after storing the bytes \<open>xs\<close> at the addresses \<open>as\<close> in turn.
\<close>

fun addrs :: "('a \<Rightarrow> 'a) \<Rightarrow> 'a \<Rightarrow> nat \<Rightarrow> 'a list" where
  "addrs nx a 0 = []"
| "addrs nx a (Suc n) = a # addrs nx (nx a) n"

fun pokes :: "'a list \<Rightarrow> 'b list \<Rightarrow> ('a \<Rightarrow> 'b) \<Rightarrow> 'a \<Rightarrow> 'b" where
  "pokes (a # as) (x # xs) m = pokes as xs (m(a := x))"
| "pokes _ _ m = m"

lemma length_addrs [simp]: "length (addrs nx a n) = n"
  by (induction n arbitrary: a) auto

lemma addrs_chain:
  assumes "\<And>i. Suc i < m \<Longrightarrow> nx (A i) = A (Suc i)" and "k + n \<le> m"
  shows "addrs nx (A k) n = map A [k ..< k + n]"
  using assms(2)
proof (induction n arbitrary: k)
  case 0
  then show ?case by simp
next
  case (Suc n)
  have upt: "[k ..< Suc (k + n)] = k # [Suc k ..< Suc (k + n)]" by (simp add: upt_conv_Cons del: upt_Suc)
  show ?case
  proof (cases n)
    case 0
    then show ?thesis by simp
  next
    case (Suc j)
    with Suc.prems have "nx (A k) = A (Suc k)" by (intro assms(1)) simp
    with Suc.IH [of "Suc k"] Suc.prems show ?thesis by (simp add: upt del: upt_Suc)
  qed
qed

lemma pokes_other: "b \<notin> set as \<Longrightarrow> pokes as xs m b = m b"
  by (induction as xs m rule: pokes.induct) auto

lemma map_pokes: "distinct as \<Longrightarrow> length as = length xs \<Longrightarrow> map (pokes as xs m) as = xs"
  by (induction as xs m rule: pokes.induct) (auto simp: pokes_other)

lemma map_pokes_disjoint: "set bs \<inter> set as = {} \<Longrightarrow> map (pokes as xs m) bs = map m bs"
  by (auto intro!: pokes_other)

lemma map_pokes_window:
  assumes "distinct A" and "n + length xs \<le> length A"
  shows "map (pokes (window n (length xs) A) xs m) A = put n xs (map m A)"
proof -
  let ?l = "length xs" and ?w = "window n (length xs) A"
  have A: "A = take n A @ ?w @ drop (n + ?l) A"
    by (simp add: window_def) (metis add.commute append_take_drop_id drop_drop)
  with assms(1) have "distinct (take n A @ ?w @ drop (n + ?l) A)" by simp
  then have d: "set (take n A) \<inter> set ?w = {}" "set (drop (n + ?l) A) \<inter> set ?w = {}" "distinct ?w"
    by auto
  have "map (pokes ?w xs m) ?w = xs"
    using d(3) assms(2) by (intro map_pokes) auto
  then have "map (pokes ?w xs m) (take n A @ ?w @ drop (n + ?l) A)
      = map m (take n A) @ xs @ map m (drop (n + ?l) A)"
    using d(1,2) by (simp add: map_pokes_disjoint)
  then show ?thesis using A by (simp add: put_def take_map drop_map)
qed

section \<open>The first element with a property\<close>

fun index_of :: "('a \<Rightarrow> bool) \<Rightarrow> 'a list \<Rightarrow> nat option" where
  "index_of P [] = None"
| "index_of P (x # xs) = (if P x then Some 0 else map_option Suc (index_of P xs))"

lemma index_of_Some:
  "index_of P xs = Some i \<longleftrightarrow> i < length xs \<and> P (xs ! i) \<and> (\<forall>j < i. \<not> P (xs ! j))"
proof (induction xs arbitrary: i)
  case (Cons x xs)
  show ?case by (cases i) (auto simp: Cons less_Suc_eq_0_disj)
qed simp

lemma index_of_None: "index_of P xs = None \<longleftrightarrow> (\<forall>x \<in> set xs. \<not> P x)"
  by (induction xs) auto

section \<open>Calls that report success\<close>

text \<open>
  \<^verbatim>\<open>if (!f()) return false; if (!g()) return false; ... return true;\<close> The effect of the calls
  made before the one that fails remains.
\<close>

fun seq_ok :: "('s \<Rightarrow> bool \<times> 's) list \<Rightarrow> 's \<Rightarrow> bool \<times> 's" where
  "seq_ok [] s = (True, s)"
| "seq_ok (f # fs) s = (case f s of (ok, s') \<Rightarrow> if ok then seq_ok fs s' else (False, s'))"

text \<open>\<^verbatim>\<open>f(); g(); ...\<close>: the calls are made whatever they report.\<close>

fun run_all :: "('s \<Rightarrow> bool \<times> 's) list \<Rightarrow> 's \<Rightarrow> 's" where
  "run_all [] s = s"
| "run_all (f # fs) s = run_all fs (snd (f s))"

text \<open>\<^verbatim>\<open>if (!b) return;\<close> inside a chain of reads that may each end the handler.\<close>

definition require :: "bool \<Rightarrow> unit option" where
  "require b = (if b then Some () else None)"

lemma require_simps [simp]: "require True = Some ()" "require False = None"
  by (simp_all add: require_def)

text \<open>A call for every element, when a call may end in undefined behaviour.\<close>

fun each :: "('i \<Rightarrow> 's \<Rightarrow> 's option) \<Rightarrow> 'i list \<Rightarrow> 's \<Rightarrow> 's option" where
  "each f [] s = Some s"
| "each f (i # is) s = Option.bind (f i s) (each f is)"

lemma each_invariant:
  assumes "each f is s = Some s'" and "\<And>i s s'. f i s = Some s' \<Longrightarrow> P s \<Longrightarrow> P s'" and "P s"
  shows "P s'"
  using assms(1,3)
  by (induction "is" arbitrary: s) (auto split: bind_splits dest: assms(2))

lemma seq_ok_run_all: "fst (seq_ok fs s) \<Longrightarrow> snd (seq_ok fs s) = run_all fs s"
  by (induction fs arbitrary: s) (auto simp: case_prod_beta split: if_splits)

text \<open>A property every call keeps is kept by the sequence, whichever call fails.\<close>

lemma seq_ok_invariant:
  assumes "\<And>f s. f \<in> set fs \<Longrightarrow> P s \<Longrightarrow> P (snd (f s))" and "P s"
  shows "P (snd (seq_ok fs s))"
  using assms
proof (induction fs arbitrary: s)
  case Nil
  then show ?case by simp
next
  case (Cons f fs)
  have "P (snd (f s))" using Cons.prems by auto
  then have "P (snd (seq_ok fs (snd (f s))))" using Cons.prems(1) by (intro Cons.IH) auto
  then show ?case using \<open>P (snd (f s))\<close> by (auto split: prod.splits)
qed

end
