(* ===== verification/ENC28J60Registers.thy ===== *)
theory ENC28J60Registers
  imports Prelude
begin

text \<open>
  ENC28J60Registers.h: the registers, bits and operation codes of the controller that the driver uses. The number of a
  register holds its address in the bits 0 to 4, its bank in the bits 5 and 6, and bit 7 tells a MAC or MII register.
\<close>

section \<open>Masks and registers\<close>

definition ADDR_MASK :: u8 where "ADDR_MASK = 0x1F"
definition BANK_MASK :: u8 where "BANK_MASK = 0x60"
definition EIE :: u8 where "EIE = 0x1B"
definition EIR :: u8 where "EIR = 0x1C"
definition ESTAT :: u8 where "ESTAT = 0x1D"
definition ECON2 :: u8 where "ECON2 = 0x1E"
definition ECON1 :: u8 where "ECON1 = 0x1F"
definition ERDPT :: u8 where "ERDPT = 0x00 OR 0x00"
definition EWRPT :: u8 where "EWRPT = 0x02 OR 0x00"
definition ETXST :: u8 where "ETXST = 0x04 OR 0x00"
definition ETXND :: u8 where "ETXND = 0x06 OR 0x00"
definition ERXST :: u8 where "ERXST = 0x08 OR 0x00"
definition ERXND :: u8 where "ERXND = 0x0A OR 0x00"
definition ERXRDPT :: u8 where "ERXRDPT = 0x0C OR 0x00"
definition EDMAST :: u8 where "EDMAST = 0x10 OR 0x00"
definition EDMAND :: u8 where "EDMAND = 0x12 OR 0x00"
definition EDMADST :: u8 where "EDMADST = 0x14 OR 0x00"
definition EPMM0 :: u8 where "EPMM0 = 0x08 OR 0x20"
definition EPMCS :: u8 where "EPMCS = 0x10 OR 0x20"
definition ERXFCON :: u8 where "ERXFCON = 0x18 OR 0x20"
definition EPKTCNT :: u8 where "EPKTCNT = 0x19 OR 0x20"
definition MACON1 :: u8 where "MACON1 = 0x00 OR 0x40 OR 0x80"
definition MACON2 :: u8 where "MACON2 = 0x01 OR 0x40 OR 0x80"
definition MACON3 :: u8 where "MACON3 = 0x02 OR 0x40 OR 0x80"
definition MABBIPG :: u8 where "MABBIPG = 0x04 OR 0x40 OR 0x80"
definition MAIPG :: u8 where "MAIPG = 0x06 OR 0x40 OR 0x80"
definition MAMXFL :: u8 where "MAMXFL = 0x0A OR 0x40 OR 0x80"
definition MICMD :: u8 where "MICMD = 0x12 OR 0x40 OR 0x80"
definition MIREGADR :: u8 where "MIREGADR = 0x14 OR 0x40 OR 0x80"
definition MIWR :: u8 where "MIWR = 0x16 OR 0x40 OR 0x80"
definition MIRD :: u8 where "MIRD = 0x18 OR 0x40 OR 0x80"
definition MAADR1 :: u8 where "MAADR1 = 0x00 OR 0x60 OR 0x80"
definition MAADR0 :: u8 where "MAADR0 = 0x01 OR 0x60 OR 0x80"
definition MAADR3 :: u8 where "MAADR3 = 0x02 OR 0x60 OR 0x80"
definition MAADR2 :: u8 where "MAADR2 = 0x03 OR 0x60 OR 0x80"
definition MAADR5 :: u8 where "MAADR5 = 0x04 OR 0x60 OR 0x80"
definition MAADR4 :: u8 where "MAADR4 = 0x05 OR 0x60 OR 0x80"
definition MISTAT :: u8 where "MISTAT = 0x0A OR 0x60 OR 0x80"
definition EREVID :: u8 where "EREVID = 0x12 OR 0x60"

section \<open>Bits of the registers\<close>

definition ERXFCON_UCEN :: u8 where "ERXFCON_UCEN = 0x80"
definition ERXFCON_CRCEN :: u8 where "ERXFCON_CRCEN = 0x20"
definition ERXFCON_PMEN :: u8 where "ERXFCON_PMEN = 0x10"
definition ERXFCON_BCEN :: u8 where "ERXFCON_BCEN = 0x01"
definition EIE_INTIE :: u8 where "EIE_INTIE = 0x80"
definition EIE_PKTIE :: u8 where "EIE_PKTIE = 0x40"
definition EIR_TXERIF :: u8 where "EIR_TXERIF = 0x02"
definition ESTAT_RXBUSY :: u8 where "ESTAT_RXBUSY = 0x04"
definition ESTAT_CLKRDY :: u8 where "ESTAT_CLKRDY = 0x01"
definition ECON2_PKTDEC :: u8 where "ECON2_PKTDEC = 0x40"
definition ECON2_PWRSV :: u8 where "ECON2_PWRSV = 0x20"
definition ECON2_VRPS :: u8 where "ECON2_VRPS = 0x08"
definition ECON1_TXRST :: u8 where "ECON1_TXRST = 0x80"
definition ECON1_DMAST :: u8 where "ECON1_DMAST = 0x20"
definition ECON1_CSUMEN :: u8 where "ECON1_CSUMEN = 0x10"
definition ECON1_TXRTS :: u8 where "ECON1_TXRTS = 0x08"
definition ECON1_RXEN :: u8 where "ECON1_RXEN = 0x04"
definition ECON1_BSEL1 :: u8 where "ECON1_BSEL1 = 0x02"
definition ECON1_BSEL0 :: u8 where "ECON1_BSEL0 = 0x01"
definition MACON1_TXPAUS :: u8 where "MACON1_TXPAUS = 0x08"
definition MACON1_RXPAUS :: u8 where "MACON1_RXPAUS = 0x04"
definition MACON1_MARXEN :: u8 where "MACON1_MARXEN = 0x01"
definition MACON3_PADCFG0 :: u8 where "MACON3_PADCFG0 = 0x20"
definition MACON3_TXCRCEN :: u8 where "MACON3_TXCRCEN = 0x10"
definition MACON3_FRMLNEN :: u8 where "MACON3_FRMLNEN = 0x02"
definition MICMD_MIIRD :: u8 where "MICMD_MIIRD = 0x01"
definition MISTAT_BUSY :: u8 where "MISTAT_BUSY = 0x01"

section \<open>Registers of the PHY\<close>

definition PHCON2 :: u8 where "PHCON2 = 0x10"
definition PHSTAT2 :: u8 where "PHSTAT2 = 0x11"
definition PHCON2_HDLDIS :: u16 where "PHCON2_HDLDIS = 0x0100"

section \<open>Operation codes on the SPI bus\<close>

definition ENC28J60_READ_CTRL_REG :: u8 where "ENC28J60_READ_CTRL_REG = 0x00"
definition ENC28J60_READ_BUF_MEM :: u8 where "ENC28J60_READ_BUF_MEM = 0x3A"
definition ENC28J60_WRITE_CTRL_REG :: u8 where "ENC28J60_WRITE_CTRL_REG = 0x40"
definition ENC28J60_WRITE_BUF_MEM :: u8 where "ENC28J60_WRITE_BUF_MEM = 0x7A"
definition ENC28J60_BIT_FIELD_SET :: u8 where "ENC28J60_BIT_FIELD_SET = 0x80"
definition ENC28J60_BIT_FIELD_CLR :: u8 where "ENC28J60_BIT_FIELD_CLR = 0xA0"
definition ENC28J60_SOFT_RESET :: u8 where "ENC28J60_SOFT_RESET = 0xFF"

lemmas register_defs =
  ADDR_MASK_def BANK_MASK_def EIE_def EIR_def ESTAT_def ECON2_def ECON1_def ERDPT_def EWRPT_def ETXST_def
  ETXND_def ERXST_def ERXND_def ERXRDPT_def EDMAST_def EDMAND_def EDMADST_def EPMM0_def EPMCS_def ERXFCON_def
  EPKTCNT_def MACON1_def MACON2_def MACON3_def MABBIPG_def MAIPG_def MAMXFL_def MICMD_def MIREGADR_def MIWR_def
  MIRD_def MAADR1_def MAADR0_def MAADR3_def MAADR2_def MAADR5_def MAADR4_def MISTAT_def EREVID_def

lemmas register_bit_defs =
  ERXFCON_UCEN_def ERXFCON_CRCEN_def ERXFCON_PMEN_def ERXFCON_BCEN_def EIE_INTIE_def EIE_PKTIE_def
  EIR_TXERIF_def ESTAT_RXBUSY_def ESTAT_CLKRDY_def ECON2_PKTDEC_def ECON2_PWRSV_def ECON2_VRPS_def
  ECON1_TXRST_def ECON1_DMAST_def ECON1_CSUMEN_def ECON1_TXRTS_def ECON1_RXEN_def ECON1_BSEL1_def
  ECON1_BSEL0_def MACON1_TXPAUS_def MACON1_RXPAUS_def MACON1_MARXEN_def MACON3_PADCFG0_def MACON3_TXCRCEN_def
  MACON3_FRMLNEN_def MICMD_MIIRD_def MISTAT_BUSY_def PHCON2_def PHSTAT2_def PHCON2_HDLDIS_def

lemmas opcode_defs =
  ENC28J60_READ_CTRL_REG_def ENC28J60_READ_BUF_MEM_def ENC28J60_WRITE_CTRL_REG_def ENC28J60_WRITE_BUF_MEM_def
  ENC28J60_BIT_FIELD_SET_def ENC28J60_BIT_FIELD_CLR_def ENC28J60_SOFT_RESET_def

end
