(* ===== verification/Buffers.thy ===== *)
theory Buffers
  imports Prelude
begin

text \<open>
  Buffer.h/.cpp, MemBuffer.h/.cpp, OffsetBuffer.h/.cpp and ENC28J60Buffer.h/.cpp. The abstract
  class \<^verbatim>\<open>Buffer\<close> has three implementations, the constructors of \<open>buffer\<close> below; a virtual call
  is the case distinction on the constructor. Bytes live in the RAM of the microcontroller
  (\<open>sram\<close>, where a MemBuffer points) and in the packet memory of the ethernet controller
  (\<open>ram\<close>). The controller itself is not part of the repository: how its read and write
  pointers step and what its DMA engine copies are parameters, the fields of \<open>chip_if\<close>.
\<close>

section \<open>Memory\<close>

record chip_if =
  rdnext :: "u16 \<Rightarrow> u16"   \<comment> \<open>ERDPT after the byte at an address has been read\<close>
  wrnext :: "u16 \<Rightarrow> u16"   \<comment> \<open>EWRPT after the byte at an address has been written\<close>
  dma_busy :: bool           \<comment> \<open>ECON1.DMAST is still set when a copy is requested\<close>
  dma :: "u16 \<Rightarrow> u16 \<Rightarrow> u16 \<Rightarrow> (u16 \<Rightarrow> u8) \<Rightarrow> (u16 \<Rightarrow> u8)"
    \<comment> \<open>a DMA copy with EDMAST, EDMAND and EDMADST as given\<close>

record store =
  sram :: "u16 \<Rightarrow> u8"
  ram :: "u16 \<Rightarrow> u8"
  chip :: chip_if

datatype buffer =
    MemBuffer u16 u16                         \<comment> \<open>buffer, bufferLength\<close>
  | ENC28J60Buffer u16 u16 u16 u16 bool       \<comment> \<open>bufferStart, bufferEnd, payloadPointer, len, wrap\<close>
  | OffsetBuffer buffer u16 u16               \<comment> \<open>innerBuffer, offset, bufferLength\<close>

fun getBufferType :: "buffer \<Rightarrow> u8" where
  "getBufferType (MemBuffer _ _) = 1"
| "getBufferType (OffsetBuffer _ _ _) = 2"
| "getBufferType (ENC28J60Buffer _ _ _ _ _) = 3"

fun b_size :: "buffer \<Rightarrow> u16" where
  "b_size (MemBuffer _ bufferLength) = bufferLength"
| "b_size (ENC28J60Buffer _ _ _ len _) = len"
| "b_size (OffsetBuffer _ _ bufferLength) = bufferLength"

text \<open>
  The constructor that allocates; \<open>p\<close> is what \<^verbatim>\<open>malloc\<close> returned (the null pointer is 0). The
  length is assigned unconditionally after the test of the pointer.
\<close>

definition MemBuffer_alloc :: "u16 \<Rightarrow> u16 \<Rightarrow> buffer" where
  "MemBuffer_alloc p bufferLength =
     (let buf = MemBuffer p (if p = 0 then 0 else bufferLength)
      in case buf of MemBuffer b _ \<Rightarrow> MemBuffer b bufferLength | _ \<Rightarrow> buf)"

section \<open>ENC28J60Driver::read and ENC28J60Driver::write on the packet memory\<close>

definition driver_read :: "'a store_scheme \<Rightarrow> u16 \<Rightarrow> u16 \<Rightarrow> u8 list option" where
  "driver_read s address len = Some (map (ram s) (addrs (rdnext (chip s)) address (unat len)))"

definition driver_write :: "u16 \<Rightarrow> u8 list \<Rightarrow> 'a store_scheme \<Rightarrow> bool \<times> 'a store_scheme" where
  "driver_write address data s =
     (True, s\<lparr>ram := pokes (addrs (wrnext (chip s)) address (length data)) data (ram s)\<rparr>)"

definition RXSTART_INIT :: u16 where "RXSTART_INIT = 0x0000"
definition RXSTOP_INIT :: u16 where "RXSTOP_INIT = 0x0BFF"

definition driver_copy :: "u16 \<Rightarrow> u16 \<Rightarrow> u16 \<Rightarrow> 'a store_scheme \<Rightarrow> bool \<times> 'a store_scheme" where
  "driver_copy src_addr_start dest_addr len s =
     (if dest_addr > 0x1FFF then (False, s)
      else if src_addr_start > 0x1FFF then (False, s)
      else if dest_addr \<ge> RXSTART_INIT \<and> dest_addr \<le> RXSTOP_INIT then (False, s)
      else let src_addr_end = src_addr_start + len;
               inrx = (src_addr_start \<ge> RXSTART_INIT \<and> src_addr_start \<le> RXSTOP_INIT);
               src_addr_end =
                 (if inrx \<and> src_addr_end > RXSTOP_INIT
                  then src_addr_end - RXSTOP_INIT + RXSTART_INIT - 1 else src_addr_end)
           in if inrx \<and> src_addr_end > RXSTOP_INIT then (False, s)
              else if src_addr_end > 0x1FFF then (False, s)
              else if dest_addr + len > 0x1FFF then (False, s)
              else if dma_busy (chip s) then (False, s)
              else (True, s\<lparr>ram := dma (chip s) src_addr_start src_addr_end dest_addr (ram s)\<rparr>))"

section \<open>Reading and writing\<close>

text \<open>
  The address computation of ENC28J60Buffer::read and ENC28J60Buffer::write; \<open>None\<close> is the
  \<^verbatim>\<open>return false\<close>.
\<close>

definition enc_address :: "u16 \<Rightarrow> u16 \<Rightarrow> u16 \<Rightarrow> bool \<Rightarrow> u16 \<Rightarrow> u16 option" where
  "enc_address bufferStart bufferEnd payloadPointer wrap offset =
     (let address = bufferStart + payloadPointer + offset
      in if address > bufferEnd
         then if \<not> wrap then None else Some ((address - bufferEnd) + bufferStart - 1)
         else Some address)"

text \<open>
  A read gives the bytes copied to the caller's \<^verbatim>\<open>data\<close>, or \<open>None\<close> for \<^verbatim>\<open>return false\<close> (nothing is
  copied then). A write gives the \<^verbatim>\<open>bool\<close> and the memory after it; its \<^verbatim>\<open>len\<close> is the length of the
  data. The sums of 16-bit values wrap, as they do on the target.
\<close>

fun b_read :: "'a store_scheme \<Rightarrow> buffer \<Rightarrow> u16 \<Rightarrow> u16 \<Rightarrow> u8 list option" where
  "b_read s (MemBuffer buf bufferLength) offset len =
     (if offset + len > bufferLength then None
      else Some (map (sram s) (addrs (\<lambda>a. a + 1) (buf + offset) (unat len))))"
| "b_read s (ENC28J60Buffer st en pp l wrap) offset len =
     (case enc_address st en pp wrap offset of
        None \<Rightarrow> None
      | Some address \<Rightarrow> driver_read s address len)"
| "b_read s (OffsetBuffer inner off bufferLength) start len =
     (if start + len > bufferLength then None else b_read s inner (off + start) len)"

fun b_write :: "buffer \<Rightarrow> u16 \<Rightarrow> u8 list \<Rightarrow> 'a store_scheme \<Rightarrow> bool \<times> 'a store_scheme" where
  "b_write (MemBuffer buf bufferLength) offset data s =
     (if offset + word_of_nat (length data) > bufferLength then (False, s)
      else (True, s\<lparr>sram := pokes (addrs (\<lambda>a. a + 1) (buf + offset) (length data)) data (sram s)\<rparr>))"
| "b_write (ENC28J60Buffer st en pp l wrap) offset data s =
     (case enc_address st en pp wrap offset of
        None \<Rightarrow> (False, s)
      | Some address \<Rightarrow> driver_write address data s)"
| "b_write (OffsetBuffer inner off bufferLength) start data s =
     (if start + word_of_nat (length data) > bufferLength then (False, s)
      else b_write inner (off + start) data s)"

section \<open>The typed accessors of class Buffer\<close>

text \<open>
  They are written once, in the base class, on top of the virtual \<open>read\<close> and \<open>write\<close> of the
  object, which are their first argument here.
\<close>

type_synonym reader_fun = "u16 \<Rightarrow> u16 \<Rightarrow> u8 list option"
type_synonym 's writer_fun = "u16 \<Rightarrow> u8 list \<Rightarrow> 's \<Rightarrow> bool \<times> 's"

definition read8 :: "reader_fun \<Rightarrow> u16 \<Rightarrow> u8 option" where
  "read8 rd offset = map_option (\<lambda>bs. bs ! 0) (rd offset 1)"

definition read16 :: "reader_fun \<Rightarrow> u16 \<Rightarrow> u16 option" where
  "read16 rd offset = map_option word16 (rd offset 2)"

definition read32 :: "reader_fun \<Rightarrow> u16 \<Rightarrow> u32 option" where
  "read32 rd offset = map_option word32 (rd offset 4)"

definition readNet16 :: "reader_fun \<Rightarrow> u16 \<Rightarrow> u16 option" where
  "readNet16 rd offset = (case read16 rd offset of None \<Rightarrow> None | Some d \<Rightarrow> Some (HTONS d))"

definition readNet32 :: "reader_fun \<Rightarrow> u16 \<Rightarrow> u32 option" where
  "readNet32 rd offset = (case read32 rd offset of None \<Rightarrow> None | Some d \<Rightarrow> Some (HTONL d))"

definition write8 :: "'s writer_fun \<Rightarrow> u16 \<Rightarrow> u8 \<Rightarrow> 's \<Rightarrow> bool \<times> 's" where
  "write8 wr offset d = wr offset [d]"

definition write16 :: "'s writer_fun \<Rightarrow> u16 \<Rightarrow> u16 \<Rightarrow> 's \<Rightarrow> bool \<times> 's" where
  "write16 wr offset d = wr offset (mem16 d)"

definition write32 :: "'s writer_fun \<Rightarrow> u16 \<Rightarrow> u32 \<Rightarrow> 's \<Rightarrow> bool \<times> 's" where
  "write32 wr offset d = wr offset (mem32 d)"

definition writeNet16 :: "'s writer_fun \<Rightarrow> u16 \<Rightarrow> u16 \<Rightarrow> 's \<Rightarrow> bool \<times> 's" where
  "writeNet16 wr offset d = write16 wr offset (HTONS d)"

text \<open>\<^verbatim>\<open>writeNet32\<close> declares its offset as a \<^verbatim>\<open>uint32_t\<close> and passes it on as a \<^verbatim>\<open>uint16_t\<close>.\<close>

definition writeNet32 :: "'s writer_fun \<Rightarrow> u32 \<Rightarrow> u32 \<Rightarrow> 's \<Rightarrow> bool \<times> 's" where
  "writeNet32 wr offset d = write32 wr (ucast offset) (HTONL d)"

section \<open>OffsetBuffer\<close>

definition reinit :: "buffer \<Rightarrow> u16 \<Rightarrow> u16 \<Rightarrow> bool \<times> buffer" where
  "reinit buf offset len =
     (let retval1 = (\<not> offset > b_size buf);
          offset' = (if offset > b_size buf then b_size buf else offset);
          dflt = b_size buf - offset'
      in if len > 0
         then if len < dflt then (retval1, OffsetBuffer buf offset' len)
              else (False, OffsetBuffer buf offset' dflt)
         else (retval1, OffsetBuffer buf offset' dflt))"

definition OffsetBuffer_new :: "buffer \<Rightarrow> u16 \<Rightarrow> u16 \<Rightarrow> buffer" where
  "OffsetBuffer_new buf offset len = snd (reinit buf offset len)"

fun getRootBuffer :: "buffer \<Rightarrow> buffer" where
  "getRootBuffer (OffsetBuffer inner off l) =
     (if getBufferType inner = 2 then getRootBuffer inner else inner)"
| "getRootBuffer b = b"

fun getRootBufferOffset :: "buffer \<Rightarrow> u16" where
  "getRootBufferOffset (OffsetBuffer inner off l) =
     (if getBufferType inner = 2 then off + getRootBufferOffset inner else off)"
| "getRootBufferOffset b = 0"

section \<open>Copying between buffers\<close>

text \<open>The loop of Buffer::copyTo; \<open>k\<close> counts the iterations that are left.\<close>

fun copy_loop :: "buffer \<Rightarrow> buffer \<Rightarrow> u16 \<Rightarrow> u16 \<Rightarrow> u16 \<Rightarrow> nat \<Rightarrow> 'a store_scheme
    \<Rightarrow> bool \<times> 'a store_scheme" where
  "copy_loop src dst dest_start src_start offset 0 s = (True, s)"
| "copy_loop src dst dest_start src_start offset (Suc k) s =
     (case read8 (b_read s src) (src_start + offset) of
        None \<Rightarrow> (False, s)
      | Some d \<Rightarrow>
          (case write8 (b_write dst) (dest_start + offset) d s of
             (ok, s') \<Rightarrow>
               if ok then copy_loop src dst dest_start src_start (offset + 1) k s'
               else (False, s')))"

definition Buffer_copyTo :: "buffer \<Rightarrow> buffer \<Rightarrow> u16 \<Rightarrow> u16 \<Rightarrow> u16 \<Rightarrow> 'a store_scheme
    \<Rightarrow> bool \<times> 'a store_scheme" where
  "Buffer_copyTo src dst dest_start src_start len s =
     (let len' = (if len = 0
                  then if b_size dst < b_size src then b_size dst else b_size src
                  else len)
      in if src_start + len' > b_size src then (False, s)
         else if dest_start + len' > b_size dst then (False, s)
         else copy_loop src dst dest_start src_start 0 (unat len') s)"

text \<open>
  ENC28J60Buffer::copyTo for two buffers of the controller. The end of the source is checked
  only when the source does not wrap.
\<close>

definition enc_copyTo :: "buffer \<Rightarrow> buffer \<Rightarrow> u16 \<Rightarrow> u16 \<Rightarrow> u16 \<Rightarrow> 'a store_scheme
    \<Rightarrow> bool \<times> 'a store_scheme" where
  "enc_copyTo src dst dest_start src_start len s =
     (case (src, dst) of
        (ENC28J60Buffer st en pp l wrap, ENC28J60Buffer dst_st dst_en dst_pp _ _) \<Rightarrow>
          let src_address0 = st + pp + src_start;
              dst_address = dst_st + dst_pp + dest_start;
              src_address = (if src_address0 > en \<and> wrap
                             then (src_address0 - en) + st - 1 else src_address0)
          in if src_address + len - 1 > en \<and> \<not> wrap then (False, s)
             else if len > l then (False, s)
             else if dst_address + len - 1 > dst_en then (False, s)
             else driver_copy src_address dst_address len s
      | _ \<Rightarrow> (False, s))"

text \<open>
  The virtual \<open>copyTo\<close>. \<open>copyFrom\<close> of every class is \<^verbatim>\<open>source->copyTo(this, ...)\<close>, so the call
  that ENC28J60Buffer::copyTo makes on an OffsetBuffer destination is a call of itself.
\<close>

partial_function (option) copyTo :: "buffer \<Rightarrow> buffer \<Rightarrow> u16 \<Rightarrow> u16 \<Rightarrow> u16 \<Rightarrow> 'a store_scheme
    \<Rightarrow> (bool \<times> 'a store_scheme) option" where
  "copyTo src dst dest_start src_start len s =
     (case src of
        MemBuffer _ _ \<Rightarrow> Some (Buffer_copyTo src dst dest_start src_start len s)
      | OffsetBuffer _ _ l \<Rightarrow>
          (let len' = (if len = 0 then b_size src else len)
           in if len' + src_start > b_size src then Some (False, s)
              else if getBufferType dst = getBufferType src
              then if len' + dest_start > b_size dst then Some (False, s)
                   else copyTo (getRootBuffer src) (getRootBuffer dst)
                          (dest_start + getRootBufferOffset dst)
                          (src_start + getRootBufferOffset src) len' s
              else copyTo (getRootBuffer src) dst dest_start
                     (src_start + getRootBufferOffset src) len' s)
      | ENC28J60Buffer _ _ _ _ _ \<Rightarrow>
          (let len' = (if len = 0 then b_size src else len)
           in if getBufferType dst = 2 then copyTo src dst dest_start src_start len' s
              else if getBufferType dst = 3
              then Some (enc_copyTo src dst dest_start src_start len' s)
              else Some (Buffer_copyTo src dst dest_start src_start len' s)))"

definition copyFrom :: "buffer \<Rightarrow> buffer \<Rightarrow> u16 \<Rightarrow> u16 \<Rightarrow> u16 \<Rightarrow> 'a store_scheme
    \<Rightarrow> (bool \<times> 'a store_scheme) option" where
  "copyFrom this source dest_start src_start len s = copyTo source this dest_start src_start len s"

end
