(* ===== verification/Buffer_Laws.thy ===== *)
theory Buffer_Laws
  imports Buffers
begin

text \<open>
  What a buffer promises. A buffer denotes a list of memory cells; its contents are the bytes in
  them (\<open>bytes\<close>). The interface \<open>reader\<close> and \<open>writer\<close> states the contract of the abstract class
  (a read inside the buffer returns a window of the contents, a write inside it replaces one),
  the accessors of class Buffer are verified against it once, and the three implementations are
  shown to provide it.
\<close>

section \<open>The interface\<close>

locale reader =
  fixes size :: "'b \<Rightarrow> u16"
    and rd :: "'s \<Rightarrow> 'b \<Rightarrow> reader_fun"
    and bytes :: "'s \<Rightarrow> 'b \<Rightarrow> u8 list"
    and ok :: "'s \<Rightarrow> 'b \<Rightarrow> bool"
  assumes length_bytes: "ok s b \<Longrightarrow> length (bytes s b) = unat (size b)"
    and rd_inside: "ok s b \<Longrightarrow> unat off < unat (size b) \<Longrightarrow> unat off + unat n \<le> unat (size b) \<Longrightarrow>
      rd s b off n = Some (window (unat off) (unat n) (bytes s b))"
begin

lemma read8_inside:
  assumes "ok s b" and "unat off < unat (size b)"
  shows "read8 (rd s b) off = Some (bytes s b ! unat off)"
  using assms by (simp add: read8_def rd_inside length_bytes nth_window)

lemma readNet16_inside:
  assumes "ok s b" and "unat off + 2 \<le> unat (size b)"
  shows "readNet16 (rd s b) off = Some (net16 (bytes s b ! unat off) (bytes s b ! (unat off + 1)))"
proof -
  let ?w = "window (unat off) 2 (bytes s b)"
  have "?w = [bytes s b ! unat off, bytes s b ! (unat off + 1)]"
    using assms by (intro window_eqI) (auto simp: length_bytes less_Suc_eq numeral_2_eq_2)
  moreover have "rd s b off 2 = Some ?w" using assms by (simp add: rd_inside)
  ultimately show ?thesis by (simp add: readNet16_def read16_def bo_simps)
qed

lemma readNet32_inside:
  assumes "ok s b" and "unat off + 4 \<le> unat (size b)"
  shows "readNet32 (rd s b) off = Some (net32 (bytes s b ! unat off) (bytes s b ! (unat off + 1))
    (bytes s b ! (unat off + 2)) (bytes s b ! (unat off + 3)))"
proof -
  let ?B = "bytes s b" and ?w = "window (unat off) 4 (bytes s b)"
  have "?w = [?B ! unat off, ?B ! (unat off + 1), ?B ! (unat off + 2), ?B ! (unat off + 3)]"
    using assms by (intro window_eqI)
      (auto simp: length_bytes less_Suc_eq eval_nat_numeral)
  moreover have "rd s b off 4 = Some ?w" using assms by (simp add: rd_inside)
  ultimately show ?thesis by (simp add: readNet32_def read32_def bo_simps)
qed

end

locale writer = reader size rd bytes ok
  for size :: "'b \<Rightarrow> u16" and rd :: "'s \<Rightarrow> 'b \<Rightarrow> reader_fun"
    and bytes :: "'s \<Rightarrow> 'b \<Rightarrow> u8 list" and ok :: "'s \<Rightarrow> 'b \<Rightarrow> bool" +
  fixes wr :: "'b \<Rightarrow> 's writer_fun"
    and wok :: "'s \<Rightarrow> 'b \<Rightarrow> bool"
  assumes wok_ok: "wok s b \<Longrightarrow> ok s b"
    and wok_wr: "wok s b \<Longrightarrow> wok (snd (wr b' off xs s)) b"
    and wr_inside: "wok s b \<Longrightarrow> unat off < unat (size b) \<Longrightarrow>
      unat off + length xs \<le> unat (size b) \<Longrightarrow>
      fst (wr b off xs s) \<and> bytes (snd (wr b off xs s)) b = put (unat off) xs (bytes s b)"
begin

text \<open>What is written is read back, and the other bytes stay.\<close>

lemma rd_wr_same:
  assumes "wok s b" and "unat off < unat (size b)" and "unat off + length xs \<le> unat (size b)"
  shows "rd (snd (wr b off xs s)) b off (word_of_nat (length xs)) = Some xs"
proof -
  have l: "length xs < 65536" using assms(3) unat16_less [of "size b"] by linarith
  have "ok (snd (wr b off xs s)) b" using assms(1) by (intro wok_ok wok_wr)
  then have "rd (snd (wr b off xs s)) b off (word_of_nat (length xs))
      = Some (window (unat off) (length xs) (put (unat off) xs (bytes s b)))"
    using assms l by (simp add: rd_inside wr_inside unat_of_nat16)
  then show ?thesis using assms by (simp add: window_put_same length_bytes wok_ok)
qed

lemma rd_wr_other:
  assumes "wok s b" and "unat off < unat (size b)" and "unat off + length xs \<le> unat (size b)"
    and "unat k < unat (size b)" and "unat k + unat n \<le> unat (size b)"
    and "unat k + unat n \<le> unat off \<or> unat off + length xs \<le> unat k"
  shows "rd (snd (wr b off xs s)) b k n = rd s b k n"
proof -
  have "ok (snd (wr b off xs s)) b" "ok s b" using assms(1) by (auto intro: wok_ok wok_wr)
  then show ?thesis using assms
    by (simp add: rd_inside wr_inside window_put_disjoint length_bytes)
qed

lemma writeNet16_inside:
  assumes "wok s b" and "unat off + 2 \<le> unat (size b)"
  shows "fst (writeNet16 (wr b) off d s)"
    and "bytes (snd (writeNet16 (wr b) off d s)) b = put (unat off) (be16 d) (bytes s b)"
  using assms wr_inside [of s b off "be16 d"]
  by (auto simp: writeNet16_def write16_def bo_simps)

lemma writeNet32_inside:
  assumes "wok s b" and "unat (off :: u16) + 4 \<le> unat (size b)"
  shows "fst (writeNet32 (wr b) (ucast off) d s)"
    and "bytes (snd (writeNet32 (wr b) (ucast off) d s)) b = put (unat off) (be32 d) (bytes s b)"
proof -
  have "ucast (ucast off :: u32) = off" by (rule bit_word_eqI) (auto simp: bit_simps)
  then show "fst (writeNet32 (wr b) (ucast off) d s)"
    and "bytes (snd (writeNet32 (wr b) (ucast off) d s)) b = put (unat off) (be32 d) (bytes s b)"
    using assms wr_inside [of s b off "be32 d"]
    by (auto simp: writeNet32_def write32_def bo_simps)
qed

lemma net16_roundtrip:
  assumes "wok s b" and "unat off + 2 \<le> unat (size b)"
  shows "readNet16 (rd (snd (writeNet16 (wr b) off d s)) b) off = Some d"
proof -
  let ?s = "snd (writeNet16 (wr b) off d s)"
  have "?s = snd (wr b off (be16 d) s)" by (simp add: writeNet16_def write16_def bo_simps)
  then have "ok ?s b" using assms(1) by (simp add: wok_ok wok_wr)
  moreover have "length (bytes s b) = unat (size b)" using assms(1) by (simp add: length_bytes wok_ok)
  ultimately show ?thesis using assms
    by (simp add: readNet16_inside writeNet16_inside nth_put) (simp add: be16_def bo_simps)
qed

lemma net32_roundtrip:
  assumes "wok s b" and "unat (off :: u16) + 4 \<le> unat (size b)"
  shows "readNet32 (rd (snd (writeNet32 (wr b) (ucast off) d s)) b) off = Some d"
proof -
  let ?s = "snd (writeNet32 (wr b) (ucast off) d s)"
  have "ucast (ucast off :: u32) = off" by (rule bit_word_eqI) (auto simp: bit_simps)
  then have "?s = snd (wr b off (be32 d) s)" by (simp add: writeNet32_def write32_def bo_simps)
  then have "ok ?s b" using assms(1) by (simp add: wok_ok wok_wr)
  moreover have "length (bytes s b) = unat (size b)" using assms(1) by (simp add: length_bytes wok_ok)
  ultimately show ?thesis using assms
    by (simp add: readNet32_inside writeNet32_inside nth_put) (simp add: be32_def bo_simps)
qed

end

section \<open>The cells of a buffer\<close>

datatype cell = Sram u16 | Ram u16

fun fetch :: "'a store_scheme \<Rightarrow> cell \<Rightarrow> u8" where
  "fetch s (Sram a) = sram s a"
| "fetch s (Ram a) = ram s a"

definition enc_cell :: "u16 \<Rightarrow> u16 \<Rightarrow> u16 \<Rightarrow> bool \<Rightarrow> nat \<Rightarrow> u16" where
  "enc_cell st en pp wrap i = the (enc_address st en pp wrap (word_of_nat i))"

fun b_cells :: "buffer \<Rightarrow> cell list" where
  "b_cells (MemBuffer buf l) = map Sram (addrs (\<lambda>a. a + 1) buf (unat l))"
| "b_cells (ENC28J60Buffer st en pp l wrap) = map (\<lambda>i. Ram (enc_cell st en pp wrap i)) [0 ..< unat l]"
| "b_cells (OffsetBuffer inner off l) = window (unat off) (unat l) (b_cells inner)"

definition b_bytes :: "'a store_scheme \<Rightarrow> buffer \<Rightarrow> u8 list" where
  "b_bytes s b = map (fetch s) (b_cells b)"

text \<open>
  A buffer is well formed when every OffsetBuffer lies inside the buffer it wraps and a buffer
  of the controller covers addresses along which the controller's pointer steps.
\<close>

fun b_fits :: "(u16 \<Rightarrow> u16) \<Rightarrow> buffer \<Rightarrow> bool" where
  "b_fits nx (MemBuffer _ _) = True"
| "b_fits nx (ENC28J60Buffer st en pp l wrap) =
     (\<forall>i \<in> {0 ..< unat l}. enc_address st en pp wrap (word_of_nat i) \<noteq> None \<and>
        (Suc i < unat l \<longrightarrow> nx (enc_cell st en pp wrap i) = enc_cell st en pp wrap (Suc i)))"
| "b_fits nx (OffsetBuffer inner off l) =
     (b_fits nx inner \<and> unat off + unat l \<le> unat (b_size inner))"

definition b_ok :: "'a store_scheme \<Rightarrow> buffer \<Rightarrow> bool" where
  "b_ok s b = b_fits (rdnext (chip s)) b"

definition b_wok :: "'a store_scheme \<Rightarrow> buffer \<Rightarrow> bool" where
  "b_wok s b = (b_ok s b \<and> b_fits (wrnext (chip s)) b \<and> distinct (b_cells b))"

lemma length_b_cells: "b_fits nx b \<Longrightarrow> length (b_cells b) = unat (b_size b)"
  by (induction b) auto

lemma sram_addrs: "addrs (\<lambda>a. a + 1) (buf :: u16) n = map (\<lambda>i. buf + word_of_nat i) [0 ..< n]"
  using addrs_chain [of n "\<lambda>a. a + 1" "\<lambda>i. buf + word_of_nat i" 0 n] by (simp add: ac_simps)

lemma sram_addrs_window:
  assumes "unat off + n \<le> unat l"
  shows "addrs (\<lambda>a. a + 1) (buf + off) n = window (unat off) n (addrs (\<lambda>a. a + 1) (buf :: u16) (unat l))"
proof -
  have "addrs (\<lambda>a. a + 1) (buf + word_of_nat (unat off)) n
      = map (\<lambda>i. buf + word_of_nat i) [unat off ..< unat off + n]"
    using assms by (intro addrs_chain) (auto simp: ac_simps)
  moreover have "window (unat off) n [0 ..< unat l] = [unat off ..< unat off + n]"
    using assms by (simp add: window_def drop_upt take_upt)
  ultimately show ?thesis by (simp add: sram_addrs flip: map_window)
qed

lemma enc_addrs_window:
  assumes fits: "b_fits nx (ENC28J60Buffer st en pp l wrap)" and "unat off < unat l"
    and "unat off + n \<le> unat l"
  shows "\<exists>a. enc_address st en pp wrap off = Some a \<and>
    map Ram (addrs nx a n) = window (unat off) n (b_cells (ENC28J60Buffer st en pp l wrap))"
proof -
  let ?A = "enc_cell st en pp wrap"
  from fits assms(2) have "enc_address st en pp wrap off \<noteq> None"
    by (auto dest!: bspec [where x = "unat off"])
  then have a: "enc_address st en pp wrap off = Some (?A (unat off))"
    by (auto simp: enc_cell_def)
  have "addrs nx (?A (unat off)) n = map ?A [unat off ..< unat off + n]"
    using fits assms(3) by (intro addrs_chain [where m = "unat l"]) auto
  moreover have "window (unat off) n [0 ..< unat l] = [unat off ..< unat off + n]"
    using assms by (simp add: window_def drop_upt take_upt)
  ultimately show ?thesis using a by (auto simp flip: map_window)
qed


text \<open>
  The two basic facts: a read inside a well-formed buffer returns the window of its contents, a
  write inside it stores exactly in the cells of that window.
\<close>

lemma b_read_cells:
  assumes "b_fits (rdnext (chip s)) b" and "unat off < unat (b_size b)"
    and "unat off + unat n \<le> unat (b_size b)"
  shows "b_read s b off n = Some (map (fetch s) (window (unat off) (unat n) (b_cells b)))"
  using assms
proof (induction b arbitrary: off)
  case (MemBuffer buf l)
  then show ?case
    by (simp add: sum_fits16 sram_addrs_window [of off "unat n" l] comp_def flip: map_window)
next
  case (ENC28J60Buffer st en pp l wrap)
  let ?b = "ENC28J60Buffer st en pp l wrap"
  obtain a where a: "enc_address st en pp wrap off = Some a"
    and w: "map Ram (addrs (rdnext (chip s)) a (unat n)) = window (unat off) (unat n) (b_cells ?b)"
    using enc_addrs_window [of "rdnext (chip s)" st en pp l wrap off "unat n"] ENC28J60Buffer by auto
  have "map (fetch s) (window (unat off) (unat n) (b_cells ?b))
      = map (ram s) (addrs (rdnext (chip s)) a (unat n))"
    unfolding w [symmetric] by (simp add: comp_def)
  then show ?case using a by (simp add: driver_read_def del: b_cells.simps)
next
  case (OffsetBuffer inner o' l)
  have "unat o' + unat off \<le> unat (b_size inner)" using OffsetBuffer.prems by simp
  then have "unat (o' + off) = unat o' + unat off" by (rule sum_fits16)
  with OffsetBuffer show ?case by (simp add: sum_fits16 window_window)
qed

lemma fetch_sram: "fetch (s\<lparr>sram := pokes as xs (sram s)\<rparr>) = pokes (map Sram as) xs (fetch s)"
proof (induction as xs "sram s" arbitrary: s rule: pokes.induct)
  case (1 a as x xs)
  have "fetch (s\<lparr>sram := (sram s)(a := x)\<rparr>) = (fetch s)(Sram a := x)"
    by (rule ext, rename_tac c, case_tac c) auto
  with "1" [of "s\<lparr>sram := (sram s)(a := x)\<rparr>"] show ?case by simp
qed (auto)

lemma fetch_ram: "fetch (s\<lparr>ram := pokes as xs (ram s)\<rparr>) = pokes (map Ram as) xs (fetch s)"
proof (induction as xs "ram s" arbitrary: s rule: pokes.induct)
  case (1 a as x xs)
  have "fetch (s\<lparr>ram := (ram s)(a := x)\<rparr>) = (fetch s)(Ram a := x)"
    by (rule ext, rename_tac c, case_tac c) auto
  with "1" [of "s\<lparr>ram := (ram s)(a := x)\<rparr>"] show ?case by simp
qed (auto)

lemma b_write_cells:
  assumes "b_fits (wrnext (chip s)) b" and "unat off < unat (b_size b)"
    and "unat off + length xs \<le> unat (b_size b)"
  shows "fst (b_write b off xs s)"
    and "fetch (snd (b_write b off xs s)) = pokes (window (unat off) (length xs) (b_cells b)) xs (fetch s)"
proof -
  have l: "unat (word_of_nat (length xs) :: u16) = length xs"
    using assms(3) unat16_less [of "b_size b"] by (intro unat_of_nat16) linarith
  have "fst (b_write b off xs s) \<and>
    fetch (snd (b_write b off xs s)) = pokes (window (unat off) (length xs) (b_cells b)) xs (fetch s)"
    using assms
  proof (induction b arbitrary: off)
    case (MemBuffer buf n)
    then show ?case
      using sum_fits16(1) [of off "word_of_nat (length xs)" n] l
      by (simp add: sram_addrs_window [of off "length xs" n] fetch_sram map_window)
  next
    case (ENC28J60Buffer st en pp n wrap)
    then obtain a where "enc_address st en pp wrap off = Some a"
      and "map Ram (addrs (wrnext (chip s)) a (length xs))
        = window (unat off) (length xs) (b_cells (ENC28J60Buffer st en pp n wrap))"
      using enc_addrs_window [of "wrnext (chip s)" st en pp n wrap off "length xs"] by auto
    then show ?case by (simp add: driver_write_def fetch_ram)
  next
    case (OffsetBuffer inner o' n)
    have "unat o' + unat off \<le> unat (b_size inner)" using OffsetBuffer.prems by simp
    then have "unat (o' + off) = unat o' + unat off" by (rule sum_fits16)
    with OffsetBuffer show ?case
      using sum_fits16(1) [of off "word_of_nat (length xs)" n] l by (simp add: window_window)
  qed
  then show "fst (b_write b off xs s)"
    and "fetch (snd (b_write b off xs s)) = pokes (window (unat off) (length xs) (b_cells b)) xs (fetch s)"
    by auto
qed

lemma chip_b_write [simp]: "chip (snd (b_write b off xs s)) = chip s"
  by (induction b off xs s rule: b_write.induct)
    (auto simp: driver_write_def split: option.splits)

section \<open>The three classes provide the interface\<close>

interpretation buf: writer b_size b_read b_bytes b_ok b_write b_wok
proof unfold_locales
  fix s :: "'a store_scheme" and b and off n :: u16
  assume "b_ok s b" and "unat off < unat (b_size b)" and "unat off + unat n \<le> unat (b_size b)"
  then show "b_read s b off n = Some (window (unat off) (unat n) (b_bytes s b))"
    unfolding b_ok_def b_bytes_def by (simp only: b_read_cells map_window)
next
  fix s :: "'a store_scheme" and b and off :: u16 and xs :: "u8 list"
  assume a: "b_wok s b" "unat off < unat (b_size b)" "unat off + length xs \<le> unat (b_size b)"
  then have "unat off + length xs \<le> length (b_cells b)"
    by (auto simp: b_wok_def dest!: length_b_cells)
  with a show "fst (b_write b off xs s) \<and>
      b_bytes (snd (b_write b off xs s)) b = put (unat off) xs (b_bytes s b)"
    unfolding b_bytes_def b_wok_def by (simp add: b_write_cells map_pokes_window)
qed (auto simp: b_wok_def b_ok_def b_bytes_def length_b_cells)

lemmas buf_inside [buf_simps] = buf.read8_inside buf.readNet16_inside buf.readNet32_inside
  buf.rd_inside buf.writeNet16_inside buf.writeNet32_inside

text \<open>A write in one buffer leaves a buffer with other cells alone.\<close>

lemma b_write_frame:
  assumes "b_wok s b" and "unat off < unat (b_size b)" and "unat off + length xs \<le> unat (b_size b)"
    and "set (b_cells b') \<inter> set (b_cells b) = {}"
  shows "b_bytes (snd (b_write b off xs s)) b' = b_bytes s b'"
proof -
  have "set (b_cells b') \<inter> set (window (unat off) (length xs) (b_cells b)) = {}"
    using assms(4) set_window by fastforce
  then show ?thesis using assms
    by (simp add: b_bytes_def b_wok_def b_write_cells map_pokes_disjoint)
qed

section \<open>OffsetBuffer\<close>

lemma b_bytes_Offset [buf_simps]:
  "b_bytes s (OffsetBuffer inner off l) = window (unat off) (unat l) (b_bytes s inner)"
  by (simp add: b_bytes_def map_window)

lemma Mem_wok: "b_wok s (MemBuffer p l)"
proof -
  have "x = y" if "x < unat l" "y < unat l" "p + word_of_nat x = p + word_of_nat y" for x y
  proof -
    have "x < 65536" "y < 65536" using that(1,2) unat16_less [of l] by linarith+
    moreover have "unat (word_of_nat x :: u16) = unat (word_of_nat y :: u16)"
      using that(3) by simp
    ultimately show ?thesis by (simp only: unat_of_nat16)
  qed
  then have "distinct (b_cells (MemBuffer p l))"
    by (auto simp: sram_addrs distinct_map inj_on_def)
  then show ?thesis by (simp add: b_wok_def b_ok_def)
qed

lemma Offset_wok:
  "b_wok s inner \<Longrightarrow> unat off + unat l \<le> unat (b_size inner) \<Longrightarrow> b_wok s (OffsetBuffer inner off l)"
  by (simp add: b_wok_def b_ok_def)

text \<open>Whatever it is given, \<open>reinit\<close> leaves a window inside the buffer it wraps.\<close>

lemma reinit_window:
  obtains off' l' where "snd (reinit buf off len) = OffsetBuffer buf off' l'"
    and "unat off' + unat l' \<le> unat (b_size buf)"
    and "unat off' = min (unat off) (unat (b_size buf))"
    and "unat l' = (if 0 < unat len \<and> unat len < unat (b_size buf) - unat off' then unat len
                    else unat (b_size buf) - unat off')"
proof -
  define o' where "o' = (if off > b_size buf then b_size buf else off)"
  have le: "o' \<le> b_size buf" by (auto simp: o'_def not_less)
  define l' where "l' = (if len > 0 \<and> len < b_size buf - o' then len else b_size buf - o')"
  have "snd (reinit buf off len) = OffsetBuffer buf o' l'"
    by (auto simp: reinit_def Let_def o'_def l'_def)
  moreover have sub: "unat (b_size buf - o') = unat (b_size buf) - unat o'"
    using le by (rule unat_sub16)
  have "unat l' = (if 0 < unat len \<and> unat len < unat (b_size buf) - unat o' then unat len
      else unat (b_size buf) - unat o')"
    by (simp add: l'_def less16 sub)
  moreover from this have "unat o' + unat l' \<le> unat (b_size buf)"
    using le by (auto simp: le16_iff)
  moreover have "unat o' = min (unat off) (unat (b_size buf))"
    by (auto simp: o'_def less16)
  ultimately show ?thesis using that by blast
qed

lemma OffsetBuffer_new_ok: "b_ok s buf \<Longrightarrow> b_ok s (OffsetBuffer_new buf off len)"
  by (rule reinit_window [of buf off len]) (simp add: OffsetBuffer_new_def b_ok_def)

lemma OffsetBuffer_new_wok: "b_wok s buf \<Longrightarrow> b_wok s (OffsetBuffer_new buf off len)"
  by (rule reinit_window [of buf off len]) (simp add: OffsetBuffer_new_def b_ok_def b_wok_def)

text \<open>The usual case: the rest of a buffer after a header.\<close>

lemma OffsetBuffer_new_rest:
  assumes "unat off \<le> unat (b_size buf)"
  shows "OffsetBuffer_new buf off 0 = OffsetBuffer buf off (b_size buf - off)"
  using assms by (auto simp: OffsetBuffer_new_def reinit_def less16)

lemma OffsetBuffer_new_part:
  assumes "unat off \<le> unat (b_size buf)" and "0 < unat len"
    and "unat off + unat len \<le> unat (b_size buf)"
  shows "OffsetBuffer_new buf off len = OffsetBuffer buf off len"
proof -
  have "unat (b_size buf - off) = unat (b_size buf) - unat off"
    using assms(1) by (simp add: unat_sub16 le16_iff)
  then have "\<not> len < b_size buf - off \<Longrightarrow> b_size buf - off = len"
    using assms(3) by (intro word_unat_eq_iff [THEN iffD2]) (simp add: less16)
  then show ?thesis using assms by (auto simp: OffsetBuffer_new_def reinit_def less16 Let_def)
qed

text \<open>Reading through nested OffsetBuffers is reading the root at the accumulated offset.\<close>

lemma root_is_not_Offset: "getBufferType b = 2 \<Longrightarrow> getBufferType (getRootBuffer b) \<noteq> 2"
  by (induction b) auto

lemma b_cells_root:
  assumes "b_fits nx b" and "getBufferType b = 2"
  shows "b_fits nx (getRootBuffer b)"
    and "unat (getRootBufferOffset b) + unat (b_size b) \<le> unat (b_size (getRootBuffer b))"
    and "b_cells b = window (unat (getRootBufferOffset b)) (unat (b_size b)) (b_cells (getRootBuffer b))"
proof -
  have "b_fits nx (getRootBuffer b) \<and>
    unat (getRootBufferOffset b) + unat (b_size b) \<le> unat (b_size (getRootBuffer b)) \<and>
    b_cells b = window (unat (getRootBufferOffset b)) (unat (b_size b)) (b_cells (getRootBuffer b))"
    using assms
  proof (induction b)
    case (OffsetBuffer inner off l)
    show ?case
    proof (cases "getBufferType inner = 2")
      case True
      let ?r = "getRootBuffer inner" and ?k = "getRootBufferOffset inner"
      have ih: "b_fits nx ?r" "unat ?k + unat (b_size inner) \<le> unat (b_size ?r)"
        "b_cells inner = window (unat ?k) (unat (b_size inner)) (b_cells ?r)"
        using OffsetBuffer True by auto
      have in_inner: "unat off + unat l \<le> unat (b_size inner)" using OffsetBuffer.prems by simp
      have k: "unat (off + ?k) = unat off + unat ?k"
        using ih(2) in_inner unat16_less [of "b_size ?r"] by (intro unat_add16) linarith
      have "window (unat off) (unat l) (b_cells inner) = window (unat ?k + unat off) (unat l) (b_cells ?r)"
        unfolding ih(3) using in_inner by (rule window_window)
      with True ih k in_inner show ?thesis by (simp add: add.commute)
    next
      case False
      with OffsetBuffer show ?thesis by simp
    qed
  qed auto
  then show "b_fits nx (getRootBuffer b)"
    and "unat (getRootBufferOffset b) + unat (b_size b) \<le> unat (b_size (getRootBuffer b))"
    and "b_cells b = window (unat (getRootBufferOffset b)) (unat (b_size b)) (b_cells (getRootBuffer b))"
    by auto
qed

text \<open>A read or write that does not fit is refused when the sum of its offset and length does not wrap.\<close>

lemma Offset_rejects:
  assumes "unat (b_size (OffsetBuffer inner off l)) < unat start + unat n"
    and "unat start + unat n < 65536"
  shows "b_read s (OffsetBuffer inner off l) start n = None"
  using assms sum_exceeds16 [of l start n] by simp

lemma Offset_rejects_write:
  assumes "unat l < unat start + length xs" and "unat start + length xs < 65536"
  shows "b_write (OffsetBuffer inner off l) start xs s = (False, s)"
proof -
  have "unat (word_of_nat (length xs) :: u16) = length xs" using assms(2) by (simp add: unat_of_nat16)
  then show ?thesis using assms sum_exceeds16 [of l start "word_of_nat (length xs)"] by simp
qed

section \<open>Copying\<close>

lemma copy_loop_bytes:
  assumes "b_ok s src" and "b_wok s dst" and "set (b_cells src) \<inter> set (b_cells dst) = {}"
    and "unat ss + unat off + k \<le> unat (b_size src)" and "unat ds + unat off + k \<le> unat (b_size dst)"
  shows "fst (copy_loop src dst ds ss off k s) \<and>
    b_bytes (snd (copy_loop src dst ds ss off k s)) dst
      = put (unat ds + unat off) (window (unat ss + unat off) k (b_bytes s src)) (b_bytes s dst)"
  using assms
proof (induction k arbitrary: off s)
  case 0
  then show ?case by (simp add: put_def window_def)
next
  case (Suc k)
  let ?x = "b_bytes s src ! (unat ss + unat off)"
  let ?s = "snd (b_write dst (ds + off) [?x] s)"
  have lt: "unat ss + unat off < unat (b_size src)" "unat ds + unat off < unat (b_size dst)"
    using Suc.prems by auto
  have o: "unat (ss + off) = unat ss + unat off" "unat (ds + off) = unat ds + unat off"
    "unat (off + 1) = unat off + 1"
    using lt by (auto intro: unat_add16_below unat_Suc16 [where c = "b_size src", simplified])
  have rd: "read8 (b_read s src) (ss + off) = Some ?x"
    using Suc.prems lt o by (simp add: buf.read8_inside)
  have w: "fst (b_write dst (ds + off) [?x] s)"
    "b_bytes ?s dst = put (unat ds + unat off) [?x] (b_bytes s dst)"
    using buf.wr_inside [of s dst "ds + off" "[?x]"] Suc.prems lt o by auto
  have src: "b_bytes ?s src = b_bytes s src"
    using Suc.prems lt o by (intro b_write_frame) auto
  have ok: "b_ok ?s src" "b_wok ?s dst"
    using Suc.prems by (simp_all add: b_ok_def b_wok_def)
  have ih: "fst (copy_loop src dst ds ss (off + 1) k ?s) \<and>
    b_bytes (snd (copy_loop src dst ds ss (off + 1) k ?s)) dst
      = put (unat ds + unat (off + 1)) (window (unat ss + unat (off + 1)) k (b_bytes ?s src)) (b_bytes ?s dst)"
    using Suc.prems o ok by (intro Suc.IH) auto
  have len: "length (b_bytes s src) = unat (b_size src)" "length (b_bytes s dst) = unat (b_size dst)"
    using Suc.prems by (simp_all add: buf.length_bytes buf.wok_ok)
  have win: "window (unat ss + unat off) (Suc k) (b_bytes s src)
      = ?x # window (unat ss + unat off + 1) k (b_bytes s src)"
    using lt len by (simp add: window_def Cons_nth_drop_Suc [symmetric])
  have "put (unat ds + unat off + 1) ys (put (unat ds + unat off) [?x] (b_bytes s dst))
      = put (unat ds + unat off) (?x # ys) (b_bytes s dst)"
    if "length ys = k" for ys
    using len that Suc.prems by (intro put_Cons) auto
  moreover have "length (window (unat ss + unat off + 1) k (b_bytes s src)) = k"
    using len Suc.prems by (intro length_window) auto
  ultimately show ?case
    using ih w rd src o win by (simp add: write8_def case_prod_beta)
qed

text \<open>Inside an OffsetBuffer, the virtual calls end in the root buffer at the accumulated offset.\<close>

lemma Offset_read_root:
  assumes "b_fits nx b" and "getBufferType b = 2" and "unat st + unat n \<le> unat (b_size b)"
  shows "b_read s b st n = b_read s (getRootBuffer b) (getRootBufferOffset b + st) n"
  using assms
proof (induction b arbitrary: st)
  case (OffsetBuffer inner off l)
  have "unat (off + st) = unat off + unat st"
    using OffsetBuffer.prems by (intro sum_fits16 [where c = "b_size inner"]) simp
  with OffsetBuffer show ?case by (auto simp: sum_fits16 ac_simps)
qed auto

lemma Offset_write_root:
  assumes "b_fits nx b" and "getBufferType b = 2" and "unat st + length xs \<le> unat (b_size b)"
  shows "b_write b st xs s = b_write (getRootBuffer b) (getRootBufferOffset b + st) xs s"
  using assms
proof (induction b arbitrary: st)
  case (OffsetBuffer inner off l)
  have "unat (off + st) = unat off + unat st"
    using OffsetBuffer.prems by (intro sum_fits16 [where c = "b_size inner"]) simp
  moreover have "unat (word_of_nat (length xs) :: u16) = length xs"
    using OffsetBuffer.prems(3) unat16_less [of l] by (intro unat_of_nat16) (simp del: unat16_less)
  ultimately show ?case
    using OffsetBuffer sum_fits16(1) [of st "word_of_nat (length xs)" l] by (auto simp: ac_simps)
qed auto

lemma copy_loop_root:
  assumes "b_fits nx src" and "b_fits nx' dst" and "getBufferType src = 2" and "getBufferType dst = 2"
    and "unat ss + unat off + k \<le> unat (b_size src)" and "unat ds + unat off + k \<le> unat (b_size dst)"
  shows "copy_loop (getRootBuffer src) (getRootBuffer dst) (ds + getRootBufferOffset dst)
      (ss + getRootBufferOffset src) off k s = copy_loop src dst ds ss off k s"
  using assms
proof (induction k arbitrary: off s)
  case 0
  then show ?case by simp
next
  case (Suc k)
  have lt: "unat ss + unat off < unat (b_size src)" "unat ds + unat off < unat (b_size dst)"
    using Suc.prems by auto
  have o: "unat (ss + off) = unat ss + unat off" "unat (ds + off) = unat ds + unat off"
    "unat (off + 1) = unat off + 1"
    using lt by (auto intro: unat_add16_below unat_Suc16 [where c = "b_size src", simplified])
  have "b_read s src (ss + off) 1
      = b_read s (getRootBuffer src) (ss + getRootBufferOffset src + off) 1"
    using Suc.prems lt o by (subst Offset_read_root [where nx = nx]) (auto simp: ac_simps)
  moreover have "b_write dst (ds + off) [x] s
      = b_write (getRootBuffer dst) (ds + getRootBufferOffset dst + off) [x] s" for x
    using Suc.prems lt o by (subst Offset_write_root [where nx = nx']) (auto simp: ac_simps)
  ultimately show ?case
    using Suc o by (auto simp: read8_def write8_def split: option.split prod.split)
qed

lemma copyTo_Offset_Mem_root:
  assumes ok: "b_ok s src" "b_wok s dst" and ty: "getBufferType src = 2" "getBufferType dst = 2"
    and root: "getBufferType (getRootBuffer src) = 1"
    and len: "0 < unat len" "unat ss + unat len \<le> unat (b_size src)"
      "unat ds + unat len \<le> unat (b_size dst)"
  shows "copyTo src dst ds ss len s = Some (copy_loop src dst ds ss 0 (unat len) s)"
proof -
  have fits: "b_fits (rdnext (chip s)) src" "b_fits (rdnext (chip s)) dst"
    using ok by (auto simp: b_ok_def b_wok_def)
  let ?rs = "getRootBuffer src" and ?os = "getRootBufferOffset src"
  let ?rd = "getRootBuffer dst" and ?od = "getRootBufferOffset dst"
  have nz: "len \<noteq> 0" using len(1) by auto
  have b: "unat ?os + unat (b_size src) \<le> unat (b_size ?rs)" "unat ?od + unat (b_size dst) \<le> unat (b_size ?rd)"
    using fits ty by (auto intro: b_cells_root)
  have sums: "unat (ss + ?os) = unat ss + unat ?os" "unat (ds + ?od) = unat ds + unat ?od"
    using b len sum_fits16(2) [of ss ?os "b_size ?rs"] sum_fits16(2) [of ds ?od "b_size ?rd"] by auto
  have chk: "\<not> len + ss > b_size src" "\<not> len + ds > b_size dst"
    "\<not> ss + ?os + len > b_size ?rs" "\<not> ds + ?od + len > b_size ?rd"
    using b len sums by (auto simp: add.commute [of len] intro!: sum_fits16)
  obtain p l where mem: "?rs = MemBuffer p l" using root by (cases ?rs) auto
  have "Buffer_copyTo ?rs ?rd (ds + ?od) (ss + ?os) len s
      = copy_loop ?rs ?rd (ds + ?od) (ss + ?os) 0 (unat len) s"
    using chk nz by (simp add: Buffer_copyTo_def Let_def)
  also have "\<dots> = copy_loop src dst ds ss 0 (unat len) s"
    using fits ty len by (intro copy_loop_root) auto
  finally have loop: "Buffer_copyTo ?rs ?rd (ds + ?od) (ss + ?os) len s
      = copy_loop src dst ds ss 0 (unat len) s" .
  obtain i o' n where src: "src = OffsetBuffer i o' n" using ty(1) by (cases src) auto
  have "copyTo src dst ds ss len s = copyTo ?rs ?rd (ds + ?od) (ss + ?os) len s"
    using chk nz ty by (subst copyTo.simps) (simp add: src)
  also have "\<dots> = Some (Buffer_copyTo ?rs ?rd (ds + ?od) (ss + ?os) len s)"
    by (subst copyTo.simps) (simp add: mem)
  finally show ?thesis by (simp add: loop)
qed

section \<open>Properties\<close>

text \<open>
  Words survive the network byte order. In any well-formed buffer (a MemBuffer, a buffer of
  the controller, or OffsetBuffers nested over one) that has room for it, \<^verbatim>\<open>writeNet16\<close> and
  \<^verbatim>\<open>writeNet32\<close> succeed, put the most significant byte first, leave every other byte alone, and
  \<^verbatim>\<open>readNet16\<close> and \<^verbatim>\<open>readNet32\<close> read the word back.
\<close>

lemma net_word_roundtrip:
  assumes "b_wok s b" and "unat (off :: u16) + 4 \<le> unat (b_size b)"
  shows "fst (writeNet16 (b_write b) off d s)
    \<and> b_bytes (snd (writeNet16 (b_write b) off d s)) b = put (unat off) (be16 d) (b_bytes s b)
    \<and> readNet16 (b_read (snd (writeNet16 (b_write b) off d s)) b) off = Some d
    \<and> fst (writeNet32 (b_write b) (ucast off) e s)
    \<and> b_bytes (snd (writeNet32 (b_write b) (ucast off) e s)) b = put (unat off) (be32 e) (b_bytes s b)
    \<and> readNet32 (b_read (snd (writeNet32 (b_write b) (ucast off) e s)) b) off = Some e"
  using assms buf.net16_roundtrip [of s b off d] buf.net32_roundtrip [of s b off e]
    buf.writeNet16_inside [of s b off d] buf.writeNet32_inside [of s b off e] by simp

definition demo_chip :: chip_if where
  "demo_chip = \<lparr>rdnext = (\<lambda>a. if a = RXSTOP_INIT then RXSTART_INIT else a + 1),
     wrnext = (\<lambda>a. a + 1), dma_busy = False, dma = (\<lambda>_ _ _ m. m)\<rparr>"

definition demo_store :: store where
  "demo_store = \<lparr>sram = (\<lambda>a. ucast a), ram = (\<lambda>_. 0), chip = demo_chip\<rparr>"

lemma net_word_roundtrip_witness:
  "readNet32 (b_read (snd (writeNet32 (b_write (OffsetBuffer (MemBuffer 0x100 64) 14 40)) 8 0xC0A80102 demo_store))
     (OffsetBuffer (MemBuffer 0x100 64) 14 40)) 8 = Some 0xC0A80102"
proof -
  have "b_wok demo_store (OffsetBuffer (MemBuffer 0x100 64) 14 40)" by (rule Offset_wok [OF Mem_wok]) simp
  moreover have "unat (8 :: u16) + 4 \<le> unat (b_size (OffsetBuffer (MemBuffer 0x100 64) 14 40))" by simp
  ultimately show ?thesis
    using net_word_roundtrip [of demo_store "OffsetBuffer (MemBuffer 0x100 64) 14 40" 8 _ "0xC0A80102"] by simp
qed

text \<open>
  An OffsetBuffer is a view. Whatever offset and length its constructor or \<^verbatim>\<open>reinit\<close> is given, the
  window it keeps lies inside the wrapped buffer, so it is well formed when that one is, and its
  contents are a window of the wrapped contents that starts at the given offset, cut at the end of
  the buffer, and has the given length where that is shorter than the rest.
\<close>

lemma reinit_view:
  assumes "b_ok s buf"
  shows "b_ok s (snd (reinit buf off len))
    \<and> b_bytes s (snd (reinit buf off len))
      = take (if 0 < unat len \<and> unat len < unat (b_size buf) - unat off then unat len
              else unat (b_size buf)) (drop (unat off) (b_bytes s buf))"
proof (rule reinit_window [of buf off len])
  fix o' l'
  assume w: "snd (reinit buf off len) = OffsetBuffer buf o' l'" "unat o' + unat l' \<le> unat (b_size buf)"
    "unat o' = min (unat off) (unat (b_size buf))"
    "unat l' = (if 0 < unat len \<and> unat len < unat (b_size buf) - unat o' then unat len
                else unat (b_size buf) - unat o')"
  have "length (b_bytes s buf) = unat (b_size buf)" using assms by (rule buf.length_bytes)
  with assms w show ?thesis by (auto simp: b_ok_def b_bytes_Offset window_def min_def)
qed

lemma reinit_view_witness:
  "b_bytes demo_store (snd (reinit (MemBuffer 0x20 8) 5 2)) = [0x25, 0x26]"
proof -
  have "b_ok demo_store (MemBuffer 0x20 8)" by (simp add: b_ok_def)
  moreover have "b_bytes demo_store (MemBuffer 0x20 8) = [0x20, 0x21, 0x22, 0x23, 0x24, 0x25, 0x26, 0x27]"
    by code_simp
  ultimately show ?thesis using reinit_view [of demo_store "MemBuffer 0x20 8" 5 2] by simp
qed

text \<open>
  C39: Accesses through nested OffsetBuffers reach the root buffer. For a well-formed OffsetBuffer, an
  access within its size is the access of the root buffer at the offset that
  \<^verbatim>\<open>getRootBufferOffset\<close> accumulates, with the same result and the same effect; and the
  window lies inside the root.
\<close>

theorem access_is_root_access:
  assumes "b_wok s b" and "getBufferType b = 2"
    and "unat st + unat n \<le> unat (b_size b)" and "length xs = unat n"
  shows "b_read s b st n = b_read s (getRootBuffer b) (getRootBufferOffset b + st) n
    \<and> b_write b st xs s = b_write (getRootBuffer b) (getRootBufferOffset b + st) xs s
    \<and> getBufferType (getRootBuffer b) \<noteq> 2
    \<and> unat (getRootBufferOffset b) + unat (b_size b) \<le> unat (b_size (getRootBuffer b))"
  using assms b_cells_root(2) [of "rdnext (chip s)" b] root_is_not_Offset
    Offset_read_root [of "rdnext (chip s)" b st n s] Offset_write_root [of "rdnext (chip s)" b st xs s]
  by (simp add: b_wok_def b_ok_def)

lemma access_is_root_access_witness:
  "b_read demo_store (OffsetBuffer (OffsetBuffer (MemBuffer 0x40 60) 14 46) 20 26) 2 3
    = b_read demo_store (MemBuffer 0x40 60) 36 3"
proof -
  let ?b = "OffsetBuffer (OffsetBuffer (MemBuffer 0x40 60) 14 46) 20 26"
  have "b_wok demo_store (OffsetBuffer (MemBuffer 0x40 60) 14 46)" by (rule Offset_wok [OF Mem_wok]) simp
  then have "b_wok demo_store ?b" by (simp add: b_wok_def b_ok_def)
  then show ?thesis using access_is_root_access [of demo_store ?b 2 3 "[0,0,0]"] by simp
qed

text \<open>
  Copying between OffsetBuffers copies. When the source is backed by a MemBuffer, both ranges lie
  inside their buffers, and the buffers share no memory, \<^verbatim>\<open>copyTo\<close> returns true, the destination holds
  the source's range at the destination's offset, and its other bytes are unchanged. (\<^verbatim>\<open>Socket::send\<close>
  saves a segment for retransmission this way, \<^verbatim>\<open>Socket::resendData\<close> restores it.)
\<close>

lemma copyTo_copies:
  assumes "b_ok s src" and "b_wok s dst" and "getBufferType src = 2" and "getBufferType dst = 2"
    and "getBufferType (getRootBuffer src) = 1"
    and "set (b_cells src) \<inter> set (b_cells dst) = {}"
    and "0 < unat len" and "unat ss + unat len \<le> unat (b_size src)"
    and "unat ds + unat len \<le> unat (b_size dst)"
  shows "\<exists>s'. copyTo src dst ds ss len s = Some (True, s')
    \<and> b_bytes s' dst = put (unat ds) (window (unat ss) (unat len) (b_bytes s src)) (b_bytes s dst)"
  using copyTo_Offset_Mem_root [OF assms(1-5,7-9)] copy_loop_bytes [OF assms(1,2,6), of ss 0 "unat len" ds]
    assms(8,9) by (simp add: prod_eq_iff)

lemma copyTo_copies_witness:
  "\<exists>s'. copyTo (OffsetBuffer (MemBuffer 0x200 30) 5 20) (OffsetBuffer (MemBuffer 0x100 64) 14 40) 3 2 4 demo_store
      = Some (True, s')
    \<and> b_bytes s' (OffsetBuffer (MemBuffer 0x100 64) 14 40)
      = put 3 (window 2 4 (b_bytes demo_store (OffsetBuffer (MemBuffer 0x200 30) 5 20)))
          (b_bytes demo_store (OffsetBuffer (MemBuffer 0x100 64) 14 40))"
proof -
  let ?src = "OffsetBuffer (MemBuffer 0x200 30) 5 20" and ?dst = "OffsetBuffer (MemBuffer 0x100 64) 14 40"
  have w: "b_wok demo_store ?src" "b_wok demo_store ?dst" by (rule Offset_wok [OF Mem_wok], simp)+
  then have "b_ok demo_store ?src" by (simp add: b_wok_def)
  moreover have "set (b_cells ?src) \<inter> set (b_cells ?dst) = {}" by code_simp
  ultimately show ?thesis using copyTo_copies [of demo_store ?src ?dst 4 2 3] w by simp
qed

text \<open>
  C38: Copying from a buffer of the controller straight into an OffsetBuffer never returns:
  ENC28J60Buffer::copyTo delegates to OffsetBuffer::copyFrom, which calls the source's \<^verbatim>\<open>copyTo\<close> with the
  same arguments.
\<close>

theorem copyTo_controller_to_offset_diverges:
  "copyTo (ENC28J60Buffer st en pp l wrap) (OffsetBuffer inner off m) ds ss len s = None"
proof -
  have "src = ENC28J60Buffer st en pp l wrap \<longrightarrow> getBufferType dst = 2 \<longrightarrow> False"
    if "copyTo src dst ds ss len s = Some r" for src dst ds ss len s r
    by (rule copyTo.raw_induct [where P = "\<lambda>src dst ds ss len s r.
        src = ENC28J60Buffer st en pp l wrap \<longrightarrow> getBufferType dst = 2 \<longrightarrow> False", OF _ that])
      (auto simp: Let_def)
  from this [of "ENC28J60Buffer st en pp l wrap" "OffsetBuffer inner off m"] show ?thesis
    by (cases "copyTo (ENC28J60Buffer st en pp l wrap) (OffsetBuffer inner off m) ds ss len s") auto
qed

text \<open>
  The bounds check of a MemBuffer compares a sum that wraps at 16 bits: a read is accepted exactly
  when the wrapped end of the request lies inside the buffer. A request whose end does not wrap is
  therefore accepted exactly when it fits; one that wraps is accepted although it lies outside.
\<close>

theorem MemBuffer_accepts:
  "(b_read s (MemBuffer p l) off n \<noteq> None) = ((unat off + unat n) mod 65536 \<le> unat l)"
  by (simp add: less16 unat_word_ariths not_less)

end
