(* ===== verification/Checksum.thy ===== *)
theory Checksum
  imports Buffer_Laws
begin

text \<open>
  Buffer::checksum: the Internet checksum of RFC 1071 over the first \<open>len\<close> bytes of a buffer, with
  the word at \<open>checksum_offset\<close> left out and the sum of a pseudo header added. The loop and the
  folding of the carries are translated, and verified against the arithmetic meaning of the
  checksum: a sum modulo 65535.
\<close>

section \<open>The code\<close>

text \<open>
  One turn of the loop adds \<open>value\<close>. \<^verbatim>\<open>value\<close> stays 0 when \<^verbatim>\<open>readNet16\<close> fails; \<^verbatim>\<open>v8\<close> is indeterminate
  when \<^verbatim>\<open>read8\<close> fails.
\<close>

definition checksum_value :: "reader_fun \<Rightarrow> u16 \<Rightarrow> nat \<Rightarrow> u16" where
  "checksum_value rd len i =
     (if i + 1 < unat len
      then case readNet16 rd (word_of_nat i) of None \<Rightarrow> 0x0000 | Some value \<Rightarrow> value
      else HTONS (ucast (the (read8 rd (word_of_nat i)))))"

text \<open>
  The loop index is an \<^verbatim>\<open>int\<close>, 16 bits wide on the target: the translation is of the defined
  executions, those with \<open>len\<close> at most 32766, where the index never leaves the range of the type.
\<close>

function checksum_loop :: "reader_fun \<Rightarrow> u16 \<Rightarrow> u16 \<Rightarrow> nat \<Rightarrow> u32 \<Rightarrow> u32" where
  "checksum_loop rd len checksum_offset i acc =
     (if i < unat len
      then checksum_loop rd len checksum_offset (i + 2)
             (if i = unat checksum_offset then acc else acc + ucast (checksum_value rd len i))
      else acc)"
  by pat_completeness auto
termination by (relation "measure (\<lambda>(rd, len, off, i, acc). unat len - i)") auto

declare checksum_loop.simps [simp del]

lemma fold_decreases:
  assumes "drop_bit 16 (acc :: u32) \<noteq> 0"
  shows "unat ((acc AND 0xFFFF) + drop_bit 16 acc) = unat acc mod 65536 + unat acc div 65536"
    and "unat ((acc AND 0xFFFF) + drop_bit 16 acc) < unat acc"
proof -
  have "unat acc div 65536 < 65536" using unat32_less [of acc] by (simp add: div_less_iff_less_mult)
  then show eq: "unat ((acc AND 0xFFFF) + drop_bit 16 acc) = unat acc mod 65536 + unat acc div 65536"
    by (subst unat_word_ariths) (simp only: unat_low16 unat_drop16, simp)
  have "unat acc div 65536 \<noteq> 0" using assms unat_drop16 [of acc] by (metis unsigned_eq_0_iff)
  then have "unat acc mod 65536 + unat acc div 65536 < unat acc mod 65536 + 65536 * (unat acc div 65536)"
    by linarith
  then show "unat ((acc AND 0xFFFF) + drop_bit 16 acc) < unat acc"
    unfolding eq by (metis mult_div_mod_eq add.commute)
qed

text \<open>\<^verbatim>\<open>while (sum >> 16) sum = (sum & 0xFFFF) + (sum >> 16);\<close>\<close>

function fold_carries :: "u32 \<Rightarrow> u32" where
  "fold_carries acc =
     (if drop_bit 16 acc \<noteq> 0 then fold_carries ((acc AND 0xFFFF) + drop_bit 16 acc) else acc)"
  by pat_completeness auto
termination
  by (relation "measure unat") (simp_all only: wf_measure in_measure fold_decreases(2) simp_thms)

declare fold_carries.simps [simp del]

definition checksum :: "u16 \<Rightarrow> reader_fun \<Rightarrow> u16 \<Rightarrow> u16 \<Rightarrow> u32 \<Rightarrow> u16" where
  "checksum bsize rd len0 checksum_offset pseudo =
     (let len = (if len0 > bsize then bsize else len0);
          acc = checksum_loop rd len checksum_offset 0 pseudo
      in ucast (NOT (fold_carries acc)))"

section \<open>What it computes\<close>

text \<open>The sum of the big-endian 16-bit words of a byte list, an odd last byte padded with 0.\<close>

fun wsum :: "u8 list \<Rightarrow> nat" where
  "wsum [] = 0"
| "wsum [a] = 256 * unat a"
| "wsum (a # b # bs) = 256 * unat a + unat b + wsum bs"

text \<open>The representative of a sum in ones' complement arithmetic: 0 only for the sum 0.\<close>

definition ones :: "nat \<Rightarrow> nat" where
  "ones n = (if n = 0 then 0 else (n - 1) mod 65535 + 1)"

lemma ones_le: "ones n \<le> 65535"
proof -
  have "(n - 1) mod 65535 < 65535" by simp
  then show ?thesis unfolding ones_def by (simp del: mod_less_divisor)
qed

lemma ones_small: "n \<le> 65535 \<Longrightarrow> ones n = n"
  by (auto simp: ones_def)

lemma ones_split:
  assumes "0 < q"
  shows "ones (65536 * q + r) = ones (q + r)"
proof -
  have "65536 * q + r - 1 = 65535 * q + (q + r - 1)" using assms by simp
  then have "(65536 * q + r - 1) mod 65535 = (q + r - 1) mod 65535" by (simp only: mod_mult_self4)
  then show ?thesis using assms by (simp add: ones_def)
qed

lemma ones_fold: "0 < n div 65536 \<Longrightarrow> ones (n mod 65536 + n div 65536) = ones n"
  by (metis add.commute mult_div_mod_eq ones_split)

lemma fold_carries_ones: "unat (fold_carries acc) = ones (unat acc)"
proof (induction acc rule: fold_carries.induct)
  case (1 acc)
  note hi = unat_drop16 [of acc]
  show ?case
  proof (cases "drop_bit 16 acc = 0")
    case True
    then have "unat acc div 65536 = 0" using hi by simp
    then have "unat acc < 65536" by (simp add: div_eq_0_iff)
    then show ?thesis using True by (subst fold_carries.simps) (simp add: ones_small)
  next
    case False
    then have "0 < unat acc div 65536" using hi by (metis gr0I unsigned_eq_0_iff)
    then show ?thesis using False 1
      by (subst fold_carries.simps) (simp add: fold_decreases(1) ones_fold)
  qed
qed

lemma wsum_drop:
  "i + 1 < length bs \<Longrightarrow> wsum (drop i bs) = 256 * unat (bs ! i) + unat (bs ! (i + 1)) + wsum (drop (i + 2) bs)"
  by (simp add: Cons_nth_drop_Suc [symmetric])

lemma wsum_drop_last: "i + 1 = length bs \<Longrightarrow> wsum (drop i bs) = 256 * unat (bs ! i)"
  by (simp add: Cons_nth_drop_Suc [symmetric])

lemma wsum_append: "even (length xs) \<Longrightarrow> wsum (xs @ ys) = wsum xs + wsum ys"
  by (induction xs rule: wsum.induct) auto

lemma unat8_le: "unat (a :: u8) \<le> 255"
  using unat8_less [of a] by linarith

lemma wsum_le: "wsum bs \<le> 65535 * ((length bs + 1) div 2)"
proof (induction bs rule: wsum.induct)
  case (2 a)
  then show ?case using unat8_le [of a] by simp
next
  case (3 a b bs)
  then show ?case using unat8_le [of a] unat8_le [of b] by simp
qed simp

text \<open>The message with the word at an even offset \<open>k\<close> (what is inside the message of it) zeroed.\<close>

definition blank :: "nat \<Rightarrow> u8 list \<Rightarrow> u8 list" where
  "blank k bs = (if even k then take k bs @ map (\<lambda>_. 0) (take 2 (drop k bs)) @ drop (k + 2) bs else bs)"

lemma length_blank [simp]: "length (blank k bs) = length bs"
  by (auto simp: blank_def min_def)

lemma nth_blank:
  assumes "j < length bs"
  shows "blank k bs ! j = (if even k \<and> (j = k \<or> j = k + 1) then 0 else bs ! j)"
proof (cases "j < k + 2")
  case True
  with assms show ?thesis by (auto simp: blank_def nth_append min_def)
next
  case False
  then obtain m where "j = k + 2 + m" using nat_le_iff_add [of "k + 2" j] by auto
  with assms show ?thesis by (simp add: blank_def nth_append)
qed

lemma blank_put:
  "even k \<Longrightarrow> k + length xs \<le> length bs \<Longrightarrow> length xs = 2 \<Longrightarrow> blank k (put k xs bs) = blank k bs"
  by (intro nth_equalityI) (auto simp: nth_blank nth_put)

lemma net16_unat: "unat (net16 a b) = 256 * unat a + unat b"
proof -
  have d: "drop_bit 8 (net16 a b) = ucast a" and t: "take_bit 8 (net16 a b) = ucast b"
    by (rule bit_word_eqI; auto simp: net16_bit bit_simps dest: bit_imp_le_length)+
  have "unat (net16 a b) div 256 = unat (drop_bit 8 (net16 a b))"
    unfolding unat_drop_bit_eq by (simp add: drop_bit_eq_div)
  moreover have "unat (net16 a b) mod 256 = unat (take_bit 8 (net16 a b))"
    unfolding unsigned_take_bit_eq by (simp add: take_bit_eq_mod)
  moreover have "unat (ucast x :: u16) = unat x" for x :: u8
    using unat8_less [of x] by (simp add: unsigned_ucast_eq take_bit_eq_mod del: unat8_less)
  ultimately show ?thesis using d t by (metis mult_div_mod_eq)
qed

lemma wsum_put16:
  assumes "even k" and "k + 2 \<le> length bs"
  shows "wsum (put k (be16 c) bs) = wsum (blank k bs) + unat c"
proof -
  have "blank k bs = take k bs @ [0, 0] @ drop (k + 2) bs"
    using assms by (simp add: blank_def min_def numeral_2_eq_2 take_Suc_conv_app_nth)
  moreover have "wsum (be16 c) = unat c"
    using net16_unat [of "ucast (drop_bit 8 c)" "ucast c"] by (simp add: be16_def bo_simps)
  ultimately show ?thesis
    using assms wsum_append [of "take k bs"] by (simp add: put_def wsum_append [of "be16 c"])
qed

lemma HTONS_byte: "unat (HTONS (ucast (a :: u8))) = 256 * unat a"
proof -
  have "HTONS (ucast a) = net16 a 0"
    by (rule bit_word_eqI) (auto simp: HTONS_bit net16_bit bit_simps dest: bit_imp_le_length)
  then show ?thesis by (simp add: net16_unat)
qed

lemma unat_ucast_not:
  assumes "unat (x :: u32) \<le> 65535"
  shows "unat (ucast (NOT x) :: u16) = 65535 - unat x"
proof -
  have "(ucast (NOT x) :: u16) = NOT (ucast x)" by (rule bit_word_eqI) (auto simp: bit_simps)
  also have "\<dots> = - 1 - ucast x" by (simp add: not_eq_complement)
  finally have "unat (ucast (NOT x) :: u16) = unat (- 1 :: u16) - unat (ucast x :: u16)"
    by (simp only:) (rule unat_sub, simp)
  also have "unat (ucast x :: u16) = unat x"
    using assms by (simp add: unsigned_ucast_eq take_bit_eq_mod)
  also have "unat (- 1 :: u16) = 65535" by (simp add: unsigned_minus_1_eq_mask mask_eq_exp_minus_1)
  finally show ?thesis .
qed

context reader
begin

lemma checksum_value_inside:
  assumes "ok s b" and "unat len \<le> unat (size b)" and "i < unat len"
  shows "unat (checksum_value (rd s b) len i) =
    256 * unat (bytes s b ! i) + (if i + 1 < unat len then unat (bytes s b ! (i + 1)) else 0)"
proof -
  have "i < 65536" using assms(3) unat16_less [of len] by linarith
  then have "unat (word_of_nat i :: u16) = i" by (rule unat_of_nat16)
  then show ?thesis using assms
    by (simp add: checksum_value_def readNet16_inside read8_inside net16_unat HTONS_byte)
qed

lemma checksum_loop_inside:
  assumes "ok s b" and "unat len \<le> unat (size b)" and "even i"
  shows "checksum_loop (rd s b) len off i acc =
    acc + word_of_nat (wsum (drop i (blank (unat off) (take (unat len) (bytes s b)))))"
  using assms(2,3)
proof (induction "rd s b" len off i acc rule: checksum_loop.induct)
  case (1 len off i acc)
  note assms = assms(1) "1.prems"(1)
  let ?B = "blank (unat off) (take (unat len) (bytes s b))"
  have len: "length (bytes s b) = unat (size b)" using assms(1) by (rule length_bytes)
  show ?case
  proof (cases "i < unat len")
    case False
    with len assms(2) show ?thesis by (subst checksum_loop.simps) simp
  next
    case True
    let ?v = "if i = unat off then 0 else checksum_value (rd s b) len i"
    have "checksum_loop (rd s b) len off i acc
        = checksum_loop (rd s b) len off (i + 2) (if i = unat off then acc else acc + ucast (checksum_value (rd s b) len i))"
      using True by (subst checksum_loop.simps) simp
    also have "\<dots> = (acc + ucast ?v) + word_of_nat (wsum (drop (i + 2) ?B))"
      using 1 True by (subst "1.hyps") auto
    also have "(ucast ?v :: u32) = word_of_nat (unat ?v)"
      by (simp add: unsigned_ucast_eq)
    finally have step: "checksum_loop (rd s b) len off i acc
        = acc + word_of_nat (unat ?v) + word_of_nat (wsum (drop (i + 2) ?B))" .
    have par: "\<not> (even (unat off) \<and> Suc i = unat off)" "i = unat off \<longrightarrow> even (unat off)"
      "\<not> (even (unat off) \<and> i = Suc (unat off))" using "1.prems"(2) by (metis even_Suc)+
    have "wsum (drop i ?B) = unat ?v + wsum (drop (i + 2) ?B)"
    proof (cases "i + 1 < unat len")
      case True
      then show ?thesis using \<open>i < unat len\<close> par assms len
        by (auto simp: wsum_drop nth_blank checksum_value_inside)
    next
      case False
      then have "i + 1 = length ?B" using True len assms(2) by simp
      then show ?thesis using \<open>i < unat len\<close> par False assms len
        by (auto simp: wsum_drop_last nth_blank checksum_value_inside)
    qed
    then show ?thesis using step by simp
  qed
qed

lemma checksum_inside:
  assumes "ok s b" and "unat len \<le> unat (size b)" and "unat pseudo < 2 ^ 30"
  shows "unat (checksum (size b) (rd s b) len off pseudo) =
    65535 - ones (unat pseudo + wsum (blank (unat off) (take (unat len) (bytes s b))))"
proof -
  let ?B = "blank (unat off) (take (unat len) (bytes s b))"
  let ?acc = "checksum_loop (rd s b) len off 0 pseudo"
  have "length ?B \<le> 65535" using unat16_less [of len] by (simp del: unat16_less)
  then have "wsum ?B \<le> 65535 * 32768" using wsum_le [of ?B] by (elim order_trans) simp
  then have "unat ?acc = unat pseudo + wsum ?B"
    using assms by (simp add: checksum_loop_inside unat_word_ariths unat_of_nat)
  then have "unat (fold_carries ?acc) = ones (unat pseudo + wsum ?B)"
    by (simp add: fold_carries_ones)
  moreover have "\<not> len > size b" using assms(2) by (simp add: less16)
  ultimately show ?thesis by (simp add: checksum_def unat_ucast_not ones_le)
qed

end

lemmas buf_checksum [buf_simps] = buf.checksum_inside

text \<open>Arithmetic of the representatives.\<close>

lemma ones_add_complement: "ones (n + (65535 - ones n)) = 65535"
proof (cases "n = 0")
  case True
  then show ?thesis by (simp add: ones_def)
next
  case False
  define q r where "q = (n - 1) div 65535" and "r = (n - 1) mod 65535"
  have "n - 1 = 65535 * q + r" unfolding q_def r_def by (simp only: mult_div_mod_eq)
  then have n: "n = 65535 * q + r + 1" using False by linarith
  have r: "r < 65535" unfolding r_def by (rule mod_less_divisor) simp
  have "ones n = r + 1" using False by (simp add: ones_def r_def)
  then have "n + (65535 - ones n) - 1 = 65534 + 65535 * q" using n r by linarith
  then have "(n + (65535 - ones n) - 1) mod 65535 = 65534" by (simp only: mod_mult_self2) simp
  then show ?thesis using False by (simp add: ones_def)
qed

lemma ones_cancel:
  assumes "ones (n + a) = ones (n + b)" and "a \<le> 65535" and "b \<le> 65535" and "a \<le> b"
  shows "a = b \<or> a = 0 \<and> b = 65535"
proof (cases "n + a = 0")
  case True
  then show ?thesis using assms by (auto simp: ones_def split: if_splits)
next
  case False
  then have "(n + a - 1) mod 65535 = (n + b - 1) mod 65535"
    using assms by (simp add: ones_def split: if_splits)
  then have "65535 dvd (n + b - 1) - (n + a - 1)"
    by (metis mod_eq_dvd_iff_nat assms(4) False diff_le_mono add_le_cancel_left)
  moreover have "(n + b - 1) - (n + a - 1) = b - a" using False assms(4) by linarith
  ultimately have "65535 dvd b - a" by simp
  then obtain k where "b - a = 65535 * k" by (elim dvdE)
  moreover have "k = 0 \<or> k = 1" using calculation assms(3) by (cases k) (auto simp: not_less)
  ultimately show ?thesis using assms by auto
qed

text \<open>The checksum of a message, as a word.\<close>

definition csum :: "nat \<Rightarrow> u8 list \<Rightarrow> u16" where
  "csum pseudo bs = word_of_nat (65535 - ones (pseudo + wsum bs))"

lemma unat_csum: "unat (csum pseudo bs) = 65535 - ones (pseudo + wsum bs)"
  unfolding csum_def by (rule unat_of_nat16) simp

lemma checksum_csum:
  assumes "b_ok s b" and "unat len \<le> unat (b_size b)" and "unat pseudo < 2 ^ 30"
  shows "checksum (b_size b) (b_read s b) len off pseudo
    = csum (unat pseudo) (blank (unat off) (take (unat len) (b_bytes s b)))"
  using buf.checksum_inside [OF assms, of off] by (simp add: word_unat_eq_iff unat_csum)

lemma csum_verifies:
  assumes "even k" and "k + 2 \<le> length m"
  shows "ones (pseudo + wsum (put k (be16 (csum pseudo (blank k m))) m)) = 65535"
  using ones_add_complement [of "pseudo + wsum (blank k m)"]
  by (simp add: wsum_put16 [OF assms] unat_csum add.assoc)

section \<open>Properties\<close>

text \<open>
  C24: The checksum is the Internet checksum. Over any well-formed buffer it is the ones' complement of the
  ones' complement sum of the pseudo header and the big-endian words of the message, with the
  checksum's own field counted as zero and an odd last byte padded with a zero. The message is no longer than the
  16-bit \<^verbatim>\<open>int\<close> of the loop can count.
\<close>

theorem checksum_is_rfc1071:
  assumes "b_ok s b" and "unat len \<le> unat (b_size b)" and "unat len \<le> 32766" and "unat pseudo < 2 ^ 30"
  shows "unat (checksum (b_size b) (b_read s b) len off pseudo) =
    65535 - ones (unat pseudo + wsum (blank (unat off) (take (unat len) (b_bytes s b))))"
  using assms(1,2,4) by (rule buf.checksum_inside)

lemma checksum_is_rfc1071_witness:
  "checksum 8 (b_read demo_store (MemBuffer 0x20 8)) 5 2 7 = 0xBBD7"
proof -
  have "b_ok demo_store (MemBuffer 0x20 8)" by (simp add: b_ok_def)
  moreover have "b_bytes demo_store (MemBuffer 0x20 8) = [0x20, 0x21, 0x22, 0x23, 0x24, 0x25, 0x26, 0x27]"
    by code_simp
  ultimately have "unat (checksum 8 (b_read demo_store (MemBuffer 0x20 8)) 5 2 7) = 65535 - ones 17448"
    using checksum_is_rfc1071 [of demo_store "MemBuffer 0x20 8" 5 7 2]
    by (simp add: blank_def)
  then show ?thesis by (simp add: ones_def word_unat_eq_iff)
qed

text \<open>
  C25: A message that carries its checksum verifies. When the checksum computed over a message is written in
  network order in its (even) field, the receiver's sum over the whole message and the pseudo
  header is 65535 in ones' complement, and recomputing the checksum over the message with the field
  filled in gives the value in the field. As above, the message has at most 32766 bytes.
\<close>

theorem checksum_verifies:
  assumes "b_wok s b" and "unat len \<le> unat (b_size b)" and "unat len \<le> 32766" and "unat pseudo < 2 ^ 30"
    and "even (unat off)" and "unat off + 2 \<le> unat len"
    and "c = checksum (b_size b) (b_read s b) len off pseudo"
    and "s' = snd (writeNet16 (b_write b) off c s)"
  shows "ones (unat pseudo + wsum (take (unat len) (b_bytes s' b))) = 65535
    \<and> checksum (b_size b) (b_read s' b) len off pseudo = c
    \<and> readNet16 (b_read s' b) off = Some c"
proof -
  let ?m = "take (unat len) (b_bytes s b)"
  have ok: "b_ok s b" "b_ok s' b"
    using assms(1,8) by (auto simp: buf.wok_ok writeNet16_def write16_def buf.wok_wr)
  have l: "length (b_bytes s b) = unat (b_size b)" using ok(1) by (rule buf.length_bytes)
  have "b_bytes s' b = put (unat off) (be16 c) (b_bytes s b)"
    using assms by (simp add: buf.writeNet16_inside)
  then have m': "take (unat len) (b_bytes s' b) = put (unat off) (be16 c) ?m"
    using window_put_inside [of 0 "unat len" "b_bytes s b" "unat off" "be16 c"] assms l
    by (simp add: window_def)
  have c: "unat c = 65535 - ones (unat pseudo + wsum (blank (unat off) ?m))"
    using assms ok by (simp add: buf.checksum_inside)
  have "wsum (put (unat off) (be16 c) ?m) = wsum (blank (unat off) ?m) + unat c"
    using assms l by (intro wsum_put16) auto
  then have "ones (unat pseudo + wsum (take (unat len) (b_bytes s' b))) = 65535"
    using ones_add_complement [of "unat pseudo + wsum (blank (unat off) ?m)"] c m' by (simp add: add.assoc)
  moreover have "blank (unat off) (put (unat off) (be16 c) ?m) = blank (unat off) ?m"
    using assms l by (intro blank_put) auto
  then have "unat (checksum (b_size b) (b_read s' b) len off pseudo) = unat c"
    using assms ok c m' by (simp add: buf.checksum_inside)
  then have "checksum (b_size b) (b_read s' b) len off pseudo = c" by (simp add: word_unat_eq_iff)
  moreover have "readNet16 (b_read s' b) off = Some c"
    using assms by (simp add: buf.net16_roundtrip)
  ultimately show ?thesis by blast
qed

lemma checksum_verifies_witness:
  "ones (7 + wsum (take 6 (b_bytes (snd (writeNet16 (b_write (MemBuffer 0x20 8)) 2
     (checksum 8 (b_read demo_store (MemBuffer 0x20 8)) 6 2 7) demo_store)) (MemBuffer 0x20 8)))) = 65535"
  using checksum_verifies [of demo_store "MemBuffer 0x20 8" 6 7 2, OF Mem_wok _ _ _ _ _ refl refl] by simp

text \<open>
  The checksum detects the change of a word. Overwriting a 16-bit word of the message, outside the
  checksum's field, with another value changes the checksum, unless it swaps the two zeros of ones'
  complement, 0x0000 and 0xFFFF.
\<close>

lemma checksum_detects_word:
  assumes "b_wok s b" and "unat len \<le> unat (b_size b)" and "unat pseudo < 2 ^ 30"
    and "even (unat off)" and "even (unat j)" and "j \<noteq> off" and "unat j + 2 \<le> unat len"
    and "readNet16 (b_read s b) j = Some v"
    and "s' = snd (writeNet16 (b_write b) j w s)"
    and "checksum (b_size b) (b_read s' b) len off pseudo = checksum (b_size b) (b_read s b) len off pseudo"
  shows "w = v \<or> v = 0 \<and> w = 0xFFFF \<or> v = 0xFFFF \<and> w = 0"
proof -
  let ?m = "take (unat len) (b_bytes s b)"
  let ?z = "blank (unat j) (blank (unat off) ?m)"
  have ok: "b_ok s b" "b_ok s' b"
    using assms(1,9) by (auto simp: buf.wok_ok writeNet16_def write16_def buf.wok_wr)
  have l: "length (b_bytes s b) = unat (b_size b)" using ok(1) by (rule buf.length_bytes)
  have v: "v = net16 (b_bytes s b ! unat j) (b_bytes s b ! (unat j + 1))"
    using assms ok by (simp add: buf.readNet16_inside)
  have ne: "unat j \<noteq> unat off" "unat off \<noteq> unat j + 1" "unat j \<noteq> unat off + 1"
    using assms(4-6) by (simp add: word_unat_eq_iff, metis even_Suc Suc_eq_plus1, metis even_Suc Suc_eq_plus1)
  have put_blank: "blank (unat off) (put (unat j) (be16 x) ?m) = put (unat j) (be16 x) (blank (unat off) ?m)" for x
    using assms l ne by (intro nth_equalityI) (auto simp: nth_blank nth_put)
  have old: "put (unat j) (be16 v) ?m = ?m"
    using assms l v put_nth2 [of "unat j" ?m] by (simp add: bo_simps)
  have "b_bytes s' b = put (unat j) (be16 w) (b_bytes s b)"
    using assms by (simp add: buf.writeNet16_inside)
  then have m': "take (unat len) (b_bytes s' b) = put (unat j) (be16 w) ?m"
    using window_put_inside [of 0 "unat len" "b_bytes s b" "unat j" "be16 w"] assms l
    by (simp add: window_def)
  have sum: "wsum (blank (unat off) (put (unat j) (be16 x) ?m)) = wsum ?z + unat x" for x
    using assms l by (subst put_blank, intro wsum_put16) auto
  have "65535 - ones (unat pseudo + wsum ?z + unat w) = 65535 - ones (unat pseudo + wsum ?z + unat v)"
    using assms(2,3,10) ok m' sum [of w] sum [of v] old
    by (simp add: word_unat_eq_iff buf.checksum_inside add.assoc)
  then have "ones (unat pseudo + wsum ?z + unat w) = ones (unat pseudo + wsum ?z + unat v)"
    using ones_le by (metis diff_diff_cancel)
  then have "unat w = unat v \<or> unat v = 0 \<and> unat w = 65535 \<or> unat v = 65535 \<and> unat w = 0"
    using ones_cancel [of "unat pseudo + wsum ?z" "unat v" "unat w"]
      ones_cancel [of "unat pseudo + wsum ?z" "unat w" "unat v"] unat16_le [of v] unat16_le [of w]
    by (cases "unat v \<le> unat w") auto
  then show ?thesis by (auto simp: word_unat_eq_iff)
qed

lemma checksum_detects_word_witness:
  "checksum 8 (b_read (snd (writeNet16 (b_write (MemBuffer 0x20 8)) 4 0x2426 demo_store)) (MemBuffer 0x20 8)) 6 2 7
    \<noteq> checksum 8 (b_read demo_store (MemBuffer 0x20 8)) 6 2 7"
proof -
  have "readNet16 (b_read demo_store (MemBuffer 0x20 8)) 4 = Some 0x2425" by code_simp
  from checksum_detects_word [of demo_store "MemBuffer 0x20 8" 6 7 2 4, OF Mem_wok _ _ _ _ _ _ this refl, of "0x2426"]
  show ?thesis by auto
qed

end
