(* ===== verification/Header_Writes.thy ===== *)
theory Header_Writes
  imports Checksum
begin

text \<open>
  Every layer fills in its header by a series of writes at fixed offsets of one buffer, and only then
  hands the packet down. This theory gives the effect of such a series: on the contents of the
  buffer, on the buffer an OffsetBuffer wraps, and on the rest of the state (none).
\<close>

section \<open>What a write leaves alone\<close>

text \<open>Two states that differ at most in the contents of the memories.\<close>

definition rest_same :: "'a store_scheme \<Rightarrow> 'a store_scheme \<Rightarrow> bool" where
  "rest_same s s' = (store.more s' = store.more s \<and> chip s' = chip s)"

lemma rest_same_refl [simp]: "rest_same s s"
  by (simp add: rest_same_def)

lemma rest_same_trans: "rest_same s s' \<Longrightarrow> rest_same s' s'' \<Longrightarrow> rest_same s s''"
  by (simp add: rest_same_def)

lemma rest_same_b_write: "rest_same s (snd (b_write b off xs s))"
proof (induction b arbitrary: off)
  case (ENC28J60Buffer st en pp l wrap)
  show ?case by (cases "enc_address st en pp wrap off") (simp_all add: rest_same_def driver_write_def)
qed (simp_all add: rest_same_def)

lemma rest_same_ok: "rest_same s s' \<Longrightarrow> b_ok s' b = b_ok s b"
  by (simp add: rest_same_def b_ok_def)

lemma rest_same_wok: "rest_same s s' \<Longrightarrow> b_wok s' b = b_wok s b"
  by (simp add: rest_same_def b_ok_def b_wok_def)

lemma b_read_length: "b_read s b off n = Some xs \<Longrightarrow> length xs = unat n"
  by (induction b arbitrary: off) (auto simp: driver_read_def split: if_splits option.splits)

text \<open>Filling a whole buffer, as a driver does with a received packet.\<close>

lemma fill_bytes:
  assumes "b_wok s b" and "length xs = unat (b_size b)" and "xs \<noteq> []"
  shows "b_bytes (snd (b_write b 0 xs s)) b = xs"
proof -
  have "0 < unat (b_size b)" using assms(2,3) by (metis length_greater_0_conv)
  then show ?thesis
    using buf.wr_inside [OF assms(1), of 0 xs] assms(2) buf.length_bytes [OF buf.wok_ok [OF assms(1)]]
    by (simp add: put_def)
qed

section \<open>A series of writes\<close>

type_synonym op = "u16 \<times> u8 list"

definition op_write :: "buffer \<Rightarrow> op \<Rightarrow> 'a store_scheme \<Rightarrow> bool \<times> 'a store_scheme" where
  "op_write b p = b_write b (fst p) (snd p)"

definition writes :: "buffer \<Rightarrow> op list \<Rightarrow> 'a store_scheme \<Rightarrow> 'a store_scheme" where
  "writes b ps s = run_all (map (op_write b) ps) s"

fun puts :: "op list \<Rightarrow> u8 list \<Rightarrow> u8 list" where
  "puts [] bs = bs"
| "puts ((off, xs) # ps) bs = puts ps (put (unat off) xs bs)"

definition ops_in :: "nat \<Rightarrow> op list \<Rightarrow> bool" where
  "ops_in n ps = list_all (\<lambda>(off, xs). xs \<noteq> [] \<and> unat off + length xs \<le> n) ps"

text \<open>The accessors of class Buffer, as writes of bytes.\<close>

lemma accessor_ops:
  "write8 (b_write b) off d = op_write b (off, [d])"
  "writeNet16 (b_write b) off w = op_write b (off, be16 w)"
  "b_write b off xs = op_write b (off, xs)"
  by (simp_all add: fun_eq_iff op_write_def write8_def writeNet16_def write16_def bo_simps)

lemma writeNet32_op:
  "writeNet32 (b_write b) off w = op_write b (ucast off, be32 w)"
  by (simp add: fun_eq_iff op_write_def writeNet32_def write32_def bo_simps)

lemma writes_simps [simp]:
  "writes b [] s = s" "writes b (p # ps) s = writes b ps (snd (op_write b p s))"
  by (simp_all add: writes_def)

lemma writes_append: "writes b (ps @ qs) s = writes b qs (writes b ps s)"
  by (induction ps arbitrary: s) auto

lemma length_puts [simp]: "ops_in (length bs) ps \<Longrightarrow> length (puts ps bs) = length bs"
  by (induction ps bs rule: puts.induct) (auto simp: ops_in_def)

lemma puts_append: "puts (ps @ qs) bs = puts qs (puts ps bs)"
  by (induction ps bs rule: puts.induct) auto

lemma rest_same_writes: "rest_same s (writes b ps s)"
  by (induction ps arbitrary: s) (auto simp: op_write_def intro: rest_same_trans [OF rest_same_b_write])

lemmas writes_keep = rest_same_writes [THEN rest_same_ok] rest_same_writes [THEN rest_same_wok]

lemma op_write_ok:
  assumes "b_wok s b" and "ops_in (unat (b_size b)) (p # ps)"
  shows "fst (op_write b p s)" and "b_bytes (snd (op_write b p s)) b = put (unat (fst p)) (snd p) (b_bytes s b)"
    and "b_wok (snd (op_write b p s)) b'' = b_wok s b''"
proof -
  have "unat (fst p) < unat (b_size b)" "unat (fst p) + length (snd p) \<le> unat (b_size b)"
    using assms(2) by (cases p; cases "snd p"; auto simp: ops_in_def)+
  then show "fst (op_write b p s)" "b_bytes (snd (op_write b p s)) b = put (unat (fst p)) (snd p) (b_bytes s b)"
    using buf.wr_inside [OF assms(1)] by (auto simp: op_write_def)
  show "b_wok (snd (op_write b p s)) b'' = b_wok s b''"
    unfolding op_write_def by (rule rest_same_wok [OF rest_same_b_write])
qed

lemma seq_writes:
  assumes "b_wok s b" and "ops_in (unat (b_size b)) ps"
  shows "seq_ok (map (op_write b) ps) s = (True, writes b ps s)"
    and "b_bytes (writes b ps s) b = puts ps (b_bytes s b)"
proof -
  have "seq_ok (map (op_write b) ps) s = (True, writes b ps s)
      \<and> b_bytes (writes b ps s) b = puts ps (b_bytes s b)"
    using assms
  proof (induction ps arbitrary: s)
    case (Cons p ps)
    have "ops_in (unat (b_size b)) ps" using Cons.prems(2) by (simp add: ops_in_def)
    then show ?case
      using Cons op_write_ok [OF Cons.prems] by (cases p) (auto simp: case_prod_beta)
  qed simp
  then show "seq_ok (map (op_write b) ps) s = (True, writes b ps s)"
    and "b_bytes (writes b ps s) b = puts ps (b_bytes s b)" by auto
qed

text \<open>The same for code that writes first and goes on with the result.\<close>

lemma run_all_writes: "run_all (map (op_write b) ps) s = writes b ps s"
  by (simp add: writes_def)

lemma writes_frame:
  assumes "b_wok s b" and "ops_in (unat (b_size b)) ps" and "set (b_cells b') \<inter> set (b_cells b) = {}"
  shows "b_bytes (writes b ps s) b' = b_bytes s b'"
  using assms
proof (induction ps arbitrary: s)
  case (Cons p ps)
  have "ops_in (unat (b_size b)) ps" using Cons.prems(2) by (simp add: ops_in_def)
  then have "b_bytes (writes b (p # ps) s) b' = b_bytes (snd (op_write b p s)) b'"
    using Cons op_write_ok(3) [OF Cons.prems(1,2)] by simp
  also have "\<dots> = b_bytes s b'"
    unfolding op_write_def using Cons.prems
    by (intro b_write_frame) (cases p; cases "snd p"; auto simp: ops_in_def)+
  finally show ?case .
qed simp

text \<open>Writes that follow each other without gaps.\<close>

fun layout :: "u16 \<Rightarrow> u8 list list \<Rightarrow> op list" where
  "layout n [] = []"
| "layout n (xs # xss) = (n, xs) # layout (n + word_of_nat (length xs)) xss"

lemma puts_layout:
  assumes "unat n + length (concat xss) \<le> length bs" and "length bs < 65536"
  shows "puts (layout n xss) bs = put (unat n) (concat xss) bs"
  using assms
proof (induction xss arbitrary: n bs)
  case Nil
  then show ?case by (simp add: put_def)
next
  case (Cons xs xss)
  have "unat (word_of_nat (length xs) :: u16) = length xs"
    using Cons.prems by (intro unat_of_nat16) simp
  then have sum: "unat (n + word_of_nat (length xs)) = unat n + length xs"
    using Cons.prems by (subst unat_add16) simp_all
  have "puts (layout (n + word_of_nat (length xs)) xss) (put (unat n) xs bs)
      = put (unat n + length xs) (concat xss) (put (unat n) xs bs)"
    unfolding sum [symmetric] using Cons.prems sum by (intro Cons.IH) simp_all
  also have "\<dots> = put (unat n) (xs @ concat xss) bs"
    using Cons.prems by (intro put_append) simp
  finally show ?case by simp
qed

lemma ops_in_layout:
  assumes "unat n + length (concat xss) \<le> m" and "m < 65536" and "[] \<notin> set xss"
  shows "ops_in m (layout n xss)"
  using assms
proof (induction xss arbitrary: n)
  case (Cons xs xss)
  have "unat (word_of_nat (length xs) :: u16) = length xs"
    using Cons.prems by (intro unat_of_nat16) simp
  then have "unat (n + word_of_nat (length xs)) = unat n + length xs"
    using Cons.prems by (subst unat_add16) simp_all
  then have "ops_in m (layout (n + word_of_nat (length xs)) xss)"
    using Cons.prems by (intro Cons.IH) auto
  with Cons.prems show ?case by (auto simp: ops_in_def)
qed (simp add: ops_in_def)

lemma put_0: "length xs \<le> length bs \<Longrightarrow> put 0 xs bs = xs @ drop (length xs) bs"
  by (simp add: put_def)

section \<open>The packet around a payload\<close>

text \<open>
  The OffsetBuffer for what follows a header of \<open>n\<close> bytes, and its contents.
\<close>

definition after :: "buffer \<Rightarrow> u16 \<Rightarrow> buffer" where
  "after b n = OffsetBuffer b n (b_size b - n)"

lemma size_after: "n \<le> b_size b \<Longrightarrow> unat (b_size (after b n)) = unat (b_size b) - unat n"
  by (simp add: after_def unat_sub16)

lemma after_wok: "b_wok s b \<Longrightarrow> n \<le> b_size b \<Longrightarrow> b_wok s (after b n)"
  unfolding after_def by (rule Offset_wok) (simp_all add: unat_sub16 le16_iff)

lemma after_ok: "b_ok s b \<Longrightarrow> n \<le> b_size b \<Longrightarrow> b_ok s (after b n)"
  by (simp add: after_def b_ok_def unat_sub16 le16_iff)

lemma OffsetBuffer_new_after: "n \<le> b_size b \<Longrightarrow> OffsetBuffer_new b n 0 = after b n"
  by (simp add: after_def OffsetBuffer_new_rest le16_iff)

lemma b_bytes_after:
  assumes "b_ok s b" and "n \<le> b_size b"
  shows "b_bytes s (after b n) = drop (unat n) (b_bytes s b)"
  using assms buf.length_bytes [OF assms(1)]
  by (simp add: after_def b_bytes_Offset window_def unat_sub16)

lemma b_cells_after: "set (b_cells (after b n)) \<subseteq> set (b_cells b)"
  by (simp add: after_def set_window)

text \<open>Writing behind the header changes only what is behind the header.\<close>

lemma op_write_after:
  assumes "n \<le> b_size b" and "ops_in (unat (b_size b) - unat n) [p]"
  shows "op_write (after b n) p = op_write b (n + fst p, snd p)"
proof -
  have "unat (fst p) + length (snd p) \<le> unat (b_size b - n)"
    using assms by (auto simp: ops_in_def unat_sub16)
  then have "\<not> b_size b - n < fst p + word_of_nat (length (snd p))"
    using unat16_le [of "b_size b - n"] by (intro sum_fits16) (simp add: unat_of_nat16)
  then show ?thesis by (simp add: fun_eq_iff op_write_def after_def)
qed

lemma writes_after:
  assumes "b_wok s b" and "n \<le> b_size b" and "ops_in (unat (b_size b) - unat n) ps"
  shows "take (unat n) (b_bytes (writes (after b n) ps s) b) = take (unat n) (b_bytes s b)"
    and "b_bytes (writes (after b n) ps s) b = take (unat n) (b_bytes s b) @ puts ps (drop (unat n) (b_bytes s b))"
proof -
  have "take (unat n) (b_bytes (writes (after b n) ps s) b) = take (unat n) (b_bytes s b)"
    using assms(1,3)
  proof (induction ps arbitrary: s)
    case (Cons p ps)
    let ?s = "snd (op_write (after b n) p s)"
    have p: "ops_in (unat (b_size b) - unat n) [p]" and ps: "ops_in (unat (b_size b) - unat n) ps"
      using Cons.prems(2) by (simp_all add: ops_in_def)
    have l: "unat n + unat (fst p) + length (snd p) \<le> unat (b_size b)" "snd p \<noteq> []"
      using p assms(2) by (auto simp: ops_in_def le16_iff)
    then have sum: "unat (n + fst p) = unat n + unat (fst p)"
      by (intro sum_fits16 [where c = "b_size b"]) simp
    have "ops_in (unat (b_size b)) [(n + fst p, snd p)]" using l sum by (simp add: ops_in_def)
    then have s': "b_bytes ?s b = put (unat n + unat (fst p)) (snd p) (b_bytes s b)" "b_wok ?s b"
      using op_write_ok [OF Cons.prems(1)] sum Cons.prems(1) by (simp_all add: op_write_after [OF assms(2) p])
    have "length (b_bytes s b) = unat (b_size b)" using Cons.prems(1) by (simp add: buf.wok_ok buf.length_bytes)
    then have "take (unat n) (b_bytes ?s b) = take (unat n) (b_bytes s b)"
      using l unfolding s' by (simp add: put_def)
    with Cons.IH [OF s'(2) ps] show ?case by simp
  qed simp
  then show t: "take (unat n) (b_bytes (writes (after b n) ps s) b) = take (unat n) (b_bytes s b)" .
  have "b_bytes (writes (after b n) ps s) (after b n) = puts ps (b_bytes s (after b n))"
    using assms by (intro seq_writes) (simp_all add: after_wok size_after)
  then have "drop (unat n) (b_bytes (writes (after b n) ps s) b) = puts ps (drop (unat n) (b_bytes s b))"
    using assms by (simp add: b_bytes_after writes_keep buf.wok_ok)
  with t show "b_bytes (writes (after b n) ps s) b = take (unat n) (b_bytes s b) @ puts ps (drop (unat n) (b_bytes s b))"
    by (metis append_take_drop_id)
qed

end
