(* ===== verification/Registry.thy ===== *)
theory Registry
  imports Prelude
begin

text \<open>
  The registries of the stack: fixed arrays that map a protocol number to a handler. The entry of
  EtherControl.h (\<^verbatim>\<open>protocolMap\<close>) and that of IPHandler.h (\<^verbatim>\<open>ipProtocolMap\<close>) are pairs of a number,
  0 when the entry is not in use, and a handler pointer. The two classes contain the same scans;
  \<open>reg_put\<close> and \<open>reg_get\<close> are these scans. The contract of a registry, which UDPHandler's listener
  table keeps too, is the locale \<open>registry\<close>.
\<close>

section \<open>The scans\<close>

text \<open>
  \<^verbatim>\<open>for(i...) if (r[i].key == 0 || r[i].key == k) { r[i].key = k; r[i].handler = h; return true; }
  return false;\<close>
\<close>

fun reg_put :: "'k::zero \<Rightarrow> 'h option \<Rightarrow> ('k \<times> 'h option) list \<Rightarrow> ('k \<times> 'h option) list option" where
  "reg_put k h [] = None"
| "reg_put k h ((k', h') # r) =
     (if k' = 0 \<or> k' = k then Some ((k, h) # r)
      else map_option ((#) (k', h')) (reg_put k h r))"

text \<open>\<^verbatim>\<open>for(i...) if (r[i].key == k) return r[i].handler; return NULL;\<close>\<close>

fun reg_get :: "('k \<times> 'h option) list \<Rightarrow> 'k \<Rightarrow> 'h option" where
  "reg_get [] k = None"
| "reg_get ((k', h') # r) k = (if k' = k then h' else reg_get r k)"

text \<open>The entries in use come first and have distinct keys; the others hold the null pointer.\<close>

fun reg_ok :: "('k::zero \<times> 'h option) list \<Rightarrow> bool" where
  "reg_ok [] = True"
| "reg_ok ((k, h) # r) =
     (if k = 0 then h = None \<and> (\<forall>e \<in> set r. e = (0, None))
      else k \<notin> fst ` set r \<and> reg_ok r)"

lemma reg_ok_empty: "\<forall>e \<in> set r. e = (0, None) \<Longrightarrow> reg_ok r"
  by (cases r) auto

lemma reg_get_free: "\<forall>e \<in> set r. e = (0, None) \<Longrightarrow> reg_get r k = None"
  by (induction r) auto

lemma reg_get_absent: "k \<notin> fst ` set r \<Longrightarrow> reg_get r k = None"
  by (induction r) auto

lemma reg_put_keys: "reg_put k h r = Some r' \<Longrightarrow> fst ` set r' \<subseteq> insert k (fst ` set r)"
proof (induction r arbitrary: r')
  case (Cons e r)
  then show ?case by (cases e) (auto 0 4 split: if_splits simp: image_iff)
qed simp

lemma reg_put_length: "reg_put k h r = Some r' \<Longrightarrow> length r' = length r"
  by (induction r arbitrary: r') (auto split: if_splits)

lemma reg_put_ok:
  assumes "reg_ok r" and "k \<noteq> 0" and "reg_put k h r = Some r'"
  shows "reg_ok r'"
  using assms
proof (induction r arbitrary: r')
  case (Cons e r)
  obtain k' h' where [simp]: "e = (k', h')" by (cases e)
  show ?case
  proof (cases "k' = 0 \<or> k' = k")
    case True
    then have r': "r' = (k, h) # r" using Cons.prems(3) by auto
    show ?thesis
    proof (cases "k' = 0")
      case True
      with Cons.prems(1) have free: "\<forall>e \<in> set r. e = (0, None)" by simp
      with Cons.prems(2) r' show ?thesis by (auto intro: reg_ok_empty)
    qed (use Cons.prems True r' in simp)
  next
    case False
    with Cons.prems(3) obtain r1 where "reg_put k h r = Some r1" "r' = (k', h') # r1" by auto
    with False Cons reg_put_keys [of k h r r1] show ?thesis by auto
  qed
qed simp

lemma reg_get_put:
  assumes "reg_ok r" and "k \<noteq> 0" and "reg_put k h r = Some r'"
  shows "reg_get r' k2 = (if k2 = k then h else reg_get r k2)"
  using assms
proof (induction r arbitrary: r')
  case (Cons e r)
  obtain k' h' where [simp]: "e = (k', h')" by (cases e)
  show ?case
  proof (cases "k' = 0 \<or> k' = k")
    case True
    with Cons.prems show ?thesis by (auto simp: reg_get_free)
  next
    case False
    with Cons.prems(3) obtain r1 where "reg_put k h r = Some r1" "r' = (k', h') # r1" by auto
    with False Cons show ?thesis by auto
  qed
qed simp

text \<open>A registration is refused only when the key is new and no entry is free.\<close>

lemma reg_put_None: "reg_put k h r = None \<longleftrightarrow> 0 \<notin> fst ` set r \<and> k \<notin> fst ` set r"
proof (induction r)
  case (Cons e r)
  then show ?case by (cases e) (auto split: if_split)
qed simp

section \<open>The contract\<close>

locale registry =
  fixes put_in :: "'k \<Rightarrow> 'h \<Rightarrow> 's \<Rightarrow> bool \<times> 's"
    and get :: "'s \<Rightarrow> 'k \<Rightarrow> 'h option"
    and ok :: "'s \<Rightarrow> bool"
    and key :: "'k \<Rightarrow> bool"
  assumes put_ok: "ok s \<Longrightarrow> key k \<Longrightarrow> ok (snd (put_in k h s))"
    and put_fails: "\<not> fst (put_in k h s) \<Longrightarrow> snd (put_in k h s) = s"
    and get_put: "ok s \<Longrightarrow> key k \<Longrightarrow> key k' \<Longrightarrow> fst (put_in k h s) \<Longrightarrow>
      get (snd (put_in k h s)) k' = (if k' = k then Some h else get s k')"
begin

lemma get_after:
  "ok s \<Longrightarrow> key k \<Longrightarrow> key k' \<Longrightarrow>
    get (snd (put_in k h s)) k' = (if k' = k \<and> fst (put_in k h s) then Some h else get s k')"
  by (cases "fst (put_in k h s)") (auto simp: get_put put_fails)

text \<open>Handlers registered one after the other, under distinct keys, are all found afterwards.\<close>

lemma get_after_all:
  assumes "ok s" and "distinct (map fst ps)" and "\<forall>p \<in> set ps. key (fst p)"
    and "fst (seq_ok (map (\<lambda>p. put_in (fst p) (snd p)) ps) s)" and "key k'"
  shows "get (snd (seq_ok (map (\<lambda>p. put_in (fst p) (snd p)) ps) s)) k'
      = (case map_of ps k' of Some h \<Rightarrow> Some h | None \<Rightarrow> get s k')"
  using assms
proof (induction ps arbitrary: s)
  case (Cons p ps)
  obtain k h where [simp]: "p = (k, h)" by (cases p)
  let ?s = "snd (put_in k h s)"
  have first: "fst (put_in k h s)" and rest: "fst (seq_ok (map (\<lambda>p. put_in (fst p) (snd p)) ps) ?s)"
    using Cons.prems(4) by (auto simp: case_prod_beta split: if_splits)
  have "get (snd (seq_ok (map (\<lambda>p. put_in (fst p) (snd p)) ps) ?s)) k'
      = (case map_of ps k' of Some h \<Rightarrow> Some h | None \<Rightarrow> get ?s k')"
    using Cons.prems rest by (intro Cons.IH put_ok) auto
  moreover have "map_of ps k = None" using Cons.prems(2) by (auto simp: map_of_eq_None_iff)
  moreover have "get ?s k' = (if k' = k then Some h else get s k')"
    using Cons.prems first by (intro get_put) auto
  ultimately show ?case using first by (auto simp: case_prod_beta split: option.splits)
qed simp

end

end
