(* ===== verification/EtherControl.thy ===== *)
theory EtherControl
  imports Header_Writes Registry
begin

text \<open>
  EtherControl.h/.cpp over the interface of EthernetDriver.h: the registry of protocol handlers, the
  registry of timers, sending a frame and dispatching a received one. The virtual methods a handler
  implements (\<^verbatim>\<open>handlePayload\<close>, \<^verbatim>\<open>handleTimer\<close>) are arguments of the operations that call them. \<open>None\<close>
  as the outcome of an operation is an access outside an array.
\<close>

section \<open>State\<close>

datatype payload_handler = ARPPayload | IPPayload
datatype timer_handler = ARPTimer | DNSTimer | TCPTimer

record timer =
  delayTime :: u32
  startTime :: u32
  t_handler :: "timer_handler option"

text \<open>
  The state of the driver's side (address, the two buffers, the frames given to the network so far)
  and of the EtherControl object. \<open>now\<close> is what \<^verbatim>\<open>host_millis()\<close> returns; it does not advance while
  one operation runs.
\<close>

record net = store +
  now :: u32
  macAddr :: "u8 list"
  drv_send :: buffer
  drv_recv :: buffer
  wire :: "u8 list list"
  sendPayloadBuffer :: buffer
  protocolRegistry :: "(u16 \<times> payload_handler option) list"
  timerRegistry :: "timer list"
  timers :: int

definition broadcastMAC :: "u8 list" where
  "broadcastMAC = [0xFF, 0xFF, 0xFF, 0xFF, 0xFF, 0xFF]"

definition MAC_SIZE :: u16 where "MAC_SIZE = 6"
definition HEADER_LENGTH :: u16 where "HEADER_LENGTH = 14"

text \<open>The constructor; the two flags tell whether the allocations succeed.\<close>

definition EtherControl_new :: "bool \<Rightarrow> bool \<Rightarrow> nat \<Rightarrow> nat \<Rightarrow> 'a net_scheme \<Rightarrow> 'a net_scheme" where
  "EtherControl_new timers_allocated protocols_allocated protocolCapacity timerCapacity s =
     s\<lparr>sendPayloadBuffer := OffsetBuffer_new (drv_send s) HEADER_LENGTH 0,
       timerRegistry := replicate (if timers_allocated then timerCapacity else 0)
         \<lparr>delayTime = 0, startTime = 0, t_handler = None\<rparr>,
       timers := 0,
       protocolRegistry := replicate (if protocols_allocated then protocolCapacity else 0) (0, None)\<rparr>"

text \<open>\<^verbatim>\<open>macsEquate\<close>: the loop over the six bytes.\<close>

definition macsEquate :: "u8 list \<Rightarrow> u8 list \<Rightarrow> bool" where
  "macsEquate a b = list_all (\<lambda>i. a ! i = b ! i) [0 ..< 6]"

section \<open>Protocols\<close>

definition registerProtocol :: "u16 \<Rightarrow> payload_handler option \<Rightarrow> 'a net_scheme \<Rightarrow> bool \<times> 'a net_scheme" where
  "registerProtocol etherType handler s =
     (case reg_put etherType handler (protocolRegistry s) of
        None \<Rightarrow> (False, s)
      | Some r \<Rightarrow> (True, s\<lparr>protocolRegistry := r\<rparr>))"

definition getProtocolHandler :: "'a net_scheme \<Rightarrow> u16 \<Rightarrow> payload_handler option" where
  "getProtocolHandler s etherType = reg_get (protocolRegistry s) etherType"

section \<open>Timers\<close>

text \<open>The first free entry of the registry.\<close>

fun free_timer :: "timer list \<Rightarrow> nat option" where
  "free_timer [] = None"
| "free_timer (t # ts) = (if t_handler t = None then Some 0 else map_option Suc (free_timer ts))"

definition registerTimer :: "timer_handler \<Rightarrow> u16 \<Rightarrow> 'a net_scheme \<Rightarrow> u8 \<times> 'a net_scheme" where
  "registerTimer handler millisDelay s =
     (case free_timer (timerRegistry s) of
        None \<Rightarrow> (0, s)
      | Some i \<Rightarrow>
          (word_of_nat (i + 1),
           s\<lparr>timerRegistry := (timerRegistry s)
               [i := \<lparr>delayTime = ucast millisDelay, startTime = now s, t_handler = Some handler\<rparr>],
             timers := timers s + 1\<rparr>))"

text \<open>\<^verbatim>\<open>timerRegistry[index-1]\<close> lies outside the array for index 0 and above the capacity.\<close>

definition unregisterTimer :: "u8 \<Rightarrow> 'a net_scheme \<Rightarrow> 'a net_scheme option" where
  "unregisterTimer index s =
     (if unat index = 0 \<or> length (timerRegistry s) < unat index then None
      else let i = unat index - 1
           in if t_handler (timerRegistry s ! i) \<noteq> None
              then Some (s\<lparr>timers := timers s - 1,
                  timerRegistry := (timerRegistry s)
                    [i := \<lparr>delayTime = 0, startTime = 0, t_handler = None\<rparr>]\<rparr>)
              else Some s)"

type_synonym 's on_timer = "timer_handler \<Rightarrow> u8 \<Rightarrow> 's \<Rightarrow> 's option"

text \<open>The loop of \<^verbatim>\<open>processTimers\<close> from entry \<open>i\<close> on; \<open>k\<close> entries are left.\<close>

fun timer_loop :: "'a net_scheme on_timer \<Rightarrow> nat \<Rightarrow> nat \<Rightarrow> int \<Rightarrow> 'a net_scheme
    \<Rightarrow> 'a net_scheme option" where
  "timer_loop handleTimer 0 i processed s = Some s"
| "timer_loop handleTimer (Suc k) i processed s =
     (if processed < timers s
      then let t = timerRegistry s ! i
           in case t_handler t of
                None \<Rightarrow> timer_loop handleTimer k (i + 1) processed s
              | Some h \<Rightarrow>
                  if now s - startTime t > delayTime t
                  then do {
                    s \<leftarrow> handleTimer h (word_of_nat (i + 1))
                           (s\<lparr>timerRegistry := (timerRegistry s)[i := t\<lparr>startTime := now s\<rparr>]\<rparr>);
                    timer_loop handleTimer k (i + 1) (processed + 1) s
                  }
                  else timer_loop handleTimer k (i + 1) processed s
      else Some s)"

definition processTimers :: "'a net_scheme on_timer \<Rightarrow> 'a net_scheme \<Rightarrow> 'a net_scheme option" where
  "processTimers handleTimer s = timer_loop handleTimer (length (timerRegistry s)) 0 0 s"

section \<open>Sending and receiving\<close>

text \<open>
  \<^verbatim>\<open>driver->sendFrame(len)\<close> is virtual: an implementation transmits the first \<^verbatim>\<open>len\<close> bytes of its send
  buffer.
\<close>

definition driver_sendFrame :: "u16 \<Rightarrow> 'a net_scheme \<Rightarrow> 'a net_scheme" where
  "driver_sendFrame len s = s\<lparr>wire := wire s @ [take (unat len) (b_bytes s (drv_send s))]\<rparr>"

definition sendFrame :: "u8 list \<Rightarrow> u16 \<Rightarrow> u16 \<Rightarrow> 'a net_scheme \<Rightarrow> bool \<times> 'a net_scheme" where
  "sendFrame destinationMAC protocol payloadLength s =
     (let sendBuffer = drv_send s
      in if payloadLength > b_size sendBuffer - HEADER_LENGTH then (False, s)
         else case seq_ok
                [b_write sendBuffer 0 destinationMAC,
                 b_write sendBuffer MAC_SIZE (macAddr s),
                 writeNet16 (b_write sendBuffer) (MAC_SIZE + MAC_SIZE) protocol] s of
                (e, s) \<Rightarrow>
                  if \<not> e then (False, s)
                  else let frame_len = HEADER_LENGTH + payloadLength
                       in (True, driver_sendFrame frame_len s))"

definition sendFrame_payload :: "u8 list \<Rightarrow> u16 \<Rightarrow> u8 list \<Rightarrow> 'a net_scheme \<Rightarrow> bool \<times> 'a net_scheme" where
  "sendFrame_payload destinationMAC protocol payload s =
     (case b_write (drv_send s) HEADER_LENGTH payload s of
        (e, s) \<Rightarrow>
          if \<not> e then (False, s)
          else sendFrame destinationMAC protocol (word_of_nat (length payload)) s)"

type_synonym 's on_payload = "payload_handler \<Rightarrow> buffer \<Rightarrow> 's \<Rightarrow> 's option"

text \<open>
  \<open>receiveFrame\<close> is the virtual method of the driver: the length of the frame now in the receive
  buffer, 0 when there is none.
\<close>

definition processFrame :: "('a net_scheme \<Rightarrow> u16 \<times> 'a net_scheme) \<Rightarrow> 'a net_scheme on_payload
    \<Rightarrow> 'a net_scheme on_timer \<Rightarrow> 'a net_scheme \<Rightarrow> (bool \<times> 'a net_scheme) option" where
  "processFrame receiveFrame handlePayload handleTimer s =
     (case receiveFrame s of
        (len, s) \<Rightarrow>
          (let timers_then = (\<lambda>s. do { s \<leftarrow> processTimers handleTimer s; Some (True, s) })
           in if len > 0
              then case readNet16 (b_read s (drv_recv s)) (MAC_SIZE * 2) of
                     None \<Rightarrow> Some (False, s)
                   | Some etherType \<Rightarrow>
                       (case getProtocolHandler s etherType of
                          None \<Rightarrow> timers_then s
                        | Some handler \<Rightarrow> do {
                            s \<leftarrow> handlePayload handler
                                   (OffsetBuffer_new (drv_recv s) HEADER_LENGTH (len - HEADER_LENGTH)) s;
                            timers_then s
                          })
              else timers_then s))"

definition getMaxReceivePayload :: "'a net_scheme \<Rightarrow> u16" where
  "getMaxReceivePayload s = b_size (drv_recv s) - HEADER_LENGTH"

section \<open>Protocols: laws\<close>

lemma registerProtocol_simps:
  "fst (registerProtocol k h s) = (reg_put k h (protocolRegistry s) \<noteq> None)"
  "snd (registerProtocol k h s) =
    (case reg_put k h (protocolRegistry s) of None \<Rightarrow> s | Some r \<Rightarrow> s\<lparr>protocolRegistry := r\<rparr>)"
  by (auto simp: registerProtocol_def split: option.split)

interpretation protocols: registry "\<lambda>k h. registerProtocol k (Some h)" getProtocolHandler
  "\<lambda>s. reg_ok (protocolRegistry s)" "\<lambda>k. k \<noteq> 0"
  by unfold_locales
    (auto simp: registerProtocol_simps getProtocolHandler_def reg_get_put split: option.split
      intro: reg_put_ok)

section \<open>Well-formed states\<close>

lemma net_rest_same:
  assumes "rest_same s s'"
  shows "now s' = now s" "macAddr s' = macAddr s" "drv_send s' = drv_send s" "drv_recv s' = drv_recv s"
    "wire s' = wire s" "sendPayloadBuffer s' = sendPayloadBuffer s"
    "protocolRegistry s' = protocolRegistry s" "timerRegistry s' = timerRegistry s"
    "timers s' = timers s" "net.more s' = net.more s"
  using assms by (cases s; cases s'; simp add: rest_same_def)+

lemmas net_writes [simp] = net_rest_same [OF rest_same_writes]

definition eth_ok :: "'a net_scheme \<Rightarrow> bool" where
  "eth_ok s = (b_wok s (drv_send s) \<and> HEADER_LENGTH \<le> b_size (drv_send s) \<and> length (macAddr s) = 6
     \<and> sendPayloadBuffer s = after (drv_send s) HEADER_LENGTH)"

lemma eth_ok_writes [simp]: "eth_ok (writes b ps s) = eth_ok s"
  by (simp add: eth_ok_def writes_keep)

lemma eth_ok_payload: "eth_ok s \<Longrightarrow> b_wok s (sendPayloadBuffer s)"
  by (simp add: eth_ok_def after_wok)

lemma eth_payload_size:
  "eth_ok s \<Longrightarrow> unat (b_size (sendPayloadBuffer s)) = unat (b_size (drv_send s)) - 14"
  by (simp add: eth_ok_def size_after HEADER_LENGTH_def)

lemma eth_payload_length:
  "eth_ok s \<Longrightarrow> length (b_bytes s (sendPayloadBuffer s)) = unat (b_size (sendPayloadBuffer s))"
  by (intro buf.length_bytes buf.wok_ok eth_ok_payload)

lemma b_bytes_more [simp]:
  "b_bytes (s\<lparr>wire := w\<rparr>) b = b_bytes s b" "b_ok (s\<lparr>wire := w\<rparr>) b = b_ok s b" "b_wok (s\<lparr>wire := w\<rparr>) b = b_wok s b"
proof -
  have "fetch (s\<lparr>wire := w\<rparr>) c = fetch s c" for c by (cases c) auto
  then show "b_bytes (s\<lparr>wire := w\<rparr>) b = b_bytes s b" by (simp add: b_bytes_def)
qed (simp_all add: b_ok_def b_wok_def)

section \<open>Sending\<close>

definition eth_header :: "u8 list \<Rightarrow> u8 list \<Rightarrow> u16 \<Rightarrow> u8 list" where
  "eth_header dst src protocol = dst @ src @ be16 protocol"

definition eth_ops :: "u8 list \<Rightarrow> u8 list \<Rightarrow> u16 \<Rightarrow> op list" where
  "eth_ops dst src protocol = [(0, dst), (6, src), (12, be16 protocol)]"

lemma puts_header:
  "length dst = 6 \<Longrightarrow> length src = 6 \<Longrightarrow> 14 \<le> length bs \<Longrightarrow>
    puts (eth_ops dst src protocol) bs = eth_header dst src protocol @ drop 14 bs"
  using put_append [of 0 dst src bs] put_append [of 0 "dst @ src" "be16 protocol" bs]
  by (simp add: eth_ops_def eth_header_def) (simp add: put_def)

lemma sendFrame_ok:
  fixes protocol :: u16
  assumes "eth_ok s" and "length dst = 6" and "n \<le> b_size (sendPayloadBuffer s)"
  defines "s1 \<equiv> writes (drv_send s) (eth_ops dst (macAddr s) protocol) s"
  shows "sendFrame dst protocol n s = (True, s1\<lparr>wire := wire s @
      [eth_header dst (macAddr s) protocol @ take (unat n) (b_bytes s (sendPayloadBuffer s))]\<rparr>)"
    and "b_bytes s1 (sendPayloadBuffer s) = b_bytes s (sendPayloadBuffer s)"
proof -
  let ?d = "drv_send s" and ?h = "eth_header dst (macAddr s) protocol"
  have w: "b_wok s ?d" "b_ok s ?d" "14 \<le> unat (b_size ?d)" "length (macAddr s) = 6"
    and p: "sendPayloadBuffer s = after ?d 14" and le: "14 \<le> b_size ?d"
    using assms(1) by (auto simp: eth_ok_def HEADER_LENGTH_def le16_iff buf.wok_ok)
  have len: "length (b_bytes s ?d) = unat (b_size ?d)" using w by (simp add: buf.length_bytes)
  have ops: "ops_in (unat (b_size ?d)) (eth_ops dst (macAddr s) protocol)"
    using assms(2) w(3,4) by (auto simp: ops_in_def eth_ops_def be16_def)
  have b: "b_bytes s1 ?d = ?h @ drop 14 (b_bytes s ?d)"
    using w assms(2) len unfolding s1_def by (simp add: seq_writes [OF _ ops] puts_header)
  have h: "length ?h = 14" using assms(2) w(4) by (simp add: eth_header_def)
  have pb: "b_bytes s (sendPayloadBuffer s) = drop 14 (b_bytes s ?d)"
    unfolding p using w(2) le by (simp add: b_bytes_after)
  have "b_ok s1 ?d" using w(2) by (simp add: s1_def writes_keep)
  then show "b_bytes s1 (sendPayloadBuffer s) = b_bytes s (sendPayloadBuffer s)"
    unfolding p using w(2) le h b by (simp add: b_bytes_after)
  have n: "unat n + 14 \<le> unat (b_size ?d)"
    using assms(3) le w(3) unfolding p by (simp add: size_after le16_iff)
  then have "unat (HEADER_LENGTH + n) = 14 + unat n"
    using unat_add16 [of 14 n] unat16_le [of "b_size ?d"] by (simp add: HEADER_LENGTH_def)
  moreover have "\<not> b_size ?d - HEADER_LENGTH < n"
    using assms(3) unfolding p by (simp add: after_def HEADER_LENGTH_def)
  moreover have "seq_ok [b_write ?d 0 dst, b_write ?d MAC_SIZE (macAddr s),
      writeNet16 (b_write ?d) (MAC_SIZE + MAC_SIZE) protocol] s = (True, s1)"
    using seq_writes(1) [OF w(1) ops] by (simp only: accessor_ops MAC_SIZE_def s1_def eth_ops_def list.map) simp
  ultimately show "sendFrame dst protocol n s = (True, s1\<lparr>wire := wire s @
      [?h @ take (unat n) (b_bytes s (sendPayloadBuffer s))]\<rparr>)"
    using h unfolding pb by (simp add: sendFrame_def driver_sendFrame_def Let_def s1_def b [unfolded s1_def])
qed

lemma sendFrame_too_big:
  "b_size (drv_send s) - HEADER_LENGTH < n \<Longrightarrow> sendFrame dst protocol n s = (False, s)"
  by (simp add: sendFrame_def)

text \<open>Every operation that sends keeps the well-formedness and touches nothing but memory and the wire.\<close>

lemma net_wire_update [simp]: "eth_ok (s\<lparr>wire := w\<rparr>) = eth_ok s"
  by (simp add: eth_ok_def)

text \<open>The state after transmitting some frames: only the memories and the wire have changed.\<close>

definition transmits :: "u8 list list \<Rightarrow> 'a net_scheme \<Rightarrow> 'a net_scheme \<Rightarrow> bool" where
  "transmits fs s s' = (\<exists>s0. rest_same s s0 \<and> s' = s0\<lparr>wire := wire s @ fs\<rparr>)"

lemma transmits_fields:
  assumes "transmits fs s s'"
  shows "wire s' = wire s @ fs" "now s' = now s" "macAddr s' = macAddr s" "drv_send s' = drv_send s"
    "drv_recv s' = drv_recv s" "sendPayloadBuffer s' = sendPayloadBuffer s"
    "protocolRegistry s' = protocolRegistry s" "timerRegistry s' = timerRegistry s"
    "timers s' = timers s" "net.more s' = net.more s" "chip s' = chip s"
  using assms by (auto simp: transmits_def net_rest_same) (simp add: rest_same_def)

lemma transmits_ok:
  assumes "transmits fs s s'"
  shows "b_ok s' b = b_ok s b" "b_wok s' b = b_wok s b" "eth_ok s' = eth_ok s"
  using assms by (simp_all add: b_ok_def b_wok_def eth_ok_def transmits_fields)

lemma transmits_rest_same: "rest_same s s1 \<Longrightarrow> transmits fs s1 s2 \<Longrightarrow> transmits fs s s2"
  unfolding transmits_def by (metis net_rest_same(5) rest_same_trans)

lemma transmits_writes: "transmits fs (writes b ps s) s' \<Longrightarrow> transmits fs s s'"
  by (rule transmits_rest_same [OF rest_same_writes])

lemma transmits_none [simp]: "transmits [] s s"
  unfolding transmits_def by (rule exI [of _ s]) simp

lemma rest_same_transmits: "rest_same s s' \<Longrightarrow> transmits [] s s'"
  unfolding transmits_def by (intro exI [of _ s']) (simp add: net_rest_same)

lemma transmits_trans:
  assumes "transmits fs s s1" and "transmits gs s1 s2"
  shows "transmits (fs @ gs) s s2"
proof -
  obtain s0 s3 where "rest_same s s0" "s1 = s0\<lparr>wire := wire s @ fs\<rparr>"
    "rest_same s1 s3" "s2 = s3\<lparr>wire := wire s1 @ gs\<rparr>"
    using assms by (auto simp: transmits_def)
  then have "rest_same s (s3\<lparr>wire := wire s\<rparr>)" "s2 = (s3\<lparr>wire := wire s\<rparr>)\<lparr>wire := wire s @ (fs @ gs)\<rparr>"
    by (cases s; cases s0; cases s3; simp add: rest_same_def)+
  then show ?thesis unfolding transmits_def by blast
qed

lemma sendFrame_frame:
  assumes "eth_ok s" and "length dst = 6" and "n \<le> b_size (sendPayloadBuffer s)"
  shows "\<exists>s'. sendFrame dst protocol n s = (True, s')
    \<and> transmits [eth_header dst (macAddr s) protocol @ take (unat n) (b_bytes s (sendPayloadBuffer s))] s s'
    \<and> b_bytes s' (sendPayloadBuffer s) = b_bytes s (sendPayloadBuffer s)"
  using sendFrame_ok [OF assms, of protocol]
  by (auto simp: transmits_def intro!: exI [of _ "writes b ps s" for b ps] rest_same_writes)

section \<open>Timers: laws\<close>

definition active :: "timer list \<Rightarrow> nat" where
  "active ts = length (filter (\<lambda>t. t_handler t \<noteq> None) ts)"

text \<open>The counter is the number of registered timers; the capacity is a \<^verbatim>\<open>uint8_t\<close>.\<close>

definition timers_ok :: "'a net_scheme \<Rightarrow> bool" where
  "timers_ok s = (timers s = int (active (timerRegistry s)) \<and> length (timerRegistry s) \<le> 255)"

lemma active_simps [simp]:
  "active [] = 0" "active (t # ts) = (if t_handler t = None then 0 else 1) + active ts"
  by (simp_all add: active_def)

lemma active_update:
  "i < length ts \<Longrightarrow> int (active (ts[i := t])) =
    int (active ts) - (if t_handler (ts ! i) = None then 0 else 1) + (if t_handler t = None then 0 else 1)"
proof (induction ts arbitrary: i)
  case (Cons u us)
  then show ?case by (cases i) auto
qed simp

lemma free_timer_Some:
  "free_timer ts = Some i \<Longrightarrow> i < length ts \<and> t_handler (ts ! i) = None \<and> (\<forall>j < i. t_handler (ts ! j) \<noteq> None)"
  by (induction ts arbitrary: i) (auto split: if_splits simp: nth_Cons' less_Suc_eq_0_disj)

lemma free_timer_None: "free_timer ts = None \<longleftrightarrow> (\<forall>t \<in> set ts. t_handler t \<noteq> None)"
  by (induction ts) auto

lemma unat_slot: "n < 256 \<Longrightarrow> unat (word_of_nat n :: u8) = n"
  by (simp add: unat_of_nat)

lemma registerTimer_cases:
  assumes "timers_ok s"
  obtains (full) "registerTimer h d s = (0, s)" "\<forall>t \<in> set (timerRegistry s). t_handler t \<noteq> None"
  | (slot) i where "i < length (timerRegistry s)" "t_handler (timerRegistry s ! i) = None"
      "unat (fst (registerTimer h d s)) = i + 1"
      "snd (registerTimer h d s) = s\<lparr>timerRegistry := (timerRegistry s)
         [i := \<lparr>delayTime = ucast d, startTime = now s, t_handler = Some h\<rparr>], timers := timers s + 1\<rparr>"
proof (cases "free_timer (timerRegistry s)")
  case None
  then show ?thesis using free_timer_None [of "timerRegistry s"] by (intro full) (simp_all add: registerTimer_def)
next
  case (Some i)
  from free_timer_Some [OF Some] assms show ?thesis
    by (intro slot [of i]) (simp_all add: registerTimer_def Some timers_ok_def unat_slot del: of_nat_Suc)
qed

lemma registerTimer_ok:
  assumes "timers_ok s"
  shows "timers_ok (snd (registerTimer h d s))"
  using assms
  by (cases rule: registerTimer_cases [OF assms, of h d]) (auto simp: timers_ok_def active_update)

lemma unregisterTimer_ok:
  "timers_ok s \<Longrightarrow> unregisterTimer i s = Some s' \<Longrightarrow> timers_ok s'"
  by (auto simp: unregisterTimer_def timers_ok_def active_update Let_def split: if_splits)

lemma unregisterTimer_defined:
  "unat i \<noteq> 0 \<Longrightarrow> unat i \<le> length (timerRegistry s) \<Longrightarrow> \<exists>s'. unregisterTimer i s = Some s'"
  by (cases "t_handler (timerRegistry s ! (unat i - 1))") (simp_all add: unregisterTimer_def)

section \<open>processTimers\<close>

definition due :: "'a net_scheme \<Rightarrow> nat \<Rightarrow> bool" where
  "due s i = (let t = timerRegistry s ! i in t_handler t \<noteq> None \<and> now s - startTime t > delayTime t)"

text \<open>What \<^verbatim>\<open>processTimers\<close> does for a due entry.\<close>

definition fire :: "'a net_scheme on_timer \<Rightarrow> nat \<Rightarrow> 'a net_scheme \<Rightarrow> 'a net_scheme option" where
  "fire handleTimer i s =
     handleTimer (the (t_handler (timerRegistry s ! i))) (word_of_nat (i + 1))
       (s\<lparr>timerRegistry := (timerRegistry s)[i := (timerRegistry s ! i)\<lparr>startTime := now s\<rparr>]\<rparr>)"

text \<open>A handler that leaves the registry of timers and the clock alone.\<close>

definition keeps_timers :: "'a net_scheme on_timer \<Rightarrow> bool" where
  "keeps_timers handleTimer = (\<forall>h i s s'. handleTimer h i s = Some s' \<longrightarrow>
     timerRegistry s' = timerRegistry s \<and> timers s' = timers s \<and> now s' = now s)"

lemma fire_keeps:
  assumes "keeps_timers handleTimer" and "fire handleTimer i s = Some s'"
  shows "timerRegistry s' = (timerRegistry s)[i := (timerRegistry s ! i)\<lparr>startTime := now s\<rparr>]"
    and "timers s' = timers s" and "now s' = now s"
  using assms unfolding keeps_timers_def fire_def by fastforce+

lemma active_restart: "active (ts[i := (ts ! i)\<lparr>startTime := c\<rparr>]) = active ts"
proof (induction ts arbitrary: i)
  case (Cons u us)
  then show ?case by (cases i) auto
qed simp

lemma active_drop: "i < length ts \<Longrightarrow>
    active (drop i ts) = (if t_handler (ts ! i) = None then 0 else 1) + active (drop (Suc i) ts)"
  by (simp flip: Cons_nth_drop_Suc)

lemma active_0: "active ts = 0 \<Longrightarrow> j < length ts \<Longrightarrow> t_handler (ts ! j) = None"
  by (induction ts arbitrary: j) (auto simp: nth_Cons' split: if_splits)

lemma none_due: "active (drop i (timerRegistry s)) = 0 \<Longrightarrow> length (timerRegistry s) = n \<Longrightarrow>
    filter (due s) [i ..< n] = []"
  using active_0 [of "drop i (timerRegistry s)"]
  by (auto simp: filter_empty_conv due_def Let_def) (metis diff_less_mono le_add_diff_inverse option.distinct(1))

lemma timer_loop_due:
  assumes "keeps_timers handleTimer" and "timers s = int (active (timerRegistry s))"
    and "processed + int (active (drop i (timerRegistry s))) \<le> timers s"
    and "length (timerRegistry s) = i + k"
  shows "timer_loop handleTimer k i processed s = each (fire handleTimer) (filter (due s) [i ..< i + k]) s"
  using assms(2-)
proof (induction k arbitrary: i processed s)
  case (Suc k)
  let ?t = "timerRegistry s ! i" and ?rest = "\<lambda>s. filter (due s) [Suc i ..< Suc i + k]"
  have split: "[i ..< i + Suc k] = i # [Suc i ..< Suc i + k]" by (simp add: upt_conv_Cons del: upt_Suc)
  have tail: "active (drop i (timerRegistry s))
      = (if t_handler ?t = None then 0 else 1) + active (drop (Suc i) (timerRegistry s))"
    using Suc.prems(3) by (intro active_drop) simp
  show ?case
  proof (cases "due s i")
    case True
    then obtain h where h: "t_handler ?t = Some h" "now s - startTime ?t > delayTime ?t"
      by (auto simp: due_def Let_def)
    have lt: "processed < timers s" using Suc.prems(2) tail h by simp
    have "timer_loop handleTimer k (Suc i) (processed + 1) s' = each (fire handleTimer) (?rest s) s'"
      if fired: "fire handleTimer i s = Some s'" for s'
    proof -
      note k = fire_keeps [OF assms(1) fired]
      have "?rest s' = ?rest s"
        by (intro filter_cong) (auto simp: due_def k)
      moreover have "timer_loop handleTimer k (Suc i) (processed + 1) s' = each (fire handleTimer) (?rest s') s'"
        using Suc.prems tail h k by (intro Suc.IH) (simp_all add: active_restart)
      ultimately show ?thesis by simp
    qed
    moreover have "timer_loop handleTimer (Suc k) i processed s
        = Option.bind (fire handleTimer i s) (timer_loop handleTimer k (Suc i) (processed + 1))"
      using h lt by (simp add: fire_def)
    ultimately show ?thesis using True unfolding split
      by (cases "fire handleTimer i s") (simp_all del: upt_Suc timer_loop.simps)
  next
    case False
    then have skip: "timer_loop handleTimer (Suc k) i processed s
        = (if processed < timers s then timer_loop handleTimer k (Suc i) processed s else Some s)"
      by (auto simp: due_def Let_def split: option.split)
    show ?thesis
    proof (cases "processed < timers s")
      case True
      then have "timer_loop handleTimer k (Suc i) processed s = each (fire handleTimer) (?rest s) s"
        using Suc.prems tail by (intro Suc.IH) (simp_all split: if_splits)
      with True False show ?thesis unfolding skip split by simp
    next
      case stop: False
      then have "?rest s = []"
        using Suc.prems tail by (intro none_due) (simp_all split: if_splits)
      with stop False show ?thesis unfolding skip split by simp
    qed
  qed
qed simp

lemma processTimers_due:
  "keeps_timers handleTimer \<Longrightarrow> timers_ok s \<Longrightarrow>
    processTimers handleTimer s = each (fire handleTimer) (filter (due s) [0 ..< length (timerRegistry s)]) s"
  unfolding processTimers_def timers_ok_def
  using timer_loop_due [of handleTimer s 0 0 "length (timerRegistry s)"] by simp

section \<open>Properties\<close>

text \<open>
  Registering protocol handlers. After a series of successful \<^verbatim>\<open>registerProtocol\<close> calls with distinct,
  non-zero EtherTypes on a well-formed registry, \<^verbatim>\<open>getProtocolHandler\<close> returns for each of them the
  handler registered, for every other EtherType what it returned before, and the registry is well
  formed; a call is refused only when no entry is free and the EtherType is new, and then changes nothing.
\<close>

lemma protocols_registered:
  assumes "reg_ok (protocolRegistry s)" and "distinct (map fst ps)" and "\<forall>p \<in> set ps. fst p \<noteq> 0"
    and "seq_ok (map (\<lambda>p. registerProtocol (fst p) (Some (snd p))) ps) s = (True, s')" and "k \<noteq> 0"
  shows "getProtocolHandler s' k = (case map_of ps k of Some h \<Rightarrow> Some h | None \<Rightarrow> getProtocolHandler s k)
    \<and> reg_ok (protocolRegistry s')
    \<and> (fst (registerProtocol k (Some h) s') = (0 \<in> fst ` set (protocolRegistry s') \<or> k \<in> fst ` set (protocolRegistry s')))
    \<and> (\<not> fst (registerProtocol k (Some h) s') \<longrightarrow> snd (registerProtocol k (Some h) s') = s')"
proof -
  have "getProtocolHandler s' k = (case map_of ps k of Some h \<Rightarrow> Some h | None \<Rightarrow> getProtocolHandler s k)"
    using protocols.get_after_all [of s ps k] assms by simp
  moreover have "reg_ok (protocolRegistry (snd (seq_ok (map (\<lambda>p. registerProtocol (fst p) (Some (snd p))) ps) s)))"
    by (rule seq_ok_invariant [where P = "\<lambda>s. reg_ok (protocolRegistry s)"])
      (use assms(1,3) protocols.put_ok in auto)
  ultimately show ?thesis
    using assms(4) by (simp add: registerProtocol_simps(1) reg_put_None protocols.put_fails)
qed

definition demo_net :: net where
  "demo_net = EtherControl_new True True 2 3
     \<lparr>sram = (\<lambda>a. ucast a), ram = (\<lambda>_. 0), chip = demo_chip, now = 1000,
      macAddr = [0x02, 0, 0, 0, 0, 1], drv_send = MemBuffer 0x400 100, drv_recv = MemBuffer 0x500 100,
      wire = [], sendPayloadBuffer = MemBuffer 0 0, protocolRegistry = [], timerRegistry = [], timers = 0\<rparr>"

lemma demo_net_simps:
  "drv_send demo_net = MemBuffer 0x400 100" "drv_recv demo_net = MemBuffer 0x500 100"
  "macAddr demo_net = [0x02, 0, 0, 0, 0, 1]" "wire demo_net = []" "now demo_net = 1000"
  "sendPayloadBuffer demo_net = OffsetBuffer (MemBuffer 0x400 100) 14 86"
  "protocolRegistry demo_net = [(0, None), (0, None)]"
  "timers demo_net = 0" "timerRegistry demo_net = replicate 3 \<lparr>delayTime = 0, startTime = 0, t_handler = None\<rparr>"
proof -
  have "replicate 2 x = [x, x]" for x :: "u16 \<times> payload_handler option" by (simp add: numeral_2_eq_2)
  then show "protocolRegistry demo_net = [(0, None), (0, None)]"
    by (simp add: demo_net_def EtherControl_new_def)
qed (simp_all add: demo_net_def EtherControl_new_def OffsetBuffer_new_def reinit_def HEADER_LENGTH_def)

lemma demo_net_ok: "eth_ok demo_net" "timers_ok demo_net"
proof -
  have "active (replicate n \<lparr>delayTime = 0, startTime = 0, t_handler = None\<rparr>) = 0" for n
    by (induction n) auto
  then show "timers_ok demo_net" by (simp add: timers_ok_def demo_net_simps)
qed (simp add: eth_ok_def demo_net_simps Mem_wok HEADER_LENGTH_def after_def)

lemma protocols_registered_witness:
  "getProtocolHandler (snd (seq_ok (map (\<lambda>p. registerProtocol (fst p) (Some (snd p)))
     [(0x0806, ARPPayload), (0x0800, IPPayload)]) demo_net)) 0x0800 = Some IPPayload"
proof -
  let ?ps = "[(0x0806, ARPPayload), (0x0800 :: u16, IPPayload)]"
  let ?r = "seq_ok (map (\<lambda>p. registerProtocol (fst p) (Some (snd p))) ?ps) demo_net"
  have "fst ?r" by (simp add: registerProtocol_def demo_net_simps)
  then have "?r = (True, snd ?r)" by (simp add: prod_eq_iff)
  moreover have "reg_ok (protocolRegistry demo_net)" by (simp add: demo_net_simps)
  ultimately show ?thesis using protocols_registered [of demo_net ?ps "snd ?r" "0x0800"] by simp
qed

text \<open>
  \<^verbatim>\<open>sendFrame\<close> puts a complete frame on the wire. For a payload that fits behind the ethernet header
  it returns true, and the driver transmits exactly one frame: destination, own address, EtherType
  in network order, and the first bytes of the payload buffer, which keeps its contents; the handler
  and timer registries stay as they are. A payload that does not fit is refused with no effect.
\<close>

lemma sendFrame_transmits:
  assumes "eth_ok s" and "length dst = 6"
  shows "(unat n \<le> unat (b_size (drv_send s)) - 14 \<longrightarrow>
      (\<exists>s'. sendFrame dst protocol n s = (True, s')
        \<and> wire s' = wire s @ [dst @ macAddr s @ be16 protocol @ take (unat n) (b_bytes s (sendPayloadBuffer s))]
        \<and> b_bytes s' (sendPayloadBuffer s') = b_bytes s (sendPayloadBuffer s)
        \<and> protocolRegistry s' = protocolRegistry s \<and> timerRegistry s' = timerRegistry s \<and> eth_ok s'))
    \<and> (unat (b_size (drv_send s)) - 14 < unat n \<longrightarrow> sendFrame dst protocol n s = (False, s))"
proof -
  have sz: "unat (b_size (sendPayloadBuffer s)) = unat (b_size (drv_send s)) - 14"
    "b_size (sendPayloadBuffer s) = b_size (drv_send s) - HEADER_LENGTH"
    using assms(1) by (simp_all add: eth_payload_size) (simp add: eth_ok_def after_def)
  show ?thesis
  proof (intro conjI impI)
    assume "unat n \<le> unat (b_size (drv_send s)) - 14"
    then have "n \<le> b_size (sendPayloadBuffer s)" using sz by (simp add: le16_iff)
    from sendFrame_ok [OF assms this, of protocol] assms(1)
    show "\<exists>s'. sendFrame dst protocol n s = (True, s')
        \<and> wire s' = wire s @ [dst @ macAddr s @ be16 protocol @ take (unat n) (b_bytes s (sendPayloadBuffer s))]
        \<and> b_bytes s' (sendPayloadBuffer s') = b_bytes s (sendPayloadBuffer s)
        \<and> protocolRegistry s' = protocolRegistry s \<and> timerRegistry s' = timerRegistry s \<and> eth_ok s'"
      by (simp add: eth_header_def)
  next
    assume "unat (b_size (drv_send s)) - 14 < unat n"
    then show "sendFrame dst protocol n s = (False, s)"
      using sz(1) by (intro sendFrame_too_big) (simp add: less16 flip: sz(2))
  qed
qed

lemma sendFrame_transmits_witness:
  "map length (wire (snd (sendFrame broadcastMAC 0x0806 28 demo_net))) = [42]"
proof -
  have "unat (b_size (sendPayloadBuffer demo_net)) = 86" by (simp add: demo_net_simps)
  then have l: "length (b_bytes demo_net (sendPayloadBuffer demo_net)) = 86"
    by (simp only: eth_payload_length [OF demo_net_ok(1)])
  have "length broadcastMAC = 6" "unat (28 :: u16) \<le> unat (b_size (drv_send demo_net)) - 14"
    by (simp_all add: broadcastMAC_def demo_net_simps)
  then obtain s' where "sendFrame broadcastMAC 0x0806 28 demo_net = (True, s')"
    and w: "wire s' = wire demo_net @ [broadcastMAC @ macAddr demo_net @ be16 0x0806
      @ take (unat (28 :: u16)) (b_bytes demo_net (sendPayloadBuffer demo_net))]"
    using sendFrame_transmits [OF demo_net_ok(1), THEN conjunct1, THEN mp, of broadcastMAC 28 "0x0806"] by metis
  then have "wire (snd (sendFrame broadcastMAC 0x0806 28 demo_net)) = wire s'" by (simp only: snd_conv)
  then show ?thesis unfolding w by (simp only: demo_net_simps(3,4) broadcastMAC_def) (simp add: l)
qed

text \<open>
  C35: \<^verbatim>\<open>processFrame\<close> delivers the payload. When the driver has received a frame made of two addresses, an
  EtherType and a payload, the handler registered for the EtherType is called once, with a
  well-formed buffer whose contents are exactly the payload (a trailing checksum or stale bytes behind it are cut
  off), and then the timers are processed; a frame for which no handler is registered only lets the timers run.
\<close>

theorem processFrame_delivers:
  assumes "receiveFrame s = (len, s1)" and "b_ok s1 (drv_recv s1)"
    and "unat len = 14 + length payload" and "payload \<noteq> []" and "unat len \<le> unat (b_size (drv_recv s1))"
    and "length dst = 6" and "length src = 6"
    and "take (unat len) (b_bytes s1 (drv_recv s1)) = dst @ src @ be16 protocol @ payload"
  shows "\<exists>p. b_ok s1 p \<and> b_bytes s1 p = payload \<and>
    processFrame receiveFrame handlePayload handleTimer s =
      Option.bind (case getProtocolHandler s1 protocol of None \<Rightarrow> Some s1 | Some h \<Rightarrow> handlePayload h p s1)
        (\<lambda>s2. map_option (Pair True) (processTimers handleTimer s2))"
proof -
  let ?r = "drv_recv s1" and ?p = "OffsetBuffer (drv_recv s1) 14 (len - 14)"
  let ?B = "b_bytes s1 ?r"
  have len: "length ?B = unat (b_size ?r)" using assms(2) by (rule buf.length_bytes)
  have l14: "unat (len - 14) = length payload" using assms(3) by (subst unat_sub16) (simp_all add: le16_iff)
  have B: "?B = (dst @ src @ be16 protocol @ payload) @ drop (unat len) ?B"
    using assms(8) by (metis append_take_drop_id)
  have "?B ! 12 = be16 protocol ! 0" "?B ! 13 = be16 protocol ! 1"
    using assms(6,7) by (subst B, simp add: nth_append)+
  then have type: "readNet16 (b_read s1 ?r) (MAC_SIZE * 2) = Some protocol"
    using assms(2,3,5) by (simp add: buf.readNet16_inside MAC_SIZE_def be16_def bo_simps)
  have "window 14 (length payload) ?B = payload"
    using assms(6,7) by (subst B) (simp add: window_def)
  then have "b_bytes s1 ?p = payload" using l14 by (simp add: b_bytes_Offset)
  moreover have "b_ok s1 ?p" using assms(2,3,5) l14 by (simp add: b_ok_def)
  moreover have "OffsetBuffer_new ?r HEADER_LENGTH (len - HEADER_LENGTH) = ?p"
    unfolding HEADER_LENGTH_def using assms(3-5) l14 by (intro OffsetBuffer_new_part) simp_all
  moreover have "len > 0" using assms(3) by (simp add: less16)
  ultimately show ?thesis
    by (intro exI [of _ ?p]) (auto simp: processFrame_def assms(1) type Let_def map_conv_bind_option comp_def
        split: option.split)
qed

lemma processFrame_delivers_witness:
  "\<exists>p. b_bytes (demo_net\<lparr>sram := (sram demo_net)(0x50C := 0x08, 0x50D := 0x06)\<rparr>) p = [14] \<and>
    processFrame (\<lambda>s. (15, s\<lparr>sram := (sram s)(0x50C := 0x08, 0x50D := 0x06)\<rparr>)) (\<lambda>_ _ _. None) (\<lambda>_ _. Some) demo_net
      = map_option (Pair True) (processTimers (\<lambda>_ _. Some) (demo_net\<lparr>sram := (sram demo_net)(0x50C := 0x08, 0x50D := 0x06)\<rparr>))"
proof -
  let ?s = "demo_net\<lparr>sram := (sram demo_net)(0x50C := 0x08, 0x50D := 0x06)\<rparr>"
  let ?rf = "\<lambda>s :: net. (15 :: u16, s\<lparr>sram := (sram s)(0x50C := 0x08, 0x50D := 0x06)\<rparr>)"
  have b: "take (unat (15 :: u16)) (b_bytes ?s (drv_recv ?s)) = [0,1,2,3,4,5] @ [6,7,8,9,10,11] @ be16 0x0806 @ [14]"
    by code_simp
  have "b_ok ?s (drv_recv ?s)" by (simp add: demo_net_simps b_ok_def)
  then show ?thesis
    using processFrame_delivers [of ?rf demo_net 15 ?s "[14]" "[0,1,2,3,4,5]" "[6,7,8,9,10,11]" "0x0806"
      "\<lambda>_ _ _. None" "\<lambda>_ _. Some", OF refl _ _ _ _ _ _ b]
    by (auto simp: demo_net_simps getProtocolHandler_def)
qed

text \<open>
  Timer slots. With a consistent registry, \<^verbatim>\<open>registerTimer\<close> returns 0 exactly when every entry is in use, and then
  changes nothing; otherwise it returns the number of an entry that was free, which now holds the
  handler, its delay and the current time, and every other entry is as before. \<^verbatim>\<open>unregisterTimer\<close> of that
  number frees the entry again. The counter always equals the number of entries in use. The number
  0, which means no timer, reads outside the array.
\<close>

lemma timer_slots:
  assumes "timers_ok s" and "registerTimer h d s = (i, s')"
  shows "timers_ok s'
    \<and> (i = 0) = (\<forall>t \<in> set (timerRegistry s). t_handler t \<noteq> None)
    \<and> (i = 0 \<longrightarrow> s' = s)
    \<and> (i \<noteq> 0 \<longrightarrow> unat i \<le> length (timerRegistry s) \<and> t_handler (timerRegistry s ! (unat i - 1)) = None
        \<and> timerRegistry s' = (timerRegistry s)[unat i - 1 :=
            \<lparr>delayTime = ucast d, startTime = now s, t_handler = Some h\<rparr>]
        \<and> (\<exists>s''. unregisterTimer i s' = Some s'' \<and> timers_ok s'' \<and> timers s'' = timers s
            \<and> timerRegistry s'' = (timerRegistry s)[unat i - 1 := \<lparr>delayTime = 0, startTime = 0, t_handler = None\<rparr>]))
    \<and> unregisterTimer 0 s = None"
proof -
  have ok: "timers_ok s'" using registerTimer_ok [OF assms(1)] assms(2) by (metis snd_conv)
  from assms(1) show ?thesis
  proof (cases rule: registerTimer_cases [where h = h and d = d])
    case full
    with ok assms(2) show ?thesis by (simp add: unregisterTimer_def)
  next
    case (slot j)
    then have i: "unat i = j + 1" and s': "s' = s\<lparr>timerRegistry := (timerRegistry s)
         [j := \<lparr>delayTime = ucast d, startTime = now s, t_handler = Some h\<rparr>], timers := timers s + 1\<rparr>"
      using assms(2) by simp_all
    have nz: "i \<noteq> 0" using i by auto
    let ?s'' = "s'\<lparr>timers := timers s, timerRegistry := (timerRegistry s)
      [j := \<lparr>delayTime = 0, startTime = 0, t_handler = None\<rparr>]\<rparr>"
    have u: "unregisterTimer i s' = Some ?s''"
      using i slot(1) by (simp add: unregisterTimer_def s')
    have u_ok: "timers_ok ?s''" using unregisterTimer_ok [OF ok u] .
    have free: "\<not> (\<forall>t \<in> set (timerRegistry s). t_handler t \<noteq> None)"
      using slot(2) nth_mem [OF slot(1)] by blast
    have "\<exists>s''. unregisterTimer i s' = Some s'' \<and> timers_ok s'' \<and> timers s'' = timers s
        \<and> timerRegistry s'' = (timerRegistry s)[j := \<lparr>delayTime = 0, startTime = 0, t_handler = None\<rparr>]"
      using u u_ok by (intro exI [of _ ?s'']) simp
    moreover have "timerRegistry s' = (timerRegistry s)[j :=
        \<lparr>delayTime = ucast d, startTime = now s, t_handler = Some h\<rparr>]" by (simp add: s')
    moreover have "unregisterTimer 0 s = None" by (simp add: unregisterTimer_def)
    ultimately show ?thesis using slot(1,2) i nz ok free by (simp only: simp_thms) simp
  qed
qed

lemma timer_slots_witness:
  "fst (registerTimer TCPTimer 200 demo_net) = 1 \<and> timers_ok (snd (registerTimer TCPTimer 200 demo_net))"
proof -
  have "registerTimer TCPTimer 200 demo_net = (1, snd (registerTimer TCPTimer 200 demo_net))"
    by (simp add: registerTimer_def demo_net_simps numeral_3_eq_3)
  from timer_slots [OF demo_net_ok(2) this] this show ?thesis by (metis fst_conv)
qed

text \<open>
  C36: \<^verbatim>\<open>processTimers\<close> fires every due timer once. With a consistent registry and handlers that do not
  themselves register or unregister timers, the early exit on the number of timers skips nothing: in
  the order of the entries, each registered timer whose delay has been exceeded has its start time
  set to the current time and its handler called with its number; no other handler is called.
\<close>

theorem processTimers_fires_due:
  assumes "timers_ok s" and "keeps_timers handleTimer"
  shows "processTimers handleTimer s =
    each (\<lambda>i s. handleTimer (the (t_handler (timerRegistry s ! i))) (word_of_nat (i + 1))
        (s\<lparr>timerRegistry := (timerRegistry s)[i := (timerRegistry s ! i)\<lparr>startTime := now s\<rparr>]\<rparr>))
      (filter (\<lambda>i. t_handler (timerRegistry s ! i) \<noteq> None \<and>
          now s - startTime (timerRegistry s ! i) > delayTime (timerRegistry s ! i))
        [0 ..< length (timerRegistry s)]) s"
proof -
  have "due s = (\<lambda>i. t_handler (timerRegistry s ! i) \<noteq> None \<and>
      now s - startTime (timerRegistry s ! i) > delayTime (timerRegistry s ! i))"
    by (simp add: fun_eq_iff due_def Let_def)
  moreover have "fire handleTimer = (\<lambda>i s. handleTimer (the (t_handler (timerRegistry s ! i))) (word_of_nat (i + 1))
        (s\<lparr>timerRegistry := (timerRegistry s)[i := (timerRegistry s ! i)\<lparr>startTime := now s\<rparr>]\<rparr>))"
    by (simp add: fun_eq_iff fire_def)
  ultimately show ?thesis using processTimers_due [OF assms(2,1)] by (simp only:)
qed

text \<open>A registry with two timers that are due and a free entry.\<close>

definition two_due :: "net" where
  "two_due = demo_net\<lparr>timers := 2, timerRegistry :=
     [\<lparr>delayTime = 250, startTime = 0, t_handler = Some ARPTimer\<rparr>,
      \<lparr>delayTime = 200, startTime = 0, t_handler = Some TCPTimer\<rparr>,
      \<lparr>delayTime = 0, startTime = 0, t_handler = None\<rparr>]\<rparr>"

lemma processTimers_fires_due_witness:
  "map_option wire (processTimers (\<lambda>h i s. Some (s\<lparr>wire := wire s @ [[i]]\<rparr>)) two_due) = Some [[1], [2]]"
proof -
  have "timers_ok two_due" by (simp add: timers_ok_def two_due_def)
  moreover have "keeps_timers (\<lambda>h i s. Some (s\<lparr>wire := wire s @ [[i]]\<rparr>))" by (simp add: keeps_timers_def)
  ultimately show ?thesis
    by (subst processTimers_fires_due) (simp_all add: two_due_def demo_net_simps numeral_3_eq_3)
qed

text \<open>
  C37: A handler that unregisters its own timer can suppress another one. The loop compares the number
  of handlers called with the counter, which the call has just decremented: with two timers due, the
  second is not served in this round when the first one's handler unregisters itself (as ARPHandler and DNSHandler do).
\<close>

theorem processTimers_skips_after_unregister:
  "processTimers (\<lambda>h i s. unregisterTimer i s) (s\<lparr>timers := 2, now := t, timerRegistry :=
      [\<lparr>delayTime = ucast (d :: u16), startTime = t - ucast d - 1, t_handler = Some h\<rparr>,
       \<lparr>delayTime = ucast d, startTime = t - ucast d - 1, t_handler = Some h'\<rparr>]\<rparr>) =
    Some (s\<lparr>timers := 1, now := t, timerRegistry :=
      [\<lparr>delayTime = 0, startTime = 0, t_handler = None\<rparr>,
       \<lparr>delayTime = ucast d, startTime = t - ucast d - 1, t_handler = Some h'\<rparr>]\<rparr>)"
proof -
  have "unat (ucast d + 1 :: u32) = unat d + 1"
    using unat16_le [of d] by (simp add: unat_word_ariths unsigned_ucast_eq take_bit_eq_mod del: unat16_less)
  moreover have "unat (ucast d :: u32) = unat d"
    using unat16_le [of d] by (simp add: unsigned_ucast_eq take_bit_eq_mod del: unat16_less)
  ultimately have "ucast d < (ucast d + 1 :: u32)" by (simp only: word_less_nat_alt)
  then show ?thesis by (simp add: processTimers_def unregisterTimer_def Let_def)
qed

end
