(* ===== verification/ENC28J60Driver.thy ===== *)
theory ENC28J60Driver
  imports ENC28J60Registers EtherControl
begin

text \<open>
  ENC28J60Driver.h/.cpp: the protocol that the driver speaks with the controller on the SPI bus. The controller, the pins and
  the data register of the bus are not part of the repository: they are an arbitrary type of states \<open>'c\<close> with the operations
  of \<open>spi\<close>. A wait loop is a \<open>partial_function\<close>; it returns \<open>None\<close> when the controller never gives the answer it waits for.
\<close>

section \<open>State\<close>

record 'c spi =
  spi_enabled :: "'c \<Rightarrow> bool"          \<comment> \<open>the bit SPE of SPCR\<close>
  spi_setup :: "'c \<Rightarrow> 'c"              \<comment> \<open>the pins and the control register, as \<^verbatim>\<open>initSPI\<close> sets them\<close>
  spi_output :: "'c \<Rightarrow> 'c"             \<comment> \<open>\<^verbatim>\<open>pinMode(selectPin, OUTPUT)\<close>\<close>
  spi_delay :: "u16 \<Rightarrow> 'c \<Rightarrow> 'c"       \<comment> \<open>\<^verbatim>\<open>delay\<close>, in milliseconds\<close>
  spi_select :: "'c \<Rightarrow> 'c"             \<comment> \<open>\<^verbatim>\<open>digitalWrite(selectPin, LOW)\<close>\<close>
  spi_release :: "'c \<Rightarrow> 'c"            \<comment> \<open>\<^verbatim>\<open>digitalWrite(selectPin, HIGH)\<close>\<close>
  spi_xfer :: "u8 \<Rightarrow> 'c \<Rightarrow> 'c"         \<comment> \<open>\<^verbatim>\<open>SPDR = data\<close> and the wait for SPIF\<close>
  spi_data :: "'c \<Rightarrow> u8"               \<comment> \<open>what is then read from SPDR\<close>

record 'c driver =
  Enc28j60Bank :: u8
  gNextPacketPtr :: u16
  revision :: u8
  drv_payloadPointer :: u16      \<comment> \<open>of the receive buffer\<close>
  dev :: 'c

definition TXSTART_INIT :: u16 where "TXSTART_INIT = 0x0C00"
definition TXSTOP_INIT :: u16 where "TXSTOP_INIT = 0x11FF"
definition STASH_START_INIT :: u16 where "STASH_START_INIT = 0x1200"
definition STASH_STOP_INIT :: u16 where "STASH_STOP_INIT = 0x1FFF"
definition MAX_FRAMELEN :: u16 where "MAX_FRAMELEN = 1500"

lemmas layout_defs = RXSTART_INIT_def RXSTOP_INIT_def TXSTART_INIT_def TXSTOP_INIT_def STASH_START_INIT_def
  STASH_STOP_INIT_def MAX_FRAMELEN_def

text \<open>The constructor of ENC28J60Buffer and \<^verbatim>\<open>setPayloadPointer\<close>; the three buffers of the driver.\<close>

definition ENC28J60Buffer_new :: "u16 \<Rightarrow> u16 \<Rightarrow> u16 \<Rightarrow> u16 \<Rightarrow> bool \<Rightarrow> buffer" where
  "ENC28J60Buffer_new startAddress endAddress len payloadPointer wrap =
     ENC28J60Buffer startAddress endAddress payloadPointer len wrap"

fun setPayloadPointer :: "u16 \<Rightarrow> buffer \<Rightarrow> buffer" where
  "setPayloadPointer offset (ENC28J60Buffer st en pp l wrap) = ENC28J60Buffer st en offset l wrap"
| "setPayloadPointer offset b = b"

definition getSendBuffer :: buffer where
  "getSendBuffer = ENC28J60Buffer_new (TXSTART_INIT + 1) TXSTOP_INIT MAX_FRAMELEN 0 False"

definition getReceiveBuffer :: "'c driver \<Rightarrow> buffer" where
  "getReceiveBuffer d = setPayloadPointer (drv_payloadPointer d)
     (ENC28J60Buffer_new RXSTART_INIT RXSTOP_INIT MAX_FRAMELEN 0 True)"

definition getStashBuffer :: buffer where
  "getStashBuffer = ENC28J60Buffer_new STASH_START_INIT STASH_STOP_INIT (STASH_STOP_INIT - STASH_START_INIT + 1) 0 False"

section \<open>Private helpers\<close>

definition enableChip :: "'c spi \<Rightarrow> 'c driver \<Rightarrow> 'c driver" where
  "enableChip hw d = d\<lparr>dev := spi_select hw (dev d)\<rparr>"

definition disableChip :: "'c spi \<Rightarrow> 'c driver \<Rightarrow> 'c driver" where
  "disableChip hw d = d\<lparr>dev := spi_release hw (dev d)\<rparr>"

definition xferSPI :: "'c spi \<Rightarrow> u8 \<Rightarrow> 'c driver \<Rightarrow> 'c driver" where
  "xferSPI hw b d = d\<lparr>dev := spi_xfer hw b (dev d)\<rparr>"

definition SPDR :: "'c spi \<Rightarrow> 'c driver \<Rightarrow> u8" where
  "SPDR hw d = spi_data hw (dev d)"

definition readOp :: "'c spi \<Rightarrow> u8 \<Rightarrow> u8 \<Rightarrow> 'c driver \<Rightarrow> u8 \<times> 'c driver" where
  "readOp hw op address d =
     (let d = enableChip hw d;
          d = xferSPI hw (op OR (address AND ADDR_MASK)) d;
          d = xferSPI hw 0x00 d;
          d = (if address AND 0x80 \<noteq> 0 then xferSPI hw 0x00 d else d)
      in (SPDR hw d, disableChip hw d))"

definition writeOp :: "'c spi \<Rightarrow> u8 \<Rightarrow> u8 \<Rightarrow> u8 \<Rightarrow> 'c driver \<Rightarrow> 'c driver" where
  "writeOp hw op address b d =
     (let d = enableChip hw d;
          d = xferSPI hw (op OR (address AND ADDR_MASK)) d;
          d = xferSPI hw b d
      in disableChip hw d)"

definition SetBank :: "'c spi \<Rightarrow> u8 \<Rightarrow> 'c driver \<Rightarrow> 'c driver" where
  "SetBank hw address d =
     (if address AND BANK_MASK \<noteq> Enc28j60Bank d
      then let d = writeOp hw ENC28J60_BIT_FIELD_CLR ECON1 (ECON1_BSEL1 OR ECON1_BSEL0) d;
               d = d\<lparr>Enc28j60Bank := address AND BANK_MASK\<rparr>
           in writeOp hw ENC28J60_BIT_FIELD_SET ECON1 (drop_bit 5 (Enc28j60Bank d)) d
      else d)"

definition readRegByte :: "'c spi \<Rightarrow> u8 \<Rightarrow> 'c driver \<Rightarrow> u8 \<times> 'c driver" where
  "readRegByte hw address d = readOp hw ENC28J60_READ_CTRL_REG address (SetBank hw address d)"

text \<open>\<^verbatim>\<open>readRegByte(address) + (readRegByte(address+1) << 8)\<close>, evaluated from left to right.\<close>

definition readReg :: "'c spi \<Rightarrow> u8 \<Rightarrow> 'c driver \<Rightarrow> u16 \<times> 'c driver" where
  "readReg hw address d =
     (case readRegByte hw address d of (lo, d) \<Rightarrow>
      case readRegByte hw (address + 1) d of (hi, d) \<Rightarrow> (ucast lo + push_bit 8 (ucast hi), d))"

definition writeRegByte :: "'c spi \<Rightarrow> u8 \<Rightarrow> u8 \<Rightarrow> 'c driver \<Rightarrow> 'c driver" where
  "writeRegByte hw address b d = writeOp hw ENC28J60_WRITE_CTRL_REG address b (SetBank hw address d)"

definition writeReg :: "'c spi \<Rightarrow> u8 \<Rightarrow> u16 \<Rightarrow> 'c driver \<Rightarrow> 'c driver" where
  "writeReg hw address w d = writeRegByte hw (address + 1) (ucast (drop_bit 8 w)) (writeRegByte hw address (ucast w) d)"

text \<open>\<^verbatim>\<open>while (test) body\<close>; the test reads registers of the controller.\<close>

partial_function (option) while_do :: "('d \<Rightarrow> bool \<times> 'd) \<Rightarrow> ('d \<Rightarrow> 'd) \<Rightarrow> 'd \<Rightarrow> 'd option" where
  "while_do test body d = (case test d of (go, d) \<Rightarrow> if go then while_do test body (body d) else Some d)"

text \<open>A test of bits of a register.\<close>

definition reg_bits :: "'c spi \<Rightarrow> u8 \<Rightarrow> u8 \<Rightarrow> 'c driver \<Rightarrow> bool \<times> 'c driver" where
  "reg_bits hw address m d = (case readRegByte hw address d of (r, d) \<Rightarrow> (r AND m \<noteq> 0, d))"

definition op_bits :: "'c spi \<Rightarrow> u8 \<Rightarrow> u8 \<Rightarrow> 'c driver \<Rightarrow> bool \<times> 'c driver" where
  "op_bits hw address m d = (case readOp hw ENC28J60_READ_CTRL_REG address d of (r, d) \<Rightarrow> (r AND m \<noteq> 0, d))"

definition readPhyByte :: "'c spi \<Rightarrow> u8 \<Rightarrow> 'c driver \<Rightarrow> (u8 \<times> 'c driver) option" where
  "readPhyByte hw address d = do {
     d \<leftarrow> while_do (reg_bits hw MISTAT MISTAT_BUSY) id
           (writeRegByte hw MICMD MICMD_MIIRD (writeRegByte hw MIREGADR address d));
     Some (readRegByte hw (MIRD + 1) (writeRegByte hw MICMD 0x00 d))
   }"

definition writePhy :: "'c spi \<Rightarrow> u8 \<Rightarrow> u16 \<Rightarrow> 'c driver \<Rightarrow> 'c driver option" where
  "writePhy hw address w d =
     while_do (reg_bits hw MISTAT MISTAT_BUSY) id (writeReg hw MIWR w (writeRegByte hw MIREGADR address d))"

section \<open>Initialisation\<close>

text \<open>
  The constructor; \<open>d\<close> is the object as it was allocated, whose fields the constructor sets but for \<^verbatim>\<open>Enc28j60Bank\<close>. In the
  test of the clock the negation binds tighter than the mask: the loop ends as soon as any bit of ESTAT is set.
\<close>

definition clock_stopped :: "u8 \<Rightarrow> bool" where
  "clock_stopped r = ((if r = 0 then 1 else 0) AND ESTAT_CLKRDY \<noteq> 0)"

definition in_order :: "('d \<Rightarrow> 'd) list \<Rightarrow> 'd \<Rightarrow> 'd" where
  "in_order fs d = fold (\<lambda>f. f) fs d"

definition ENC28J60Driver_init :: "'c spi \<Rightarrow> u8 list \<Rightarrow> 'c driver \<Rightarrow> 'c driver" where
  "ENC28J60Driver_init hw macaddr d = in_order
    [\<lambda>d. d\<lparr>gNextPacketPtr := RXSTART_INIT\<rparr>,
     writeReg hw ERXST RXSTART_INIT,
     writeReg hw ERXRDPT RXSTART_INIT,
     writeReg hw ERXND RXSTOP_INIT,
     writeReg hw ETXST TXSTART_INIT,
     writeReg hw ETXND TXSTOP_INIT,
     writeRegByte hw ERXFCON (ERXFCON_UCEN OR ERXFCON_CRCEN OR ERXFCON_PMEN OR ERXFCON_BCEN),
     writeReg hw EPMM0 0x303f,
     writeReg hw EPMCS 0xf7f9,
     writeRegByte hw MACON1 (MACON1_MARXEN OR MACON1_TXPAUS OR MACON1_RXPAUS),
     writeRegByte hw MACON2 0x00,
     writeOp hw ENC28J60_BIT_FIELD_SET MACON3 (MACON3_PADCFG0 OR MACON3_TXCRCEN OR MACON3_FRMLNEN),
     writeReg hw MAIPG 0x0C12,
     writeRegByte hw MABBIPG 0x12,
     writeReg hw MAMXFL MAX_FRAMELEN,
     writeRegByte hw MAADR5 (macaddr ! 0),
     writeRegByte hw MAADR4 (macaddr ! 1),
     writeRegByte hw MAADR3 (macaddr ! 2),
     writeRegByte hw MAADR2 (macaddr ! 3),
     writeRegByte hw MAADR1 (macaddr ! 4),
     writeRegByte hw MAADR0 (macaddr ! 5)] d"

definition ENC28J60Driver_new :: "'c spi \<Rightarrow> u8 list \<Rightarrow> 'c driver \<Rightarrow> 'c driver option" where
  "ENC28J60Driver_new hw macaddr d =
     (let d = d\<lparr>drv_payloadPointer := 0\<rparr>;
          d = (if \<not> spi_enabled hw (dev d) then d\<lparr>dev := spi_setup hw (dev d)\<rparr> else d);
          d = d\<lparr>dev := spi_output hw (dev d)\<rparr>;
          d = disableChip hw d;
          d = writeOp hw ENC28J60_SOFT_RESET 0 ENC28J60_SOFT_RESET d;
          d = d\<lparr>dev := spi_delay hw 20 (dev d)\<rparr>
      in do {
        d \<leftarrow> while_do (\<lambda>d. case readOp hw ENC28J60_READ_CTRL_REG ESTAT d of (r, d) \<Rightarrow> (clock_stopped r, d)) id d;
        d \<leftarrow> writePhy hw PHCON2 PHCON2_HDLDIS (ENC28J60Driver_init hw macaddr d);
        let d = in_order
          [SetBank hw ECON1,
           writeOp hw ENC28J60_BIT_FIELD_SET EIE (EIE_INTIE OR EIE_PKTIE),
           writeOp hw ENC28J60_BIT_FIELD_SET ECON1 ECON1_RXEN] d
        in case readRegByte hw EREVID d of
             (r, d) \<Rightarrow> Some (d\<lparr>revision := (if r > 5 then r + 1 else r)\<rparr>)
      })"

section \<open>Access to the packet memory\<close>

fun xfer_in :: "'c spi \<Rightarrow> nat \<Rightarrow> 'c driver \<Rightarrow> u8 list \<times> 'c driver" where
  "xfer_in hw 0 d = ([], d)"
| "xfer_in hw (Suc n) d =
     (let d = xferSPI hw 0x00 d; b = SPDR hw d
      in case xfer_in hw n d of (bs, d) \<Rightarrow> (b # bs, d))"

fun xfer_out :: "'c spi \<Rightarrow> u8 list \<Rightarrow> 'c driver \<Rightarrow> 'c driver" where
  "xfer_out hw [] d = d"
| "xfer_out hw (b # bs) d = xfer_out hw bs (xferSPI hw b d)"

definition readBuf :: "'c spi \<Rightarrow> u16 \<Rightarrow> 'c driver \<Rightarrow> u8 list \<times> 'c driver" where
  "readBuf hw len d =
     (let d = enableChip hw d; d = xferSPI hw ENC28J60_READ_BUF_MEM d
      in case xfer_in hw (unat len) d of (bs, d) \<Rightarrow> (bs, disableChip hw d))"

definition writeBuf :: "'c spi \<Rightarrow> u8 list \<Rightarrow> 'c driver \<Rightarrow> 'c driver" where
  "writeBuf hw bs d =
     (let d = enableChip hw d; d = xferSPI hw ENC28J60_WRITE_BUF_MEM d
      in disableChip hw (xfer_out hw bs d))"

definition enc_write :: "'c spi \<Rightarrow> u16 \<Rightarrow> u8 list \<Rightarrow> 'c driver \<Rightarrow> bool \<times> 'c driver" where
  "enc_write hw offset bs d = (True, writeBuf hw bs (writeReg hw EWRPT offset d))"

definition enc_read :: "'c spi \<Rightarrow> u16 \<Rightarrow> u16 \<Rightarrow> 'c driver \<Rightarrow> (bool \<times> u8 list) \<times> 'c driver" where
  "enc_read hw offset len d =
     (case readBuf hw len (writeReg hw ERDPT offset d) of (bs, d) \<Rightarrow> ((True, bs), d))"

text \<open>The tests of \<^verbatim>\<open>copy\<close> on the addresses; the result is the end of the source.\<close>

definition copy_end :: "u16 \<Rightarrow> u16 \<Rightarrow> u16 \<Rightarrow> u16 option" where
  "copy_end src_addr_start dest_addr len =
     (if dest_addr > 0x1FFF then None
      else if src_addr_start > 0x1FFF then None
      else if dest_addr \<ge> RXSTART_INIT \<and> dest_addr \<le> RXSTOP_INIT then None
      else let src_addr_end = src_addr_start + len;
               inrx = (src_addr_start \<ge> RXSTART_INIT \<and> src_addr_start \<le> RXSTOP_INIT);
               src_addr_end =
                 (if inrx \<and> src_addr_end > RXSTOP_INIT
                  then src_addr_end - RXSTOP_INIT + RXSTART_INIT - 1 else src_addr_end)
           in if inrx \<and> src_addr_end > RXSTOP_INIT then None
              else if src_addr_end > 0x1FFF then None
              else if dest_addr + len > 0x1FFF then None
              else Some src_addr_end)"

definition enc_copy :: "'c spi \<Rightarrow> u16 \<Rightarrow> u16 \<Rightarrow> u16 \<Rightarrow> 'c driver \<Rightarrow> (bool \<times> 'c driver) option" where
  "enc_copy hw src_addr_start dest_addr len d =
     (case copy_end src_addr_start dest_addr len of
        None \<Rightarrow> Some (False, d)
      | Some src_addr_end \<Rightarrow>
          (case op_bits hw ECON1 ECON1_DMAST d of
             (True, d) \<Rightarrow> Some (False, d)
           | (False, d) \<Rightarrow> do {
               d \<leftarrow> while_do (op_bits hw ECON1 ECON1_DMAST) id (in_order
                 [writeOp hw ENC28J60_BIT_FIELD_CLR ECON1 (ECON1_DMAST OR ECON1_CSUMEN),
                  writeReg hw EDMAST src_addr_start,
                  writeReg hw EDMAND src_addr_end,
                  writeReg hw EDMADST dest_addr,
                  writeOp hw ENC28J60_BIT_FIELD_SET ECON1 ECON1_DMAST] d);
               Some (True, d)
             }))"

section \<open>Sending and receiving\<close>

definition enc_sendFrame :: "'c spi \<Rightarrow> u16 \<Rightarrow> 'c driver \<Rightarrow> 'c driver option" where
  "enc_sendFrame hw len d = do {
     d \<leftarrow> while_do (op_bits hw ECON1 ECON1_TXRTS)
           (\<lambda>d. case reg_bits hw EIR EIR_TXERIF d of
                  (err, d) \<Rightarrow>
                    if err then in_order [writeOp hw ENC28J60_BIT_FIELD_SET ECON1 ECON1_TXRST,
                                          writeOp hw ENC28J60_BIT_FIELD_CLR ECON1 ECON1_TXRST] d
                    else d) d;
     Some (in_order
       [writeReg hw ETXND (TXSTART_INIT + len),
        writeReg hw EWRPT TXSTART_INIT,
        writeOp hw ENC28J60_WRITE_BUF_MEM 0 0x00,
        writeOp hw ENC28J60_BIT_FIELD_SET ECON1 ECON1_TXRTS] d)
   }"

text \<open>The header in front of a received frame: the next packet, the byte count with the CRC, and the status, each with the low byte first.\<close>

definition frame_length :: "u16 \<Rightarrow> u16 \<Rightarrow> u16" where
  "frame_length byteCount status =
     (let len = byteCount - 4;
          len = (if len > MAX_FRAMELEN then MAX_FRAMELEN else len)
      in if status AND 0x80 = 0 then 0 else len)"

definition enc_receiveFrame :: "'c spi \<Rightarrow> 'c driver \<Rightarrow> u16 \<times> 'c driver" where
  "enc_receiveFrame hw d =
     (case readRegByte hw EPKTCNT d of (count, d) \<Rightarrow>
        if count > 0
        then case readBuf hw 6 (writeReg hw ERDPT (gNextPacketPtr d) d) of (header, d) \<Rightarrow>
             case readReg hw ERDPT d of (offset, d) \<Rightarrow>
               (let d = d\<lparr>drv_payloadPointer := offset\<rparr>;
                    d = d\<lparr>gNextPacketPtr := word16 (take 2 header)\<rparr>;
                    len = frame_length (word16 (take 2 (drop 2 header))) (word16 (take 2 (drop 4 header)));
                    d = writeReg hw ERXRDPT offset d;
                    d = writeOp hw ENC28J60_BIT_FIELD_SET ECON2 ECON2_PKTDEC d
                in (len, d))
        else (0, d))"

section \<open>Power management\<close>

definition isLinkUp :: "'c spi \<Rightarrow> 'c driver \<Rightarrow> (bool \<times> 'c driver) option" where
  "isLinkUp hw d = do { (r, d) \<leftarrow> readPhyByte hw PHSTAT2 d; Some (drop_bit 2 r AND 1 \<noteq> 0, d) }"

definition powerDown :: "'c spi \<Rightarrow> 'c driver \<Rightarrow> 'c driver option" where
  "powerDown hw d = do {
     d \<leftarrow> while_do (reg_bits hw ESTAT ESTAT_RXBUSY) id (writeOp hw ENC28J60_BIT_FIELD_CLR ECON1 ECON1_RXEN d);
     d \<leftarrow> while_do (reg_bits hw ECON1 ECON1_TXRTS) id d;
     Some (in_order [writeOp hw ENC28J60_BIT_FIELD_SET ECON2 ECON2_VRPS,
                     writeOp hw ENC28J60_BIT_FIELD_SET ECON2 ECON2_PWRSV] d)
   }"

definition powerUp :: "'c spi \<Rightarrow> 'c driver \<Rightarrow> 'c driver option" where
  "powerUp hw d = do {
     d \<leftarrow> while_do (\<lambda>d. case readRegByte hw ESTAT d of (r, d) \<Rightarrow> (clock_stopped r, d)) id
           (writeOp hw ENC28J60_BIT_FIELD_CLR ECON2 ECON2_PWRSV d);
     Some (writeOp hw ENC28J60_BIT_FIELD_SET ECON1 ECON1_RXEN d)
   }"

end
