(* ===== verification/Controller_Copies.thy ===== *)
theory Controller_Copies
  imports ENC28J60Driver Header_Writes
begin

text \<open>
  Copies inside the packet memory. The controller makes them itself: \<^verbatim>\<open>ENC28J60Driver::copy\<close> gives it the first and the last address of
  the source and the first of the destination. This theory shows what a copy changes, from the addresses up to two \<^verbatim>\<open>OffsetBuffer\<close>s as
  TCP uses them, one in the send buffer of the driver and one in its scratch area.
\<close>

section \<open>What the data sheet says\<close>

text \<open>The address after an address: the receive buffer is a ring.\<close>

definition rx_next :: "u16 \<Rightarrow> u16" where
  "rx_next a = (if a = RXSTOP_INIT then RXSTART_INIT else a + 1)"

text \<open>The DMA engine copies a byte, stops if it was the one at EDMAND, and otherwise goes on to the next: here \<open>k\<close> bytes and one more.\<close>

fun dma_steps :: "nat \<Rightarrow> u16 \<Rightarrow> u16 \<Rightarrow> (u16 \<Rightarrow> u8) \<Rightarrow> u16 \<Rightarrow> u8" where
  "dma_steps 0 src dst m = m(dst := m src)"
| "dma_steps (Suc k) src dst m = dma_steps k (rx_next src) (dst + 1) (m(dst := m src))"

definition copies_by_dma :: "chip_if \<Rightarrow> bool" where
  "copies_by_dma c = (\<not> dma_busy c
     \<and> (\<forall>src k dst m. k < 0x2000 \<longrightarrow> (\<forall>i<k. (rx_next ^^ i) src \<noteq> (rx_next ^^ k) src) \<longrightarrow> dst \<le> 0x1FFF \<longrightarrow> dst + word_of_nat k \<le> 0x1FFF
          \<longrightarrow> dma c src ((rx_next ^^ k) src) dst m = dma_steps k src dst m))"

lemma next_steps: "(rx_next ^^ i) (rx_next a) = (rx_next ^^ Suc i) a"
  by (simp add: funpow_swap1)

lemma dma_steps_bytes:
  assumes "k < 65536" and "\<forall>i\<le>k. \<forall>j\<le>k. (rx_next ^^ i) src \<noteq> dst + word_of_nat j"
  shows "dma_steps k src dst m a = (if unat (a - dst) \<le> k then m ((rx_next ^^ unat (a - dst)) src) else m a)"
  using assms
proof (induction k arbitrary: src dst m)
  case 0
  then show ?case by (auto simp: unat_eq_zero)
next
  case (Suc k)
  have d: "(rx_next ^^ i) (rx_next src) \<noteq> dst + 1 + word_of_nat j" if "i \<le> k" "j \<le> k" for i j
  proof -
    have "(rx_next ^^ Suc i) src \<noteq> dst + word_of_nat (Suc j)" by (rule Suc.prems(2) [rule_format]) (use that in simp_all)
    moreover have "dst + word_of_nat (Suc j) = dst + 1 + word_of_nat j" by simp
    ultimately show ?thesis by (simp only: next_steps not_False_eq_True)
  qed
  have src: "(rx_next ^^ i) src \<noteq> dst" if "i \<le> Suc k" for i
    using Suc.prems(2) [rule_format, OF that, of 0] by simp
  show ?case
  proof (cases "a = dst")
    case True
    have "unat (a - (dst + 1)) = 65535" using unat_sub_if' [of 0 "1 :: u16"] by (simp add: True)
    then show ?thesis using Suc.IH [of "rx_next src" "dst + 1" "m(dst := m src)"] d Suc.prems(1) True by (simp add: fun_upd_def)
  next
    case False
    then have "a - dst \<noteq> 0" by simp
    from unat_minus_one [OF this] this have u: "unat (a - dst) = Suc (unat (a - (dst + 1)))"
      by (simp add: diff_diff_eq unat_gt_0)
    have "(rx_next ^^ i) (rx_next src) \<noteq> dst" if "i \<le> k" for i unfolding next_steps by (rule src) (use that in simp)
    then show ?thesis
      using Suc.IH [of "rx_next src" "dst + 1" "m(dst := m src)"] d Suc.prems(1) False
      by (auto simp: u next_steps fun_upd_def simp del: funpow.simps)
  qed
qed

lemma dma_steps_frame: "k < 65536 \<Longrightarrow> k < unat (a - dst) \<Longrightarrow> dma_steps k src dst m a = m a"
proof (induction k arbitrary: src dst m)
  case (Suc k)
  have "a - dst \<noteq> 0" using Suc.prems(2) by auto
  then have "k < unat (a - (dst + 1))" using unat_minus_one [of "a - dst"] Suc.prems(2) by (simp add: diff_diff_eq)
  moreover have "a \<noteq> dst" using Suc.prems(2) by auto
  ultimately show ?case using Suc by simp
qed auto

section \<open>The addresses of a copy\<close>

lemma rx_chain: "a \<le> RXSTOP_INIT \<Longrightarrow> unat ((rx_next ^^ k) a) = (unat a + k) mod 0xC00"
proof (induction k)
  case (Suc k)
  let ?b = "(rx_next ^^ k) a"
  have b: "unat ?b = (unat a + k) mod 0xC00" using Suc by simp
  then have "unat ?b < 0xC00" by simp
  moreover have "?b = RXSTOP_INIT \<longleftrightarrow> unat ?b = 0xBFF" by (simp add: word_unat_eq_iff layout_defs)
  ultimately have "unat (rx_next ?b) = (if Suc (unat ?b) = 0xC00 then 0 else Suc (unat ?b))"
    by (auto simp: rx_next_def layout_defs unat_add16)
  then show ?case using b by (simp add: mod_Suc)
qed (simp add: layout_defs le16_iff)

lemma plain_chain:
  "RXSTOP_INIT < a \<Longrightarrow> unat a + k \<le> 0xFFFF \<Longrightarrow> (rx_next ^^ k) a = a + word_of_nat k"
proof (induction k)
  case (Suc k)
  have "unat (a + word_of_nat k) = unat a + k" using Suc.prems by (simp add: unat_add16 unat_of_nat16)
  then have "a + word_of_nat k \<noteq> RXSTOP_INIT" using Suc.prems by (auto simp: less16)
  then show ?case using Suc by (simp add: rx_next_def ac_simps)
qed simp

lemma driver_copy_end:
  "driver_copy src dst len s = (case copy_end src dst len of
     None \<Rightarrow> (False, s)
   | Some e \<Rightarrow> if dma_busy (chip s) then (False, s) else (True, s\<lparr>ram := dma (chip s) src e dst (ram s)\<rparr>))"
  by (auto simp: driver_copy_def copy_end_def Let_def)

lemma copy_end_chain:
  assumes "copy_end src dst len = Some e" and "len < 0xC00"
  shows "e = (rx_next ^^ unat len) src" and "i < unat len \<Longrightarrow> (rx_next ^^ i) src \<noteq> e"
    and "RXSTOP_INIT < dst" and "unat dst + unat len \<le> 0x1FFF" and "src \<le> 0x1FFF"
proof -
  have n: "unat len < 0xC00" using assms(2) by (simp add: less16)
  have b: "src \<le> 0x1FFF" "dst \<le> 0x1FFF" "RXSTOP_INIT < dst" "dst + len \<le> 0x1FFF"
    using assms(1) by (auto simp: copy_end_def Let_def layout_defs not_le split: if_splits)
  then show "RXSTOP_INIT < dst" "src \<le> 0x1FFF" by simp_all
  have "unat (dst + len) = unat dst + unat len" using b(2) n by (intro unat_add16) (simp add: le16_iff)
  then show "unat dst + unat len \<le> 0x1FFF" using b(4) by (simp add: le16_iff)
  have sum: "unat (src + len) = unat src + unat len" using b(1) n by (intro unat_add16) (simp add: le16_iff)
  have "e = (rx_next ^^ unat len) src \<and> (\<forall>i<unat len. (rx_next ^^ i) src \<noteq> e)"
  proof (cases "src \<le> RXSTOP_INIT")
    case True
    have s: "unat src < 0xC00" using True by (simp add: layout_defs le16_iff)
    have "unat e = (unat src + unat len) mod 0xC00"
    proof (cases "src + len \<le> RXSTOP_INIT")
      case t: True
      then have "e = src + len" using assms(1) True by (auto simp: copy_end_def Let_def split: if_splits)
      then show ?thesis using sum t by (simp add: layout_defs le16_iff)
    next
      case False
      then have f: "0xC00 \<le> unat src + unat len" "0xC00 \<le> src + len" using sum by (simp_all add: layout_defs le16_iff)
      have "e = src + len - 0xC00" using assms(1) True False by (auto simp: copy_end_def Let_def layout_defs split: if_splits)
      then show ?thesis using f s n sum by (simp add: unat_sub16 mod_if)
    qed
    moreover have "(unat src + i) mod 0xC00 \<noteq> (unat src + unat len) mod 0xC00" if "i < unat len" for i
      using that n s by (auto simp: mod_if)
    ultimately show ?thesis using rx_chain [OF True] by (auto simp: word_unat_eq_iff)
  next
    case False
    then have "e = src + len" using assms(1) by (auto simp: copy_end_def Let_def layout_defs split: if_splits)
    moreover have "unat ((rx_next ^^ i) src) = unat src + i" if "i \<le> unat len" for i
    proof -
      have "(rx_next ^^ i) src = src + word_of_nat i"
        using that False [unfolded not_le] n b(1) by (intro plain_chain) (auto simp: le16_iff)
      then show ?thesis using that n b(1) by (simp add: unat_add16 unat_of_nat16 le16_iff)
    qed
    ultimately show ?thesis using sum by (auto simp: word_unat_eq_iff)
  qed
  then show "e = (rx_next ^^ unat len) src" "i < unat len \<Longrightarrow> (rx_next ^^ i) src \<noteq> e" by auto
qed

lemma copy_end_accepts:
  assumes "len < 0xC00"
  shows "copy_end src dst len \<noteq> None \<longleftrightarrow> RXSTOP_INIT < dst \<and> unat dst + unat len \<le> 0x1FFF \<and> src \<le> 0x1FFF
    \<and> (RXSTOP_INIT < src \<longrightarrow> unat src + unat len \<le> 0x1FFF)"
proof -
  have n: "unat len < 0xC00" using assms by (simp add: less16)
  have "unat (a + len) = unat a + unat len" if "a \<le> 0x1FFF" for a
    using that n by (intro unat_add16) (simp add: le16_iff)
  moreover have "unat dst + unat len \<le> 0x1FFF \<Longrightarrow> dst \<le> 0x1FFF" by (simp add: le16_iff)
  moreover have "src + len - 0xC00 \<le> RXSTOP_INIT" if "src \<le> RXSTOP_INIT" "\<not> src + len \<le> RXSTOP_INIT"
  proof -
    have "unat (src + len) = unat src + unat len" using that n by (intro unat_add16) (simp add: layout_defs le16_iff)
    then show ?thesis using that n by (simp add: layout_defs le16_iff unat_sub16)
  qed
  ultimately show ?thesis
    by (auto simp: copy_end_def Let_def layout_defs le16_iff less16)
qed

definition copy_accepted :: "u16 \<Rightarrow> u16 \<Rightarrow> u16 \<Rightarrow> bool" where
  "copy_accepted src dst len = (RXSTOP_INIT < dst \<and> unat dst + unat len \<le> 0x1FFF \<and> src \<le> 0x1FFF
     \<and> (RXSTOP_INIT < src \<longrightarrow> unat src + unat len \<le> 0x1FFF))"

lemma driver_copy_steps:
  assumes "copies_by_dma (chip s)" and "len < 0xC00"
  shows "driver_copy src dst len s =
    (if copy_accepted src dst len then (True, s\<lparr>ram := dma_steps (unat len) src dst (ram s)\<rparr>) else (False, s))"
proof (cases "copy_end src dst len")
  case None
  then show ?thesis using copy_end_accepts [OF assms(2), of src dst] by (auto simp: driver_copy_end copy_accepted_def)
next
  case (Some e)
  note c = copy_end_chain [OF Some assms(2)]
  have n: "unat len < 0xC00" using assms(2) by (simp add: less16)
  have "unat (dst + len) = unat dst + unat len" using c(4) by (intro unat_add16) simp
  then have d: "dst \<le> 0x1FFF" "dst + len \<le> 0x1FFF" using c(4) by (simp_all add: le16_iff)
  have "dma (chip s) src e dst (ram s) = dma_steps (unat len) src dst (ram s)"
    using assms(1) c(1,2) d n by (simp add: copies_by_dma_def)
  then show ?thesis
    using copy_end_accepts [OF assms(2), of src dst] assms(1) Some by (auto simp: driver_copy_end copies_by_dma_def copy_accepted_def)
qed

lemma driver_copy_bytes:
  assumes "copies_by_dma (chip s)" and "len < 0xC00"
    and "\<forall>i\<le>unat len. \<forall>j\<le>unat len. (rx_next ^^ i) src \<noteq> dst + word_of_nat j"
  shows "driver_copy src dst len s = (if copy_accepted src dst len
     then (True, s\<lparr>ram := (\<lambda>a. if a - dst \<le> len then ram s ((rx_next ^^ unat (a - dst)) src) else ram s a)\<rparr>)
     else (False, s))"
proof -
  have "unat len < 65536" by simp
  then have "dma_steps (unat len) src dst (ram s) = (\<lambda>a. if a - dst \<le> len then ram s ((rx_next ^^ unat (a - dst)) src) else ram s a)"
    using dma_steps_bytes [OF _ assms(3)] by (intro ext) (simp add: le16_iff)
  then show ?thesis using driver_copy_steps [OF assms(1,2)] by simp
qed

section \<open>Windows of the send buffer and of the scratch area\<close>

text \<open>Where a window of one of the two buffers lies in the packet memory.\<close>

definition on_controller :: "buffer \<Rightarrow> bool" where
  "on_controller b = (getBufferType b = 2 \<and> getRootBuffer b \<in> {getSendBuffer, getStashBuffer})"

definition place :: "buffer \<Rightarrow> u16" where
  "place b = (if getRootBuffer b = getSendBuffer then TXSTART_INIT + 1 else STASH_START_INIT) + getRootBufferOffset b"

lemmas driver_buffers = getSendBuffer_def getStashBuffer_def ENC28J60Buffer_new_def layout_defs

lemma enc_cells:
  assumes "unat st + unat l \<le> unat en + 1"
  shows "b_cells (ENC28J60Buffer st en 0 l False) = map (\<lambda>i. Ram (st + word_of_nat i)) [0 ..< unat l]"
proof -
  have "enc_cell st en 0 False i = st + word_of_nat i" if "i < unat l" for i
  proof -
    have i: "unat st + i < 65536" using that assms unat16_less [of en] by linarith
    then have "unat (word_of_nat i :: u16) = i" by (intro unat_of_nat16) simp
    with i have "unat (st + word_of_nat i) = unat st + i" by (simp add: unat_add16)
    then show ?thesis using that assms by (simp add: enc_cell_def enc_address_def Let_def less16)
  qed
  then show ?thesis by simp
qed

lemma on_controller_root:
  assumes "on_controller b"
  shows "\<exists>st l en. getRootBuffer b = ENC28J60Buffer st en 0 l False \<and> place b = st + getRootBufferOffset b
    \<and> unat st + unat l \<le> unat en + 1 \<and> unat en < 0x2000
    \<and> ((getRootBuffer b = getSendBuffer \<and> st = 0xC01 \<and> l = 1500) \<or> (getRootBuffer b = getStashBuffer \<and> st = 0x1200 \<and> l = 0xE00))"
  using assms by (auto simp: on_controller_def place_def driver_buffers)

lemma enc_copyTo_plain:
  assumes "unat st + unat l \<le> unat en + 1" and "unat en < 0x2000" and "unat ss + unat n \<le> unat l" and "0 < n"
    and "unat st' + unat l' \<le> unat en' + 1" and "unat en' < 0x2000" and "unat ds + unat n \<le> unat l'"
  shows "enc_copyTo (ENC28J60Buffer st en 0 l False) (ENC28J60Buffer st' en' 0 l' False) ds ss n s = driver_copy (st + ss) (st' + ds) n s"
proof -
  have n: "0 < unat n" using assms(4) by (simp add: unat_gt_0)
  have b: "\<not> unat e < unat (a + o' + n - 1)" if "unat a + unat k \<le> unat e + 1" "unat e < 0x2000" "unat o' + unat n \<le> unat k"
    for a k e o' :: u16
  proof -
    have u: "unat (a + o') = unat a + unat o'" using that by (intro unat_add16) simp
    then have "unat (a + o' + n) = unat a + unat o' + unat n" using that unat_add16 [of "a + o'" n] by simp
    moreover from this have "a + o' + n \<noteq> 0" using n by (metis add_is_0 unat_0 less_irrefl)
    ultimately show ?thesis using that n unat_minus_one [of "a + o' + n"] by simp
  qed
  show ?thesis
    using b [OF assms(1-3)] b [OF assms(5-7)] assms(3) by (simp add: enc_copyTo_def Let_def less16 add.assoc)
qed

lemma place_cells:
  assumes "b_fits nx b" and "on_controller b"
  shows "b_cells b = map (\<lambda>i. Ram (place b + word_of_nat i)) [0 ..< unat (b_size b)]"
    and "RXSTOP_INIT < place b" and "unat (place b) + unat (b_size b) \<le> 0x2000"
    and "getRootBuffer b = getSendBuffer \<Longrightarrow> unat (place b) + unat (b_size b) \<le> 0x11DD"
    and "getRootBuffer b = getStashBuffer \<Longrightarrow> 0x1200 \<le> place b"
proof -
  let ?o = "getRootBufferOffset b" and ?n = "unat (b_size b)"
  have ty: "getBufferType b = 2" and r: "getRootBuffer b \<in> {getSendBuffer, getStashBuffer}"
    using assms(2) by (simp_all add: on_controller_def)
  note root = b_cells_root [OF assms(1) ty]
  from on_controller_root [OF assms(2)] obtain st l en where b: "getRootBuffer b = ENC28J60Buffer st en 0 l False" "place b = st + ?o" "unat st + unat l \<le> unat en + 1"
    "(getRootBuffer b = getSendBuffer \<and> st = 0xC01 \<and> l = 1500) \<or> (getRootBuffer b = getStashBuffer \<and> st = 0x1200 \<and> l = 0xE00)"
    by blast
  have o: "unat ?o + ?n \<le> unat l" using root(2) b(1) by simp
  then have p: "unat (place b) = unat st + unat ?o" using b(4) unfolding b(2) by (intro unat_add16) auto
  have d: "getSendBuffer \<noteq> getStashBuffer" by (simp add: driver_buffers)
  show "RXSTOP_INIT < place b" "unat (place b) + ?n \<le> 0x2000"
    "getRootBuffer b = getSendBuffer \<Longrightarrow> unat (place b) + ?n \<le> 0x11DD"
    "getRootBuffer b = getStashBuffer \<Longrightarrow> 0x1200 \<le> place b"
    using b(4) o p d by (auto simp: layout_defs less16 le16_iff)
  have "window (unat ?o) ?n [0 ..< unat l] = [unat ?o ..< unat ?o + ?n]"
    using o by (simp add: window_def drop_upt take_upt)
  then have "b_cells b = map (\<lambda>i. Ram (st + word_of_nat i)) [unat ?o ..< unat ?o + ?n]"
    unfolding root(3) b(1) enc_cells [OF b(3)] by (simp flip: map_window)
  also have "\<dots> = map (\<lambda>i. Ram (place b + word_of_nat i)) [0 ..< ?n]"
    unfolding b(2) by (intro nth_equalityI) (simp_all add: ac_simps)
  finally show "b_cells b = map (\<lambda>i. Ram (place b + word_of_nat i)) [0 ..< ?n]" .
qed

lemma place_bytes:
  assumes "b_ok s b" and "on_controller b"
  shows "b_bytes s b = map (\<lambda>i. ram s (place b + word_of_nat i)) [0 ..< unat (b_size b)]"
  unfolding b_bytes_def place_cells(1) [OF assms [unfolded b_ok_def]] by simp

lemma Offset_on_controller: "on_controller b \<Longrightarrow> \<exists>i off l. b = OffsetBuffer i off l"
  by (cases b) (auto simp: on_controller_def)

text \<open>\<^verbatim>\<open>copyTo\<close> from a window to another ends in one DMA copy, of one byte more than it was asked for.\<close>

definition dma_copied :: "u16 \<Rightarrow> u16 \<Rightarrow> u16 \<Rightarrow> (u16 \<Rightarrow> u8) \<Rightarrow> u16 \<Rightarrow> u8" where
  "dma_copied src dst n m = (\<lambda>a. if a - dst \<le> n then m (src + (a - dst)) else m a)"

lemma copyTo_on_controller:
  assumes "b_ok s src" and "b_ok s dst" and "on_controller src" and "on_controller dst" and "copies_by_dma (chip s)"
    and "0 < n" and "n < 0xC00" and "n \<le> b_size src" and "n \<le> b_size dst"
    and "unat (place src) + unat n \<le> 0x1FFF" and "unat (place dst) + unat n \<le> 0x1FFF"
    and "unat (place src) + unat n < unat (place dst) \<or> unat (place dst) + unat n < unat (place src)"
  shows "copyTo src dst 0 0 n s = Some (True, s\<lparr>ram := dma_copied (place src) (place dst) n (ram s)\<rparr>)"
proof -
  note ps = place_cells [OF assms(1) [unfolded b_ok_def] assms(3)] and pd = place_cells [OF assms(2) [unfolded b_ok_def] assms(4)]
  let ?rs = "getRootBuffer src" and ?os = "getRootBufferOffset src"
  let ?rd = "getRootBuffer dst" and ?od = "getRootBufferOffset dst"
  have ty: "getBufferType src = 2" "getBufferType dst = 2" using assms(3,4) by (simp_all add: on_controller_def)
  have le: "unat n \<le> unat (b_size src)" "unat n \<le> unat (b_size dst)" using assms(8,9) by (simp_all add: le16_iff)
  obtain i off l where src: "src = OffsetBuffer i off l" using Offset_on_controller [OF assms(3)] by blast
  have "copyTo src dst 0 0 n s = copyTo ?rs ?rd ?od ?os n s"
    using assms(6,8,9) ty by (subst copyTo.simps) (auto simp: src Let_def)
  also have "\<dots> = Some (enc_copyTo ?rs ?rd ?od ?os n s)"
    using assms(3,4,6) by (subst copyTo.simps) (auto simp: on_controller_def driver_buffers)
  also have "enc_copyTo ?rs ?rd ?od ?os n s = driver_copy (place src) (place dst) n s"
  proof -
    obtain st l en where S: "?rs = ENC28J60Buffer st en 0 l False" "place src = st + ?os" "unat st + unat l \<le> unat en + 1" "unat en < 0x2000"
      using on_controller_root [OF assms(3)] by blast
    obtain st' l' en' where D: "?rd = ENC28J60Buffer st' en' 0 l' False" "place dst = st' + ?od" "unat st' + unat l' \<le> unat en' + 1" "unat en' < 0x2000"
      using on_controller_root [OF assms(4)] by blast
    have "unat ?os + unat n \<le> unat l" "unat ?od + unat n \<le> unat l'"
      using b_cells_root(2) [OF assms(1) [unfolded b_ok_def] ty(1)] b_cells_root(2) [OF assms(2) [unfolded b_ok_def] ty(2)] le S(1) D(1) by simp_all
    then show ?thesis unfolding S(1,2) D(1,2) by (intro enc_copyTo_plain S D assms(6))
  qed
  finally have c: "copyTo src dst 0 0 n s = Some (driver_copy (place src) (place dst) n s)" .
  have chain: "(rx_next ^^ i) (place src) = place src + word_of_nat i" "unat (place src + word_of_nat i) = unat (place src) + i"
    if "i \<le> unat n" for i
    using that ps(2) assms(10) by (simp_all add: plain_chain unat_add16 unat_of_nat16)
  have dj: "\<forall>i\<le>unat n. \<forall>j\<le>unat n. (rx_next ^^ i) (place src) \<noteq> place dst + word_of_nat j"
  proof (intro allI impI)
    fix i j assume "i \<le> unat n" and "j \<le> unat n"
    moreover from this have "unat (place dst + word_of_nat j) = unat (place dst) + j"
      using assms(11) by (simp add: unat_add16 unat_of_nat16)
    ultimately show "(rx_next ^^ i) (place src) \<noteq> place dst + word_of_nat j"
      using chain [of i] assms(12) by (auto simp: word_unat_eq_iff)
  qed
  have "(rx_next ^^ unat (a - place dst)) (place src) = place src + (a - place dst)" if "a - place dst \<le> n" for a
    using chain(1) [of "unat (a - place dst)"] that by (simp add: le16_iff)
  then show ?thesis
    unfolding c driver_copy_bytes [OF assms(5,7) dj] using ps(2) pd(2) assms(10,11)
    by (auto simp: copy_accepted_def dma_copied_def le16_iff fun_eq_iff intro!: arg_cong [where f = "\<lambda>m. s\<lparr>ram := m\<rparr>"])
qed

lemma copy_loop_frame:
  assumes "b_wok s dst" and "unat ds + unat off + k \<le> unat (b_size dst)" and "set (b_cells b) \<inter> set (b_cells dst) = {}"
  shows "rest_same s (snd (copy_loop src dst ds ss off k s)) \<and> b_bytes (snd (copy_loop src dst ds ss off k s)) b = b_bytes s b"
  using assms
proof (induction k arbitrary: off s)
  case (Suc k)
  show ?case
  proof (cases "read8 (b_read s src) (ss + off)")
    case (Some d)
    let ?s = "snd (b_write dst (ds + off) [d] s)"
    have lt: "unat ds + unat off < unat (b_size dst)" using Suc.prems by simp
    then have o: "unat (ds + off) = unat ds + unat off" "unat (off + 1) = unat off + 1"
      by (auto intro: unat_add16_below unat_Suc16 [where c = "b_size dst", simplified])
    have "b_bytes ?s b = b_bytes s b" using Suc.prems o lt by (intro b_write_frame) auto
    moreover have rs: "rest_same s ?s" by (rule rest_same_b_write)
    moreover have "b_wok ?s dst" using Suc.prems(1) rest_same_wok [OF rs] by simp
    ultimately show ?thesis
      using Suc.IH [of ?s "off + 1"] Suc.prems o Some
      by (auto simp: write8_def case_prod_beta intro: rest_same_trans)
  qed simp
qed simp

section \<open>Copies that work\<close>

text \<open>The two cases in which the copies of a socket end: memory of the microcontroller, and the two buffers of the driver.\<close>

definition can_copy :: "'a store_scheme \<Rightarrow> buffer \<Rightarrow> buffer \<Rightarrow> u16 \<Rightarrow> bool" where
  "can_copy s src dst n = (b_ok s src \<and> b_wok s dst \<and> getBufferType src = 2 \<and> getBufferType dst = 2
     \<and> set (b_cells src) \<inter> set (b_cells dst) = {} \<and> n \<noteq> 0 \<and> n \<le> b_size src \<and> n \<le> b_size dst
     \<and> (getBufferType (getRootBuffer src) = 1
        \<or> on_controller src \<and> on_controller dst \<and> getRootBuffer src \<noteq> getRootBuffer dst \<and> copies_by_dma (chip s)
          \<and> unat (place src) + unat n \<le> 0x1FFF \<and> unat (place dst) + unat n \<le> 0x1FFF))"

lemma can_copy_chip: "chip s' = chip s \<Longrightarrow> can_copy s' src dst n = can_copy s src dst n"
  by (simp add: can_copy_def b_ok_def b_wok_def)

lemma can_copy_smaller: "can_copy s src dst n \<Longrightarrow> k \<noteq> 0 \<Longrightarrow> k \<le> n \<Longrightarrow> can_copy s src dst k"
  by (auto simp: can_copy_def le16_iff)

text \<open>A buffer of the microcontroller, or one of received data.\<close>

definition receive_side :: "buffer \<Rightarrow> bool" where
  "receive_side b = (\<forall>a. Ram a \<in> set (b_cells b) \<longrightarrow> a \<le> RXSTOP_INIT)"

lemma dma_copied_receive_side:
  assumes "receive_side b" and "RXSTOP_INIT < dst" and "unat dst + unat n \<le> 0x1FFF"
  shows "b_bytes (s\<lparr>ram := dma_copied src dst n (ram s)\<rparr>) b = b_bytes s b"
proof -
  have "fetch (s\<lparr>ram := dma_copied src dst n (ram s)\<rparr>) c = fetch s c" if "c \<in> set (b_cells b)" for c
  proof (cases c)
    case (Ram a)
    then have "a \<le> RXSTOP_INIT" using assms(1) that by (simp add: receive_side_def)
    then have "\<not> a - dst \<le> n" using assms(2,3) by (auto simp: le16_iff less16 RXSTOP_INIT_def unat_sub_if')
    then show ?thesis by (simp add: Ram dma_copied_def)
  qed simp
  then show ?thesis by (simp add: b_bytes_def)
qed

lemma dma_copied_bytes:
  assumes "b_ok s b" and "on_controller b" and "\<forall>i<unat (b_size b). n < place b + word_of_nat i - dst"
  shows "b_bytes (s\<lparr>ram := dma_copied src dst n (ram s)\<rparr>) b = b_bytes s b"
proof -
  have "b_ok (s\<lparr>ram := dma_copied src dst n (ram s)\<rparr>) b" using assms(1) by (simp add: b_ok_def)
  then show ?thesis
    using assms by (simp add: place_bytes dma_copied_def not_le [symmetric])
qed

lemma can_copy_copies:
  assumes "can_copy s src dst n"
  shows "\<exists>s'. copyTo src dst 0 0 n s = Some (True, s') \<and> rest_same s s' \<and> take (unat n) (b_bytes s' dst) = take (unat n) (b_bytes s src)
    \<and> (\<forall>b. b_ok s b \<longrightarrow> getBufferType b = 2 \<longrightarrow> getRootBuffer b = getRootBuffer src \<longrightarrow> set (b_cells b) \<inter> set (b_cells dst) = {}
         \<longrightarrow> b_bytes s' b = b_bytes s b)
    \<and> (\<forall>b. receive_side b \<longrightarrow> set (b_cells b) \<inter> set (b_cells dst) = {} \<longrightarrow> b_bytes s' b = b_bytes s b)"
proof -
  note c = assms [unfolded can_copy_def]
  have n: "0 < unat n" "unat n \<le> unat (b_size src)" "unat n \<le> unat (b_size dst)" using c by (simp_all add: unat_gt_0 le16_iff)
  have src: "unat n \<le> length (b_bytes s src)" using c n by (simp add: buf.length_bytes)
  show ?thesis
  proof (cases "getBufferType (getRootBuffer src) = 1")
    case True
    let ?s = "snd (copy_loop src dst 0 0 0 (unat n) s)"
    have w: "b_wok s dst" "set (b_cells src) \<inter> set (b_cells dst) = {}" using c by auto
    have "copyTo src dst 0 0 n s = Some (copy_loop src dst 0 0 0 (unat n) s)"
      using c n True by (intro copyTo_Offset_Mem_root) simp_all
    moreover have "fst (copy_loop src dst 0 0 0 (unat n) s)" "b_bytes ?s dst = put 0 (window 0 (unat n) (b_bytes s src)) (b_bytes s dst)"
      using copy_loop_bytes [of s src dst 0 0 "unat n" 0] c n by simp_all
    moreover have "rest_same s ?s" "\<And>b. set (b_cells b) \<inter> set (b_cells dst) = {} \<Longrightarrow> b_bytes ?s b = b_bytes s b"
      using copy_loop_frame [OF w(1), of 0 0 "unat n" _ src 0] w(2) n by auto
    ultimately show ?thesis using src by (intro exI [of _ ?s]) (auto simp: prod_eq_iff put_def window_def)
  next
    case False
    then have o: "on_controller src" "on_controller dst" "getRootBuffer src \<noteq> getRootBuffer dst" "copies_by_dma (chip s)"
      "unat (place src) + unat n \<le> 0x1FFF" "unat (place dst) + unat n \<le> 0x1FFF" using c by auto
    have ok: "b_ok s src" "b_ok s dst" using c by (auto simp: buf.wok_ok)
    have fin: "(getRootBuffer b = getSendBuffer \<and> unat (place b) + unat (b_size b) \<le> 0x11DD)
        \<or> (getRootBuffer b = getStashBuffer \<and> 0x1200 \<le> unat (place b))" if "b_ok s b" "on_controller b" for b
      using place_cells(4,5) [OF that [unfolded b_ok_def]] that(2) by (auto simp: on_controller_def le16_iff)
    have pos: "0xC00 \<le> unat (place src)" "0xC00 \<le> unat (place dst)"
      using place_cells(2) [OF ok(1) [unfolded b_ok_def] o(1)] place_cells(2) [OF ok(2) [unfolded b_ok_def] o(2)] by (simp_all add: layout_defs less16)
    have apart: "unat (place src) + unat n < unat (place dst) \<or> unat (place dst) + unat n < unat (place src)" and lt: "unat n < 0xC00"
      using fin [OF ok(1) o(1)] fin [OF ok(2) o(2)] o(3) n pos by auto
    let ?s = "s\<lparr>ram := dma_copied (place src) (place dst) n (ram s)\<rparr>"
    have cp: "copyTo src dst 0 0 n s = Some (True, ?s)"
      using c lt by (intro copyTo_on_controller ok o apart) (simp_all add: word_neq_0_conv less16)
    have ok': "b_ok ?s dst" using ok(2) by (simp add: b_ok_def)
    have "b_bytes ?s dst = map (\<lambda>i. dma_copied (place src) (place dst) n (ram s) (place dst + word_of_nat i)) [0 ..< unat (b_size dst)]"
      using place_bytes [OF ok' o(2)] by simp
    moreover have "dma_copied (place src) (place dst) n (ram s) (place dst + word_of_nat i) = ram s (place src + word_of_nat i)"
      if "i < unat n" for i
      using that lt by (simp add: dma_copied_def le16_iff unat_of_nat16)
    ultimately have "take (unat n) (b_bytes ?s dst) = take (unat n) (b_bytes s src)"
      using n by (intro nth_equalityI) (simp_all add: place_bytes [OF ok(1) o(1)])
    moreover have "b_bytes ?s b = b_bytes s b" if b: "b_ok s b" "getBufferType b = 2" "getRootBuffer b = getRootBuffer src" for b
    proof (rule dma_copied_bytes [OF b(1)])
      show ob: "on_controller b" using o(1) b(2,3) by (simp add: on_controller_def)
      show "\<forall>i<unat (b_size b). n < place b + word_of_nat i - place dst"
      proof (intro allI impI)
        fix i assume i: "i < unat (b_size b)"
        let ?a = "place b + word_of_nat i"
        have "unat ?a = unat (place b) + i"
          using i place_cells(3) [OF b(1) [unfolded b_ok_def] ob] by (subst unat_add16) (simp_all add: unat_of_nat16)
        then have "unat ?a < unat (place dst) \<and> unat (place dst) < 0x2000 \<or> unat (place dst) + unat n < unat ?a"
          using fin [OF b(1) ob] fin [OF ok(2) o(2)] i b(3) o(3,6) n by auto
        then show "n < ?a - place dst" using lt by (auto simp: less16 unat_sub_if')
      qed
    qed
    moreover have "b_bytes ?s b = b_bytes s b" if "receive_side b" for b
      using dma_copied_receive_side [OF that _ o(6)] place_cells(2) [OF ok(2) [unfolded b_ok_def] o(2)] by blast
    ultimately show ?thesis using cp by (intro exI [of _ ?s]) (simp add: rest_same_def)
  qed
qed

section \<open>Properties\<close>

text \<open>
  C31: The bounds of a copy. \<^verbatim>\<open>ENC28J60Driver::copy\<close> accepts exactly the destinations behind the receive buffer for which source and destination end
  before the last byte of the packet memory; a source in the receive buffer goes round the ring. A refused copy changes nothing. An
  accepted one changes nothing but the bytes from the destination on, \<open>len + 1\<close> of them since EDMAND is inclusive, which are those of the
  source if the two do not overlap; the receive buffer and all other state stay as they are.
\<close>

theorem controller_copy:
  assumes "copies_by_dma (chip s)" and "len < 0xC00"
  shows "\<exists>m. driver_copy src dst len s = (if copy_accepted src dst len then (True, s\<lparr>ram := m\<rparr>) else (False, s))
    \<and> (\<forall>a. m a \<noteq> ram s a \<longrightarrow> copy_accepted src dst len \<and> a - dst \<le> len \<and> RXSTOP_INIT < a \<and> a \<le> 0x1FFF)
    \<and> (copy_accepted src dst len \<longrightarrow> (\<forall>i\<le>unat len. \<forall>j\<le>unat len. (rx_next ^^ i) src \<noteq> dst + word_of_nat j)
        \<longrightarrow> (\<forall>i\<le>unat len. m (dst + word_of_nat i) = ram s ((rx_next ^^ i) src)))"
proof (cases "copy_accepted src dst len")
  case True
  let ?m = "dma_steps (unat len) src dst (ram s)"
  have n: "unat len < 65536" by simp
  have a: "a - dst \<le> len" if "?m a \<noteq> ram s a" for a using dma_steps_frame [OF n, of a dst src "ram s"] that by (auto simp: le16_iff not_less [symmetric])
  have b: "RXSTOP_INIT < a \<and> a \<le> 0x1FFF" if "a - dst \<le> len" for a
  proof -
    have "unat (dst + (a - dst)) = unat dst + unat (a - dst)"
      using True that by (intro unat_add16) (simp add: copy_accepted_def le16_iff)
    then show ?thesis using True that by (simp add: copy_accepted_def le16_iff less16)
  qed
  have "?m (dst + word_of_nat i) = ram s ((rx_next ^^ i) src)"
    if "i \<le> unat len" "\<forall>i\<le>unat len. \<forall>j\<le>unat len. (rx_next ^^ i) src \<noteq> dst + word_of_nat j" for i
  proof -
    have "i < 65536" using that(1) n by linarith
    then show ?thesis using dma_steps_bytes [OF n that(2)] that(1) by (simp add: unat_of_nat16)
  qed
  then show ?thesis
    using driver_copy_steps [OF assms, of src dst] True a b by (intro exI [of _ ?m]) auto
next
  case False
  then show ?thesis using driver_copy_steps [OF assms, of src dst] by (intro exI [of _ "ram s"]) simp
qed

text \<open>A controller for the examples: the copies it makes are those of the data sheet.\<close>

definition dma_chip :: chip_if where
  "dma_chip = \<lparr>rdnext = rx_next, wrnext = (\<lambda>a. a + 1), dma_busy = False,
     dma = (\<lambda>src end dst m. dma_steps (LEAST k. (rx_next ^^ k) src = end) src dst m)\<rparr>"

lemma copies_by_dma_chip: "copies_by_dma dma_chip"
proof -
  have "(LEAST i. (rx_next ^^ i) src = (rx_next ^^ k) src) = k" if "\<forall>i<k. (rx_next ^^ i) src \<noteq> (rx_next ^^ k) src" for k src
    using that by (intro Least_equality) (auto simp: not_less [symmetric])
  then show ?thesis by (simp add: copies_by_dma_def dma_chip_def)
qed

definition dma_store :: store where
  "dma_store = \<lparr>sram = (\<lambda>_. 0), ram = (\<lambda>a. ucast a), chip = dma_chip\<rparr>"

theorem controller_copy_witness:
  "\<exists>s'. driver_copy 0xBFE 0x1200 3 dma_store = (True, s') \<and> ram s' 0x1200 = 0xFE \<and> ram s' 0x1202 = 0 \<and> ram s' 0x1203 = 1 \<and> ram s' 0x1204 = 4"
proof -
  have c: "copies_by_dma (chip dma_store)" and r: "ram dma_store = ucast" by (simp_all add: dma_store_def copies_by_dma_chip fun_eq_iff)
  have ac: "copy_accepted 0xBFE 0x1200 3" by (simp add: copy_accepted_def layout_defs)
  have all: "(\<forall>i\<le>unat (3 :: u16). P i) \<longleftrightarrow> P 0 \<and> P 1 \<and> P 2 \<and> P 3" for P
  proof -
    have "i \<le> unat (3 :: u16) \<longleftrightarrow> i = 0 \<or> i = 1 \<or> i = 2 \<or> i = 3" for i by auto
    then show ?thesis by auto
  qed
  have st: "rx_next 0xBFE = 0xBFF" "(rx_next ^^ 2) 0xBFE = 0" "(rx_next ^^ 3) 0xBFE = 1"
    by code_simp+
  have dj: "\<forall>i\<le>unat (3 :: u16). \<forall>j\<le>unat (3 :: u16). (rx_next ^^ i) 0xBFE \<noteq> 0x1200 + word_of_nat j"
    unfolding all by (simp add: st)
  obtain m where m: "driver_copy 0xBFE 0x1200 3 dma_store = (if copy_accepted 0xBFE 0x1200 3 then (True, dma_store\<lparr>ram := m\<rparr>) else (False, dma_store))"
    "\<forall>a. m a \<noteq> ucast a \<longrightarrow> copy_accepted 0xBFE 0x1200 3 \<and> a - 0x1200 \<le> 3 \<and> RXSTOP_INIT < a \<and> a \<le> 0x1FFF"
    "\<forall>i\<le>unat (3 :: u16). m (0x1200 + word_of_nat i) = ucast ((rx_next ^^ i) 0xBFE)"
    using controller_copy [OF c, where len = 3 and src = "0xBFE" and dst = "0x1200"] ac dj unfolding r by auto
  have "m 0x1204 = ucast (0x1204 :: u16)" using m(2) [rule_format, of "0x1204"] by auto
  then show ?thesis using m(1) m(3) [unfolded all] ac by (simp add: st)
qed

text \<open>
  C32: A full stash reaches into the next. The stashes of the sockets lie behind each other in the scratch area. When a socket keeps a copy
  of as much data as its stash holds, the copy is good, but it also overwrites the first byte of the stash behind it: what the socket
  there sends again after a loss is no longer what its application gave it.
\<close>

theorem full_stash_spoils_next:
  fixes s :: "'a store_scheme" and off m :: u16
  defines "this \<equiv> OffsetBuffer getStashBuffer off m" and "next \<equiv> OffsetBuffer getStashBuffer (off + m) m"
  assumes "copies_by_dma (chip s)" and "b_ok s src" and "on_controller src" and "getRootBuffer src = getSendBuffer"
    and "b_ok s this" and "b_ok s next" and "m \<noteq> 0" and "m < b_size src" and "unat off + 2 * unat m \<le> 0xE00"
  shows "\<exists>s'. copyTo src this 0 0 m s = Some (True, s') \<and> b_bytes s' this = take (unat m) (b_bytes s src)
    \<and> b_bytes s' next = (b_bytes s src ! unat m) # tl (b_bytes s next)"
proof -
  have d: "getSendBuffer \<noteq> getStashBuffer" and ty: "getBufferType getStashBuffer \<noteq> 2" by (simp_all add: driver_buffers)
  then have oc: "on_controller this" "on_controller next" by (simp_all add: on_controller_def this_def next_def getStashBuffer_def ENC28J60Buffer_new_def)
  have m: "0 < unat m" "unat m < unat (b_size src)" using assms(9,10) by (simp_all add: unat_gt_0 less16)
  have sz: "b_size this = m" "b_size next = m" by (simp_all add: this_def next_def)
  have pl: "place this = 0x1200 + off" "place next = 0x1200 + off + m"
    using d by (simp_all add: place_def this_def next_def driver_buffers)
  have u: "unat (place this) = 0x1200 + unat off" "unat (place next) = 0x1200 + unat off + unat m"
  proof -
    show *: "unat (place this) = 0x1200 + unat off" unfolding pl using assms(11) by (subst unat_add16) simp_all
    then show "unat (place next) = 0x1200 + unat off + unat m" unfolding pl using assms(11) by (subst unat_add16) simp_all
  qed
  note ps = place_cells [OF assms(4) [unfolded b_ok_def] assms(5)]
  have src: "unat (place src) + unat (b_size src) \<le> 0x11DD" using ps(4) assms(6) by simp
  let ?M = "dma_copied (place src) (place this) m (ram s)" and ?s = "s\<lparr>ram := dma_copied (place src) (place this) m (ram s)\<rparr>"
  have cp: "copyTo src this 0 0 m s = Some (True, ?s)"
    using assms(9,11) u(1) src m sz(1)
    by (intro copyTo_on_controller assms(4,7,5,3) oc(1)) (simp_all add: word_neq_0_conv less16 le16_iff)
  have ok: "b_ok ?s this" "b_ok ?s next" using assms(7,8) by (simp_all add: b_ok_def)
  have M: "?M (place this + word_of_nat i) = ram s (place src + word_of_nat i)" if "i \<le> unat m" for i
  proof -
    have "i < 65536" using that unat16_less [of m] by linarith
    then show ?thesis using that by (simp add: dma_copied_def le16_iff unat_of_nat16)
  qed
  have bytes: "b_bytes s src ! i = ram s (place src + word_of_nat i)" if "i \<le> unat m" for i
    using that m(2) by (simp add: place_bytes [OF assms(4,5)])
  have "b_bytes ?s this = take (unat m) (b_bytes s src)"
    unfolding place_bytes [OF ok(1) oc(1)] sz(1) using m M bytes
    by (intro nth_equalityI) (simp_all add: place_bytes [OF assms(4,5)])
  moreover have "b_bytes ?s next = (b_bytes s src ! unat m) # tl (b_bytes s next)"
  proof (rule nth_equalityI)
    show "length (b_bytes ?s next) = length ((b_bytes s src ! unat m) # tl (b_bytes s next))"
      using m(1) by (simp add: place_bytes [OF ok(2) oc(2)] place_bytes [OF assms(8) oc(2)] sz(2))
    fix i assume "i < length (b_bytes ?s next)"
    then have i: "i < unat m" by (simp add: place_bytes [OF ok(2) oc(2)] sz(2))
    have p: "place next + word_of_nat i = place this + word_of_nat (unat m + i)" by (simp add: pl)
    show "b_bytes ?s next ! i = ((b_bytes s src ! unat m) # tl (b_bytes s next)) ! i"
    proof (cases i)
      case 0
      then show ?thesis using M [of "unat m"] bytes [of "unat m"] i p by (simp add: place_bytes [OF ok(2) oc(2)] sz(2))
    next
      case (Suc j)
      have "unat (word_of_nat (unat m + i) :: u16) = unat m + i" using i assms(11) by (intro unat_of_nat16) simp
      then have "?M (place next + word_of_nat i) = ram s (place next + word_of_nat i)"
        unfolding p using Suc by (simp add: dma_copied_def le16_iff del: of_nat_add)
      then show ?thesis
        using Suc i by (simp add: place_bytes [OF ok(2) oc(2)] place_bytes [OF assms(8) oc(2)] sz(2) nth_tl del: of_nat_Suc)
    qed
  qed
  ultimately show ?thesis using cp by blast
qed

lemma dma_store_ok: "b_ok dma_store getSendBuffer" "b_ok dma_store getStashBuffer"
proof -
  have f: "b_fits rx_next (ENC28J60Buffer st en 0 l False)" if "RXSTOP_INIT < st" "unat st + unat l \<le> unat en + 1" for st en l
  proof -
    have e: "enc_address st en 0 False (word_of_nat i) = Some (st + word_of_nat i)" if i: "i < unat l" for i
    proof -
      have s: "unat st + i < 65536" using i \<open>unat st + unat l \<le> unat en + 1\<close> unat16_less [of en] by linarith
      then have "unat (word_of_nat i :: u16) = i" by (intro unat_of_nat16) simp
      with s have "unat (st + word_of_nat i) = unat st + i" by (simp add: unat_add16)
      then show ?thesis using i \<open>unat st + unat l \<le> unat en + 1\<close> by (simp add: enc_address_def Let_def less16)
    qed
    have "rx_next (st + word_of_nat i) = st + word_of_nat (Suc i)" if "Suc i < unat l" for i
      using plain_chain [OF \<open>RXSTOP_INIT < st\<close>, of i] plain_chain [OF \<open>RXSTOP_INIT < st\<close>, of "Suc i"] that
        \<open>unat st + unat l \<le> unat en + 1\<close> unat16_less [of en] by simp
    moreover have "enc_cell st en 0 False i = st + word_of_nat i" if "i < unat l" for i
      using e [OF that] by (simp add: enc_cell_def)
    ultimately show ?thesis using e by (simp del: of_nat_Suc)
  qed
  have c: "rdnext (chip dma_store) = rx_next" by (simp add: dma_store_def dma_chip_def)
  show "b_ok dma_store getSendBuffer" "b_ok dma_store getStashBuffer"
    unfolding b_ok_def c getSendBuffer_def getStashBuffer_def ENC28J60Buffer_new_def by (intro f; simp add: layout_defs)+
qed

theorem full_stash_spoils_next_witness:
  "\<exists>s'. copyTo (OffsetBuffer getSendBuffer 54 1446) (OffsetBuffer getStashBuffer 0 4) 0 0 4 dma_store = Some (True, s')
    \<and> b_bytes dma_store (OffsetBuffer getStashBuffer 4 4) = [4, 5, 6, 7] \<and> b_bytes s' (OffsetBuffer getStashBuffer 4 4) = [0x3B, 5, 6, 7]"
proof -
  let ?src = "OffsetBuffer getSendBuffer 54 1446" and ?n = "OffsetBuffer getStashBuffer 4 4"
  have sz: "b_size getSendBuffer = 1500" "b_size getStashBuffer = 0xE00" "getBufferType getSendBuffer = 3" "getRootBuffer ?src = getSendBuffer"
    by (simp_all add: driver_buffers)
  have ok: "b_ok dma_store ?src" "b_ok dma_store (OffsetBuffer getStashBuffer 0 4)" "b_ok dma_store (OffsetBuffer getStashBuffer (0 + 4) 4)"
    using dma_store_ok sz by (simp_all add: b_ok_def)
  have oc: "on_controller ?src" "on_controller ?n" by (simp_all add: on_controller_def driver_buffers)
  have c: "copies_by_dma (chip dma_store)" by (simp add: dma_store_def copies_by_dma_chip)
  have n: "b_bytes dma_store ?n = [4, 5, 6, 7]"
    using place_bytes [OF ok(3) [simplified] oc(2)] by (simp add: place_def driver_buffers dma_store_def upt_rec)
  have s: "b_bytes dma_store ?src ! 4 = 0x3B"
    using place_bytes [OF ok(1) oc(1)] by (simp add: place_def driver_buffers dma_store_def)
  have four: "unat (4 :: u16) = 4" "(0 :: u16) + 4 = 4" by simp_all
  show ?thesis
    using full_stash_spoils_next [OF c ok(1) oc(1) sz(4) ok(2,3)] unfolding four n s by simp blast
qed

end
