(* ===== verification/Controller.thy ===== *)
theory Controller
  imports Controller_Copies
begin

text \<open>
  What the driver achieves with a controller that behaves as its data sheet says: the register bank it has noted is
  the one selected, its reads and writes are those of \<open>driver_read\<close> and \<open>driver_write\<close> in Buffers, on which everything above rests,
  and \<^verbatim>\<open>receiveFrame\<close> finds the frame that the controller has stored.
\<close>

section \<open>Transactions\<close>

text \<open>Everything the driver sends while the chip is selected, and the byte that comes back for each.\<close>

fun shift :: "'c spi \<Rightarrow> u8 list \<Rightarrow> 'c \<Rightarrow> u8 list \<times> 'c" where
  "shift hw [] c = ([], c)"
| "shift hw (b # bs) c =
     (let c = spi_xfer hw b c in case shift hw bs c of (rs, c') \<Rightarrow> (spi_data hw c # rs, c'))"

definition transaction :: "'c spi \<Rightarrow> u8 list \<Rightarrow> 'c \<Rightarrow> u8 list \<times> 'c" where
  "transaction hw bs c = (case shift hw bs (spi_select hw c) of (rs, c) \<Rightarrow> (rs, spi_release hw c))"

lemma length_shift [simp]: "length (fst (shift hw bs c)) = length bs"
  by (induction bs arbitrary: c) (simp_all add: Let_def case_prod_beta)

definition op_byte :: "u8 \<Rightarrow> u8 \<Rightarrow> u8" where
  "op_byte op address = (op OR (address AND ADDR_MASK))"

lemma writeOp_transaction:
  "writeOp hw op a b d = d\<lparr>dev := snd (transaction hw [op_byte op a, b] (dev d))\<rparr>"
  by (simp add: writeOp_def transaction_def op_byte_def enableChip_def disableChip_def xferSPI_def Let_def)

lemma readOp_transaction:
  "readOp hw op a d = (let (rs, c) = transaction hw (op_byte op a # 0 # (if a AND 0x80 \<noteq> 0 then [0] else [])) (dev d)
     in (last rs, d\<lparr>dev := c\<rparr>))"
  by (simp add: readOp_def transaction_def op_byte_def enableChip_def disableChip_def xferSPI_def SPDR_def Let_def)

lemma xfer_in_shift: "xfer_in hw n d = (let (rs, c) = shift hw (replicate n 0) (dev d) in (rs, d\<lparr>dev := c\<rparr>))"
  by (induction n arbitrary: d) (simp_all add: xferSPI_def SPDR_def Let_def split: prod.split)

lemma xfer_out_shift: "xfer_out hw bs d = d\<lparr>dev := snd (shift hw bs (dev d))\<rparr>"
  by (induction bs arbitrary: d) (simp_all add: xferSPI_def Let_def split: prod.split)

lemma readBuf_transaction:
  "readBuf hw n d = (let (rs, c) = transaction hw (ENC28J60_READ_BUF_MEM # replicate (unat n) 0) (dev d)
     in (tl rs, d\<lparr>dev := c\<rparr>))"
  by (simp add: readBuf_def transaction_def xfer_in_shift enableChip_def disableChip_def xferSPI_def Let_def split: prod.split)

lemma writeBuf_transaction:
  "writeBuf hw bs d = d\<lparr>dev := snd (transaction hw (ENC28J60_WRITE_BUF_MEM # bs) (dev d))\<rparr>"
  by (simp add: writeBuf_def transaction_def xfer_out_shift enableChip_def disableChip_def xferSPI_def Let_def split: prod.split)

section \<open>The data sheet\<close>

text \<open>
  What the data sheet says of the registers by their numbers (address and bank; the registers from 0x1B on are the same in every bank) and of the
  packet memory. A view of a state of the controller needs to be right only for the registers that the hypotheses below name.
\<close>

record enc =
  regs :: "u8 \<Rightarrow> u8"
  emem :: "u16 \<Rightarrow> u8"

definition bank :: "enc \<Rightarrow> u8" where
  "bank e = push_bit 5 (regs e ECON1 AND 3)"

definition reg_id :: "enc \<Rightarrow> u8 \<Rightarrow> u8" where
  "reg_id e a = (if 0x1B \<le> a then a else bank e OR a)"

definition put_reg :: "u8 \<Rightarrow> u8 \<Rightarrow> enc \<Rightarrow> enc" where
  "put_reg i b e = e\<lparr>regs := (regs e)(i := b)\<rparr>"

definition pointer :: "u8 \<Rightarrow> enc \<Rightarrow> u16" where
  "pointer i e = word16 [regs e i, regs e (i + 1)]"

definition put_pointer :: "u8 \<Rightarrow> u16 \<Rightarrow> enc \<Rightarrow> enc" where
  "put_pointer i w e = put_reg (i + 1) (ucast (drop_bit 8 w)) (put_reg i (ucast w) e)"

text \<open>The bits that a pointer register has: 13 in all, the low byte at an even address and 5 bits behind it.\<close>

definition pointer_bits :: "u8 \<Rightarrow> u8" where
  "pointer_bits a = (if bit a 0 then 0x1F else 0xFF)"

text \<open>The bounds of the receive buffer (ERXST and ERXND, which follow each other), and as \<^verbatim>\<open>init\<close> writes them.\<close>

definition rx_limits :: "enc \<Rightarrow> u8 list" where
  "rx_limits e = map (regs e) [ERXST, ERXST + 1, ERXND, ERXND + 1]"

definition ring_ok :: "enc \<Rightarrow> bool" where
  "ring_ok e = (rx_limits e = mem16 RXSTART_INIT @ mem16 RXSTOP_INIT)"

abbreviation after :: "'c spi \<Rightarrow> ('c \<Rightarrow> enc) \<Rightarrow> u8 list \<Rightarrow> 'c \<Rightarrow> enc" where
  "after hw view bs c \<equiv> view (snd (transaction hw bs c))"

subsection \<open>At any time\<close>

text \<open>
  These hold also while frames are received and sent. The bank bits are set and cleared by bit field operations on ECON1; other operations keep them,
  and the bounds of the receive buffer unless they are written. No operation is on the reserved address 0x1A. For the
  bit field operation of \<^verbatim>\<open>init\<close> on MACON3, a register for which the data sheet does not document one, nothing more is said than that it
  keeps these.
\<close>

definition selects_banks :: "'c spi \<Rightarrow> ('c \<Rightarrow> enc) \<Rightarrow> bool" where
  "selects_banks hw view = (\<forall>c.
     bank (after hw view [op_byte ENC28J60_BIT_FIELD_CLR ECON1, 3] c) = 0
     \<and> rx_limits (after hw view [op_byte ENC28J60_BIT_FIELD_CLR ECON1, 3] c) = rx_limits (view c)
     \<and> (\<forall>b. b \<le> 3 \<longrightarrow> bank (view c) = 0 \<longrightarrow>
          bank (after hw view [op_byte ENC28J60_BIT_FIELD_SET ECON1, b] c) = push_bit 5 b
          \<and> rx_limits (after hw view [op_byte ENC28J60_BIT_FIELD_SET ECON1, b] c) = rx_limits (view c)))"

definition same_selection :: "enc \<Rightarrow> enc \<Rightarrow> bool" where
  "same_selection e e' = (bank e' = bank e \<and> rx_limits e' = rx_limits e)"

definition is_limit :: "u8 \<Rightarrow> bool" where
  "is_limit a = (ERXST \<le> a AND ADDR_MASK \<and> a AND ADDR_MASK \<le> ERXND + 1)"

definition keeps_selection :: "'c spi \<Rightarrow> ('c \<Rightarrow> enc) \<Rightarrow> bool" where
  "keeps_selection hw view = (\<forall>c.
     (\<forall>op a b. op \<in> {ENC28J60_WRITE_CTRL_REG, ENC28J60_BIT_FIELD_SET, ENC28J60_BIT_FIELD_CLR} \<longrightarrow> a AND ADDR_MASK \<notin> {0x1A, ECON1}
        \<longrightarrow> bank (after hw view [op_byte op a, b] c) = bank (view c)
          \<and> (bank (view c) = 0 \<and> is_limit a \<or> rx_limits (after hw view [op_byte op a, b] c) = rx_limits (view c)))
     \<and> (\<forall>op b. op \<in> {ENC28J60_BIT_FIELD_SET, ENC28J60_BIT_FIELD_CLR} \<longrightarrow> b AND 3 = 0
        \<longrightarrow> same_selection (view c) (after hw view [op_byte op ECON1, b] c))
     \<and> (\<forall>a rest. a < 0x20 \<longrightarrow> a \<noteq> 0x1A \<longrightarrow> rest \<in> {[], [0]} \<longrightarrow> same_selection (view c) (after hw view (a # 0 # rest) c))
     \<and> (\<forall>n. same_selection (view c) (after hw view (ENC28J60_READ_BUF_MEM # replicate n 0) c))
     \<and> (\<forall>bs. same_selection (view c) (after hw view (ENC28J60_WRITE_BUF_MEM # bs) c)))"

definition sets_limits :: "'c spi \<Rightarrow> ('c \<Rightarrow> enc) \<Rightarrow> bool" where
  "sets_limits hw view = (\<forall>c b i. i < 4 \<longrightarrow> bank (view c) = 0 \<longrightarrow>
     rx_limits (after hw view [op_byte ENC28J60_WRITE_CTRL_REG (ERXST + word_of_nat i), b] c)
       = (rx_limits (view c)) [i := b AND pointer_bits (ERXST + word_of_nat i)])"

definition selection :: "'c spi \<Rightarrow> ('c \<Rightarrow> enc) \<Rightarrow> bool" where
  "selection hw view = (selects_banks hw view \<and> keeps_selection hw view \<and> sets_limits hw view)"

text \<open>A soft reset and the time to recover from it select bank 0.\<close>

definition resets :: "'c spi \<Rightarrow> ('c \<Rightarrow> enc) \<Rightarrow> bool" where
  "resets hw view = (\<forall>c. bank (view (spi_delay hw 20 (snd (transaction hw [ENC28J60_SOFT_RESET, ENC28J60_SOFT_RESET] c)))) = 0)"

subsection \<open>While it is calm\<close>

text \<open>
  The rest holds in states of the controller in which no frame is received or sent, no copy is running, and addresses are incremented
  automatically (\<open>calm\<close>); the operations named here end in such a state again. The driver then reads and writes the pointers and the packet
  memory: a pointer takes the bits that it has, and the buffer is read through ERDPT, which wraps in the receive buffer, and written through EWRPT.
\<close>

definition accesses_pointers :: "'c spi \<Rightarrow> ('c \<Rightarrow> enc) \<Rightarrow> ('c \<Rightarrow> bool) \<Rightarrow> bool" where
  "accesses_pointers hw view calm = (\<forall>c. calm c \<longrightarrow>
     after hw view [op_byte ENC28J60_BIT_FIELD_CLR ECON1, 3] c = put_reg ECON1 (regs (view c) ECON1 AND NOT 3) (view c)
     \<and> calm (snd (transaction hw [op_byte ENC28J60_BIT_FIELD_CLR ECON1, 3] c))
     \<and> (\<forall>b. b \<le> 3 \<longrightarrow>
          after hw view [op_byte ENC28J60_BIT_FIELD_SET ECON1, b] c = put_reg ECON1 (regs (view c) ECON1 OR b) (view c)
          \<and> calm (snd (transaction hw [op_byte ENC28J60_BIT_FIELD_SET ECON1, b] c)))
     \<and> (\<forall>a b. a \<in> {ERDPT, ERDPT + 1, EWRPT, EWRPT + 1} \<longrightarrow> bank (view c) = 0 \<longrightarrow>
          after hw view [op_byte ENC28J60_WRITE_CTRL_REG a, b] c = put_reg a (b AND pointer_bits a) (view c)
          \<and> calm (snd (transaction hw [op_byte ENC28J60_WRITE_CTRL_REG a, b] c)))
     \<and> (\<forall>a. bank (view c) = 0 \<and> a \<in> {ERDPT, ERDPT + 1} \<or> bank (view c) = 0x20 \<and> a = EPKTCNT AND ADDR_MASK \<longrightarrow>
          last (fst (transaction hw [a, 0] c)) = regs (view c) (bank (view c) OR a)
          \<and> after hw view [a, 0] c = view c \<and> calm (snd (transaction hw [a, 0] c))))"

definition frees_frames :: "'c spi \<Rightarrow> ('c \<Rightarrow> enc) \<Rightarrow> ('c \<Rightarrow> bool) \<Rightarrow> bool" where
  "frees_frames hw view calm = (\<forall>c. calm c \<longrightarrow>
     (\<forall>a b. a \<in> {ERXRDPT, ERXRDPT + 1} \<longrightarrow> bank (view c) = 0 \<longrightarrow>
        emem (after hw view [op_byte ENC28J60_WRITE_CTRL_REG a, b] c) = emem (view c)
        \<and> calm (snd (transaction hw [op_byte ENC28J60_WRITE_CTRL_REG a, b] c)))
     \<and> emem (after hw view [op_byte ENC28J60_BIT_FIELD_SET ECON2, ECON2_PKTDEC] c) = emem (view c))"

definition reads_memory :: "'c spi \<Rightarrow> ('c \<Rightarrow> enc) \<Rightarrow> ('c \<Rightarrow> bool) \<Rightarrow> chip_if \<Rightarrow> bool" where
  "reads_memory hw view calm ci = (\<forall>c n. calm c \<longrightarrow> ring_ok (view c) \<longrightarrow>
     tl (fst (transaction hw (ENC28J60_READ_BUF_MEM # replicate n 0) c))
       = map (emem (view c)) (addrs (rdnext ci) (pointer ERDPT (view c)) n)
     \<and> after hw view (ENC28J60_READ_BUF_MEM # replicate n 0) c
       = put_pointer ERDPT ((rdnext ci ^^ n) (pointer ERDPT (view c))) (view c)
     \<and> calm (snd (transaction hw (ENC28J60_READ_BUF_MEM # replicate n 0) c)))"

definition writes_memory :: "'c spi \<Rightarrow> ('c \<Rightarrow> enc) \<Rightarrow> ('c \<Rightarrow> bool) \<Rightarrow> chip_if \<Rightarrow> bool" where
  "writes_memory hw view calm ci = (\<forall>c bs. calm c \<longrightarrow>
     emem (after hw view (ENC28J60_WRITE_BUF_MEM # bs) c)
       = pokes (addrs (wrnext ci) (pointer EWRPT (view c)) (length bs)) bs (emem (view c)))"

definition datasheet :: "'c spi \<Rightarrow> ('c \<Rightarrow> enc) \<Rightarrow> ('c \<Rightarrow> bool) \<Rightarrow> chip_if \<Rightarrow> bool" where
  "datasheet hw view calm ci = (selection hw view \<and> accesses_pointers hw view calm \<and> frees_frames hw view calm
     \<and> reads_memory hw view calm ci \<and> writes_memory hw view calm ci)"

section \<open>Registers\<close>

text \<open>
  The bank that the driver has noted is the one selected and, once \<open>R\<close> holds, the bounds of the receive buffer are the ones of \<^verbatim>\<open>init\<close>.
\<close>

definition bank_ok :: "('c \<Rightarrow> enc) \<Rightarrow> 'c driver \<Rightarrow> bool" where
  "bank_ok view d = (Enc28j60Bank d = bank (view (dev d)))"

definition driver_ok :: "bool \<Rightarrow> ('c \<Rightarrow> enc) \<Rightarrow> 'c driver \<Rightarrow> bool" where
  "driver_ok R view d = (bank_ok view d \<and> (R \<longrightarrow> ring_ok (view (dev d))))"

text \<open>The driver is ready to call an operation on the register with the number \<open>a\<close>.\<close>

definition ready :: "bool \<Rightarrow> ('c \<Rightarrow> enc) \<Rightarrow> u8 \<Rightarrow> 'c driver \<Rightarrow> bool" where
  "ready R view a d = ((bank_ok view d \<or> bank (view (dev d)) = a AND BANK_MASK) \<and> (R \<longrightarrow> ring_ok (view (dev d))))"

lemma ready_ok: "driver_ok R view d \<Longrightarrow> ready R view a d"
  by (simp add: driver_ok_def ready_def)

lemma same_selection:
  assumes "same_selection (view (dev d)) (view (dev d'))" and "Enc28j60Bank d' = Enc28j60Bank d" and "driver_ok R view d"
  shows "driver_ok R view d'"
  using assms by (simp add: driver_ok_def bank_ok_def same_selection_def ring_ok_def)

lemma bank_set: "push_bit 5 (drop_bit 5 (a AND 0x60)) = (a AND 0x60 :: u8)"
proof (rule bit_word_eqI)
  fix n assume "n < LENGTH(8)"
  then have "n \<in> {0,1,2,3,4,5,6,7}" by auto
  then show "bit (push_bit 5 (drop_bit 5 (a AND 0x60))) n = bit (a AND 0x60 :: u8) n"
    by (auto simp: bit_simps)
qed

lemma drop_bank: "drop_bit 5 (a AND 0x60) \<le> (3 :: u8)"
proof -
  have "a AND 0x60 \<le> (0x60 :: u8)" by (rule word_and_le1)
  then have "unat (a AND 0x60) \<le> 0x60" by (simp add: word_le_nat_alt)
  then show ?thesis by (simp add: word_le_nat_alt drop_bit_eq_div unat_div)
qed

lemma word16_sum: "word16 [a, b] = ucast a + push_bit 8 (ucast b)"
proof -
  have "(ucast a :: u16) AND push_bit 8 (ucast b) = 0"
    by (rule bit_word_eqI) (auto simp: bit_simps dest: bit_imp_le_length)
  then show ?thesis by (simp add: word16_def disjunctive_add_eq_or)
qed

lemma word16_parts: "ucast (word16 [a, b]) = a" "ucast (drop_bit 8 (word16 [a, b])) = b"
  by (rule bit_word_eqI; auto simp: word16_def bit_simps dest: bit_imp_le_length)+

lemma word16_pair: "word16 [ucast w, ucast (drop_bit 8 w)] = w"
  by (rule bit_word_eqI) (auto simp: word16_def bit_simps)

lemma put_reg_simps [simp]:
  "regs (put_reg i b e) j = (if j = i then b else regs e j)" "emem (put_reg i b e) = emem e"
  by (simp_all add: put_reg_def)

lemma put_pointer_simps [simp]:
  "emem (put_pointer i w e) = emem e" "pointer i (put_pointer i w e) = w"
  "j \<noteq> i \<Longrightarrow> j \<noteq> i + 1 \<Longrightarrow> j + 1 \<noteq> i \<Longrightarrow> pointer j (put_pointer i w e) = pointer j e"
  "ECON1 \<noteq> i \<Longrightarrow> ECON1 \<noteq> i + 1 \<Longrightarrow> bank (put_pointer i w e) = bank e"
  by (simp_all add: put_pointer_def pointer_def bank_def word16_pair)

lemma put_pointer_id: "put_pointer i (pointer i e) e = e"
  by (cases e) (simp add: put_pointer_def pointer_def put_reg_def fun_eq_iff word16_parts)

lemma put_pointer_twice: "put_pointer i w (put_pointer i v e) = put_pointer i w e"
  by (simp add: put_pointer_def put_reg_def fun_eq_iff)

lemma put_pointer_emem:
  "put_pointer i w (e\<lparr>emem := m\<rparr>) = (put_pointer i w e)\<lparr>emem := m\<rparr>" "pointer i (e\<lparr>emem := m\<rparr>) = pointer i e"
  by (simp_all add: put_pointer_def put_reg_def pointer_def)

lemma and_byte: "(b :: u8) AND 0xFF = b"
proof -
  have "(0xFF :: u8) = - 1" by simp
  then show ?thesis by (simp only: and.right_neutral)
qed

text \<open>A pointer of 13 bits keeps the addresses of the packet memory.\<close>

lemma pointer_13: 
  assumes "(w :: u16) \<le> 0x1FFF"
  shows "(ucast (drop_bit 8 w) :: u8) AND 0x1F = ucast (drop_bit 8 w)"
proof -
  have "unat w \<le> 0x1FFF" using assms by (simp add: word_le_nat_alt)
  then have l: "unat w < 2 ^ 13" by simp
  have w: "\<not> bit w n" if "13 \<le> n" for n
  proof -
    have "(2 :: nat) ^ 13 \<le> 2 ^ n" using that by (rule power_increasing) simp
    with l have "unat w div 2 ^ n = 0" by (intro div_less) linarith
    then have "\<not> bit (unat w) n" by (simp add: bit_iff_odd)
    then show ?thesis by (simp add: bit_unsigned_iff)
  qed
  show ?thesis
  proof (rule bit_word_eqI)
    fix n assume "n < LENGTH(8)"
    then have "n \<in> {0,1,2,3,4,5,6,7}" by auto
    then show "bit ((ucast (drop_bit 8 w) :: u8) AND 0x1F) n = bit (ucast (drop_bit 8 w) :: u8) n"
      using w [of 13] w [of 14] w [of 15] by (auto simp: bit_simps)
  qed
qed

subsection \<open>At any time\<close>

lemma selectionD:
  assumes "selection hw view"
  shows bfc: "bank (after hw view [op_byte ENC28J60_BIT_FIELD_CLR ECON1, 3] c) = 0"
      "rx_limits (after hw view [op_byte ENC28J60_BIT_FIELD_CLR ECON1, 3] c) = rx_limits (view c)"
    and bfs: "b \<le> 3 \<Longrightarrow> bank (view c) = 0 \<Longrightarrow> bank (after hw view [op_byte ENC28J60_BIT_FIELD_SET ECON1, b] c) = push_bit 5 b"
      "b \<le> 3 \<Longrightarrow> bank (view c) = 0 \<Longrightarrow> rx_limits (after hw view [op_byte ENC28J60_BIT_FIELD_SET ECON1, b] c) = rx_limits (view c)"
    and op_keeps: "op \<in> {ENC28J60_WRITE_CTRL_REG, ENC28J60_BIT_FIELD_SET, ENC28J60_BIT_FIELD_CLR} \<Longrightarrow> a AND ADDR_MASK \<notin> {0x1A, ECON1}
      \<Longrightarrow> bank (after hw view [op_byte op a, b] c) = bank (view c)
        \<and> (bank (view c) = 0 \<and> is_limit a \<or> rx_limits (after hw view [op_byte op a, b] c) = rx_limits (view c))"
    and econ1_keeps: "op \<in> {ENC28J60_BIT_FIELD_SET, ENC28J60_BIT_FIELD_CLR} \<Longrightarrow> b AND 3 = 0
      \<Longrightarrow> same_selection (view c) (after hw view [op_byte op ECON1, b] c)"
    and rcr_keeps: "a < 0x20 \<Longrightarrow> a \<noteq> 0x1A \<Longrightarrow> rest \<in> {[], [0]} \<Longrightarrow> same_selection (view c) (after hw view (a # 0 # rest) c)"
    and rbm_keeps: "same_selection (view c) (after hw view (ENC28J60_READ_BUF_MEM # replicate n 0) c)"
    and wbm_keeps: "same_selection (view c) (after hw view (ENC28J60_WRITE_BUF_MEM # bs) c)"
    and limits: "i < 4 \<Longrightarrow> bank (view c) = 0 \<Longrightarrow>
      rx_limits (after hw view [op_byte ENC28J60_WRITE_CTRL_REG (ERXST + word_of_nat i), b] c)
        = (rx_limits (view c)) [i := b AND pointer_bits (ERXST + word_of_nat i)]"
  using assms by (simp_all only: selection_def selects_banks_def keeps_selection_def sets_limits_def simp_thms)

lemma SetBank_ok:
  assumes "selection hw view" and "ready R view a d"
  shows "driver_ok R view (SetBank hw a d)" and "bank (view (dev (SetBank hw a d))) = a AND BANK_MASK"
    and "rx_limits (view (dev (SetBank hw a d))) = rx_limits (view (dev d))"
proof -
  have b3: "ECON1_BSEL1 OR ECON1_BSEL0 = 3" by (simp add: register_bit_defs)
  have "driver_ok R view (SetBank hw a d) \<and> bank (view (dev (SetBank hw a d))) = a AND BANK_MASK
    \<and> rx_limits (view (dev (SetBank hw a d))) = rx_limits (view (dev d))"
  proof (cases "a AND BANK_MASK = Enc28j60Bank d")
    case True
    then show ?thesis using assms(2) by (auto simp: SetBank_def driver_ok_def bank_ok_def ready_def)
  next
    case False
    then show ?thesis
      using drop_bank [of a] bank_set [of a] assms(2)
      by (simp add: SetBank_def Let_def writeOp_transaction b3 bfc [OF assms(1)] bfs [OF assms(1)] BANK_MASK_def driver_ok_def
          bank_ok_def ring_ok_def ready_def)
  qed
  then show "driver_ok R view (SetBank hw a d)" and "bank (view (dev (SetBank hw a d))) = a AND BANK_MASK"
    "rx_limits (view (dev (SetBank hw a d))) = rx_limits (view (dev d))" by blast+
qed

lemma op_byte_read: "op_byte ENC28J60_READ_CTRL_REG a = a AND ADDR_MASK" "a AND ADDR_MASK < 0x20"
proof -
  show "op_byte ENC28J60_READ_CTRL_REG a = a AND ADDR_MASK" by (simp add: op_byte_def opcode_defs)
  have "a AND ADDR_MASK \<le> (0x1F :: u8)" unfolding ADDR_MASK_def by (rule word_and_le1)
  then show "a AND ADDR_MASK < 0x20" by (rule order_le_less_trans) simp
qed

lemma readOp_ok:
  assumes "selection hw view" and "a AND ADDR_MASK \<noteq> 0x1A"
  shows "same_selection (view (dev d)) (view (dev (snd (readOp hw ENC28J60_READ_CTRL_REG a d))))"
    and "Enc28j60Bank (snd (readOp hw ENC28J60_READ_CTRL_REG a d)) = Enc28j60Bank d"
    and "driver_ok R view d \<Longrightarrow> driver_ok R view (snd (readOp hw ENC28J60_READ_CTRL_REG a d))"
proof -
  show s: "same_selection (view (dev d)) (view (dev (snd (readOp hw ENC28J60_READ_CTRL_REG a d))))"
    using rcr_keeps [OF assms(1) op_byte_read(2) assms(2)] by (simp add: readOp_transaction op_byte_read(1) Let_def case_prod_beta)
  show e: "Enc28j60Bank (snd (readOp hw ENC28J60_READ_CTRL_REG a d)) = Enc28j60Bank d"
    by (simp add: readOp_transaction Let_def case_prod_beta)
  show "driver_ok R view d \<Longrightarrow> driver_ok R view (snd (readOp hw ENC28J60_READ_CTRL_REG a d))" by (rule same_selection [OF s e])
qed

text \<open>An operation that keeps the selection whatever the bank is; a register that can be written without changing the receive buffer.\<close>

definition harmless :: "u8 \<Rightarrow> bool" where
  "harmless a = (a AND ADDR_MASK \<notin> {0x1A, ECON1} \<and> \<not> is_limit a)"

definition plain :: "u8 \<Rightarrow> bool" where
  "plain a = (a AND ADDR_MASK \<notin> {0x1A, ECON1} \<and> \<not> (a AND BANK_MASK = 0 \<and> is_limit a))"

lemmas address_defs = harmless_def plain_def is_limit_def register_defs word_le_nat_alt

lemma writeOp_ok:
  assumes "selection hw view" and "op \<in> {ENC28J60_BIT_FIELD_SET, ENC28J60_BIT_FIELD_CLR}"
    and "b AND 3 = 0 \<and> a = ECON1 \<or> harmless a" and "driver_ok R view d"
  shows "driver_ok R view (writeOp hw op a b d)"
proof -
  have "same_selection (view (dev d)) (after hw view [op_byte op a, b] (dev d))"
    using assms(3) econ1_keeps [OF assms(1,2)] op_keeps [OF assms(1), of op a b "dev d"] assms(2)
    unfolding harmless_def same_selection_def by blast
  then show ?thesis by (intro same_selection [OF _ _ assms(4)]) (simp_all add: writeOp_transaction)
qed

text \<open>A write to a register selects its bank first, also when the driver has not yet noted the bank.\<close>

lemma writeRegByte_ok:
  assumes "selection hw view" and "ready R view a d" and "plain a"
  shows "driver_ok R view (writeRegByte hw a b d)" and "bank (view (dev (writeRegByte hw a b d))) = a AND BANK_MASK"
    and "rx_limits (view (dev (writeRegByte hw a b d))) = rx_limits (view (dev d))"
proof -
  note s = SetBank_ok [OF assms(1,2)]
  have "same_selection (view (dev (SetBank hw a d))) (view (dev (writeRegByte hw a b d)))"
    using op_keeps [OF assms(1), of ENC28J60_WRITE_CTRL_REG a b "dev (SetBank hw a d)"] s(2) assms(3)
    by (auto simp: writeRegByte_def writeOp_transaction same_selection_def plain_def)
  then show "driver_ok R view (writeRegByte hw a b d)" "bank (view (dev (writeRegByte hw a b d))) = a AND BANK_MASK"
    "rx_limits (view (dev (writeRegByte hw a b d))) = rx_limits (view (dev d))"
    using s by (simp_all add: same_selection_def driver_ok_def bank_ok_def ring_ok_def) (simp_all add: writeRegByte_def writeOp_transaction)
qed

lemma readRegByte_ok:
  assumes "selection hw view" and "driver_ok R view d" and "a AND ADDR_MASK \<noteq> 0x1A"
  shows "driver_ok R view (snd (readRegByte hw a d))"
  unfolding readRegByte_def by (rule readOp_ok(3) [OF assms(1,3) SetBank_ok(1) [OF assms(1) ready_ok [OF assms(2)]]])

lemma writeReg_ok:
  assumes "selection hw view" and "ready R view a d" and "plain a" and "plain (a + 1)"
  shows "driver_ok R view (writeReg hw a w d)" and "bank (view (dev (writeReg hw a w d))) = (a + 1) AND BANK_MASK"
    and "rx_limits (view (dev (writeReg hw a w d))) = rx_limits (view (dev d))"
  unfolding writeReg_def
  using writeRegByte_ok [OF assms(1-3)] writeRegByte_ok [OF assms(1) ready_ok [OF writeRegByte_ok(1) [OF assms(1-3)]] assms(4)] by simp_all

lemmas reg_numbers = register_defs op_byte_def

subsection \<open>While it is calm\<close>

lemma datasheetD:
  assumes "datasheet hw view calm ci"
  shows sheet: "selection hw view"
    and calm_bfc: "calm c \<Longrightarrow> after hw view [op_byte ENC28J60_BIT_FIELD_CLR ECON1, 3] c = put_reg ECON1 (regs (view c) ECON1 AND NOT 3) (view c)"
      "calm c \<Longrightarrow> calm (snd (transaction hw [op_byte ENC28J60_BIT_FIELD_CLR ECON1, 3] c))"
    and calm_bfs: "calm c \<Longrightarrow> b \<le> 3 \<Longrightarrow> after hw view [op_byte ENC28J60_BIT_FIELD_SET ECON1, b] c = put_reg ECON1 (regs (view c) ECON1 OR b) (view c)"
      "calm c \<Longrightarrow> b \<le> 3 \<Longrightarrow> calm (snd (transaction hw [op_byte ENC28J60_BIT_FIELD_SET ECON1, b] c))"
    and calm_wcr: "calm c \<Longrightarrow> a \<in> {ERDPT, ERDPT + 1, EWRPT, EWRPT + 1} \<Longrightarrow> bank (view c) = 0 \<Longrightarrow>
        after hw view [op_byte ENC28J60_WRITE_CTRL_REG a, b] c = put_reg a (b AND pointer_bits a) (view c)"
      "calm c \<Longrightarrow> a \<in> {ERDPT, ERDPT + 1, EWRPT, EWRPT + 1} \<Longrightarrow> bank (view c) = 0 \<Longrightarrow>
        calm (snd (transaction hw [op_byte ENC28J60_WRITE_CTRL_REG a, b] c))"
    and calm_rcr: "calm c \<Longrightarrow> bank (view c) = 0 \<and> a \<in> {ERDPT, ERDPT + 1} \<or> bank (view c) = 0x20 \<and> a = EPKTCNT AND ADDR_MASK \<Longrightarrow>
        last (fst (transaction hw [a, 0] c)) = regs (view c) (bank (view c) OR a)
        \<and> after hw view [a, 0] c = view c \<and> calm (snd (transaction hw [a, 0] c))"
    and calm_free: "calm c \<Longrightarrow> a \<in> {ERXRDPT, ERXRDPT + 1} \<Longrightarrow> bank (view c) = 0 \<Longrightarrow>
        emem (after hw view [op_byte ENC28J60_WRITE_CTRL_REG a, b] c) = emem (view c)
        \<and> calm (snd (transaction hw [op_byte ENC28J60_WRITE_CTRL_REG a, b] c))"
    and calm_dec: "calm c \<Longrightarrow> emem (after hw view [op_byte ENC28J60_BIT_FIELD_SET ECON2, ECON2_PKTDEC] c) = emem (view c)"
    and rbm: "calm c \<Longrightarrow> ring_ok (view c) \<Longrightarrow> tl (fst (transaction hw (ENC28J60_READ_BUF_MEM # replicate n 0) c))
          = map (emem (view c)) (addrs (rdnext ci) (pointer ERDPT (view c)) n)
        \<and> after hw view (ENC28J60_READ_BUF_MEM # replicate n 0) c
          = put_pointer ERDPT ((rdnext ci ^^ n) (pointer ERDPT (view c))) (view c)
        \<and> calm (snd (transaction hw (ENC28J60_READ_BUF_MEM # replicate n 0) c))"
    and wbm: "calm c \<Longrightarrow> emem (after hw view (ENC28J60_WRITE_BUF_MEM # bs) c)
        = pokes (addrs (wrnext ci) (pointer EWRPT (view c)) (length bs)) bs (emem (view c))"
  using assms by (simp_all only: datasheet_def accesses_pointers_def frees_frames_def reads_memory_def writes_memory_def simp_thms)

lemma SetBank_calm:
  assumes "datasheet hw view calm ci" and "calm (dev d)"
  shows "calm (dev (SetBank hw a d))" and "emem (view (dev (SetBank hw a d))) = emem (view (dev d))"
    and "i \<noteq> ECON1 \<Longrightarrow> regs (view (dev (SetBank hw a d))) i = regs (view (dev d)) i"
proof -
  have b3: "ECON1_BSEL1 OR ECON1_BSEL0 = 3" by (simp add: register_bit_defs)
  show "calm (dev (SetBank hw a d))" "emem (view (dev (SetBank hw a d))) = emem (view (dev d))"
    "i \<noteq> ECON1 \<Longrightarrow> regs (view (dev (SetBank hw a d))) i = regs (view (dev d)) i"
    using drop_bank [of a] assms(2) calm_bfc [OF assms] calm_bfs [OF assms(1) calm_bfc(2) [OF assms]]
    by (simp_all add: SetBank_def Let_def writeOp_transaction b3 BANK_MASK_def)
qed

text \<open>The pointers are registers of bank 0.\<close>

lemma pointer_address:
  assumes "(a :: u8) \<in> {ERDPT, EWRPT}"
  shows "a AND BANK_MASK = 0" "(a + 1) AND BANK_MASK = 0" "plain a" "plain (a + 1)" "a \<noteq> a + 1" "a \<noteq> ECON1" "a + 1 \<noteq> ECON1"
    "pointer_bits a = 0xFF" "pointer_bits (a + 1) = 0x1F"
    "a \<in> {ERDPT, ERDPT + 1, EWRPT, EWRPT + 1}" "a + 1 \<in> {ERDPT, ERDPT + 1, EWRPT, EWRPT + 1}"
  using assms by (auto simp: address_defs pointer_bits_def)

lemma writeReg_pointer:
  assumes "datasheet hw view calm ci" and "driver_ok R view d" and "calm (dev d)" and "a \<in> {ERDPT, EWRPT}" and "w \<le> 0x1FFF"
  shows "driver_ok R view (writeReg hw a w d)" and "bank (view (dev (writeReg hw a w d))) = 0" and "calm (dev (writeReg hw a w d))"
    and "emem (view (dev (writeReg hw a w d))) = emem (view (dev d))" and "pointer a (view (dev (writeReg hw a w d))) = w"
proof -
  note p = pointer_address [OF assms(4)]
  note w = writeReg_ok [OF sheet [OF assms(1)] ready_ok [OF assms(2)] p(3,4)]
  show "driver_ok R view (writeReg hw a w d)" "bank (view (dev (writeReg hw a w d))) = 0" using w p(2) by simp_all
  have byte: "calm (dev (writeRegByte hw i b e)) \<and> emem (view (dev (writeRegByte hw i b e))) = emem (view (dev e))
      \<and> regs (view (dev (writeRegByte hw i b e))) i = b AND pointer_bits i
      \<and> (\<forall>j. j \<noteq> i \<longrightarrow> j \<noteq> ECON1 \<longrightarrow> regs (view (dev (writeRegByte hw i b e))) j = regs (view (dev e)) j)"
    if "driver_ok R view e" "calm (dev e)" "i AND BANK_MASK = 0" "i \<in> {ERDPT, ERDPT + 1, EWRPT, EWRPT + 1}" for i b e
    using SetBank_ok(2) [OF sheet [OF assms(1)] ready_ok [OF that(1)], of i] SetBank_calm(1,2) [OF assms(1) that(2), of i]
      SetBank_calm(3) [OF assms(1) that(2), of _ i] calm_wcr [OF assms(1) _ that(4), of "dev (SetBank hw i e)" b] that(3)
    by (simp add: writeRegByte_def writeOp_transaction)
  let ?d = "writeRegByte hw a (ucast w) d"
  note lo = byte [OF assms(2,3) p(1,10), of "ucast w"]
  note hi = byte [OF writeRegByte_ok(1) [OF sheet [OF assms(1)] ready_ok [OF assms(2)] p(3)] _ p(2,11),
    of "ucast w" "ucast (drop_bit 8 w)"]
  have "pointer a (view (dev (writeReg hw a w d))) = word16 [ucast w AND 0xFF, ucast (drop_bit 8 w) AND 0x1F]"
    using lo hi p(5-9) by (simp add: writeReg_def pointer_def)
  then show "pointer a (view (dev (writeReg hw a w d))) = w" using pointer_13 [OF assms(5)] by (simp add: word16_pair and_byte)
  show "calm (dev (writeReg hw a w d))" "emem (view (dev (writeReg hw a w d))) = emem (view (dev d))"
    using lo hi by (simp_all add: writeReg_def)
qed

section \<open>The packet memory\<close>

text \<open>What the driver does to the packet memory.\<close>

lemma Buf_ok:
  assumes "selection hw view" and "driver_ok R view d"
  shows "driver_ok R view (snd (readBuf hw n d))" and "driver_ok R view (writeBuf hw bs d)"
    and "driver_ok R view (writeOp hw ENC28J60_WRITE_BUF_MEM 0 b d)"
proof -
  have "op_byte ENC28J60_WRITE_BUF_MEM 0 = ENC28J60_WRITE_BUF_MEM" by (simp add: op_byte_def)
  then show "driver_ok R view (snd (readBuf hw n d))" "driver_ok R view (writeBuf hw bs d)"
    "driver_ok R view (writeOp hw ENC28J60_WRITE_BUF_MEM 0 b d)"
    using rbm_keeps [OF assms(1)] wbm_keeps [OF assms(1)]
    by (auto intro!: same_selection [OF _ _ assms(2)] simp: readBuf_transaction writeBuf_transaction writeOp_transaction case_prod_beta Let_def)
qed

lemma memory_ok:
  assumes "selection hw view" and "driver_ok R view d"
  shows "fst (enc_write hw off bs d)" and "driver_ok R view (snd (enc_write hw off bs d))"
    and "driver_ok R view (snd (enc_read hw off n d))"
  unfolding enc_write_def enc_read_def case_prod_beta fst_conv snd_conv
  by (intro TrueI Buf_ok [OF assms(1)] writeReg_ok(1) [OF assms(1) ready_ok [OF assms(2)]]; simp add: address_defs)+

lemma enc_write_memory:
  assumes "datasheet hw view calm ci" and "driver_ok R view d" and "calm (dev d)" and "off \<le> 0x1FFF"
  shows "emem (view (dev (snd (enc_write hw off bs d)))) = pokes (addrs (wrnext ci) off (length bs)) bs (emem (view (dev d)))"
proof -
  note w = writeReg_pointer [OF assms(1-3) insertI2 [OF singletonI] assms(4)]
  show ?thesis using wbm [OF assms(1) w(3)] w(4,5) by (simp add: enc_write_def writeBuf_transaction)
qed

lemma readBuf_memory:
  assumes "datasheet hw view calm ci" and "driver_ok True view d" and "calm (dev d)"
  shows "fst (readBuf hw n d) = map (emem (view (dev d))) (addrs (rdnext ci) (pointer ERDPT (view (dev d))) (unat n))"
    and "calm (dev (snd (readBuf hw n d)))" and "bank (view (dev (snd (readBuf hw n d)))) = bank (view (dev d))"
    and "emem (view (dev (snd (readBuf hw n d)))) = emem (view (dev d))"
    and "pointer ERDPT (view (dev (snd (readBuf hw n d)))) = (rdnext ci ^^ unat n) (pointer ERDPT (view (dev d)))"
proof -
  have n: "ECON1 \<noteq> ERDPT" "ECON1 \<noteq> ERDPT + 1" by (simp_all add: register_defs)
  have "ring_ok (view (dev d))" using assms(2) by (simp add: driver_ok_def)
  note r = rbm [OF assms(1,3) this, of "unat n"]
  show "fst (readBuf hw n d) = map (emem (view (dev d))) (addrs (rdnext ci) (pointer ERDPT (view (dev d))) (unat n))"
    and "calm (dev (snd (readBuf hw n d)))" and "bank (view (dev (snd (readBuf hw n d)))) = bank (view (dev d))"
    and "emem (view (dev (snd (readBuf hw n d)))) = emem (view (dev d))"
    and "pointer ERDPT (view (dev (snd (readBuf hw n d)))) = (rdnext ci ^^ unat n) (pointer ERDPT (view (dev d)))"
    using r n by (simp_all add: readBuf_transaction Let_def case_prod_beta)
qed

lemma enc_read_memory:
  assumes "datasheet hw view calm ci" and "driver_ok True view d" and "calm (dev d)" and "off \<le> 0x1FFF"
  shows "fst (enc_read hw off n d) = (True, map (emem (view (dev d))) (addrs (rdnext ci) off (unat n)))"
    and "emem (view (dev (snd (enc_read hw off n d)))) = emem (view (dev d))"
proof -
  note w = writeReg_pointer [OF assms(1-3) insertI1 assms(4)]
  show "fst (enc_read hw off n d) = (True, map (emem (view (dev d))) (addrs (rdnext ci) off (unat n)))"
    "emem (view (dev (snd (enc_read hw off n d)))) = emem (view (dev d))"
    using readBuf_memory [OF assms(1) w(1,3), of n] w(4,5) by (simp_all add: enc_read_def case_prod_beta)
qed

section \<open>Every operation of the driver\<close>

lemma while_do_invariant:
  assumes "while_do test body d = Some d'" and "I d" and "\<And>d. I d \<Longrightarrow> I (snd (test d))" and "\<And>d. I d \<Longrightarrow> I (body d)"
  shows "I d'"
  using assms(2-4)
proof (induction rule: while_do.raw_induct [OF _ assms(1), case_names step])
  case (step wd test body d d')
  obtain go d1 where t: "test d = (go, d1)" by fastforce
  then have "I d1" using step(3,4) by (metis snd_conv)
  then show ?case
    using step(1) [of test body "body d1" d'] step(2,4,5) t by (cases go) simp_all
qed

text \<open>Setting and clearing bits, reading registers and waiting keep the note of the bank and the bounds of the receive buffer.\<close>

lemma reads_ok:
  assumes "selection hw view" and "driver_ok R view d" and "a AND ADDR_MASK \<noteq> 0x1A"
  shows "driver_ok R view (snd (op_bits hw a m d))" and "driver_ok R view (snd (reg_bits hw a m d))"
    and "(a + 1) AND ADDR_MASK \<noteq> 0x1A \<Longrightarrow> driver_ok R view (snd (readReg hw a d))"
  using readOp_ok(3) [OF assms(1,3,2)] readRegByte_ok [OF assms] readRegByte_ok [OF assms(1)]
  by (simp_all add: op_bits_def reg_bits_def readReg_def case_prod_beta)

lemma wait_ok:
  assumes "while_do test body d = Some d'" and "driver_ok R view d"
    and "\<And>d. driver_ok R view d \<Longrightarrow> driver_ok R view (snd (test d))" and "\<And>d. driver_ok R view d \<Longrightarrow> driver_ok R view (body d)"
  shows "driver_ok R view d'"
  by (rule while_do_invariant [OF assms(1), of "driver_ok R view"]) (use assms(2-4) in simp_all)

text \<open>
  The constructor makes this so: from bank 0, where the note of the driver does not matter, \<^verbatim>\<open>init\<close> sets the bounds of the receive buffer.
\<close>

lemma limit_number:
  fixes b :: u8
  assumes "i < 4"
  shows "(ERXST + word_of_nat i) AND BANK_MASK = 0" and "(ERXST + word_of_nat i) AND ADDR_MASK \<notin> {0x1A, ECON1}"
    and "b AND pointer_bits (ERXST + word_of_nat i) = (if odd i then b AND 0x1F else b)"
proof -
  have "i \<in> {0, 1, 2, 3}" using assms by auto
  then show "(ERXST + word_of_nat i) AND BANK_MASK = 0" "(ERXST + word_of_nat i) AND ADDR_MASK \<notin> {0x1A, ECON1}"
    "b AND pointer_bits (ERXST + word_of_nat i) = (if odd i then b AND 0x1F else b)"
    by (auto simp: register_defs pointer_bits_def and_byte)
qed

lemma writeRegByte_limit:
  assumes "selection hw view" and "ready False view (ERXST + word_of_nat i) d" and "i < 4"
  shows "driver_ok False view (writeRegByte hw (ERXST + word_of_nat i) b d)"
    and "rx_limits (view (dev (writeRegByte hw (ERXST + word_of_nat i) b d)))
      = (rx_limits (view (dev d))) [i := if odd i then b AND 0x1F else b]"
proof -
  let ?a = "ERXST + word_of_nat i"
  note n = limit_number [OF assms(3)]
  note s = SetBank_ok [OF assms(1,2)]
  show "rx_limits (view (dev (writeRegByte hw ?a b d))) = (rx_limits (view (dev d))) [i := if odd i then b AND 0x1F else b]"
    using limits [OF assms(1,3), of "dev (SetBank hw ?a d)" b] s(2,3) n(1) n(3) [of b]
    by (simp add: writeRegByte_def writeOp_transaction)
  show "driver_ok False view (writeRegByte hw ?a b d)"
    using op_keeps [OF assms(1) insertI1 n(2), of b "dev (SetBank hw ?a d)"] s(1)
    by (simp add: writeRegByte_def writeOp_transaction driver_ok_def bank_ok_def)
qed

lemma writeReg_limit:
  assumes "selection hw view" and "ready False view (ERXST + word_of_nat i) d" and "i = 0 \<or> i = 2" and "w \<le> 0x1FFF"
  shows "driver_ok False view (writeReg hw (ERXST + word_of_nat i) w d)"
    and "rx_limits (view (dev (writeReg hw (ERXST + word_of_nat i) w d)))
      = (rx_limits (view (dev d))) [i := ucast w, Suc i := ucast (drop_bit 8 w)]"
proof -
  have i: "i < 4" "Suc i < 4" "even i" "ERXST + word_of_nat i + 1 = ERXST + word_of_nat (Suc i)" using assms(3) by auto
  note lo = writeRegByte_limit [OF assms(1,2) i(1), of "ucast w"]
  note hi = writeRegByte_limit [OF assms(1) ready_ok [OF lo(1)] i(2), of "ucast (drop_bit 8 w)"]
  show "driver_ok False view (writeReg hw (ERXST + word_of_nat i) w d)"
    unfolding writeReg_def i(4) by (rule hi(1))
  show "rx_limits (view (dev (writeReg hw (ERXST + word_of_nat i) w d)))
      = (rx_limits (view (dev d))) [i := ucast w, Suc i := ucast (drop_bit 8 w)]"
    unfolding writeReg_def i(4) hi(2) lo(2) using i(3) pointer_13 [OF assms(4)] by simp
qed

lemma init_ok:
  assumes "selection hw view" and "bank (view (dev d)) = 0"
  shows "driver_ok True view (ENC28J60Driver_init hw mac d)"
proof -
  define d1 where "d1 = writeReg hw ERXST RXSTART_INIT (d\<lparr>gNextPacketPtr := RXSTART_INIT\<rparr>)"
  define d2 where "d2 = writeReg hw ERXRDPT RXSTART_INIT d1"
  define d3 where "d3 = writeReg hw ERXND RXSTOP_INIT d2"
  have "ready False view (ERXST + word_of_nat 0) (d\<lparr>gNextPacketPtr := RXSTART_INIT\<rparr>)"
    using assms(2) by (simp add: ready_def register_defs)
  from writeReg_limit [OF assms(1) this, of RXSTART_INIT]
  have d1: "driver_ok False view d1" "rx_limits (view (dev d1)) = (rx_limits (view (dev d))) [0 := 0, 1 := 0]"
    by (simp_all add: d1_def RXSTART_INIT_def)
  have d2: "driver_ok False view d2" "rx_limits (view (dev d2)) = rx_limits (view (dev d1))"
    unfolding d2_def using writeReg_ok [OF assms(1) ready_ok [OF d1(1)], of ERXRDPT] by (simp_all add: address_defs)
  have e: "ERXST + word_of_nat 2 = ERXND" by (simp add: register_defs)
  have "driver_ok False view d3" "rx_limits (view (dev d3)) = (rx_limits (view (dev d2))) [2 := ucast RXSTOP_INIT, 3 := ucast (drop_bit 8 RXSTOP_INIT)]"
    using writeReg_limit [OF assms(1) ready_ok [OF d2(1)], of 2 RXSTOP_INIT]
    unfolding e d3_def by (simp_all add: RXSTOP_INIT_def del: unsigned_numeral)
  then have d3: "driver_ok True view d3"
    using d1(2) d2(2) by (simp add: driver_ok_def ring_ok_def rx_limits_def layout_defs mem16_def)
  note w = writeReg_ok(1) [OF assms(1) ready_ok] writeRegByte_ok(1) [OF assms(1) ready_ok] writeOp_ok [OF assms(1)]
  show ?thesis
    unfolding ENC28J60Driver_init_def in_order_def fold.simps comp_apply id_apply d1_def [symmetric] d2_def [symmetric] d3_def [symmetric]
    by (intro w d3) (simp_all add: address_defs)
qed

lemma writePhy_ok:
  assumes "selection hw view" and "driver_ok R view d" and "writePhy hw a w d = Some d'"
  shows "driver_ok R view d'"
proof (rule wait_ok [OF assms(3) [unfolded writePhy_def]])
  show "driver_ok R view (writeReg hw MIWR w (writeRegByte hw MIREGADR a d))"
    by (intro writeReg_ok(1) [OF assms(1) ready_ok] writeRegByte_ok(1) [OF assms(1) ready_ok] assms(2)) (simp_all add: address_defs)
qed (simp_all add: reads_ok [OF assms(1)] register_defs)

lemma readPhyByte_ok:
  assumes "selection hw view" and "driver_ok R view d" and "readPhyByte hw a d = Some (r, d')"
  shows "driver_ok R view d'"
proof -
  from assms(3) obtain d1 where d1: "while_do (reg_bits hw MISTAT MISTAT_BUSY) id
      (writeRegByte hw MICMD MICMD_MIIRD (writeRegByte hw MIREGADR a d)) = Some d1"
    and d': "d' = snd (readRegByte hw (MIRD + 1) (writeRegByte hw MICMD 0 d1))"
    by (auto simp: readPhyByte_def split: Option.bind_splits)
  note w = writeRegByte_ok(1) [OF assms(1) ready_ok]
  have "driver_ok R view d1"
    by (rule wait_ok [OF d1]) (auto intro!: w assms(2) reads_ok [OF assms(1)] simp: address_defs)
  then show ?thesis
    unfolding d' by (intro readRegByte_ok [OF assms(1)] w) (simp_all add: address_defs)
qed

lemma new_ok:
  assumes "selection hw view" and "resets hw view" and "ENC28J60Driver_new hw mac d = Some d'"
  shows "driver_ok True view d'"
proof -
  define d0 where "d0 = (let d = d\<lparr>drv_payloadPointer := 0\<rparr>;
          d = (if \<not> spi_enabled hw (dev d) then d\<lparr>dev := spi_setup hw (dev d)\<rparr> else d);
          d = disableChip hw (d\<lparr>dev := spi_output hw (dev d)\<rparr>);
          d = writeOp hw ENC28J60_SOFT_RESET 0 ENC28J60_SOFT_RESET d
      in d\<lparr>dev := spi_delay hw 20 (dev d)\<rparr>)"
  define t where "t = (\<lambda>d. case readOp hw ENC28J60_READ_CTRL_REG ESTAT d of (r, d) \<Rightarrow> (clock_stopped r, d))"
  have b0: "bank (view (dev d0)) = 0"
    using assms(2) unfolding d0_def writeOp_transaction by (simp add: resets_def op_byte_def Let_def)
  obtain d1 d2 r d3 where d1: "while_do t id d0 = Some d1"
    and d2: "writePhy hw PHCON2 PHCON2_HDLDIS (ENC28J60Driver_init hw mac d1) = Some d2"
    and d3: "(r, d3) = readRegByte hw EREVID (in_order
          [SetBank hw ECON1,
           writeOp hw ENC28J60_BIT_FIELD_SET EIE (EIE_INTIE OR EIE_PKTIE),
           writeOp hw ENC28J60_BIT_FIELD_SET ECON1 ECON1_RXEN] d2)"
    and d': "d' = d3\<lparr>revision := (if r > 5 then r + 1 else r)\<rparr>"
    using assms(3) unfolding ENC28J60Driver_new_def Let_def d0_def [unfolded Let_def, symmetric] t_def [symmetric]
    by (auto split: Option.bind_splits prod.splits)
  have "bank (view (dev (snd (t d)))) = bank (view (dev d))" for d
    using readOp_ok(1) [OF assms(1), of ESTAT d] by (simp add: t_def case_prod_beta same_selection_def register_defs)
  then have "bank (view (dev d1)) = 0"
    by (intro while_do_invariant [OF d1, of "\<lambda>d. bank (view (dev d)) = 0"]) (simp_all add: b0)
  then have b2: "driver_ok True view d2" by (rule writePhy_ok [OF assms(1) init_ok [OF assms(1)] d2])
  have "driver_ok True view (in_order [SetBank hw ECON1, writeOp hw ENC28J60_BIT_FIELD_SET EIE (EIE_INTIE OR EIE_PKTIE),
      writeOp hw ENC28J60_BIT_FIELD_SET ECON1 ECON1_RXEN] d2)"
    unfolding in_order_def fold.simps comp_apply id_apply
    by (intro writeOp_ok [OF assms(1)] SetBank_ok(1) [OF assms(1) ready_ok] b2) (simp_all add: address_defs register_bit_defs)
  from readRegByte_ok [OF assms(1) this, of EREVID] have "driver_ok True view d3"
    unfolding d3 [symmetric] by (simp add: register_defs)
  then show ?thesis unfolding d' by (simp add: driver_ok_def bank_ok_def)
qed

lemma copy_ok:
  assumes "selection hw view" and "driver_ok R view d" and "enc_copy hw src dst len d = Some (ok, d')"
  shows "driver_ok R view d'"
proof -
  let ?t = "op_bits hw ECON1 ECON1_DMAST"
  have m: "ECON1 AND ADDR_MASK \<noteq> 0x1A" by (simp add: register_defs)
  obtain go d1 where t: "?t d = (go, d1)" by fastforce
  then have d1: "driver_ok R view d1" using reads_ok(1) [OF assms(1,2) m, of ECON1_DMAST] by simp
  have s: "driver_ok R view (in_order
     [writeOp hw ENC28J60_BIT_FIELD_CLR ECON1 (ECON1_DMAST OR ECON1_CSUMEN), writeReg hw EDMAST src,
      writeReg hw EDMAND e, writeReg hw EDMADST dst, writeOp hw ENC28J60_BIT_FIELD_SET ECON1 ECON1_DMAST] d1)" for e
    unfolding in_order_def fold.simps comp_apply id_apply
    by (intro writeOp_ok [OF assms(1)] writeReg_ok(1) [OF assms(1) ready_ok] d1) (simp_all add: address_defs register_bit_defs)
  show ?thesis
    using assms(2,3) d1 t wait_ok [OF _ s, of ?t id] reads_ok(1) [OF assms(1) _ m]
    by (auto simp: enc_copy_def split: option.splits bool.splits Option.bind_splits)
qed

lemma enc_sendFrame_ok:
  assumes "selection hw view" and "driver_ok R view d" and "enc_sendFrame hw len d = Some d'"
  shows "driver_ok R view d'"
proof -
  let ?b = "\<lambda>d. case reg_bits hw EIR EIR_TXERIF d of (err, d) \<Rightarrow>
      if err then in_order [writeOp hw ENC28J60_BIT_FIELD_SET ECON1 ECON1_TXRST, writeOp hw ENC28J60_BIT_FIELD_CLR ECON1 ECON1_TXRST] d
      else d"
  obtain d1 where d1: "while_do (op_bits hw ECON1 ECON1_TXRTS) ?b d = Some d1"
    and d': "d' = in_order [writeReg hw ETXND (TXSTART_INIT + len), writeReg hw EWRPT TXSTART_INIT,
      writeOp hw ENC28J60_WRITE_BUF_MEM 0 0, writeOp hw ENC28J60_BIT_FIELD_SET ECON1 ECON1_TXRTS] d1"
    using assms(3) unfolding enc_sendFrame_def by (auto split: Option.bind_splits)
  have "driver_ok R view (?b d)" if "driver_ok R view d" for d
    using reads_ok(2) [OF assms(1) that, of EIR EIR_TXERIF] unfolding case_prod_beta in_order_def fold.simps comp_apply id_apply
    by (auto intro!: writeOp_ok [OF assms(1)] simp: register_defs register_bit_defs)
  then have b1: "driver_ok R view d1" by (intro wait_ok [OF d1 assms(2)] reads_ok(1) [OF assms(1)]) (simp_all add: register_defs)
  show ?thesis
    unfolding d' in_order_def fold.simps comp_apply id_apply
    by (intro writeOp_ok [OF assms(1)] Buf_ok(3) [OF assms(1)] writeReg_ok(1) [OF assms(1) ready_ok] b1)
      (simp_all add: address_defs register_bit_defs)
qed

lemma link_ok:
  assumes "selection hw view" and "driver_ok R view d" and "isLinkUp hw d = Some (up, d')"
  shows "driver_ok R view d'"
  using assms(3) readPhyByte_ok [OF assms(1,2)] by (auto simp: isLinkUp_def split: Option.bind_splits)

lemma powerDown_ok:
  assumes "selection hw view" and "driver_ok R view d" and "powerDown hw d = Some d'"
  shows "driver_ok R view d'"
proof -
  obtain d1 d2 where d1: "while_do (reg_bits hw ESTAT ESTAT_RXBUSY) id (writeOp hw ENC28J60_BIT_FIELD_CLR ECON1 ECON1_RXEN d) = Some d1"
    and d2: "while_do (reg_bits hw ECON1 ECON1_TXRTS) id d1 = Some d2"
    and d': "d' = in_order [writeOp hw ENC28J60_BIT_FIELD_SET ECON2 ECON2_VRPS, writeOp hw ENC28J60_BIT_FIELD_SET ECON2 ECON2_PWRSV] d2"
    using assms(3) unfolding powerDown_def by (auto split: Option.bind_splits)
  have "driver_ok R view (writeOp hw ENC28J60_BIT_FIELD_CLR ECON1 ECON1_RXEN d)"
    by (intro writeOp_ok [OF assms(1)] assms(2)) (simp_all add: register_bit_defs)
  then have "driver_ok R view d1" by (rule wait_ok [OF d1]) (simp_all add: reads_ok [OF assms(1)] register_defs)
  then have "driver_ok R view d2" by (rule wait_ok [OF d2]) (simp_all add: reads_ok [OF assms(1)] register_defs)
  then show ?thesis
    unfolding d' in_order_def fold.simps comp_apply id_apply by (intro writeOp_ok [OF assms(1)]) (simp_all add: address_defs)
qed

lemma powerUp_ok:
  assumes "selection hw view" and "driver_ok R view d" and "powerUp hw d = Some d'"
  shows "driver_ok R view d'"
proof -
  define t where "t = (\<lambda>d. case readRegByte hw ESTAT d of (r, d) \<Rightarrow> (clock_stopped r, d))"
  obtain d1 where d1: "while_do t id (writeOp hw ENC28J60_BIT_FIELD_CLR ECON2 ECON2_PWRSV d) = Some d1"
    and d': "d' = writeOp hw ENC28J60_BIT_FIELD_SET ECON1 ECON1_RXEN d1"
    using assms(3) unfolding powerUp_def t_def [symmetric] by (auto split: Option.bind_splits)
  have "driver_ok R view (writeOp hw ENC28J60_BIT_FIELD_CLR ECON2 ECON2_PWRSV d)"
    by (intro writeOp_ok [OF assms(1)] assms(2)) (simp_all add: address_defs)
  then have "driver_ok R view d1"
    by (rule wait_ok [OF d1]) (simp_all add: t_def case_prod_beta readRegByte_ok [OF assms(1)] register_defs)
  then show ?thesis unfolding d' by (intro writeOp_ok [OF assms(1)]) (simp_all add: register_bit_defs)
qed

text \<open>\<^verbatim>\<open>receiveFrame\<close> when a packet is waiting: the header is read from the packet memory, the frame starts behind it.\<close>

lemma readReg_pointer:
  assumes "datasheet hw view calm ci" and "driver_ok R view d" and "calm (dev d)" and "bank (view (dev d)) = 0"
  shows "fst (readReg hw ERDPT d) = pointer ERDPT (view (dev d))" and "calm (dev (snd (readReg hw ERDPT d)))"
    and "emem (view (dev (snd (readReg hw ERDPT d)))) = emem (view (dev d))"
proof -
  have byte: "fst (readRegByte hw a e) = regs (view (dev e)) a \<and> view (dev (snd (readRegByte hw a e))) = view (dev e)
      \<and> calm (dev (snd (readRegByte hw a e))) \<and> Enc28j60Bank (snd (readRegByte hw a e)) = Enc28j60Bank e"
    if "a \<in> {ERDPT, ERDPT + 1}" "Enc28j60Bank e = 0" "calm (dev e)" "bank (view (dev e)) = 0" for a e
  proof -
    have a: "a AND BANK_MASK = 0" "a AND ADDR_MASK = a" "a AND 0x80 = 0" using that(1) by (auto simp: register_defs)
    have "SetBank hw a e = e" using that(2) a(1) by (simp add: SetBank_def)
    then show ?thesis
      using calm_rcr [OF assms(1) that(3), of a] that(1,4) a
      by (simp add: readRegByte_def readOp_transaction op_byte_read(1) Let_def case_prod_beta)
  qed
  have b: "Enc28j60Bank d = 0" using assms(2,4) by (simp add: driver_ok_def bank_ok_def)
  note lo = byte [OF insertI1 b assms(3,4)]
  note hi = byte [OF insertI2 [OF singletonI], of "snd (readRegByte hw ERDPT d)"]
  show "fst (readReg hw ERDPT d) = pointer ERDPT (view (dev d))" "calm (dev (snd (readReg hw ERDPT d)))"
    "emem (view (dev (snd (readReg hw ERDPT d)))) = emem (view (dev d))"
    using lo hi b assms(4) by (simp_all add: readReg_def case_prod_beta pointer_def word16_sum)
qed

lemma writeReg_free:
  assumes "datasheet hw view calm ci" and "driver_ok R view d" and "calm (dev d)"
  shows "calm (dev (writeReg hw ERXRDPT w d))" and "emem (view (dev (writeReg hw ERXRDPT w d))) = emem (view (dev d))"
proof -
  have byte: "driver_ok R view (writeRegByte hw a b e) \<and> calm (dev (writeRegByte hw a b e))
      \<and> emem (view (dev (writeRegByte hw a b e))) = emem (view (dev e))"
    if "driver_ok R view e" "calm (dev e)" "a \<in> {ERXRDPT, ERXRDPT + 1}" for a b e
  proof -
    have a: "plain a" "a AND BANK_MASK = 0" using that(3) by (auto simp: address_defs)
    show ?thesis
      using writeRegByte_ok(1) [OF sheet [OF assms(1)] ready_ok [OF that(1)] a(1), of b]
        SetBank_ok(2) [OF sheet [OF assms(1)] ready_ok [OF that(1)], of a] SetBank_calm(1,2) [OF assms(1) that(2), of a]
        calm_free [OF assms(1) _ that(3), of "dev (SetBank hw a e)" b] a(2)
      by (simp add: writeRegByte_def writeOp_transaction)
  qed
  show "calm (dev (writeReg hw ERXRDPT w d))" "emem (view (dev (writeReg hw ERXRDPT w d))) = emem (view (dev d))"
    using byte [OF assms(2,3) insertI1, of "ucast w"]
      byte [OF _ _ insertI2 [OF singletonI], of "writeRegByte hw ERXRDPT (ucast w) d" "ucast (drop_bit 8 w)"]
    by (simp_all add: writeReg_def)
qed

lemma count_ok:
  assumes "datasheet hw view calm ci" and "driver_ok R view d" and "calm (dev d)"
  shows "fst (readRegByte hw EPKTCNT d) = regs (view (dev d)) EPKTCNT"
    and "calm (dev (snd (readRegByte hw EPKTCNT d)))"
    and "emem (view (dev (snd (readRegByte hw EPKTCNT d)))) = emem (view (dev d))"
proof -
  let ?d = "SetBank hw EPKTCNT d"
  have a: "EPKTCNT AND BANK_MASK = 0x20" "EPKTCNT AND 0x80 = 0" "0x20 OR (EPKTCNT AND ADDR_MASK) = EPKTCNT" "EPKTCNT \<noteq> ECON1"
    by (simp_all add: register_defs)
  have b: "bank (view (dev ?d)) = 0x20" using SetBank_ok(2) [OF sheet [OF assms(1)] ready_ok [OF assms(2)]] a(1) by simp
  note s = SetBank_calm(1,2) [OF assms(1,3), of EPKTCNT] SetBank_calm(3) [OF assms(1,3), of _ EPKTCNT]
  show "fst (readRegByte hw EPKTCNT d) = regs (view (dev d)) EPKTCNT"
    and "calm (dev (snd (readRegByte hw EPKTCNT d)))"
    and "emem (view (dev (snd (readRegByte hw EPKTCNT d)))) = emem (view (dev d))"
    using calm_rcr [OF assms(1) s(1), of "EPKTCNT AND ADDR_MASK"] b a s(2) s(3) [OF a(4)]
    by (simp_all add: readRegByte_def readOp_transaction op_byte_read(1) Let_def case_prod_beta)
qed

lemma note_next:
  "gNextPacketPtr (SetBank hw a d) = gNextPacketPtr d" "gNextPacketPtr (writeRegByte hw a b d) = gNextPacketPtr d"
  "gNextPacketPtr (writeReg hw a w d) = gNextPacketPtr d" "gNextPacketPtr (writeOp hw op a b d) = gNextPacketPtr d"
  "gNextPacketPtr (snd (readRegByte hw a d)) = gNextPacketPtr d" "gNextPacketPtr (snd (reg_bits hw a b d)) = gNextPacketPtr d"
  by (simp_all add: writeReg_def writeRegByte_def writeOp_transaction SetBank_def Let_def readRegByte_def readOp_transaction
      case_prod_beta reg_bits_def)

text \<open>The steps of \<^verbatim>\<open>receiveFrame\<close>: the packet count, the header, the address behind it, and the space that is freed.\<close>

lemma receiveFrame_steps:
  fixes hw :: "'c spi" and d :: "'c driver"
  obtains header offset d1 d6 where
      "enc_receiveFrame hw d = (if fst (readRegByte hw EPKTCNT d) > 0
        then (frame_length (word16 (take 2 (drop 2 header))) (word16 (take 2 (drop 4 header))), d6) else (0, d1))"
    and "\<And>R. selection hw view \<Longrightarrow> driver_ok R view d \<Longrightarrow> driver_ok R view d1 \<and> driver_ok R view d6"
    and "drv_payloadPointer d6 = offset" and "gNextPacketPtr d6 = word16 (take 2 header)"
    and "datasheet hw view calm ci \<Longrightarrow> driver_ok True view d \<Longrightarrow> calm (dev d) \<Longrightarrow> gNextPacketPtr d \<le> 0x1FFF
      \<Longrightarrow> header = map (emem (view (dev d))) (addrs (rdnext ci) (gNextPacketPtr d) 6)
        \<and> offset = (rdnext ci ^^ 6) (gNextPacketPtr d) \<and> emem (view (dev d6)) = emem (view (dev d))
        \<and> emem (view (dev d1)) = emem (view (dev d))"
proof -
  define d1 where "d1 = snd (readRegByte hw EPKTCNT d)"
  define d2 where "d2 = writeReg hw ERDPT (gNextPacketPtr d) d1"
  define header where "header = fst (readBuf hw 6 d2)"
  define d3 where "d3 = snd (readBuf hw 6 d2)"
  define offset where "offset = fst (readReg hw ERDPT d3)"
  define d4 where "d4 = (snd (readReg hw ERDPT d3))\<lparr>drv_payloadPointer := offset, gNextPacketPtr := word16 (take 2 header)\<rparr>"
  define d6 where "d6 = writeOp hw ENC28J60_BIT_FIELD_SET ECON2 ECON2_PKTDEC (writeReg hw ERXRDPT offset d4)"
  have 1: "enc_receiveFrame hw d = (if fst (readRegByte hw EPKTCNT d) > 0
      then (frame_length (word16 (take 2 (drop 2 header))) (word16 (take 2 (drop 4 header))), d6) else (0, d1))"
    by (simp add: enc_receiveFrame_def Let_def case_prod_beta d6_def d4_def header_def offset_def d3_def d2_def d1_def note_next)
  have 3: "drv_payloadPointer d6 = offset" "gNextPacketPtr d6 = word16 (take 2 header)"
    by (simp_all add: d6_def d4_def note_next writeReg_def writeRegByte_def writeOp_transaction SetBank_def Let_def)
  have with_fields: "driver_ok R view (e\<lparr>drv_payloadPointer := x, gNextPacketPtr := y\<rparr>) = driver_ok R view e" for R e x y
    by (simp add: driver_ok_def bank_ok_def)
  have 2: "driver_ok R view d1 \<and> driver_ok R view d6" if "selection hw view" "driver_ok R view d" for R
  proof -
    have "driver_ok R view d1" unfolding d1_def by (rule readRegByte_ok [OF that]) (simp add: register_defs)
    moreover from this have "driver_ok R view d6"
      unfolding d6_def d4_def d3_def d2_def
      by (intro writeOp_ok [OF that(1)] writeReg_ok(1) [OF that(1) ready_ok] reads_ok(3) [OF that(1)] Buf_ok(1) [OF that(1)]
          with_fields [THEN iffD2]) (simp_all add: address_defs)
    ultimately show ?thesis ..
  qed
  have 5: "header = map (emem (view (dev d))) (addrs (rdnext ci) (gNextPacketPtr d) 6)
        \<and> offset = (rdnext ci ^^ 6) (gNextPacketPtr d) \<and> emem (view (dev d6)) = emem (view (dev d))
        \<and> emem (view (dev d1)) = emem (view (dev d))"
    if h: "datasheet hw view calm ci" and ok: "driver_ok True view d" and c: "calm (dev d)" and g: "gNextPacketPtr d \<le> 0x1FFF"
  proof -
  note s = sheet [OF h]
  note f1 = count_ok(2,3) [OF h ok c, folded d1_def]
  have k1: "driver_ok True view d1" unfolding d1_def by (rule readRegByte_ok [OF s ok]) (simp add: register_defs)
  note f2 = writeReg_pointer [OF h k1 f1(1) insertI1 g, folded d2_def]
  note f3 = readBuf_memory [OF h f2(1,3), of 6, folded d3_def header_def]
  have k3: "driver_ok True view d3" unfolding d3_def by (rule Buf_ok(1) [OF s f2(1)])
  have b3: "bank (view (dev d3)) = 0" using f3(3) f2(2) by simp
  note f4 = readReg_pointer [OF h k3 f3(2) b3, folded offset_def]
  have k4: "driver_ok True view d4" unfolding d4_def with_fields
    by (rule reads_ok(3) [OF s k3]) (simp_all add: register_defs)
  have c4: "calm (dev d4)" "emem (view (dev d4)) = emem (view (dev d3))" using f4(2,3) by (simp_all add: d4_def)
  note f5 = writeReg_free [OF h k4 c4(1)]
  have "emem (view (dev d6)) = emem (view (dev d))"
    using f1(2) f2(4) f3(4) c4(2) f5(2) calm_dec [OF h f5(1)] by (simp add: d6_def writeOp_transaction)
  then show ?thesis using f3(1,5) f2(4,5) f1(2) f4(1) by simp
  qed
  show thesis by (rule that [OF 1 2 3 5])
qed

lemma receive_ok:
  assumes "selection hw view" and "driver_ok R view d"
  shows "driver_ok R view (snd (enc_receiveFrame hw d))"
  by (rule receiveFrame_steps [of hw d view]) (use assms in auto)

lemma receive_memory:
  assumes "datasheet hw view calm ci" and "driver_ok True view d" and "calm (dev d)" and "gNextPacketPtr d \<le> 0x1FFF"
  shows "emem (view (dev (snd (enc_receiveFrame hw d)))) = emem (view (dev d))"
    and "regs (view (dev d)) EPKTCNT = 0 \<Longrightarrow> fst (enc_receiveFrame hw d) = 0"
    and "regs (view (dev d)) EPKTCNT \<noteq> 0 \<Longrightarrow> map (emem (view (dev d))) (addrs (rdnext ci) (gNextPacketPtr d) 6) = mem16 nxt @ mem16 cnt @ mem16 st
      \<Longrightarrow> fst (enc_receiveFrame hw d) = frame_length cnt st
        \<and> gNextPacketPtr (snd (enc_receiveFrame hw d)) = nxt
        \<and> drv_payloadPointer (snd (enc_receiveFrame hw d)) = (rdnext ci ^^ 6) (gNextPacketPtr d)"
proof -
  obtain header offset d1 d6 where r: "enc_receiveFrame hw d = (if fst (readRegByte hw EPKTCNT d) > 0
        then (frame_length (word16 (take 2 (drop 2 header))) (word16 (take 2 (drop 4 header))), d6) else (0, d1))"
    and 3: "drv_payloadPointer d6 = offset" "gNextPacketPtr d6 = word16 (take 2 header)"
    and 5: "header = map (emem (view (dev d))) (addrs (rdnext ci) (gNextPacketPtr d) 6)" "offset = (rdnext ci ^^ 6) (gNextPacketPtr d)"
      "emem (view (dev d6)) = emem (view (dev d))" "emem (view (dev d1)) = emem (view (dev d))"
    by (rule receiveFrame_steps [of hw d view calm ci]) (use assms in blast)
  note c = count_ok(1) [OF assms(1-3)]
  show "emem (view (dev (snd (enc_receiveFrame hw d)))) = emem (view (dev d))"
    and "regs (view (dev d)) EPKTCNT = 0 \<Longrightarrow> fst (enc_receiveFrame hw d) = 0"
    using r c 5(3,4) by simp_all
  assume n: "regs (view (dev d)) EPKTCNT \<noteq> 0"
    and "map (emem (view (dev d))) (addrs (rdnext ci) (gNextPacketPtr d) 6) = mem16 nxt @ mem16 cnt @ mem16 st"
  then have h: "header = mem16 nxt @ mem16 cnt @ mem16 st" using 5(1) by simp
  have "enc_receiveFrame hw d = (frame_length (word16 (take 2 (drop 2 header))) (word16 (take 2 (drop 4 header))), d6)"
    using r c n by (simp add: word_neq_0_conv)
  then show "fst (enc_receiveFrame hw d) = frame_length cnt st \<and> gNextPacketPtr (snd (enc_receiveFrame hw d)) = nxt
        \<and> drv_payloadPointer (snd (enc_receiveFrame hw d)) = (rdnext ci ^^ 6) (gNextPacketPtr d)"
    using 3 5(2) by (simp add: h mem16_def word16_pair)
qed

section \<open>Runs of the driver\<close>

text \<open>
  What the driver and the controller do after the driver has been constructed; between two calls the controller may change in any way that
  keeps the selected bank and the bounds of the receive buffer. A call that never returns has no next state.
\<close>

inductive driver_run :: "'c spi \<Rightarrow> ('c \<Rightarrow> enc) \<Rightarrow> 'c driver \<Rightarrow> bool" for hw view where
  new: "ENC28J60Driver_new hw mac junk = Some d \<Longrightarrow> driver_run hw view d"
| other: "driver_run hw view d \<Longrightarrow> same_selection (view (dev d)) (view c) \<Longrightarrow> driver_run hw view (d\<lparr>dev := c\<rparr>)"
| "write": "driver_run hw view d \<Longrightarrow> driver_run hw view (snd (enc_write hw off bs d))"
| read: "driver_run hw view d \<Longrightarrow> driver_run hw view (snd (enc_read hw off n d))"
| copy: "driver_run hw view d \<Longrightarrow> enc_copy hw src dst n d = Some (ok, d') \<Longrightarrow> driver_run hw view d'"
| send: "driver_run hw view d \<Longrightarrow> enc_sendFrame hw n d = Some d' \<Longrightarrow> driver_run hw view d'"
| receive: "driver_run hw view d \<Longrightarrow> driver_run hw view (snd (enc_receiveFrame hw d))"
| link: "driver_run hw view d \<Longrightarrow> isLinkUp hw d = Some (up, d') \<Longrightarrow> driver_run hw view d'"
| down: "driver_run hw view d \<Longrightarrow> powerDown hw d = Some d' \<Longrightarrow> driver_run hw view d'"
| up: "driver_run hw view d \<Longrightarrow> powerUp hw d = Some d' \<Longrightarrow> driver_run hw view d'"

lemma run_ok:
  assumes "selection hw view" and "resets hw view"
  shows "driver_run hw view d \<Longrightarrow> driver_ok True view d"
proof (induction rule: driver_run.induct)
  case (other d c)
  then show ?case by (simp add: driver_ok_def bank_ok_def same_selection_def ring_ok_def)
qed (erule new_ok [OF assms] memory_ok(2,3) [OF assms(1)] receive_ok [OF assms(1)]
  | erule (1) copy_ok [OF assms(1)] enc_sendFrame_ok [OF assms(1)] link_ok [OF assms(1)] powerDown_ok [OF assms(1)] powerUp_ok [OF assms(1)])+

lemma addrs_add: "addrs nx a (m + n) = addrs nx a m @ addrs nx ((nx ^^ m) a) n"
  by (induction m arbitrary: a) (simp_all add: funpow_swap1)

section \<open>A controller\<close>

text \<open>
  A controller that does what the data sheet says, to apply the properties to: its registers and memory, the bytes since it was selected, and
  the byte it answers. It receives between two operations only, its clock is running and its PHY is never busy. The high bytes of the pointers have
  five bits, and ERXWRPT (0x0E and 0x0F) cannot be written.
\<close>

type_synonym demo_chip = "enc \<times> u8 list \<times> u8"

definition demo_regs :: "u8 \<Rightarrow> u8 \<Rightarrow> u8 \<Rightarrow> u8 \<Rightarrow> u8" where
  "demo_regs op b i old =
     (if i = 0x0E \<or> i = 0x0F then old
      else if op AND 0xE0 = 0x40 then b AND (if i < 0x18 then pointer_bits i else 0xFF)
      else if op AND 0xE0 = 0x80 then old OR b else if op AND 0xE0 = 0xA0 then old AND NOT b else old)"

definition demo_xfer :: "chip_if \<Rightarrow> u8 \<Rightarrow> demo_chip \<Rightarrow> demo_chip" where
  "demo_xfer ci b = (\<lambda>(e, q, r).
     case q of
       [] \<Rightarrow> (e, [b], 0)
     | op # rest \<Rightarrow>
         if op = ENC28J60_READ_BUF_MEM
         then (put_pointer ERDPT (rdnext ci (pointer ERDPT e)) e, q @ [b], emem e (pointer ERDPT e))
         else if op = ENC28J60_WRITE_BUF_MEM
         then (put_pointer EWRPT (wrnext ci (pointer EWRPT e)) (e\<lparr>emem := (emem e)(pointer EWRPT e := b)\<rparr>), q @ [b], 0)
         else if rest \<noteq> [] then (e, q @ [b], 0)
         else if op = ENC28J60_SOFT_RESET then (put_reg ECON1 0 e, q @ [b], 0)
         else let i = reg_id e (op AND 0x1F) in (put_reg i (demo_regs op b i (regs e i)) e, q @ [b], regs e i))"

definition demo_hw :: "chip_if \<Rightarrow> demo_chip spi" where
  "demo_hw ci = \<lparr>spi_enabled = (\<lambda>c. True), spi_setup = id, spi_output = id, spi_delay = (\<lambda>_. id), spi_select = (\<lambda>(e, q, r). (e, [], r)),
     spi_release = id, spi_xfer = demo_xfer ci, spi_data = (\<lambda>(e, q, r). r)\<rparr>"

lemma demo_hw_simps [simp]:
  "spi_enabled (demo_hw ci) c" "spi_select (demo_hw ci) c = (fst c, [], snd (snd c))" "spi_release (demo_hw ci) c = c"
  "spi_xfer (demo_hw ci) b c = demo_xfer ci b c" "spi_data (demo_hw ci) c = snd (snd c)"
  "spi_output (demo_hw ci) c = c" "spi_delay (demo_hw ci) ms c = c"
  by (simp_all add: demo_hw_def case_prod_beta)

lemma demo_rest: "op \<noteq> ENC28J60_READ_BUF_MEM \<Longrightarrow> op \<noteq> ENC28J60_WRITE_BUF_MEM \<Longrightarrow> qs \<noteq> []
    \<Longrightarrow> fst (snd (shift (demo_hw ci) bs (e, op # qs, r))) = e"
  by (induction bs arbitrary: qs r) (simp_all add: demo_xfer_def Let_def case_prod_beta)

lemma demo_register:
  fixes c :: demo_chip and op :: u8
  assumes "op \<noteq> ENC28J60_READ_BUF_MEM" and "op \<noteq> ENC28J60_WRITE_BUF_MEM" and "op \<noteq> ENC28J60_SOFT_RESET"
  defines "i \<equiv> reg_id (fst c) (op AND 0x1F)"
  shows "after (demo_hw ci) fst (op # b # bs) c = put_reg i (demo_regs op b i (regs (fst c) i)) (fst c)"
    and "fst (transaction (demo_hw ci) [op, b] c) = [0, regs (fst c) i]"
  using assms by (simp_all add: transaction_def demo_xfer_def demo_rest Let_def case_prod_beta)

lemma op_byte_parts:
  "op_byte op a AND 0x1F = a AND 0x1F" "op_byte op a AND 0xE0 = op" 
  "op_byte op a \<noteq> ENC28J60_READ_BUF_MEM" "op_byte op a \<noteq> ENC28J60_WRITE_BUF_MEM" "op_byte op a \<noteq> ENC28J60_SOFT_RESET"
  if "op \<in> {ENC28J60_WRITE_CTRL_REG, ENC28J60_BIT_FIELD_SET, ENC28J60_BIT_FIELD_CLR}"
proof -
  have z: "((a AND 0x1F) AND 0xE0 :: u8) = 0" by (simp add: and.assoc)
  show "op_byte op a AND 0x1F = a AND 0x1F" and o: "op_byte op a AND 0xE0 = op"
    using that z by (auto simp: op_byte_def opcode_defs ADDR_MASK_def bit.conj_disj_distrib2 and.assoc)
  show "op_byte op a \<noteq> ENC28J60_READ_BUF_MEM" "op_byte op a \<noteq> ENC28J60_WRITE_BUF_MEM" "op_byte op a \<noteq> ENC28J60_SOFT_RESET"
    using o that by (auto simp: opcode_defs)
qed

lemma read_byte_parts:
  assumes "(a :: u8) < 0x20"
  shows "a AND 0x1F = a" "a AND 0xE0 = 0" "a \<noteq> ENC28J60_READ_BUF_MEM" "a \<noteq> ENC28J60_WRITE_BUF_MEM" "a \<noteq> ENC28J60_SOFT_RESET"
proof -
  have "unat (take_bit 5 a) = unat a" using assms by (simp add: word_less_nat_alt take_bit_eq_mod unat_mod)
  then show "a AND 0x1F = a" by (simp add: word_unat_eq_iff take_bit_eq_mask mask_eq_exp_minus_1)
  then have "a AND 0xE0 = a AND (0x1F AND 0xE0)" by (metis and.assoc)
  then show "a AND 0xE0 = 0" by simp
qed (use assms in \<open>auto simp: opcode_defs\<close>)

lemma reg_id_parts:
  assumes "(a :: u8) < 0x20"
  shows "reg_id e a AND 0x1F = a" and "reg_id e a = ECON1 \<longleftrightarrow> a = ECON1"
    and "reg_id e a \<in> {8, 9, 0x0A, 0x0B} \<Longrightarrow> bank e = 0 \<and> is_limit a"
proof -
  have b: "bank e AND 0x1F = 0" "bank e AND 0x60 = bank e"
    unfolding bank_def
  proof -
    show "push_bit 5 (regs e ECON1 AND 3) AND 0x1F = (0 :: u8)"
    proof (rule bit_word_eqI)
      fix n assume "n < LENGTH(8)"
      then have "n \<in> {0,1,2,3,4,5,6,7}" by auto
      then show "bit (push_bit 5 (regs e ECON1 AND 3) AND 0x1F) n = bit (0 :: u8) n" by (auto simp: bit_simps)
    qed
    show "push_bit 5 (regs e ECON1 AND 3) AND 0x60 = (push_bit 5 (regs e ECON1 AND 3) :: u8)"
    proof (rule bit_word_eqI)
      fix n assume "n < LENGTH(8)"
      then have "n \<in> {0,1,2,3,4,5,6,7}" by auto
      then show "bit (push_bit 5 (regs e ECON1 AND 3) AND 0x60) n = bit (push_bit 5 (regs e ECON1 AND 3) :: u8) n" by (auto simp: bit_simps)
    qed
  qed
  note a = read_byte_parts(1) [OF assms]
  show id: "reg_id e a AND 0x1F = a" using a b(1) by (simp add: reg_id_def bit.conj_disj_distrib2)
  show "reg_id e a = ECON1 \<longleftrightarrow> a = ECON1"
  proof
    assume "reg_id e a = ECON1"
    then show "a = ECON1" using id by (simp add: register_defs)
  qed (simp add: reg_id_def register_defs)
  assume l: "reg_id e a \<in> {8, 9, 0x0A, 0x0B}"
  then have i: "a \<in> {8, 9, 0x0A, 0x0B}" using id by auto
  then have "reg_id e a = bank e OR a" by (auto simp: reg_id_def word_le_nat_alt)
  moreover have "a AND 0x60 = 0" using i by auto
  ultimately have "bank e = reg_id e a AND 0x60" using b(2) by (simp add: bit.conj_disj_distrib2)
  then show "bank e = 0 \<and> is_limit a" using l i by (auto simp: address_defs)
qed

lemma demo_reads:
  "q = ENC28J60_READ_BUF_MEM # qs \<Longrightarrow> shift (demo_hw ci) (replicate n 0) (e, q, r) = (map (emem e) (addrs (rdnext ci) (pointer ERDPT e) n),
     (put_pointer ERDPT ((rdnext ci ^^ n) (pointer ERDPT e)) e, q @ replicate n 0,
      if n = 0 then r else emem e ((rdnext ci ^^ (n - 1)) (pointer ERDPT e))))"
proof (induction n arbitrary: e q qs r)
  case 0
  then show ?case by (simp add: put_pointer_id)
next
  case (Suc n)
  have "shift (demo_hw ci) (replicate n 0) (demo_xfer ci 0 (e, q, r)) =
      (map (emem e) (addrs (rdnext ci) (rdnext ci (pointer ERDPT e)) n),
       put_pointer ERDPT ((rdnext ci ^^ n) (rdnext ci (pointer ERDPT e))) e, q @ 0 # replicate n 0,
       if n = 0 then emem e (pointer ERDPT e) else emem e ((rdnext ci ^^ (n - 1)) (rdnext ci (pointer ERDPT e))))"
    using Suc.IH [of "q @ [0]" "qs @ [0]" "put_pointer ERDPT (rdnext ci (pointer ERDPT e)) e" "emem e (pointer ERDPT e)"] Suc.prems
    by (simp add: demo_xfer_def put_pointer_twice)
  then show ?case
    using Suc.prems by (cases n) (simp_all add: Let_def demo_xfer_def funpow_swap1)
qed

lemma demo_writes:
  "q = ENC28J60_WRITE_BUF_MEM # qs \<Longrightarrow> fst (snd (shift (demo_hw ci) bs (e, q, r))) =
     put_pointer EWRPT ((wrnext ci ^^ length bs) (pointer EWRPT e))
       (e\<lparr>emem := pokes (addrs (wrnext ci) (pointer EWRPT e) (length bs)) bs (emem e)\<rparr>)"
proof (induction bs arbitrary: e q qs r)
  case Nil
  then show ?case by (simp add: put_pointer_id)
next
  case (Cons b bs)
  show ?case
    using Cons.IH [of "q @ [b]" "qs @ [b]" "put_pointer EWRPT (wrnext ci (pointer EWRPT e)) (e\<lparr>emem := (emem e)(pointer EWRPT e := b)\<rparr>)" 0]
      Cons.prems
    by (simp add: Let_def case_prod_beta demo_xfer_def opcode_defs put_pointer_twice put_pointer_emem funpow_swap1 fun_upd_def)
qed

lemma demo_regs_op:
  assumes "op \<in> {ENC28J60_WRITE_CTRL_REG, ENC28J60_BIT_FIELD_SET, ENC28J60_BIT_FIELD_CLR}" and "x AND 0xE0 = op"
  shows "demo_regs x b i old = (if i = 0x0E \<or> i = 0x0F then old
     else if op = ENC28J60_WRITE_CTRL_REG then b AND (if i < 0x18 then pointer_bits i else 0xFF)
     else if op = ENC28J60_BIT_FIELD_SET then old OR b else old AND NOT b)"
  using assms unfolding demo_regs_def by (auto simp: opcode_defs)

lemma demo_op:
  assumes "op \<in> {ENC28J60_WRITE_CTRL_REG, ENC28J60_BIT_FIELD_SET, ENC28J60_BIT_FIELD_CLR}"
  defines "i \<equiv> \<lambda>c a. reg_id (fst c) (a AND 0x1F)"
  shows "after (demo_hw ci) fst [op_byte op a, b] c = put_reg (i c a)
    (if i c a = 0x0E \<or> i c a = 0x0F then regs (fst c) (i c a)
     else if op = ENC28J60_WRITE_CTRL_REG then b AND (if i c a < 0x18 then pointer_bits (i c a) else 0xFF)
     else if op = ENC28J60_BIT_FIELD_SET then regs (fst c) (i c a) OR b else regs (fst c) (i c a) AND NOT b) (fst c)"
  unfolding i_def demo_register(1) [OF op_byte_parts(3-5) [OF assms(1)]] op_byte_parts(1) [OF assms(1)]
    demo_regs_op [OF assms(1) op_byte_parts(2) [OF assms(1)]] by (rule refl)

lemma opcodes_differ:
  "ENC28J60_WRITE_CTRL_REG \<noteq> ENC28J60_BIT_FIELD_SET" "ENC28J60_WRITE_CTRL_REG \<noteq> ENC28J60_BIT_FIELD_CLR"
  "ENC28J60_BIT_FIELD_CLR \<noteq> ENC28J60_BIT_FIELD_SET" "ENC28J60_BIT_FIELD_SET \<noteq> ENC28J60_WRITE_CTRL_REG"
  "ENC28J60_BIT_FIELD_CLR \<noteq> ENC28J60_WRITE_CTRL_REG" "ENC28J60_BIT_FIELD_SET \<noteq> ENC28J60_BIT_FIELD_CLR"
  by (simp_all add: opcode_defs)

lemma econ1_id: "ECON1 AND 0x1F = ECON1" "reg_id e ECON1 = ECON1" "ECON1 \<noteq> 0x0E" "ECON1 \<noteq> 0x0F"
  by (simp_all add: register_defs reg_id_def)

lemma rx_limits_put: "i \<notin> {8, 9, 0x0A, 0x0B} \<Longrightarrow> rx_limits (put_reg i b e) = rx_limits e"
  by (auto simp: rx_limits_def register_defs)

lemma bank_put_reg: "i \<noteq> ECON1 \<Longrightarrow> bank (put_reg i b e) = bank e"
  by (simp add: bank_def)

lemma demo_selects: "selects_banks (demo_hw ci) fst"
proof -
  have m: "(x AND - 4) AND 3 = (0 :: u8)" for x by (simp add: and.assoc)
  have s: "push_bit 5 ((x OR b) AND 3) = push_bit 5 b" if "b \<le> (3 :: u8)" "push_bit 5 (x AND 3) = (0 :: u8)" for x b
  proof -
    have "b AND 3 = b"
    proof -
      have "unat b \<in> {0, 1, 2, 3}" using that(1) by (auto simp: word_le_nat_alt)
      then have "b \<in> {0, 1, 2, 3}" by (auto simp: word_unat_eq_iff)
      then show ?thesis by auto
    qed
    then show ?thesis using that(2) by (simp add: bit.conj_disj_distrib2 push_bit_or)
  qed
  have l: "ECON1 \<notin> {8, 9, 0x0A, 0x0B}" by (simp add: register_defs)
  show ?thesis
    unfolding selects_banks_def
    by (intro allI conjI impI)
      (simp_all add: demo_op econ1_id opcodes_differ rx_limits_put [OF l] bank_def m s del: push_bit_and push_bit_or)
qed

lemma demo_keeps: "keeps_selection (demo_hw ci) fst"
  unfolding keeps_selection_def
proof (intro allI impI conjI)
  fix c :: demo_chip and op a b :: u8
  assume op: "op \<in> {ENC28J60_WRITE_CTRL_REG, ENC28J60_BIT_FIELD_SET, ENC28J60_BIT_FIELD_CLR}" and a: "a AND ADDR_MASK \<notin> {0x1A, ECON1}"
  have i: "a AND 0x1F < 0x20" using op_byte_read(2) [of a] by (simp add: ADDR_MASK_def)
  have m: "is_limit (a AND 0x1F) = is_limit a" by (simp add: is_limit_def ADDR_MASK_def and.assoc)
  show "bank (after (demo_hw ci) fst [op_byte op a, b] c) = bank (fst c)"
    unfolding demo_op [OF op] by (rule bank_put_reg) (use a reg_id_parts(2) [OF i] in \<open>simp add: ADDR_MASK_def\<close>)
  show "bank (fst c) = 0 \<and> is_limit a \<or> rx_limits (after (demo_hw ci) fst [op_byte op a, b] c) = rx_limits (fst c)"
    unfolding demo_op [OF op] using rx_limits_put reg_id_parts(3) [OF i, of "fst c"] m by blast
next
  fix c :: demo_chip and op b :: u8
  assume op: "op \<in> {ENC28J60_BIT_FIELD_SET, ENC28J60_BIT_FIELD_CLR}" and b: "b AND 3 = 0"
  have "(x AND NOT b) AND 3 = x AND 3" for x :: u8
  proof -
    have "\<not> (bit b n \<and> bit (3 :: u8) n)" for n using b by (simp add: bit_eq_iff bit_and_iff)
    then show ?thesis by (intro bit_word_eqI) (auto simp: bit_and_iff bit_not_iff)
  qed
  moreover have "(x OR b) AND 3 = x AND 3" for x :: u8 using b by (simp add: bit.conj_disj_distrib2)
  moreover have "ECON1 \<notin> {8, 9, 0x0A, 0x0B}" by (simp add: register_defs)
  ultimately show "same_selection (fst c) (after (demo_hw ci) fst [op_byte op ECON1, b] c)"
    using op by (auto simp: demo_op econ1_id opcodes_differ same_selection_def bank_def rx_limits_put simp del: push_bit_and push_bit_or)
next
  fix c :: demo_chip and a :: u8 and rest :: "u8 list" assume "a < 0x20"
  note a = read_byte_parts [OF this]
  then show "same_selection (fst c) (after (demo_hw ci) fst (a # 0 # rest) c)"
    by (simp add: demo_register(1) demo_regs_def put_reg_def same_selection_def bank_def rx_limits_def)
next
  have p: "same_selection e (put_pointer ERDPT w e)" "same_selection e (put_pointer EWRPT w (e\<lparr>emem := m\<rparr>))" for e w m
    by (simp_all add: same_selection_def put_pointer_def bank_def rx_limits_def register_defs)
  fix c :: demo_chip and n :: nat
  show "same_selection (fst c) (after (demo_hw ci) fst (ENC28J60_READ_BUF_MEM # replicate n 0) c)"
    by (simp add: transaction_def demo_xfer_def demo_reads case_prod_beta Let_def p)
  fix bs :: "u8 list"
  show "same_selection (fst c) (after (demo_hw ci) fst (ENC28J60_WRITE_BUF_MEM # bs) c)"
    by (simp add: transaction_def demo_xfer_def demo_writes case_prod_beta Let_def p)
qed

lemma demo_limits: "sets_limits (demo_hw ci) fst"
  unfolding sets_limits_def
proof (intro allI impI)
  fix c :: demo_chip and b :: u8 and i :: nat
  assume "i < 4" and b: "bank (fst c) = 0"
  then have "i \<in> {0, 1, 2, 3}" by auto
  then show "rx_limits (after (demo_hw ci) fst [op_byte ENC28J60_WRITE_CTRL_REG (ERXST + word_of_nat i), b] c)
      = (rx_limits (fst c)) [i := b AND pointer_bits (ERXST + word_of_nat i)]"
    using b by (auto simp: demo_op reg_id_def register_defs rx_limits_def word_le_nat_alt word_less_nat_alt)
qed

lemma demo_pointers: "accesses_pointers (demo_hw ci) fst (\<lambda>_. True)"
  unfolding accesses_pointers_def
proof (intro allI impI conjI TrueI)
  fix c :: demo_chip
  show "after (demo_hw ci) fst [op_byte ENC28J60_BIT_FIELD_CLR ECON1, 3] c = put_reg ECON1 (regs (fst c) ECON1 AND NOT 3) (fst c)"
    by (simp add: demo_op econ1_id opcodes_differ)
  fix b :: u8
  show "after (demo_hw ci) fst [op_byte ENC28J60_BIT_FIELD_SET ECON1, b] c = put_reg ECON1 (regs (fst c) ECON1 OR b) (fst c)"
    by (simp add: demo_op econ1_id opcodes_differ)
  fix a :: u8
  assume "a \<in> {ERDPT, ERDPT + 1, EWRPT, EWRPT + 1}" "bank (fst c) = 0"
  then show "after (demo_hw ci) fst [op_byte ENC28J60_WRITE_CTRL_REG a, b] c = put_reg a (b AND pointer_bits a) (fst c)"
    by (auto simp: demo_op reg_id_def register_defs word_le_nat_alt word_less_nat_alt)
next
  fix c :: demo_chip and a :: u8
  assume a: "bank (fst c) = 0 \<and> a \<in> {ERDPT, ERDPT + 1} \<or> bank (fst c) = 0x20 \<and> a = EPKTCNT AND ADDR_MASK"
  then have l: "a < 0x20" "\<not> 0x1B \<le> a" by (auto simp: register_defs word_le_nat_alt word_less_nat_alt)
  note p = read_byte_parts [OF l(1)]
  show "last (fst (transaction (demo_hw ci) [a, 0] c)) = regs (fst c) (bank (fst c) OR a)"
    using p l(2) by (simp add: demo_register(2) reg_id_def)
  show "after (demo_hw ci) fst [a, 0] c = fst c"
    using p by (simp add: demo_register(1) demo_regs_def put_reg_def)
qed

lemma demo_datasheet: "datasheet (demo_hw ci) fst (\<lambda>_. True) ci" "selection (demo_hw ci) fst" "resets (demo_hw ci) fst"
proof -
  show s: "selection (demo_hw ci) fst" using demo_selects demo_keeps demo_limits by (simp add: selection_def)
  have "frees_frames (demo_hw ci) fst (\<lambda>_. True)"
    unfolding frees_frames_def by (simp add: demo_op)
  moreover have "reads_memory (demo_hw ci) fst (\<lambda>_. True) ci"
    unfolding reads_memory_def by (simp add: transaction_def demo_xfer_def demo_reads case_prod_beta Let_def)
  moreover have "writes_memory (demo_hw ci) fst (\<lambda>_. True) ci"
    unfolding writes_memory_def by (simp add: transaction_def demo_xfer_def demo_writes case_prod_beta Let_def)
  ultimately show "datasheet (demo_hw ci) fst (\<lambda>_. True) ci" using s demo_pointers by (simp add: datasheet_def)
  have "ENC28J60_SOFT_RESET \<noteq> ENC28J60_READ_BUF_MEM" "ENC28J60_SOFT_RESET \<noteq> ENC28J60_WRITE_BUF_MEM" by (simp_all add: opcode_defs)
  then show "resets (demo_hw ci) fst"
    by (simp add: resets_def transaction_def demo_xfer_def bank_def Let_def case_prod_beta)
qed

text \<open>
  The driver constructed on it; then the controller has received a frame of 2 bytes at the start of the receive buffer.
\<close>

definition demo_ci :: chip_if where
  "demo_ci = \<lparr>rdnext = (\<lambda>a. if a = 0x0BFF then 0 else (a + 1) AND 0x1FFF), wrnext = (\<lambda>a. (a + 1) AND 0x1FFF),
     dma_busy = False, dma = (\<lambda>_ _ _ m. m)\<rparr>"

definition demo_junk :: "demo_chip driver" where
  "demo_junk = \<lparr>Enc28j60Bank = 0xA5, gNextPacketPtr = 7, revision = 0, drv_payloadPointer = 0,
     dev = (\<lparr>regs = (\<lambda>_. 1), emem = (\<lambda>_. 0)\<rparr>, [], 0)\<rparr>"

definition demo_packet :: "u8 list" where
  "demo_packet = mem16 12 @ mem16 6 @ mem16 0x80 @ [0xAA, 0xBB] @ [1, 2, 3, 4]"

definition demo_received :: "demo_chip driver \<Rightarrow> demo_chip driver" where
  "demo_received d = d\<lparr>dev := (\<lparr>regs = (regs (fst (dev d)))(EPKTCNT := 1), emem = pokes (addrs (rdnext demo_ci) 0 12) demo_packet (\<lambda>_. 0)\<rparr>, [], 0)\<rparr>"

lemma while_do_end: "\<not> fst (test d) \<Longrightarrow> while_do test body d = Some (snd (test d))"
  by (subst while_do.simps) (auto split: prod.split)

text \<open>The PHY of this controller is never busy, and its clock is running.\<close>

lemma demo_not_busy: "\<not> fst (reg_bits (demo_hw ci) MISTAT m d)"
proof -
  have "shift (demo_hw ci) [0x0A, 0, 0] (e, [], r) = (rs, c) \<Longrightarrow> last rs = 0" for e r rs c
    by (auto simp: demo_xfer_def opcode_defs Let_def)
  then have "fst (readOp (demo_hw ci) ENC28J60_READ_CTRL_REG MISTAT d) = 0" for d
    by (simp add: readOp_transaction transaction_def op_byte_read(1) case_prod_beta Let_def) (simp add: register_defs prod_eq_iff)
  then show ?thesis by (simp add: reg_bits_def readRegByte_def case_prod_beta)
qed

lemma demo_clock:
  "fst (readOp (demo_hw ci) ENC28J60_READ_CTRL_REG ESTAT d) = regs (fst (dev d)) ESTAT"
  by (simp add: readOp_transaction op_byte_read(1) Let_def case_prod_beta)
    (simp add: demo_register(2) register_defs opcode_defs reg_id_def)

lemma demo_constructed:
  obtains d where "ENC28J60Driver_new (demo_hw ci) mac demo_junk = Some d" and "gNextPacketPtr d = 0"
proof -
  define d0 where "d0 = writeOp (demo_hw ci) ENC28J60_SOFT_RESET 0 ENC28J60_SOFT_RESET (disableChip (demo_hw ci) (demo_junk\<lparr>drv_payloadPointer := 0\<rparr>))"
  define t where "t = (\<lambda>d. case readOp (demo_hw ci) ENC28J60_READ_CTRL_REG ESTAT d of (r, d) \<Rightarrow> (clock_stopped r, d))"
  have "regs (fst (dev d0)) ESTAT = 1"
    by (simp add: d0_def writeOp_transaction transaction_def demo_xfer_def disableChip_def demo_junk_def Let_def op_byte_def)
      (simp add: opcode_defs register_defs)
  then have t: "\<not> fst (t d0)" by (simp add: t_def case_prod_beta demo_clock clock_stopped_def)
  obtain d2 where d2: "writePhy (demo_hw ci) PHCON2 PHCON2_HDLDIS (ENC28J60Driver_init (demo_hw ci) mac (snd (t d0))) = Some d2"
    using while_do_end [of "reg_bits (demo_hw ci) MISTAT MISTAT_BUSY", OF demo_not_busy] by (simp add: writePhy_def)
  have "gNextPacketPtr d2 = 0"
    using d2 while_do_end [of "reg_bits (demo_hw ci) MISTAT MISTAT_BUSY", OF demo_not_busy]
    by (auto simp: writePhy_def ENC28J60Driver_init_def in_order_def note_next RXSTART_INIT_def)
  then show ?thesis
    using that t d2 while_do_end [of t d0 id]
    unfolding ENC28J60Driver_new_def Let_def t_def [symmetric]
    by (auto simp: d0_def demo_junk_def case_prod_beta in_order_def note_next)
qed

section \<open>Properties\<close>

text \<open>
  C28: The driver knows the selected bank. Let the controller select banks as its data sheet says (\<open>selection\<close>, \<open>resets\<close>). Whatever calls are made
  after the construction of the driver, whatever they find in the registers, and whatever is received and sent meanwhile, the bank noted in
  \<^verbatim>\<open>Enc28j60Bank\<close> is the bank selected in ECON1, although the constructor does not initialise the note; after \<^verbatim>\<open>SetBank\<close> the bank of
  the register is selected; and the bounds of the receive buffer are those that the driver uses.
\<close>

theorem bank_is_known:
  assumes "selection hw view" and "resets hw view" and "driver_run hw view d"
  shows "Enc28j60Bank d = bank (view (dev d)) \<and> bank (view (dev (SetBank hw a d))) = a AND BANK_MASK
    \<and> rx_limits (view (dev d)) = mem16 RXSTART_INIT @ mem16 RXSTOP_INIT"
  using run_ok [OF assms] SetBank_ok(2) [OF assms(1) ready_ok [OF run_ok [OF assms]]]
  by (simp add: driver_ok_def bank_ok_def ring_ok_def)

text \<open>
  C29: The driver implements the packet memory. Let the controller do what its data sheet says (\<open>datasheet\<close>), and no frame be received or sent during
  the call (\<open>calm\<close>). On the bus, \<^verbatim>\<open>ENC28J60Driver::write\<close> at an address of the packet memory (at most 0x1FFF) changes the memory of the
  controller, and \<^verbatim>\<open>ENC28J60Driver::read\<close> returns its bytes, just as \<open>driver_write\<close> and \<open>driver_read\<close> do on the memory of the
  state that the buffers and all layers above work with; a read leaves it as it is.
\<close>

theorem driver_implements_memory:
  fixes s :: "'a store_scheme"
  assumes "datasheet hw view calm ci" and "resets hw view" and "driver_run hw view d" and "calm (dev d)" and "off \<le> 0x1FFF"
    and "ram s = emem (view (dev d))" and "chip s = ci"
  shows "fst (enc_write hw off data d) = fst (driver_write off data s)
    \<and> emem (view (dev (snd (enc_write hw off data d)))) = ram (snd (driver_write off data s))
    \<and> driver_read s off n = Some (snd (fst (enc_read hw off n d)))
    \<and> emem (view (dev (snd (enc_read hw off n d)))) = ram s"
proof -
  note ok = run_ok [OF sheet [OF assms(1)] assms(2,3)]
  show ?thesis
    using memory_ok(1) [OF sheet [OF assms(1)] ok] enc_write_memory [OF assms(1) ok assms(4,5)] enc_read_memory [OF assms(1) ok assms(4,5)]
      assms(6,7)
    by (simp add: driver_write_def driver_read_def)
qed

text \<open>
  C30: A received frame is found. Let the controller do what its data sheet says, and no other frame be received or sent during the call. When the
  controller has stored a packet where the driver expects the next one, the six bytes of the header, a
  frame without errors that is not too long, and its CRC, \<^verbatim>\<open>receiveFrame\<close> returns the length of the frame, the receive
  buffer then starts with exactly the frame, and the next packet is expected where the header says. Without
  a packet the result is 0.
\<close>

theorem received_frame_is_found:
  fixes s :: "'a store_scheme"
  assumes "datasheet hw view calm ci" and "resets hw view" and "driver_run hw view d" and "calm (dev d)"
  defines "p \<equiv> gNextPacketPtr d" and "count \<equiv> regs (view (dev d)) EPKTCNT" and "r \<equiv> enc_receiveFrame hw d"
  assumes "count \<noteq> 0 \<Longrightarrow> map (emem (view (dev d))) (addrs (rdnext ci) p (6 + length frame + 4))
      = mem16 nxt @ mem16 (word_of_nat (length frame + 4)) @ mem16 st @ frame @ crc"
    and "length frame \<le> 1500" and "st AND 0x80 \<noteq> 0" and "length crc = 4" and "p \<le> 0x1FFF" and "(rdnext ci ^^ 6) p \<le> 0x0BFF"
    and "ram s = emem (view (dev (snd r)))" and "chip s = ci"
  shows "if count = 0 then fst r = 0
    else unat (fst r) = length frame \<and> b_read s (getReceiveBuffer (snd r)) 0 (fst r) = Some frame
      \<and> gNextPacketPtr (snd r) = nxt"
proof -
  note R = receive_memory [OF assms(1) run_ok [OF sheet [OF assms(1)] assms(2,3)] assms(4), folded p_def count_def r_def, OF assms(12)]
  show ?thesis
  proof (cases "count = 0")
    case True
    then show ?thesis using R(2) by simp
  next
    case False
    let ?m = "emem (view (dev d))" and ?len = "word_of_nat (length frame + 4) :: u16"
    have l: "unat ?len = length frame + 4" using assms(9) by (intro unat_of_nat16) simp
    have fl: "frame_length ?len st = word_of_nat (length frame)"
    proof -
      have "\<not> (word_of_nat (length frame) :: u16) > MAX_FRAMELEN"
        using assms(9) unat_of_nat16 [of "length frame"] by (simp add: MAX_FRAMELEN_def word_less_nat_alt)
      then show ?thesis using assms(10) by (simp add: frame_length_def Let_def)
    qed
    have "map ?m (addrs (rdnext ci) p 6) @ map ?m (addrs (rdnext ci) ((rdnext ci ^^ 6) p) (length frame + 4))
        = (mem16 nxt @ mem16 ?len @ mem16 st) @ (frame @ crc)"
      using assms(8) [OF False] addrs_add [of "rdnext ci" p 6 "length frame + 4"] by (simp add: add.assoc)
    moreover have "length (map ?m (addrs (rdnext ci) p 6)) = length (mem16 nxt @ mem16 ?len @ mem16 st)" by simp
    ultimately have h: "map ?m (addrs (rdnext ci) p 6) = mem16 nxt @ mem16 ?len @ mem16 st"
      and f: "map ?m (addrs (rdnext ci) ((rdnext ci ^^ 6) p) (length frame + 4)) = frame @ crc"
      using append_eq_append_conv [OF disjI1] by blast+
    have f: "map ?m (addrs (rdnext ci) ((rdnext ci ^^ 6) p) (length frame)) = frame"
      using f assms(11) addrs_add [of "rdnext ci" "(rdnext ci ^^ 6) p" "length frame" 4] by (auto simp: append_eq_append_conv)
    have r: "fst r = word_of_nat (length frame)" "gNextPacketPtr (snd r) = nxt" "drv_payloadPointer (snd r) = (rdnext ci ^^ 6) p"
      using R(3) [OF False h] fl by simp_all
    have ln: "unat (fst r) = length frame" using assms(9) unat_of_nat16 [of "length frame"] by (simp add: r)
    have "b_read s (getReceiveBuffer (snd r)) 0 (fst r) = Some (map ?m (addrs (rdnext ci) ((rdnext ci ^^ 6) p) (length frame)))"
      using assms(13-15) R(1) r(3) ln
      by (simp add: getReceiveBuffer_def ENC28J60Buffer_new_def layout_defs enc_address_def Let_def leD driver_read_def)
    then show ?thesis using f False ln r(2) by simp
  qed
qed

lemma addrs_numeral: "addrs nx a (numeral n) = a # addrs nx (nx a) (pred_numeral n)"
  by (simp add: numeral_eq_Suc)

lemma bank_is_known_witness:
  "\<exists>d. driver_run (demo_hw demo_ci) fst d \<and> Enc28j60Bank d = bank (fst (dev d))"
  using demo_constructed [of demo_ci "[2, 0, 0, 0, 0, 1]"]
    bank_is_known [OF demo_datasheet(2,3) [of demo_ci]] driver_run.new by metis

lemma driver_implements_memory_witness:
  "\<exists>d s. driver_run (demo_hw demo_ci) fst d
    \<and> emem (fst (dev (snd (enc_write (demo_hw demo_ci) 0x0C01 [7, 8] d)))) = ram (snd (driver_write 0x0C01 [7, 8] (s :: store)))"
proof -
  obtain d where d: "ENC28J60Driver_new (demo_hw demo_ci) [2, 0, 0, 0, 0, 1] demo_junk = Some d" by (rule demo_constructed)
  let ?s = "\<lparr>sram = (\<lambda>_. 0), ram = emem (fst (dev d)), chip = demo_ci\<rparr>"
  have run: "driver_run (demo_hw demo_ci) fst d" by (rule driver_run.new [OF d])
  have "(0x0C01 :: u16) \<le> 0x1FFF" "ram ?s = emem (fst (dev d))" "chip ?s = demo_ci" by simp_all
  from driver_implements_memory [OF demo_datasheet(1,3) run TrueI this, where data = "[7, 8]"] run show ?thesis by blast
qed

lemma received_frame_is_found_witness:
  "\<exists>d s. driver_run (demo_hw demo_ci) fst d \<and> fst (enc_receiveFrame (demo_hw demo_ci) d) = 2
    \<and> b_read (s :: store) (getReceiveBuffer (snd (enc_receiveFrame (demo_hw demo_ci) d))) 0 2 = Some [0xAA, 0xBB]"
proof -
  obtain d0 where d0: "ENC28J60Driver_new (demo_hw demo_ci) [2, 0, 0, 0, 0, 1] demo_junk = Some d0" and p: "gNextPacketPtr d0 = 0"
    by (rule demo_constructed)
  define d where "d = demo_received d0"
  let ?r = "enc_receiveFrame (demo_hw demo_ci) d"
  let ?s = "\<lparr>sram = (\<lambda>_. 0), ram = emem (fst (dev (snd ?r))), chip = demo_ci\<rparr>"
  have run: "driver_run (demo_hw demo_ci) fst d"
    unfolding d_def demo_received_def
    by (intro driver_run.other driver_run.new [OF d0]) (simp add: same_selection_def bank_def rx_limits_def register_defs)
  have six: "(6 :: nat) = Suc (Suc (Suc (Suc (Suc (Suc 0)))))" by simp
  have A: "addrs (rdnext demo_ci) 0 12 = [0, 1, 2, 3, 4, 5, 6, 7, 8, 9, 10, 11]" "(rdnext demo_ci ^^ 6) 0 = 6"
    by (simp add: demo_ci_def addrs_numeral)
      (simp only: six funpow.simps comp_apply id_apply demo_ci_def chip_if.select_convs, simp)
  have m: "map (emem (fst (dev d))) (addrs (rdnext demo_ci) 0 12) = demo_packet"
    by (simp add: d_def demo_received_def A demo_packet_def mem16_def)
  have g: "gNextPacketPtr d = 0" "regs (fst (dev d)) EPKTCNT = 1" using p by (simp_all add: d_def demo_received_def)
  have pk: "demo_packet = mem16 12 @ mem16 (word_of_nat (length [0xAA :: u8, 0xBB] + 4)) @ mem16 0x80 @ [0xAA, 0xBB] @ [1, 2, 3, 4]"
    by (simp add: demo_packet_def)
  have "fst ?r = 2 \<and> b_read ?s (getReceiveBuffer (snd ?r)) 0 (fst ?r) = Some [0xAA, 0xBB]"
    using received_frame_is_found [OF demo_datasheet(1,3) run TrueI, where frame = "[0xAA, 0xBB]" and nxt = 12 and st = "0x80"
      and crc = "[1, 2, 3, 4]" and s = ?s] m [unfolded pk] A(2) g
    by (simp add: word_unat_eq_iff)
  then show ?thesis using run by metis
qed

end
