(* ===== verification/ARPHandler.thy ===== *)
theory ARPHandler
  imports EtherControl
begin

text \<open>
  ARPHandler.h/.cpp: the table of routes from IP to ethernet addresses, the requests that fill it and
  their repetition. A row is free (status 0), being looked up (the number of requests sent so far) or
  resolved (bit 7).
\<close>

section \<open>State\<close>

record etherRoute =
  ipAddress :: "u8 list"
  macAddress :: "u8 list"
  lookupTime :: u32
  lookupStatus :: u8

record arp = net +
  arp_ipAddress :: "u8 list"
  routingTable :: "etherRoute list"
  arp_timer :: u8

definition ARP_RESOLVED :: u8 where "ARP_RESOLVED = 0x80"
definition ARP_PROTOCOL :: u16 where "ARP_PROTOCOL = 0x0806"
definition IP_PROTOCOL :: u16 where "IP_PROTOCOL = 0x0800"
definition ETH_PROTOCOL :: u16 where "ETH_PROTOCOL = 0x0001"
definition ARP_REQUEST :: u16 where "ARP_REQUEST = 0x0001"
definition ARP_RESPONSE :: u16 where "ARP_RESPONSE = 0x0002"

definition zero_route :: etherRoute where
  "zero_route = \<lparr>ipAddress = [0, 0, 0, 0], macAddress = [0, 0, 0, 0, 0, 0], lookupTime = 0, lookupStatus = 0\<rparr>"

text \<open>IPHandler::ipsEquate: the loop over the four bytes.\<close>

definition ipsEquate :: "u8 list \<Rightarrow> u8 list \<Rightarrow> bool" where
  "ipsEquate a b = list_all (\<lambda>i. a ! i = b ! i) [0 ..< 4]"

definition ARPHandler_new :: "bool \<Rightarrow> u8 list \<Rightarrow> nat \<Rightarrow> 'a arp_scheme \<Rightarrow> 'a arp_scheme" where
  "ARPHandler_new allocated ip routingTableSize s =
     (let s = s\<lparr>arp_ipAddress := ip\<rparr>;
          s = snd (registerProtocol ARP_PROTOCOL (Some ARPPayload) s)
      in s\<lparr>routingTable := replicate (if allocated then routingTableSize else 0) zero_route,
           arp_timer := 0\<rparr>)"

text \<open>
  The two macros. The operand of the shifts is promoted to \<^verbatim>\<open>int\<close>, so shifting left and right again
  does not clear bit 7.
\<close>

definition ATTEMPTCOUNT :: "etherRoute \<Rightarrow> u16" where
  "ATTEMPTCOUNT route = drop_bit 1 (push_bit 1 (ucast (lookupStatus route)))"

definition SETATTEMPTCOUNT :: "etherRoute \<Rightarrow> u16 \<Rightarrow> etherRoute" where
  "SETATTEMPTCOUNT route value = route\<lparr>lookupStatus :=
     ucast (ucast (lookupStatus route AND ARP_RESOLVED) OR drop_bit 1 (push_bit 1 value))\<rparr>"

definition resolved :: "etherRoute \<Rightarrow> bool" where
  "resolved route = (lookupStatus route AND ARP_RESOLVED \<noteq> 0)"

section \<open>Packets\<close>

definition sendARPRequest :: "u8 list \<Rightarrow> 'a arp_scheme \<Rightarrow> bool \<times> 'a arp_scheme" where
  "sendARPRequest target_protocol_addr s =
     (let etherBuffer = sendPayloadBuffer s; wr = b_write etherBuffer
      in case seq_ok
           ([writeNet16 wr 0 ETH_PROTOCOL,
             writeNet16 wr 2 IP_PROTOCOL,
             write8 wr 4 6,
             write8 wr 5 4,
             writeNet16 wr 6 ARP_REQUEST,
             wr 8 (macAddr s),
             wr 14 (arp_ipAddress s)]
            @ map (\<lambda>i. write8 wr (18 + word_of_nat i) 0) [0 ..< 6]
            @ [wr 24 target_protocol_addr]) s of
           (ok, s) \<Rightarrow> if \<not> ok then (False, s) else sendFrame broadcastMAC ARP_PROTOCOL 28 s)"

definition sendARPResponse :: "u8 list \<Rightarrow> u8 list \<Rightarrow> 'a arp_scheme \<Rightarrow> bool \<times> 'a arp_scheme" where
  "sendARPResponse target_hardware_addr target_protocol_addr s =
     (let etherBuffer = sendPayloadBuffer s; wr = b_write etherBuffer
      in case seq_ok
           [writeNet16 wr 0 ETH_PROTOCOL,
            writeNet16 wr 2 IP_PROTOCOL,
            write8 wr 4 6,
            write8 wr 5 4,
            writeNet16 wr 6 ARP_RESPONSE,
            wr 8 (macAddr s),
            wr 14 (arp_ipAddress s),
            wr 18 target_hardware_addr,
            wr 24 target_protocol_addr] s of
           (ok, s) \<Rightarrow> if \<not> ok then (False, s) else sendFrame target_hardware_addr ARP_PROTOCOL 28 s)"

text \<open>The loop over the table for a reply: the first row with the sender's IP address is resolved.\<close>

fun resolve_row :: "u8 list \<Rightarrow> u8 list \<Rightarrow> etherRoute list \<Rightarrow> etherRoute list" where
  "resolve_row ip mac [] = []"
| "resolve_row ip mac (r # rs) =
     (if ipsEquate ip (ipAddress r)
      then r\<lparr>macAddress := mac, lookupStatus := lookupStatus r OR ARP_RESOLVED\<rparr> # rs
      else r # resolve_row ip mac rs)"

text \<open>
  The first part of the handler, up to the last read: the operation, the sender's hardware and protocol
  address and the target's. Each step that yields no value is a \<^verbatim>\<open>return\<close> of the handler.
\<close>

definition ARP_read_packet :: "reader_fun \<Rightarrow> u16 \<Rightarrow> (u16 \<times> u8 list \<times> u8 list \<times> u8 list \<times> u8 list) option" where
  "ARP_read_packet rd p_size = do {
     require (\<not> p_size < 28);
     w \<leftarrow> readNet16 rd 0;
     require (w = ETH_PROTOCOL);
     w \<leftarrow> readNet16 rd 2;
     require (w = IP_PROTOCOL);
     b \<leftarrow> read8 rd 4;
     require (b = 6);
     b \<leftarrow> read8 rd 5;
     require (b = 4);
     operation \<leftarrow> readNet16 rd 6;
     sender_hardware_addr \<leftarrow> rd 8 6;
     sender_protocol_addr \<leftarrow> rd 14 4;
     target_hardware_addr \<leftarrow> rd 18 6;
     target_protocol_addr \<leftarrow> rd 24 4;
     Some (operation, sender_hardware_addr, sender_protocol_addr, target_hardware_addr, target_protocol_addr)
   }"

definition ARP_handlePayload :: "buffer \<Rightarrow> 'a arp_scheme \<Rightarrow> 'a arp_scheme" where
  "ARP_handlePayload p s =
     (case ARP_read_packet (b_read s p) (b_size p) of
        None \<Rightarrow> s
      | Some (operation, sender_hardware_addr, sender_protocol_addr, target_hardware_addr, target_protocol_addr) \<Rightarrow>
          if operation = ARP_REQUEST
          then if \<not> ipsEquate target_protocol_addr (arp_ipAddress s) then s
               else snd (sendARPResponse sender_hardware_addr sender_protocol_addr s)
          else if operation = ARP_RESPONSE
          then if \<not> macsEquate target_hardware_addr (macAddr s) then s
               else if \<not> ipsEquate target_protocol_addr (arp_ipAddress s) then s
               else s\<lparr>routingTable :=
                      resolve_row sender_protocol_addr sender_hardware_addr (routingTable s)\<rparr>
          else s)"

section \<open>The table\<close>

text \<open>\<^verbatim>\<open>getMACAddress\<close>: \<open>None\<close> is the null pointer.\<close>

fun find_mac :: "u8 list \<Rightarrow> etherRoute list \<Rightarrow> u8 list option" where
  "find_mac remoteIP [] = None"
| "find_mac remoteIP (r # rs) =
     (if ipsEquate (ipAddress r) remoteIP
      then if resolved r then Some (macAddress r) else None
      else find_mac remoteIP rs)"

definition getMACAddress :: "'a arp_scheme \<Rightarrow> u8 list \<Rightarrow> u8 list option" where
  "getMACAddress s remoteIP = find_mac remoteIP (routingTable s)"

text \<open>
  The first loop of \<^verbatim>\<open>requestMACAddress\<close>: it ends the function when a row with the address is not yet
  resolved, otherwise it leaves the index of the last row with the address (-1 is \<open>None\<close>).
\<close>

datatype scan = Looking_it_up | Index "nat option"

fun request_scan :: "u8 list \<Rightarrow> etherRoute list \<Rightarrow> nat \<Rightarrow> nat option \<Rightarrow> scan" where
  "request_scan remoteIP [] i index = Index index"
| "request_scan remoteIP (r # rs) i index =
     (if ipsEquate (ipAddress r) remoteIP
      then if \<not> resolved r then Looking_it_up
           else request_scan remoteIP rs (i + 1) (Some i)
      else request_scan remoteIP rs (i + 1) index)"

text \<open>The second loop: the first row that is not in use.\<close>

fun free_row :: "etherRoute list \<Rightarrow> nat option" where
  "free_row [] = None"
| "free_row (r # rs) =
     (if \<not> resolved r \<and> ATTEMPTCOUNT r = 0 then Some 0 else map_option Suc (free_row rs))"

definition requestMACAddress :: "u8 list \<Rightarrow> 'a arp_scheme \<Rightarrow> bool \<times> 'a arp_scheme" where
  "requestMACAddress remoteIP s =
     (case request_scan remoteIP (routingTable s) 0 None of
        Looking_it_up \<Rightarrow> (True, s)
      | Index index \<Rightarrow>
          (let index = (case index of None \<Rightarrow> free_row (routingTable s) | Some i \<Rightarrow> Some i)
           in case index of
                None \<Rightarrow> (False, s)
              | Some i \<Rightarrow>
                  (let (t, s) = (if arp_timer s = 0 then registerTimer ARPTimer 250 s else (arp_timer s, s));
                       s = s\<lparr>arp_timer := t\<rparr>
                   in if t = 0 then (False, s)
                      else let r = SETATTEMPTCOUNT (routingTable s ! i) 1;
                               r = r\<lparr>lookupTime := now s, ipAddress := remoteIP\<rparr>
                           in sendARPRequest remoteIP (s\<lparr>routingTable := (routingTable s)[i := r]\<rparr>))))"

text \<open>One turn of the loop of \<^verbatim>\<open>handleTimer\<close>, for row \<open>i\<close>.\<close>

definition ARP_timer_row :: "nat \<Rightarrow> u8 \<times> 'a arp_scheme \<Rightarrow> u8 \<times> 'a arp_scheme" where
  "ARP_timer_row i = (\<lambda>(lookupCount, s).
     let r = routingTable s ! i;
         count = (ucast (ATTEMPTCOUNT r) :: u8)
     in if count = 0 then (lookupCount, s)
        else if resolved r then (lookupCount, s)
        else if now s - lookupTime r < 250 then (lookupCount + 1, s)
        else if count \<ge> 5
        then (lookupCount + 1, s\<lparr>routingTable := (routingTable s)[i := zero_route]\<rparr>)
        else let r = SETATTEMPTCOUNT r (ucast count + 1);
                 r = r\<lparr>lookupTime := now s\<rparr>
             in (lookupCount + 1,
                 snd (sendARPRequest (ipAddress r) (s\<lparr>routingTable := (routingTable s)[i := r]\<rparr>))))"

definition ARP_handleTimer :: "u8 \<Rightarrow> 'a arp_scheme \<Rightarrow> 'a arp_scheme option" where
  "ARP_handleTimer index s =
     (case fold ARP_timer_row [0 ..< length (routingTable s)] (0, s) of
        (lookupCount, s) \<Rightarrow>
          if lookupCount = 0 \<and> arp_timer s \<noteq> 0
          then do { s \<leftarrow> unregisterTimer (arp_timer s) s; Some (s\<lparr>arp_timer := 0\<rparr>) }
          else Some s)"

section \<open>Packets: laws\<close>

text \<open>The 28 bytes of RFC 826 for ethernet and IPv4.\<close>

definition arp_fields :: "u16 \<Rightarrow> u8 list \<Rightarrow> u8 list \<Rightarrow> u8 list \<Rightarrow> u8 list \<Rightarrow> u8 list list" where
  "arp_fields op sha spa tha tpa = [be16 1, be16 0x0800, [6], [4], be16 op, sha, spa, tha, tpa]"

definition arp_packet :: "u16 \<Rightarrow> u8 list \<Rightarrow> u8 list \<Rightarrow> u8 list \<Rightarrow> u8 list \<Rightarrow> u8 list" where
  "arp_packet op sha spa tha tpa = concat (arp_fields op sha spa tha tpa)"

definition arp_net_ok :: "'a arp_scheme \<Rightarrow> bool" where
  "arp_net_ok s = (eth_ok s \<and> 42 \<le> unat (b_size (drv_send s)) \<and> length (arp_ipAddress s) = 4)"

lemma arp_same:
  assumes "net.more s' = net.more s"
  shows "arp_ipAddress s' = arp_ipAddress s" "routingTable s' = routingTable s" "arp_timer s' = arp_timer s"
    "arp.more s' = arp.more s"
  using assms by (cases s, cases s', simp)+

lemma arp_transmits:
  assumes "transmits fs s s'"
  shows "arp_ipAddress s' = arp_ipAddress s" "routingTable s' = routingTable s" "arp_timer s' = arp_timer s"
    "arp.more s' = arp.more s" "arp_net_ok s' = arp_net_ok s"
  using arp_same [OF transmits_fields(10) [OF assms]] transmits_ok [OF assms] transmits_fields(4) [OF assms]
  by (simp_all add: arp_net_ok_def)

lemma length_arp_packet:
  "length sha = 6 \<Longrightarrow> length spa = 4 \<Longrightarrow> length tha = 6 \<Longrightarrow> length tpa = 4 \<Longrightarrow>
    length (arp_packet op sha spa tha tpa) = 28"
  by (simp add: arp_packet_def arp_fields_def)

lemma six_zeros: "map (\<lambda>i. write8 wr (18 + word_of_nat i) 0) [0 ..< 6]
    = [write8 wr 18 0, write8 wr 19 0, write8 wr 20 0, write8 wr 21 0, write8 wr 22 0, write8 wr 23 (0 :: u8)]"
  by (simp add: upt_rec)

text \<open>Filling in the packet and sending it, for a request and a response.\<close>

lemma arp_send:
  assumes ok: "arp_net_ok s" and xss: "concat xss = pk" "length pk = 28" "[] \<notin> set xss" and dst: "length dst = 6"
  shows "\<exists>s'. (case seq_ok (map (op_write (sendPayloadBuffer s)) (layout 0 xss)) s of
      (ok, s) \<Rightarrow> if \<not> ok then (False, s) else sendFrame dst ARP_PROTOCOL 28 s) = (True, s')
    \<and> transmits [eth_header dst (macAddr s) ARP_PROTOCOL @ pk] s s'"
proof -
  let ?p = "sendPayloadBuffer s" and ?s = "writes (sendPayloadBuffer s) (layout 0 xss) s"
  have eth: "eth_ok s" and w: "b_wok s ?p" and sz: "28 \<le> unat (b_size ?p)"
    using ok by (auto simp: arp_net_ok_def eth_ok_payload eth_payload_size)
  have len: "length (b_bytes s ?p) = unat (b_size ?p)" using eth by (rule eth_payload_length)
  have ops: "ops_in (unat (b_size ?p)) (layout 0 xss)"
    using xss sz by (intro ops_in_layout) simp_all
  have "b_bytes ?s ?p = put 0 pk (b_bytes s ?p)"
    using xss sz len by (simp add: seq_writes(2) [OF w ops] puts_layout)
  then have "take 28 (b_bytes ?s ?p) = pk" using xss(2) sz len by (simp add: put_0)
  moreover obtain s' where "sendFrame dst ARP_PROTOCOL 28 ?s = (True, s')"
    and "transmits [eth_header dst (macAddr ?s) ARP_PROTOCOL @ take (unat (28 :: u16)) (b_bytes ?s (sendPayloadBuffer ?s))] ?s s'"
    using sendFrame_frame [of ?s dst 28 ARP_PROTOCOL] eth dst sz by (auto simp: le16_iff)
  ultimately show ?thesis
    using seq_writes(1) [OF w ops] by (auto intro: transmits_writes)
qed

lemma sendARPRequest_frame:
  assumes "arp_net_ok s" and "length tpa = 4"
  shows "\<exists>s'. sendARPRequest tpa s = (True, s') \<and> transmits [eth_header broadcastMAC (macAddr s) ARP_PROTOCOL
    @ arp_packet ARP_REQUEST (macAddr s) (arp_ipAddress s) [0, 0, 0, 0, 0, 0] tpa] s s'"
proof -
  let ?xss = "[be16 1, be16 0x0800, [6], [4], be16 ARP_REQUEST, macAddr s, arp_ipAddress s,
    [0], [0], [0], [0], [0], [0], tpa]"
  have l: "length (macAddr s) = 6" "length (arp_ipAddress s) = 4"
    using assms(1) by (simp_all add: arp_net_ok_def eth_ok_def)
  have c: "concat ?xss = arp_packet ARP_REQUEST (macAddr s) (arp_ipAddress s) [0, 0, 0, 0, 0, 0] tpa"
    by (simp add: arp_packet_def arp_fields_def)
  have "length (concat ?xss) = 28" "[] \<notin> set ?xss"
    using l assms(2) by (auto simp: be16_def)
  moreover have "length broadcastMAC = 6" by (simp add: broadcastMAC_def)
  ultimately obtain s' where s': "(case seq_ok (map (op_write (sendPayloadBuffer s)) (layout 0 ?xss)) s of
      (ok, s) \<Rightarrow> if \<not> ok then (False, s) else sendFrame broadcastMAC ARP_PROTOCOL 28 s) = (True, s')"
    "transmits [eth_header broadcastMAC (macAddr s) ARP_PROTOCOL
      @ arp_packet ARP_REQUEST (macAddr s) (arp_ipAddress s) [0, 0, 0, 0, 0, 0] tpa] s s'"
    using arp_send [OF assms(1) c] unfolding c by blast
  have ops: "map (op_write (sendPayloadBuffer s)) (layout 0 ?xss) =
      (let wr = b_write (sendPayloadBuffer s)
       in [writeNet16 wr 0 ETH_PROTOCOL, writeNet16 wr 2 IP_PROTOCOL, write8 wr 4 6, write8 wr 5 4,
         writeNet16 wr 6 ARP_REQUEST, wr 8 (macAddr s), wr 14 (arp_ipAddress s)]
         @ map (\<lambda>i. write8 wr (18 + word_of_nat i) 0) [0 ..< 6] @ [wr 24 tpa])"
    using l by (simp add: Let_def six_zeros accessor_ops ETH_PROTOCOL_def IP_PROTOCOL_def)
  show ?thesis using s' unfolding ops sendARPRequest_def Let_def by blast
qed

lemma sendARPResponse_frame:
  assumes "arp_net_ok s" and "length tha = 6" and "length tpa = 4"
  shows "\<exists>s'. sendARPResponse tha tpa s = (True, s') \<and> transmits [eth_header tha (macAddr s) ARP_PROTOCOL
    @ arp_packet ARP_RESPONSE (macAddr s) (arp_ipAddress s) tha tpa] s s'"
proof -
  let ?xss = "arp_fields ARP_RESPONSE (macAddr s) (arp_ipAddress s) tha tpa"
  have l: "length (macAddr s) = 6" "length (arp_ipAddress s) = 4"
    using assms(1) by (simp_all add: arp_net_ok_def eth_ok_def)
  then have "length (concat ?xss) = 28" "[] \<notin> set ?xss"
    using assms(2,3) by (auto simp: arp_fields_def be16_def)
  from arp_send [OF assms(1) refl this assms(2)]
  obtain s' where s': "(case seq_ok (map (op_write (sendPayloadBuffer s)) (layout 0 ?xss)) s of
      (ok, s) \<Rightarrow> if \<not> ok then (False, s) else sendFrame tha ARP_PROTOCOL 28 s) = (True, s')"
    "transmits [eth_header tha (macAddr s) ARP_PROTOCOL
      @ arp_packet ARP_RESPONSE (macAddr s) (arp_ipAddress s) tha tpa] s s'"
    unfolding arp_packet_def by blast
  have ops: "map (op_write (sendPayloadBuffer s)) (layout 0 ?xss) =
      (let wr = b_write (sendPayloadBuffer s)
       in [writeNet16 wr 0 ETH_PROTOCOL, writeNet16 wr 2 IP_PROTOCOL, write8 wr 4 6, write8 wr 5 4,
         writeNet16 wr 6 ARP_RESPONSE, wr 8 (macAddr s), wr 14 (arp_ipAddress s), wr 18 tha, wr 24 tpa])"
    using l assms(2) by (simp add: Let_def accessor_ops ETH_PROTOCOL_def IP_PROTOCOL_def arp_fields_def)
  show ?thesis using s' unfolding ops sendARPResponse_def Let_def by blast
qed

text \<open>Reading a packet back.\<close>

lemma arp_reads:
  assumes "b_ok s p" and "take 28 (b_bytes s p) = arp_packet op sha spa tha tpa"
    and "28 \<le> unat (b_size p)" and "length sha = 6" and "length spa = 4" and "length tha = 6" and "length tpa = 4"
  shows "readNet16 (b_read s p) 0 = Some 1" "readNet16 (b_read s p) 2 = Some 0x0800"
    "read8 (b_read s p) 4 = Some 6" "read8 (b_read s p) 5 = Some 4" "readNet16 (b_read s p) 6 = Some op"
    "b_read s p 8 6 = Some sha" "b_read s p 14 4 = Some spa" "b_read s p 18 6 = Some tha" "b_read s p 24 4 = Some tpa"
proof -
  have B: "b_bytes s p = (be16 1 @ be16 0x0800 @ [6, 4] @ be16 op @ sha @ spa @ tha @ tpa) @ drop 28 (b_bytes s p)"
    (is "_ = ?m @ _")
  proof -
    have "arp_packet op sha spa tha tpa = ?m" by (simp add: arp_packet_def arp_fields_def)
    then show ?thesis using assms(2) by (metis append_take_drop_id)
  qed
  have m: "length ?m = 28" using assms(4-7) by simp
  have nth: "b_bytes s p ! i = ?m ! i" if "i < 28" for i
    using that by (subst B) (simp only: nth_append m if_True)
  have win: "window i n (b_bytes s p) = window i n ?m" if "i + n \<le> 28" for i n
    using that by (subst B) (rule window_append, simp only: m)
  show "readNet16 (b_read s p) 0 = Some 1" "readNet16 (b_read s p) 2 = Some 0x0800"
    "read8 (b_read s p) 4 = Some 6" "read8 (b_read s p) 5 = Some 4" "readNet16 (b_read s p) 6 = Some op"
    using assms(1,3) by (simp_all add: buf.readNet16_inside buf.read8_inside nth be16_def bo_simps)
      (simp_all add: net16_def)
  show "b_read s p 8 6 = Some sha" "b_read s p 14 4 = Some spa" "b_read s p 18 6 = Some tha" "b_read s p 24 4 = Some tpa"
    using assms(1,3-7) by (simp_all add: buf.rd_inside win) (simp_all add: window_def)
qed

lemma ipsEquate_eq: "length a = 4 \<Longrightarrow> length b = 4 \<Longrightarrow> ipsEquate a b = (a = b)"
  unfolding ipsEquate_def list_all_iff list_eq_iff_nth_eq by auto

lemma macsEquate_eq: "length a = 6 \<Longrightarrow> length b = 6 \<Longrightarrow> macsEquate a b = (a = b)"
  unfolding macsEquate_def list_all_iff list_eq_iff_nth_eq by auto

lemma ARP_handlePayload_packet:
  assumes "b_ok s p" and "take 28 (b_bytes s p) = arp_packet op sha spa tha tpa"
    and "28 \<le> unat (b_size p)" and "length sha = 6" and "length spa = 4" and "length tha = 6" and "length tpa = 4"
    and "arp_net_ok s"
  shows "ARP_handlePayload p s =
    (if op = ARP_REQUEST \<and> tpa = arp_ipAddress s then snd (sendARPResponse sha spa s)
     else if op = ARP_RESPONSE \<and> tha = macAddr s \<and> tpa = arp_ipAddress s
     then s\<lparr>routingTable := resolve_row spa sha (routingTable s)\<rparr> else s)"
proof -
  have "\<not> b_size p < 28" using assms(3) by (simp add: less16)
  then show ?thesis
    using assms(8) assms(6,7) unfolding ARP_handlePayload_def ARP_read_packet_def arp_reads [OF assms(1-7)]
    by (auto simp: ETH_PROTOCOL_def IP_PROTOCOL_def ipsEquate_eq macsEquate_eq arp_net_ok_def eth_ok_def
        ARP_REQUEST_def ARP_RESPONSE_def)
qed

section \<open>The table: laws\<close>

lemma shift_back_bit: "bit (drop_bit 1 (push_bit 1 (w :: u16))) n = (n < 15 \<and> bit w n)"
  unfolding bit_drop_bit_eq comp_def bit_push_bit_iff by (auto dest: bit_imp_le_length)

lemma status_bits:
  "ATTEMPTCOUNT r = ucast (lookupStatus r)"
  "lookupStatus (SETATTEMPTCOUNT r v) = (lookupStatus r AND 0x80) OR ucast (drop_bit 1 (push_bit 1 v))"
  "resolved r = bit (lookupStatus r) 7"
proof -
  show "ATTEMPTCOUNT r = ucast (lookupStatus r)"
    unfolding ATTEMPTCOUNT_def
    by (rule bit_word_eqI) (auto simp only: shift_back_bit bit_unsigned_iff, auto dest: bit_imp_le_length)
  show "lookupStatus (SETATTEMPTCOUNT r v) = (lookupStatus r AND 0x80) OR ucast (drop_bit 1 (push_bit 1 v))"
    unfolding SETATTEMPTCOUNT_def ARP_RESOLVED_def
    by (simp, rule bit_word_eqI) (auto simp: bit_simps dest: bit_imp_le_length)
  have e: "(0x80 :: u8) = push_bit 7 1" by simp
  have "bit (0x80 :: u8) n = (n = 7)" for n
    unfolding e bit_push_bit_iff bit_1_iff by auto
  then have "bit (lookupStatus r AND ARP_RESOLVED) n = (n = 7 \<and> bit (lookupStatus r) 7)" for n
    unfolding ARP_RESOLVED_def bit_and_iff by auto
  then show "resolved r = bit (lookupStatus r) 7"
    unfolding resolved_def by (metis bit_0_eq bit_eq_iff bot_apply bot_bool_def)
qed

lemma bit7: "bit (w :: u8) 7 \<longleftrightarrow> 128 \<le> unat w"
proof -
  have "bit (unat w) 7 = odd (unat w div 128)" by (simp add: bit_iff_odd)
  moreover have "unat w div 128 = 0 \<or> unat w div 128 = 1"
    using unat8_less [of w] by (simp add: div_eq_0_iff del: unat8_less) linarith
  ultimately show ?thesis by (auto simp: bit_unsigned_iff div_eq_0_iff not_less)
qed

definition looking :: "etherRoute \<Rightarrow> bool" where
  "looking r = (lookupStatus r \<noteq> 0 \<and> \<not> resolved r)"

lemma attempts:
  "(ATTEMPTCOUNT r = 0) = (lookupStatus r = 0)" "(ucast (ATTEMPTCOUNT r) :: u8) = lookupStatus r"
  "looking r = (0 < unat (lookupStatus r) \<and> unat (lookupStatus r) < 128)"
proof -
  show u: "(ucast (ATTEMPTCOUNT r) :: u8) = lookupStatus r"
    unfolding status_bits by (rule bit_word_eqI) (auto simp: bit_simps)
  show "(ATTEMPTCOUNT r = 0) = (lookupStatus r = 0)"
    using u by (metis status_bits(1) unsigned_0)
  show "looking r = (0 < unat (lookupStatus r) \<and> unat (lookupStatus r) < 128)"
    by (auto simp: looking_def status_bits(3) bit7 unat_gt_0)
qed

text \<open>
  A well-formed table: a row is free and zeroed, or has sent between 1 and 5 requests, or is resolved;
  two rows in use never hold the same address, unless it is 0.0.0.0.
\<close>

definition route_ok :: "etherRoute \<Rightarrow> bool" where
  "route_ok r = (length (ipAddress r) = 4 \<and> length (macAddress r) = 6
     \<and> (lookupStatus r = 0 \<longrightarrow> r = zero_route) \<and> (looking r \<longrightarrow> unat (lookupStatus r) \<le> 5))"

definition table_ok :: "etherRoute list \<Rightarrow> bool" where
  "table_ok rs = ((\<forall>r \<in> set rs. route_ok r)
     \<and> (\<forall>i j. i < j \<longrightarrow> j < length rs \<longrightarrow> lookupStatus (rs ! i) \<noteq> 0 \<longrightarrow> lookupStatus (rs ! j) \<noteq> 0 \<longrightarrow>
          ipAddress (rs ! i) \<noteq> [0, 0, 0, 0] \<longrightarrow> ipAddress (rs ! i) \<noteq> ipAddress (rs ! j)))"

lemma table_ok_nth: "table_ok rs \<Longrightarrow> i < length rs \<Longrightarrow> route_ok (rs ! i)"
  by (simp add: table_ok_def)

lemma table_ok_unique:
  "table_ok rs \<Longrightarrow> i < length rs \<Longrightarrow> j < length rs \<Longrightarrow> lookupStatus (rs ! i) \<noteq> 0 \<Longrightarrow> lookupStatus (rs ! j) \<noteq> 0 \<Longrightarrow>
    ipAddress (rs ! i) \<noteq> [0, 0, 0, 0] \<Longrightarrow> ipAddress (rs ! i) = ipAddress (rs ! j) \<Longrightarrow> i = j"
  unfolding table_ok_def by (metis linorder_neqE_nat)

lemma route_ok_zero [simp]: "route_ok zero_route"
  by (simp add: route_ok_def zero_route_def looking_def)

lemma table_ok_replicate: "table_ok (replicate n zero_route)"
  by (auto simp: table_ok_def) (simp add: zero_route_def)

text \<open>Replacing a row, when no other row in use has its address.\<close>

lemma table_ok_update:
  assumes "table_ok rs" and "route_ok r"
    and "\<And>j. j < length rs \<Longrightarrow> j \<noteq> i \<Longrightarrow> lookupStatus r \<noteq> 0 \<Longrightarrow> lookupStatus (rs ! j) \<noteq> 0 \<Longrightarrow>
      ipAddress r \<noteq> [0, 0, 0, 0] \<Longrightarrow> ipAddress r \<noteq> ipAddress (rs ! j)"
  shows "table_ok (rs[i := r])"
proof (cases "i < length rs")
  case True
  have "lookupStatus (rs[i := r] ! a) \<noteq> 0 \<Longrightarrow> lookupStatus (rs[i := r] ! b) \<noteq> 0 \<Longrightarrow>
      ipAddress (rs[i := r] ! a) \<noteq> [0, 0, 0, 0] \<Longrightarrow> ipAddress (rs[i := r] ! a) = ipAddress (rs[i := r] ! b) \<Longrightarrow> False"
    if "a < b" "b < length rs" for a b
    using that assms(3) [of a] assms(3) [of b] table_ok_unique [OF assms(1), of a b]
    by (cases "a = i"; cases "b = i") auto
  moreover have "\<forall>x \<in> set (rs[i := r]). route_ok x"
    using assms(1,2) set_update_subset_insert [of rs i r] by (auto simp: table_ok_def)
  ultimately show ?thesis unfolding table_ok_def by auto
qed (use assms(1) in \<open>simp add: list_update_beyond\<close>)

lemma zero_ip: "route_ok r \<Longrightarrow> lookupStatus r = 0 \<Longrightarrow> ipAddress r = [0, 0, 0, 0]"
  by (simp add: route_ok_def zero_route_def)

lemma set_attempt:
  assumes "unat v < 128"
  shows "unat (lookupStatus (SETATTEMPTCOUNT r v)) = (if resolved r then unat (lookupStatus (SETATTEMPTCOUNT r v)) else unat v)"
    and "resolved (SETATTEMPTCOUNT r v) = resolved r"
proof -
  have v: "\<not> bit v n" if "7 \<le> n" for n
  proof -
    have "unat v < 2 ^ n" using assms that power_increasing [of 7 n "2 :: nat"] by simp
    then have "\<not> bit (unat v) n" by (simp add: bit_iff_odd)
    then show ?thesis by (auto simp: bit_unsigned_iff dest: bit_imp_le_length)
  qed
  have e: "(0x80 :: u8) = push_bit 7 1" by simp
  have b: "bit (0x80 :: u8) n = (n = 7)" for n unfolding e bit_push_bit_iff bit_1_iff by auto
  have s: "bit (lookupStatus (SETATTEMPTCOUNT r v)) n = (n = 7 \<and> bit (lookupStatus r) 7 \<or> bit v n)" for n
    unfolding status_bits(2) bit_or_iff bit_and_iff b bit_unsigned_iff shift_back_bit
    using v [of n] by (cases "n < 7") auto
  then show r: "resolved (SETATTEMPTCOUNT r v) = resolved r" using v [of 7] by (simp add: status_bits(3))
  show "unat (lookupStatus (SETATTEMPTCOUNT r v)) = (if resolved r then unat (lookupStatus (SETATTEMPTCOUNT r v)) else unat v)"
  proof (cases "resolved r")
    case False
    then have "lookupStatus (SETATTEMPTCOUNT r v) = ucast v"
      by (intro bit_word_eqI) (simp add: s status_bits(3) bit_unsigned_iff)
    then show ?thesis using False assms by (simp add: unsigned_ucast_eq take_bit_eq_mod)
  qed simp
qed

text \<open>The scans, in terms of the rows they find.\<close>

lemma resolve_row_index: "resolve_row ip mac rs = (case index_of (\<lambda>r. ipsEquate ip (ipAddress r)) rs of
    None \<Rightarrow> rs
  | Some i \<Rightarrow> rs[i := (rs ! i)\<lparr>macAddress := mac, lookupStatus := lookupStatus (rs ! i) OR ARP_RESOLVED\<rparr>])"
  by (induction rs) (auto split: option.split)

lemma find_mac_index: "find_mac ip rs = (case index_of (\<lambda>r. ipsEquate (ipAddress r) ip) rs of
    None \<Rightarrow> None | Some i \<Rightarrow> if resolved (rs ! i) then Some (macAddress (rs ! i)) else None)"
  by (induction rs) (auto split: option.split)

lemma free_row_index: "free_row rs = index_of (\<lambda>r. lookupStatus r = 0) rs"
proof (induction rs)
  case (Cons r rs)
  have "lookupStatus r = 0 \<Longrightarrow> \<not> resolved r" by (simp add: status_bits(3))
  with Cons show ?case by (auto simp: attempts(1))
qed simp

lemma resolve_status:
  "resolved (r\<lparr>macAddress := m, lookupStatus := lookupStatus r OR ARP_RESOLVED\<rparr>)"
  "lookupStatus r OR ARP_RESOLVED \<noteq> 0"
proof -
  have "bit ARP_RESOLVED 7" by (simp add: ARP_RESOLVED_def bit7)
  then have "bit (lookupStatus r OR ARP_RESOLVED) 7" by (simp only: bit_or_iff simp_thms)
  then show "resolved (r\<lparr>macAddress := m, lookupStatus := lookupStatus r OR ARP_RESOLVED\<rparr>)"
    "lookupStatus r OR ARP_RESOLVED \<noteq> 0" by (auto simp: status_bits(3))
qed

lemma request_scan_spec:
  "request_scan ip rs k idx =
    (if \<exists>r \<in> set rs. ipsEquate (ipAddress r) ip \<and> \<not> resolved r then Looking_it_up
     else Index (case rev (filter (\<lambda>i. ipsEquate (ipAddress (rs ! i)) ip) [0 ..< length rs]) of
       [] \<Rightarrow> idx | i # _ \<Rightarrow> Some (k + i)))"
proof (induction rs arbitrary: k idx)
  case (Cons r rs)
  let ?P = "\<lambda>i. ipsEquate (ipAddress ((r # rs) ! i)) ip"
  have "[0 ..< length (r # rs)] = 0 # map Suc [0 ..< length rs]"
    by (simp add: upt_conv_Cons map_Suc_upt del: upt_Suc)
  then have "filter ?P [0 ..< length (r # rs)]
      = (if ipsEquate (ipAddress r) ip then [0] else [])
        @ map Suc (filter (\<lambda>i. ipsEquate (ipAddress (rs ! i)) ip) [0 ..< length rs])"
    by (simp add: filter_map comp_def del: upt_Suc)
  then show ?case
    using Cons by (auto simp: rev_map split: list.split simp del: upt_Suc)
qed simp

text \<open>The row \<^verbatim>\<open>requestMACAddress\<close> uses: the last one with the address, otherwise the first free one.\<close>

definition request_row :: "u8 list \<Rightarrow> etherRoute list \<Rightarrow> nat option" where
  "request_row ip rs = (case rev (filter (\<lambda>i. ipsEquate (ipAddress (rs ! i)) ip) [0 ..< length rs]) of
     [] \<Rightarrow> index_of (\<lambda>r. lookupStatus r = 0) rs | i # _ \<Rightarrow> Some i)"

lemma request_row_Some:
  assumes "request_row ip rs = Some i"
  shows "i < length rs"
    and "ipsEquate (ipAddress (rs ! i)) ip
      \<or> lookupStatus (rs ! i) = 0 \<and> (\<forall>j < length rs. \<not> ipsEquate (ipAddress (rs ! j)) ip)"
proof -
  let ?l = "filter (\<lambda>i. ipsEquate (ipAddress (rs ! i)) ip) [0 ..< length rs]"
  show "i < length rs" and "ipsEquate (ipAddress (rs ! i)) ip
      \<or> lookupStatus (rs ! i) = 0 \<and> (\<forall>j < length rs. \<not> ipsEquate (ipAddress (rs ! j)) ip)"
  proof (atomize (full), cases "rev ?l")
    case Nil
    then have "?l = []" by simp
    then show "i < length rs \<and> (ipsEquate (ipAddress (rs ! i)) ip
      \<or> lookupStatus (rs ! i) = 0 \<and> (\<forall>j < length rs. \<not> ipsEquate (ipAddress (rs ! j)) ip))"
      using assms by (auto simp: request_row_def index_of_Some filter_empty_conv)
  next
    case (Cons x xs)
    then have "x \<in> set ?l" by (metis list.set_intros(1) set_rev)
    then show "i < length rs \<and> (ipsEquate (ipAddress (rs ! i)) ip
      \<or> lookupStatus (rs ! i) = 0 \<and> (\<forall>j < length rs. \<not> ipsEquate (ipAddress (rs ! j)) ip))"
      using assms Cons by (auto simp: request_row_def)
  qed
qed

lemma requestMACAddress_eq:
  "requestMACAddress ip s =
    (if \<exists>r \<in> set (routingTable s). ipsEquate (ipAddress r) ip \<and> \<not> resolved r then (True, s)
     else case request_row ip (routingTable s) of
       None \<Rightarrow> (False, s)
     | Some i \<Rightarrow>
         (let (t, s) = (if arp_timer s = 0 then registerTimer ARPTimer 250 s else (arp_timer s, s));
              s = s\<lparr>arp_timer := t\<rparr>
          in if t = 0 then (False, s)
             else sendARPRequest ip (s\<lparr>routingTable := (routingTable s)
               [i := (SETATTEMPTCOUNT (routingTable s ! i) 1)\<lparr>lookupTime := now s, ipAddress := ip\<rparr>]\<rparr>)))"
proof (cases "\<exists>r \<in> set (routingTable s). ipsEquate (ipAddress r) ip \<and> \<not> resolved r")
  case False
  then show ?thesis
    unfolding requestMACAddress_def request_scan_spec request_row_def free_row_index if_not_P [OF False]
    by (cases "rev (filter (\<lambda>i. ipsEquate (ipAddress (routingTable s ! i)) ip) [0 ..< length (routingTable s)])")
      (simp_all only: list.case option.case scan.case Let_def add_0)
qed (simp add: requestMACAddress_def request_scan_spec)

section \<open>The timer\<close>

definition request_frame :: "'a arp_scheme \<Rightarrow> u8 list \<Rightarrow> u8 list" where
  "request_frame s ip = eth_header broadcastMAC (macAddr s) ARP_PROTOCOL
     @ arp_packet ARP_REQUEST (macAddr s) (arp_ipAddress s) [0, 0, 0, 0, 0, 0] ip"

text \<open>What a timer does to a row at time \<open>c\<close>, and whether it sends a request for it.\<close>

definition expired :: "u32 \<Rightarrow> etherRoute \<Rightarrow> bool" where
  "expired c r = (looking r \<and> \<not> c - lookupTime r < 250)"

definition row_after :: "u32 \<Rightarrow> etherRoute \<Rightarrow> etherRoute" where
  "row_after c r =
     (if expired c r
      then if 5 \<le> lookupStatus r then zero_route
           else r\<lparr>lookupStatus := lookupStatus r + 1, lookupTime := c\<rparr>
      else r)"

definition row_retry :: "u32 \<Rightarrow> etherRoute \<Rightarrow> bool" where
  "row_retry c r = (expired c r \<and> lookupStatus r < 5)"

lemma table_update [simp]:
  "arp_net_ok (s\<lparr>routingTable := rt\<rparr>) = arp_net_ok s" "request_frame (s\<lparr>routingTable := rt\<rparr>) = request_frame s"
  by (simp_all add: arp_net_ok_def eth_ok_def b_wok_def b_ok_def request_frame_def fun_eq_iff)

lemma transmits_table:
  assumes "transmits fs s s'"
  shows "transmits fs (s\<lparr>routingTable := rt\<rparr>) (s'\<lparr>routingTable := rt\<rparr>)"
proof -
  obtain s0 where s0: "rest_same s s0" "s' = s0\<lparr>wire := wire s @ fs\<rparr>" using assms by (auto simp: transmits_def)
  have "rest_same (s\<lparr>routingTable := rt\<rparr>) (s0\<lparr>routingTable := rt\<rparr>)"
    using s0(1) by (cases s; cases s0; simp add: rest_same_def)
  with s0(2) show ?thesis unfolding transmits_def by (intro exI [of _ "s0\<lparr>routingTable := rt\<rparr>"]) simp
qed

lemma next_status:
  assumes "looking r" and "lookupStatus r < 5"
  shows "SETATTEMPTCOUNT r (ucast (lookupStatus r) + 1) = r\<lparr>lookupStatus := lookupStatus r + 1\<rparr>"
proof -
  have lt: "unat (lookupStatus r) < 5" using assms(2) by (simp add: word_less_nat_alt)
  then have v: "unat (ucast (lookupStatus r) + 1 :: u16) = unat (lookupStatus r) + 1"
    by (subst unat_add16) (simp_all add: unsigned_ucast_eq take_bit_eq_mod)
  have "unat (lookupStatus (SETATTEMPTCOUNT r (ucast (lookupStatus r) + 1))) = unat (lookupStatus r) + 1"
    using set_attempt(1) [of "ucast (lookupStatus r) + 1" r] lt v assms(1) by (simp add: looking_def)
  moreover have "unat (lookupStatus r + 1) = unat (lookupStatus r) + 1"
    using lt by (simp add: unat_word_ariths)
  ultimately have "lookupStatus (SETATTEMPTCOUNT r (ucast (lookupStatus r) + 1)) = lookupStatus r + 1"
    by (simp add: word_unat_eq_iff)
  then show ?thesis by (simp add: SETATTEMPTCOUNT_def)
qed

lemma ARP_timer_row_spec:
  assumes "arp_net_ok s" and "i < length (routingTable s)" and "routingTable s ! i = r" and "route_ok r"
  shows "\<exists>s'. ARP_timer_row i (n, s) = (if looking r then n + 1 else n, s')
    \<and> transmits (if row_retry (now s) r then [request_frame s (ipAddress r)] else [])
        (s\<lparr>routingTable := (routingTable s)[i := row_after (now s) r]\<rparr>) s'"
proof -
  have id: "s\<lparr>routingTable := (routingTable s)[i := r]\<rparr> = s" using assms(2,3) by auto
  have lk: "looking r = (lookupStatus r \<noteq> 0 \<and> \<not> resolved r)" by (rule looking_def)
  consider "\<not> expired (now s) r" | "expired (now s) r" "5 \<le> lookupStatus r"
    | "expired (now s) r" "lookupStatus r < 5" by (metis not_less)
  then show ?thesis
  proof cases
    case 1
    then have "ARP_timer_row i (n, s) = (if looking r then n + 1 else n, s)"
      unfolding ARP_timer_row_def by (auto simp: assms(3) attempts(2) Let_def expired_def lk)
    with 1 show ?thesis by (simp add: row_retry_def row_after_def id)
  next
    case 2
    then have "ARP_timer_row i (n, s) = (if looking r then n + 1 else n, s\<lparr>routingTable := (routingTable s)[i := zero_route]\<rparr>)"
      unfolding ARP_timer_row_def by (auto simp: assms(3) attempts(2) Let_def expired_def lk)
    moreover have "\<not> lookupStatus r < 5" using 2 by simp
    ultimately show ?thesis using 2 by (simp add: row_retry_def row_after_def)
  next
    case 3
    let ?r = "r\<lparr>lookupStatus := lookupStatus r + 1, lookupTime := now s\<rparr>"
    let ?s = "s\<lparr>routingTable := (routingTable s)[i := ?r]\<rparr>"
    have "looking r" using 3 by (simp add: expired_def)
    then have "ARP_timer_row i (n, s) = (if looking r then n + 1 else n, snd (sendARPRequest (ipAddress r) ?s))"
      using 3 unfolding ARP_timer_row_def by (simp add: assms(3) attempts(2) Let_def expired_def lk next_status not_le)
    moreover have "\<exists>s'. sendARPRequest (ipAddress r) ?s = (True, s') \<and> transmits [request_frame ?s (ipAddress r)] ?s s'"
      using sendARPRequest_frame [of ?s "ipAddress r"] assms(1,4) by (simp add: request_frame_def route_ok_def)
    ultimately show ?thesis using 3 by (auto simp: row_retry_def row_after_def not_le)
  qed
qed

lemma ARP_timer_rows:
  assumes "arp_net_ok s" and "\<forall>r \<in> set (routingTable s). route_ok r" and "k \<le> length (routingTable s)"
    and "length (routingTable s) \<le> 255"
  defines "T \<equiv> routingTable s"
  shows "\<exists>s'. fold ARP_timer_row [0 ..< k] (0, s) = (word_of_nat (length (filter looking (take k T))), s')
    \<and> transmits (map (\<lambda>r. request_frame s (ipAddress r)) (filter (row_retry (now s)) (take k T)))
        (s\<lparr>routingTable := map (row_after (now s)) (take k T) @ drop k T\<rparr>) s'"
  using assms(3)
proof (induction k)
  case 0
  have "s\<lparr>routingTable := T\<rparr> = s" by (simp add: T_def)
  then show ?case by (intro exI [of _ s]) simp
next
  case (Suc k)
  let ?r = "T ! k" and ?c = "now s" and ?n = "length (filter looking (take k T))"
  let ?t = "map (row_after ?c) (take k T) @ drop k T"
  from Suc obtain s1 where f: "fold ARP_timer_row [0 ..< k] (0, s) = (word_of_nat ?n, s1)"
    and t: "transmits (map (\<lambda>r. request_frame s (ipAddress r)) (filter (row_retry ?c) (take k T)))
        (s\<lparr>routingTable := ?t\<rparr>) s1" by auto
  have k: "k < length T" using Suc.prems by (simp add: T_def)
  have s1: "arp_net_ok s1" "routingTable s1 = ?t" "now s1 = ?c" "macAddr s1 = macAddr s" "arp_ipAddress s1 = arp_ipAddress s"
    using arp_transmits [OF t] transmits_fields(2,3) [OF t] assms(1) by simp_all
  have "?t ! k = ?r" using k by (simp add: nth_append)
  then obtain s2 where r: "ARP_timer_row k (word_of_nat ?n, s1) = (if looking ?r then word_of_nat ?n + 1 else word_of_nat ?n, s2)"
    and t2: "transmits (if row_retry ?c ?r then [request_frame s1 (ipAddress ?r)] else [])
        (s1\<lparr>routingTable := ?t[k := row_after ?c ?r]\<rparr>) s2"
    using ARP_timer_row_spec [of s1 k ?r "word_of_nat ?n"] s1 k assms(2) by (auto simp: T_def)
  have take: "take (Suc k) T = take k T @ [?r]" using k by (rule take_Suc_conv_app_nth)
  have upd: "?t[k := row_after ?c ?r] = map (row_after ?c) (take (Suc k) T) @ drop (Suc k) T"
    using k by (simp add: take list_update_append Cons_nth_drop_Suc [symmetric])
  have "transmits (map (\<lambda>r. request_frame s (ipAddress r)) (filter (row_retry ?c) (take k T)))
      (s\<lparr>routingTable := ?t[k := row_after ?c ?r]\<rparr>) (s1\<lparr>routingTable := ?t[k := row_after ?c ?r]\<rparr>)"
    using transmits_table [OF t] by simp
  then have "transmits (map (\<lambda>r. request_frame s (ipAddress r)) (filter (row_retry ?c) (take (Suc k) T)))
      (s\<lparr>routingTable := map (row_after ?c) (take (Suc k) T) @ drop (Suc k) T\<rparr>) s2"
    using transmits_trans [OF _ t2] s1 by (auto simp: upd take request_frame_def split: if_splits)
  then show ?case using f r by (auto simp: take)
qed

section \<open>The invariant\<close>

definition arp_ok :: "'a arp_scheme \<Rightarrow> bool" where
  "arp_ok s = (arp_net_ok s \<and> timers_ok s \<and> table_ok (routingTable s) \<and> length (routingTable s) \<le> 255
     \<and> (arp_timer s \<noteq> 0 \<longrightarrow> unat (arp_timer s) \<le> length (timerRegistry s)
          \<and> t_handler (timerRegistry s ! (unat (arp_timer s) - 1)) = Some ARPTimer)
     \<and> ((\<exists>r \<in> set (routingTable s). looking r) \<longrightarrow> arp_timer s \<noteq> 0))"

lemma arp_ok_transmits: "transmits fs s s' \<Longrightarrow> arp_ok s' = arp_ok s"
  using arp_transmits [of fs s s'] transmits_fields [of fs s s'] by (simp add: arp_ok_def timers_ok_def)

lemma arp_ok_routes: "arp_ok s \<Longrightarrow> \<forall>r \<in> set (routingTable s). route_ok r"
  by (simp add: arp_ok_def table_ok_def)

lemma route_after: "route_ok r \<Longrightarrow> route_ok (row_after c r)"
  and looking_after: "looking (row_after c r) \<Longrightarrow> looking r"
  and in_use_after: "lookupStatus (row_after c r) \<noteq> 0 \<Longrightarrow> route_ok r \<Longrightarrow>
    lookupStatus r \<noteq> 0 \<and> ipAddress (row_after c r) = ipAddress r"
proof -
  have nz: "\<not> looking zero_route" by (simp add: looking_def zero_route_def)
  have s: "unat (w + 1 :: u8) = unat w + 1" if "w < 5" for w
    using that by (simp add: unat_word_ariths word_less_nat_alt)
  show "looking (row_after c r) \<Longrightarrow> looking r"
    using nz by (auto simp: row_after_def expired_def split: if_splits)
  show "route_ok (row_after c r)" if ok: "route_ok r"
  proof (cases "expired c r \<and> \<not> 5 \<le> lookupStatus r")
    case True
    then have lt: "lookupStatus r < 5" and "unat (lookupStatus r) < 5" by (simp_all add: word_less_nat_alt word_le_nat_alt)
    define w where "w = lookupStatus r + 1"
    have w: "unat w \<le> 5" "w \<noteq> 0" using s [OF lt] \<open>unat (lookupStatus r) < 5\<close> by (auto simp: w_def)
    have "row_after c r = r\<lparr>lookupStatus := w, lookupTime := c\<rparr>"
      unfolding row_after_def w_def using True by presburger
    with ok w show ?thesis by (simp add: route_ok_def)
  qed (use ok in \<open>auto simp: row_after_def\<close>)
  show "lookupStatus (row_after c r) \<noteq> 0 \<Longrightarrow> route_ok r \<Longrightarrow>
    lookupStatus r \<noteq> 0 \<and> ipAddress (row_after c r) = ipAddress r"
    by (auto simp: row_after_def expired_def looking_def zero_route_def split: if_splits)
qed

lemma table_after:
  assumes "table_ok rs"
  shows "table_ok (map (row_after c) rs)"
  unfolding table_ok_def
proof (intro conjI allI impI ballI)
  fix r
  assume "r \<in> set (map (row_after c) rs)"
  then show "route_ok r" using assms by (auto simp: table_ok_def route_after)
next
  fix i j
  let ?f = "\<lambda>i. map (row_after c) rs ! i"
  assume a: "i < j" "j < length (map (row_after c) rs)" "lookupStatus (?f i) \<noteq> 0" "lookupStatus (?f j) \<noteq> 0"
    "ipAddress (?f i) \<noteq> [0, 0, 0, 0]"
  then have "lookupStatus (rs ! i) \<noteq> 0 \<and> ipAddress (?f i) = ipAddress (rs ! i)"
    "lookupStatus (rs ! j) \<noteq> 0 \<and> ipAddress (?f j) = ipAddress (rs ! j)"
    using in_use_after [of c "rs ! i"] in_use_after [of c "rs ! j"] table_ok_nth [OF assms] by simp_all
  with a table_ok_unique [OF assms, of i j] show "ipAddress (?f i) \<noteq> ipAddress (?f j)" by auto
qed

lemma ARP_handleTimer_spec:
  assumes "arp_ok s"
  shows "\<exists>s'. ARP_handleTimer index s = Some s'
    \<and> routingTable s' = map (row_after (now s)) (routingTable s)
    \<and> wire s' = wire s @ map (\<lambda>r. request_frame s (ipAddress r)) (filter (row_retry (now s)) (routingTable s))
    \<and> arp_timer s' = (if \<exists>r \<in> set (routingTable s). looking r then arp_timer s else 0)
    \<and> arp_ok s'"
proof -
  let ?T = "routingTable s" and ?c = "now s"
  let ?fs = "map (\<lambda>r. request_frame s (ipAddress r)) (filter (row_retry ?c) ?T)"
  have len: "length ?T \<le> 255" and net: "arp_net_ok s" using assms by (simp_all add: arp_ok_def)
  obtain s1 where f: "fold ARP_timer_row [0 ..< length ?T] (0, s) = (word_of_nat (length (filter looking ?T)), s1)"
    and t: "transmits ?fs (s\<lparr>routingTable := map (row_after ?c) ?T\<rparr>) s1"
    using ARP_timer_rows [OF net arp_ok_routes [OF assms] order_refl len] by auto
  have "length (filter looking ?T) < 256" using len length_filter_le [of looking ?T] by linarith
  then have cnt: "((word_of_nat (length (filter looking ?T)) :: u8) = 0) = (\<forall>r \<in> set ?T. \<not> looking r)"
    by (simp add: word_unat_eq_iff unat_of_nat) (simp add: filter_empty_conv)
  have s1: "routingTable s1 = map (row_after ?c) ?T" "wire s1 = wire s @ ?fs" "arp_timer s1 = arp_timer s"
    "timerRegistry s1 = timerRegistry s" "timers s1 = timers s" "arp_net_ok s1"
    using arp_transmits [OF t] transmits_fields [OF t] net by simp_all
  have ok: "arp_net_ok s1" "timers_ok s1" "table_ok (routingTable s1)" "length (routingTable s1) \<le> 255"
    using assms s1 by (simp_all add: arp_ok_def timers_ok_def table_after)
  show ?thesis
  proof (cases "(\<forall>r \<in> set ?T. \<not> looking r) \<and> arp_timer s \<noteq> 0")
    case True
    then have i: "unat (arp_timer s1) \<noteq> 0" "unat (arp_timer s1) \<le> length (timerRegistry s1)"
      using assms s1 by (auto simp: arp_ok_def unat_eq_zero)
    then obtain s2 where u: "unregisterTimer (arp_timer s1) s1 = Some s2"
      using unregisterTimer_defined by blast
    have s2: "routingTable s2 = routingTable s1" "wire s2 = wire s1" "arp_net_ok s2"
      using u ok(1) by (auto simp: unregisterTimer_def Let_def arp_net_ok_def eth_ok_def b_wok_def b_ok_def split: if_splits)
    have "\<not> looking r" if "r \<in> set (routingTable s2)" for r
      using that True looking_after by (auto simp: s1 s2)
    moreover have "timers_ok s2" using unregisterTimer_ok [OF ok(2) u] .
    ultimately have "arp_ok (s2\<lparr>arp_timer := 0\<rparr>)"
      using ok s2 by (auto simp: arp_ok_def timers_ok_def arp_net_ok_def eth_ok_def b_wok_def b_ok_def)
    then show ?thesis using f cnt True u s1 s2 by (auto simp: ARP_handleTimer_def)
  next
    case False
    then have "ARP_handleTimer index s = Some s1" using f cnt s1 by (auto simp: ARP_handleTimer_def)
    moreover have "arp_ok s1"
      using assms ok s1 looking_after by (fastforce simp: arp_ok_def)
    ultimately show ?thesis using False s1 by auto
  qed
qed

lemma table_resolve:
  assumes "table_ok rs" and "length mac = 6" and "length ip = 4"
  shows "table_ok (resolve_row ip mac rs)"
proof (cases "index_of (\<lambda>r. ipsEquate ip (ipAddress r)) rs")
  case (Some i)
  let ?r = "(rs ! i)\<lparr>macAddress := mac, lookupStatus := lookupStatus (rs ! i) OR ARP_RESOLVED\<rparr>"
  have i: "i < length rs" using Some by (simp add: index_of_Some)
  have ok: "route_ok (rs ! i)" using assms(1) i by (rule table_ok_nth)
  have "route_ok ?r"
    using ok assms(2) resolve_status by (auto simp: route_ok_def looking_def)
  moreover have "ipAddress ?r \<noteq> ipAddress (rs ! j)"
    if "j < length rs" "j \<noteq> i" "lookupStatus (rs ! j) \<noteq> 0" "ipAddress ?r \<noteq> [0, 0, 0, 0]" for j
  proof -
    have "lookupStatus (rs ! i) \<noteq> 0" using zero_ip [OF ok] that(4) by auto
    then show ?thesis using table_ok_unique [OF assms(1) i that(1)] that by auto
  qed
  ultimately have "table_ok (rs[i := ?r])" by (intro table_ok_update assms(1)) auto
  with Some show ?thesis by (simp add: resolve_row_index)
qed (simp add: resolve_row_index assms(1))

lemma looking_resolve: "r \<in> set (resolve_row ip mac rs) \<Longrightarrow> looking r \<Longrightarrow> r \<in> set rs"
  using resolve_status by (induction rs) (auto simp: looking_def split: if_splits)

lemma length_resolve [simp]: "length (resolve_row ip mac rs) = length rs"
  by (induction rs) auto

lemma find_mac_resolve:
  assumes "\<forall>r \<in> set rs. length (ipAddress r) = 4" and "length ip = 4" and "length ip' = 4"
  shows "find_mac ip' (resolve_row ip mac rs)
    = (if ip' = ip \<and> ip \<in> ipAddress ` set rs then Some mac else find_mac ip' rs)"
  using assms(1)
proof (induction rs)
  case (Cons r rs)
  then show ?case using assms(2,3) resolve_status(1) [of r mac] by (auto simp: ipsEquate_eq)
qed simp

text \<open>Whatever the packet, the handler does one of three things.\<close>

lemma ARP_handlePayload_cases:
  assumes "arp_net_ok s"
  obtains "ARP_handlePayload p s = s"
  | f where "transmits [f] s (ARP_handlePayload p s)"
  | ip mac where "length ip = 4" "length mac = 6"
      "ARP_handlePayload p s = s\<lparr>routingTable := resolve_row ip mac (routingTable s)\<rparr>"
proof (cases "ARP_handlePayload p s = s")
  case False
  then obtain op sha spa tha tpa where r: "ARP_read_packet (b_read s p) (b_size p) = Some (op, sha, spa, tha, tpa)"
    by (cases "ARP_read_packet (b_read s p) (b_size p)") (auto simp: ARP_handlePayload_def)
  then have "b_read s p 8 6 = Some sha \<and> b_read s p 14 4 = Some spa"
    unfolding ARP_read_packet_def Option.bind_eq_Some_conv option.inject prod.inject by (elim exE conjE) simp
  then have len: "length sha = 6" "length spa = 4" by (auto dest!: b_read_length)
  have "ARP_handlePayload p s = s \<or> ARP_handlePayload p s = snd (sendARPResponse sha spa s)
      \<or> ARP_handlePayload p s = s\<lparr>routingTable := resolve_row spa sha (routingTable s)\<rparr>"
    unfolding ARP_handlePayload_def r option.case prod.case
    by (cases "op = ARP_REQUEST"; cases "ipsEquate tpa (arp_ipAddress s)"; cases "op = ARP_RESPONSE";
        cases "macsEquate tha (macAddr s)"; simp only: simp_thms if_True if_False)
  with False have "ARP_handlePayload p s = snd (sendARPResponse sha spa s)
      \<or> ARP_handlePayload p s = s\<lparr>routingTable := resolve_row spa sha (routingTable s)\<rparr>" by blast
  then show ?thesis
  proof
    assume r: "ARP_handlePayload p s = snd (sendARPResponse sha spa s)"
    from sendARPResponse_frame [OF assms len] that(2) show ?thesis unfolding r by auto
  qed (use that(3) len in blast)
qed

lemma ARP_handlePayload_ok:
  assumes "arp_ok s"
  shows "arp_ok (ARP_handlePayload p s)"
proof -
  have "arp_net_ok s" using assms by (simp add: arp_ok_def)
  then show ?thesis
  proof (cases rule: ARP_handlePayload_cases [of s p])
    case 2
    then show ?thesis using assms by (simp add: arp_ok_transmits)
  next
    case (3 ip mac)
    have "table_ok (resolve_row ip mac (routingTable s))"
      using assms 3 by (intro table_resolve) (simp_all add: arp_ok_def)
    then show ?thesis unfolding 3(3) using assms looking_resolve [of _ ip mac "routingTable s"]
      by (auto simp: arp_ok_def timers_ok_def)
  qed (use assms in simp)
qed

lemma request_status:
  fixes c :: u32
  assumes "route_ok r" and "resolved r \<or> lookupStatus r = 0" and "length ip = 4"
  defines "r' \<equiv> (SETATTEMPTCOUNT r 1)\<lparr>lookupTime := c, ipAddress := ip\<rparr>"
  shows "route_ok r'" and "looking r' = (\<not> resolved r)" and "macAddress r' = macAddress r" and "lookupStatus r' \<noteq> 0"
proof -
  have sa: "resolved (SETATTEMPTCOUNT r 1) = resolved r" by (rule set_attempt(2)) simp
  have st: "lookupStatus r' = lookupStatus (SETATTEMPTCOUNT r 1)" and res: "resolved r' = resolved r"
    using sa by (simp_all add: r'_def resolved_def)
  have one: "\<not> resolved r \<Longrightarrow> unat (lookupStatus r') = 1"
    unfolding st using set_attempt(1) [of 1 r] by simp
  show nz: "lookupStatus r' \<noteq> 0"
    using one res by (cases "resolved r") (auto simp: resolved_def)
  show lk: "looking r' = (\<not> resolved r)" using nz res by (simp add: looking_def)
  show "macAddress r' = macAddress r" by (simp add: r'_def SETATTEMPTCOUNT_def)
  then show "route_ok r'"
    using assms(1,3) nz lk one unfolding route_ok_def by (simp add: r'_def)
qed

text \<open>The table after a request has taken row \<open>i\<close>.\<close>

lemma table_request:
  fixes c :: u32
  assumes "table_ok rs" and "length ip = 4"
    and "\<not> (\<exists>r \<in> set rs. ipsEquate (ipAddress r) ip \<and> \<not> resolved r)" and "request_row ip rs = Some i"
  defines "r' \<equiv> (SETATTEMPTCOUNT (rs ! i) 1)\<lparr>lookupTime := c, ipAddress := ip\<rparr>"
  shows "table_ok (rs[i := r'])" and "i < length rs" and "resolved (rs ! i) \<or> lookupStatus (rs ! i) = 0"
proof -
  note row = request_row_Some [OF assms(4)]
  show i: "i < length rs" by (rule row)
  have eq: "ipsEquate (ipAddress (rs ! j)) ip = (ipAddress (rs ! j) = ip)" if "j < length rs" for j
    using table_ok_nth [OF assms(1) that] assms(2) by (simp add: ipsEquate_eq route_ok_def)
  show res: "resolved (rs ! i) \<or> lookupStatus (rs ! i) = 0"
    using row(2) assms(3) nth_mem [OF i] by blast
  have "route_ok r'" unfolding r'_def
    using table_ok_nth [OF assms(1) i] res assms(2) by (rule request_status)
  moreover have "ip \<noteq> ipAddress (rs ! j)"
    if "j < length rs" "j \<noteq> i" "lookupStatus (rs ! j) \<noteq> 0" "ip \<noteq> [0, 0, 0, 0]" for j
  proof
    assume j: "ip = ipAddress (rs ! j)"
    then have "ipAddress (rs ! i) = ip" using row(2) eq that(1) i by auto
    moreover have "lookupStatus (rs ! i) \<noteq> 0"
      using zero_ip [OF table_ok_nth [OF assms(1) i]] calculation that(4) by auto
    ultimately show False using table_ok_unique [OF assms(1) i that(1)] that j by auto
  qed
  ultimately show "table_ok (rs[i := r'])"
    by (intro table_ok_update assms(1)) (auto simp: r'_def)
qed

lemma requestMACAddress_sends:
  assumes "arp_ok s" and "length ip = 4"
    and "\<not> (\<exists>r \<in> set (routingTable s). ipsEquate (ipAddress r) ip \<and> \<not> resolved r)"
    and "request_row ip (routingTable s) = Some i"
    and "arp_timer s \<noteq> 0 \<or> (\<exists>t \<in> set (timerRegistry s). t_handler t = None)"
  defines "r' \<equiv> (SETATTEMPTCOUNT (routingTable s ! i) 1)\<lparr>lookupTime := now s, ipAddress := ip\<rparr>"
  shows "\<exists>s'. requestMACAddress ip s = (True, s') \<and> arp_ok s' \<and> wire s' = wire s @ [request_frame s ip]
    \<and> routingTable s' = (routingTable s)[i := r'] \<and> arp_ipAddress s' = arp_ipAddress s \<and> macAddr s' = macAddr s
    \<and> arp_timer s' \<noteq> 0"
proof -
  note tab = table_request(1) [OF _ assms(2-4), of "now s", folded r'_def] table_request(2,3) [OF _ assms(2-4)]
  have T: "table_ok (routingTable s)" using assms(1) by (simp add: arp_ok_def)
  obtain t s0 where reg: "(if arp_timer s = 0 then registerTimer ARPTimer 250 s else (arp_timer s, s)) = (t, s0)"
    by (cases "if arp_timer s = 0 then registerTimer ARPTimer 250 s else (arp_timer s, s)")
  have s0: "t \<noteq> 0 \<and> arp_net_ok s0 \<and> timers_ok s0 \<and> routingTable s0 = routingTable s \<and> now s0 = now s
      \<and> wire s0 = wire s \<and> macAddr s0 = macAddr s \<and> arp_ipAddress s0 = arp_ipAddress s
      \<and> unat t \<le> length (timerRegistry s0) \<and> t_handler (timerRegistry s0 ! (unat t - 1)) = Some ARPTimer"
  proof (cases "arp_timer s = 0")
    case False
    with reg assms(1) show ?thesis by (auto simp: arp_ok_def)
  next
    case True
    have tok: "timers_ok s" using assms(1) by (simp add: arp_ok_def)
    have r: "registerTimer ARPTimer 250 s = (t, s0)" using reg True by simp
    from tok show ?thesis
    proof (cases rule: registerTimer_cases [where h = ARPTimer and d = 250])
      case full
      with assms(5) True show ?thesis by auto
    next
      case (slot j)
      have "timers_ok s0" using registerTimer_ok [OF tok, of ARPTimer 250] r by simp
      moreover have "arp_net_ok s0"
        using assms(1) slot r by (simp add: arp_ok_def arp_net_ok_def eth_ok_def b_wok_def b_ok_def)
      moreover have "t \<noteq> 0" using slot r by auto
      ultimately show ?thesis using slot r by simp
    qed
  qed
  let ?s = "s0\<lparr>arp_timer := t, routingTable := (routingTable s)[i := r']\<rparr>"
  have ok: "arp_ok ?s"
    using s0 tab [OF T] assms(1) by (auto simp: arp_ok_def timers_ok_def arp_net_ok_def eth_ok_def b_wok_def b_ok_def)
  then obtain s' where send: "sendARPRequest ip ?s = (True, s')" and tr: "transmits [request_frame ?s ip] ?s s'"
    using sendARPRequest_frame [of ?s ip] assms(2) by (auto simp: arp_ok_def request_frame_def)
  have "requestMACAddress ip s = sendARPRequest ip ?s"
    unfolding requestMACAddress_eq if_not_P [OF assms(3)] using assms(4) reg s0
    by (simp add: r'_def)
  then show ?thesis
    using send ok arp_ok_transmits [OF tr] transmits_fields(1,3) [OF tr] arp_transmits [OF tr] s0
    by (simp add: request_frame_def)
qed

lemma requestMACAddress_ok:
  assumes "arp_ok s" and "length ip = 4"
  shows "arp_ok (snd (requestMACAddress ip s))"
proof (cases "\<exists>r \<in> set (routingTable s). ipsEquate (ipAddress r) ip \<and> \<not> resolved r")
  case True
  then show ?thesis using assms(1) by (simp add: requestMACAddress_eq)
next
  case no: False
  show ?thesis
  proof (cases "request_row ip (routingTable s)")
    case None
    then show ?thesis using assms(1) no by (simp add: requestMACAddress_eq)
  next
    case (Some i)
    show ?thesis
    proof (cases "arp_timer s \<noteq> 0 \<or> (\<exists>t \<in> set (timerRegistry s). t_handler t = None)")
      case True
      from requestMACAddress_sends [OF assms no Some True] show ?thesis by auto
    next
      case False
      then have full: "registerTimer ARPTimer 250 s = (0, s)"
        by (simp add: registerTimer_def free_timer_None [THEN iffD2])
      then have "snd (requestMACAddress ip s) = s\<lparr>arp_timer := 0\<rparr>"
        unfolding requestMACAddress_eq if_not_P [OF no] using False Some by (simp add: Let_def)
      also have "\<dots> = s" using False by simp
      finally show ?thesis using assms(1) by simp
    qed
  qed
qed

lemma arp_answers_request_frame:
  assumes "arp_ok s" and "b_ok s p" and "28 \<le> unat (b_size p)"
    and "length sha = 6" and "length spa = 4" and "length tha = 6"
    and "length (arp_ipAddress s) = 4"
    and "take 28 (b_bytes s p) = arp_packet ARP_REQUEST sha spa tha (arp_ipAddress s)"
  shows "wire (ARP_handlePayload p s) = wire s @
        [sha @ macAddr s @ be16 0x0806 @ arp_packet 2 (macAddr s) (arp_ipAddress s) sha spa]
      \<and> routingTable (ARP_handlePayload p s) = routingTable s"
proof -
  have net: "arp_net_ok s" using assms(1) by (simp add: arp_ok_def)
  have "ARP_handlePayload p s = snd (sendARPResponse sha spa s)"
    using ARP_handlePayload_packet [OF assms(2,8,3-7) net] by simp
  then show ?thesis
    using sendARPResponse_frame [OF net assms(4,5)]
    by (auto simp: eth_header_def ARP_PROTOCOL_def ARP_RESPONSE_def transmits_fields arp_transmits)
qed

section \<open>Properties\<close>

text \<open>
  C19: The ARP table stays well formed. Every operation, on every packet, address and timer, keeps the invariant: each
  row is free and zeroed, or being looked up with 1 to 5 requests sent, or resolved; no two rows in use
  hold the same address (0.0.0.0 apart); and while a row is being looked up the handler owns a
  registered timer. The timer handler never reads outside the timer registry.
\<close>

theorem arp_invariant:
  assumes "arp_ok s" and "length ip = 4"
  shows "arp_ok (ARP_handlePayload p s) \<and> arp_ok (snd (requestMACAddress ip s))
    \<and> (\<exists>s'. ARP_handleTimer index s = Some s' \<and> arp_ok s')"
  using ARP_handlePayload_ok [OF assms(1)] requestMACAddress_ok [OF assms] ARP_handleTimer_spec [OF assms(1)] by blast

definition demo_arp :: "u8 list \<Rightarrow> u8 list \<Rightarrow> arp" where
  "demo_arp mac ip = ARPHandler_new True ip 2
     (net.extend (demo_net\<lparr>macAddr := mac\<rparr>) \<lparr>arp_ipAddress = [], routingTable = [], arp_timer = 7\<rparr>)"

lemma demo_arp_simps:
  "drv_send (demo_arp mac ip) = MemBuffer 0x400 100" "drv_recv (demo_arp mac ip) = MemBuffer 0x500 100"
  "sendPayloadBuffer (demo_arp mac ip) = OffsetBuffer (MemBuffer 0x400 100) 14 86"
  "macAddr (demo_arp mac ip) = mac" "wire (demo_arp mac ip) = []" "now (demo_arp mac ip) = 1000"
  "timers (demo_arp mac ip) = 0" "timerRegistry (demo_arp mac ip) = timerRegistry demo_net"
  "arp_ipAddress (demo_arp mac ip) = ip" "routingTable (demo_arp mac ip) = [zero_route, zero_route]"
  "arp_timer (demo_arp mac ip) = 0"
proof -
  have "replicate 2 x = [x, x]" for x :: etherRoute by (simp add: numeral_2_eq_2)
  then show "routingTable (demo_arp mac ip) = [zero_route, zero_route]"
    by (simp add: demo_arp_def ARPHandler_new_def)
qed (simp_all add: demo_arp_def ARPHandler_new_def registerProtocol_def net.defs demo_net_simps ARP_PROTOCOL_def)

lemma demo_arp_ok:
  assumes "length mac = 6" and "length ip = 4"
  shows "arp_ok (demo_arp mac ip)"
proof -
  have "table_ok [zero_route, zero_route]" using table_ok_replicate [of 2] by (simp add: numeral_2_eq_2)
  moreover have "timers_ok (demo_arp mac ip)"
    using demo_net_ok(2) by (simp add: timers_ok_def demo_arp_simps demo_net_simps(8))
  moreover have "\<not> looking zero_route" by (simp add: looking_def zero_route_def)
  ultimately show ?thesis
    using assms by (simp add: arp_ok_def arp_net_ok_def eth_ok_def demo_arp_simps Mem_wok after_def HEADER_LENGTH_def)
qed

lemma arp_invariant_witness:
  "arp_ok (snd (requestMACAddress [10, 0, 0, 2] (demo_arp [2, 0, 0, 0, 0, 1] [10, 0, 0, 1])))"
  using arp_invariant [OF demo_arp_ok, of "[2, 0, 0, 0, 0, 1]" "[10, 0, 0, 1]" "[10, 0, 0, 2]"] by simp

text \<open>
  Requests are answered, and only those for the own address. On a well-formed ARP request (28 bytes
  at the start of the payload) for the own IP address the handler puts exactly one frame on the wire,
  an ARP reply to the sender with the own hardware and protocol address as sender; it never learns an
  address from a request. A request for another address has no effect.
\<close>

lemma arp_answers_request:
  assumes "arp_ok s" and "b_ok s p" and "28 \<le> unat (b_size p)"
    and "length sha = 6" and "length spa = 4" and "length tha = 6" and "length tpa = 4"
    and "take 28 (b_bytes s p) = arp_packet ARP_REQUEST sha spa tha tpa"
  shows "(tpa = arp_ipAddress s \<longrightarrow>
      wire (ARP_handlePayload p s) = wire s @
        [sha @ macAddr s @ be16 0x0806 @ arp_packet 2 (macAddr s) (arp_ipAddress s) sha spa]
      \<and> routingTable (ARP_handlePayload p s) = routingTable s)
    \<and> (tpa \<noteq> arp_ipAddress s \<longrightarrow> ARP_handlePayload p s = s)"
proof -
  have net: "arp_net_ok s" using assms(1) by (simp add: arp_ok_def)
  have "ARP_handlePayload p s = s" if "tpa \<noteq> arp_ipAddress s"
    using ARP_handlePayload_packet [OF assms(2,8,3-7) net] that by (simp add: ARP_REQUEST_def ARP_RESPONSE_def)
  moreover note arp_answers_request_frame [OF assms(1-6)]
  ultimately show ?thesis using assms(7,8) by blast
qed

lemma arp_answers_request_witness:
  "length (wire (ARP_handlePayload (MemBuffer 0x600 28) (snd (b_write (MemBuffer 0x600 28) 0
     (arp_packet ARP_REQUEST [2, 0, 0, 0, 0, 1] [10, 0, 0, 1] [0, 0, 0, 0, 0, 0] [10, 0, 0, 2])
     (demo_arp [2, 0, 0, 0, 0, 2] [10, 0, 0, 2]))))) = 1"
proof -
  let ?b = "MemBuffer 0x600 28" and ?s = "demo_arp [2, 0, 0, 0, 0, 2] [10, 0, 0, 2]"
  let ?pk = "arp_packet ARP_REQUEST [2, 0, 0, 0, 0, 1] [10, 0, 0, 1] [0, 0, 0, 0, 0, 0] [10, 0, 0, 2]"
  let ?s1 = "snd (b_write ?b 0 ?pk ?s)"
  have l: "length ?pk = 28" by (rule length_arp_packet) simp_all
  then have pk: "b_bytes ?s1 ?b = ?pk" by (intro fill_bytes Mem_wok) auto
  note t = rest_same_transmits [OF rest_same_b_write [of ?s ?b 0 ?pk]]
  have ok: "arp_ok ?s1" unfolding arp_ok_transmits [OF t] by (rule demo_arp_ok) simp_all
  have "b_ok ?s1 ?b" by (simp add: b_ok_def)
  then show ?thesis
    using arp_answers_request [OF ok, of ?b "[2, 0, 0, 0, 0, 1]" "[10, 0, 0, 1]" "[0, 0, 0, 0, 0, 0]" "[10, 0, 0, 2]"]
      pk l transmits_fields(1) [OF t] arp_transmits(1) [OF t] by (simp del: b_write.simps add: demo_arp_simps)
qed

text \<open>
  A reply updates one route. A well-formed ARP reply to the own hardware and protocol address records the
  sender's hardware address for the sender's IP address exactly when a row of the table holds that
  address; what \<^verbatim>\<open>getMACAddress\<close> returns for any other address is unchanged, nothing is sent, and a
  reply to another host or for an unknown address leaves the state as it is.
\<close>

lemma arp_reply_updates_route:
  assumes "arp_ok s" and "b_ok s p" and "28 \<le> unat (b_size p)"
    and "length sha = 6" and "length spa = 4" and "length tha = 6" and "length tpa = 4"
    and "take 28 (b_bytes s p) = arp_packet ARP_RESPONSE sha spa tha tpa" and "length ip = 4"
  defines "for_us \<equiv> tha = macAddr s \<and> tpa = arp_ipAddress s \<and> spa \<in> ipAddress ` set (routingTable s)"
  shows "getMACAddress (ARP_handlePayload p s) ip = (if for_us \<and> ip = spa then Some sha else getMACAddress s ip)
    \<and> wire (ARP_handlePayload p s) = wire s
    \<and> (\<not> for_us \<longrightarrow> ARP_handlePayload p s = s)"
proof -
  have net: "arp_net_ok s" using assms(1) by (simp add: arp_ok_def)
  have rows: "\<forall>r \<in> set (routingTable s). length (ipAddress r) = 4"
    using arp_ok_routes [OF assms(1)] by (simp add: route_ok_def)
  have "ARP_handlePayload p s = (if tha = macAddr s \<and> tpa = arp_ipAddress s
      then s\<lparr>routingTable := resolve_row spa sha (routingTable s)\<rparr> else s)"
    using ARP_handlePayload_packet [OF assms(2,8,3-7) net] by (simp add: ARP_REQUEST_def ARP_RESPONSE_def)
  moreover have "resolve_row spa sha (routingTable s) = routingTable s" if "spa \<notin> ipAddress ` set (routingTable s)"
  proof -
    have "index_of (\<lambda>r. ipsEquate spa (ipAddress r)) (routingTable s) = None"
      unfolding index_of_None using that rows assms(5) by (auto simp: ipsEquate_eq)
    then show ?thesis by (simp add: resolve_row_index)
  qed
  ultimately show ?thesis
    using find_mac_resolve [OF rows assms(5,9), of sha] by (auto simp: getMACAddress_def for_us_def)
qed

lemma arp_reply_updates_route_witness:
  "getMACAddress (ARP_handlePayload (MemBuffer 0x600 28) (snd (b_write (MemBuffer 0x600 28) 0
     (arp_packet ARP_RESPONSE [2, 0, 0, 0, 0, 9] [0, 0, 0, 0] [2, 0, 0, 0, 0, 2] [10, 0, 0, 2])
     (demo_arp [2, 0, 0, 0, 0, 2] [10, 0, 0, 2])))) [0, 0, 0, 0] = Some [2, 0, 0, 0, 0, 9]"
proof -
  let ?b = "MemBuffer 0x600 28" and ?s = "demo_arp [2, 0, 0, 0, 0, 2] [10, 0, 0, 2]"
  let ?pk = "arp_packet ARP_RESPONSE [2, 0, 0, 0, 0, 9] [0, 0, 0, 0] [2, 0, 0, 0, 0, 2] [10, 0, 0, 2]"
  let ?s1 = "snd (b_write ?b 0 ?pk ?s)"
  have l: "length ?pk = 28" by (rule length_arp_packet) simp_all
  then have pk: "b_bytes ?s1 ?b = ?pk" by (intro fill_bytes Mem_wok) auto
  note t = rest_same_transmits [OF rest_same_b_write [of ?s ?b 0 ?pk]]
  have ok: "arp_ok ?s1" unfolding arp_ok_transmits [OF t] by (rule demo_arp_ok) simp_all
  have "b_ok ?s1 ?b" by (simp add: b_ok_def)
  moreover have "[0, 0, 0, 0] \<in> ipAddress ` set (routingTable ?s1)"
    unfolding arp_transmits(2) [OF t] by (simp add: demo_arp_simps zero_route_def)
  ultimately show ?thesis
    using arp_reply_updates_route [OF ok, of ?b "[2, 0, 0, 0, 0, 9]" "[0, 0, 0, 0]" "[2, 0, 0, 0, 0, 2]"
        "[10, 0, 0, 2]" "[0, 0, 0, 0]"]
      pk l transmits_fields(3) [OF t] arp_transmits(1) [OF t] by (simp del: b_write.simps add: demo_arp_simps)
qed

text \<open>
  C20: An address is resolved. Host \<open>a\<close> requests the hardware address for the IP address of host \<open>b\<close>; it is not
  already looking it up, has a row for it and owns or can register a timer. Then it broadcasts one
  frame; when \<open>b\<close> receives the payload of that frame it sends one frame to \<open>a\<close>; and when \<open>a\<close> receives
  the payload of that one, \<^verbatim>\<open>getMACAddress\<close> returns the hardware address of \<open>b\<close>.
\<close>

theorem arp_resolves:
  assumes "arp_ok a" and "arp_ok b" and "ip = arp_ipAddress b"
    and "\<forall>r \<in> set (routingTable a). ipAddress r = ip \<longrightarrow> resolved r"
    and "\<exists>r \<in> set (routingTable a). ipAddress r = ip \<or> lookupStatus r = 0"
    and "arp_timer a \<noteq> 0 \<or> (\<exists>t \<in> set (timerRegistry a). t_handler t = None)"
    and "requestMACAddress ip a = (ok, a1)"
    and "rest_same b b1" and "b_ok b1 p" and "28 \<le> unat (b_size p)"
    and "take 28 (b_bytes b1 p) = drop 14 (last (wire a1))" and "ARP_handlePayload p b1 = b2"
    and "rest_same a1 a2" and "b_ok a2 q" and "28 \<le> unat (b_size q)"
    and "take 28 (b_bytes a2 q) = drop 14 (last (wire b2))"
  shows "ok \<and> length (wire a1) = length (wire a) + 1 \<and> take 6 (last (wire a1)) = broadcastMAC
    \<and> length (wire b2) = length (wire b) + 1 \<and> take 6 (last (wire b2)) = macAddr a
    \<and> getMACAddress (ARP_handlePayload q a2) ip = Some (macAddr b)"
proof -
  let ?za = "[0, 0, 0, 0, 0, 0] :: u8 list"
  have la: "length (macAddr a) = 6" "length (arp_ipAddress a) = 4"
    and lb: "length (macAddr b) = 6" "length (arp_ipAddress b) = 4"
    using assms(1,2) by (simp_all add: arp_ok_def arp_net_ok_def eth_ok_def)
  have ip: "length ip = 4" using lb assms(3) by simp
  have eq: "ipsEquate (ipAddress r) ip = (ipAddress r = ip)" if "r \<in> set (routingTable a)" for r
    using arp_ok_routes [OF assms(1)] that ip by (simp add: ipsEquate_eq route_ok_def)
  have free: "\<not> (\<exists>r \<in> set (routingTable a). ipsEquate (ipAddress r) ip \<and> \<not> resolved r)"
    using assms(4) eq by blast
  obtain i where i: "request_row ip (routingTable a) = Some i"
  proof (cases "request_row ip (routingTable a)")
    case None
    then have "index_of (\<lambda>r. lookupStatus r = 0) (routingTable a) = None"
      and "filter (\<lambda>i. ipsEquate (ipAddress (routingTable a ! i)) ip) [0 ..< length (routingTable a)] = []"
      by (auto simp: request_row_def split: list.splits)
    then have "\<forall>r \<in> set (routingTable a). lookupStatus r \<noteq> 0 \<and> \<not> ipsEquate (ipAddress r) ip"
      by (auto simp: index_of_None filter_empty_conv in_set_conv_nth)
    with assms(5) eq show ?thesis by blast
  qed (use that in blast)
  let ?r = "(SETATTEMPTCOUNT (routingTable a ! i) 1)\<lparr>lookupTime := now a, ipAddress := ip\<rparr>"
  from requestMACAddress_sends [OF assms(1) ip free i assms(6)] assms(7)
  have a1: "ok" "arp_ok a1" "wire a1 = wire a @ [request_frame a ip]" "routingTable a1 = (routingTable a)[i := ?r]"
    "arp_ipAddress a1 = arp_ipAddress a" "macAddr a1 = macAddr a" by auto
  have i_lt: "i < length (routingTable a)" using i by (rule request_row_Some)
  note tb = rest_same_transmits [OF assms(8)] and ta = rest_same_transmits [OF assms(13)]
  have req: "take 28 (b_bytes b1 p) = arp_packet ARP_REQUEST (macAddr a) (arp_ipAddress a) ?za ip"
    unfolding assms(11) a1(3) using la by (simp add: request_frame_def eth_header_def broadcastMAC_def)
  have b1: "arp_ok b1" "arp_ipAddress b1 = ip" "macAddr b1 = macAddr b" "wire b1 = wire b"
    using arp_ok_transmits [OF tb] arp_transmits [OF tb] transmits_fields [OF tb] assms(2,3) by simp_all
  have "ARP_handlePayload p b1 = snd (sendARPResponse (macAddr a) (arp_ipAddress a) b1)"
    using ARP_handlePayload_packet [OF assms(9) req assms(10) la _ ip] b1 by (simp add: arp_ok_def)
  moreover have "arp_net_ok b1" using b1(1) by (simp add: arp_ok_def)
  ultimately have "transmits [eth_header (macAddr a) (macAddr b) ARP_PROTOCOL
      @ arp_packet ARP_RESPONSE (macAddr b) ip (macAddr a) (arp_ipAddress a)] b1 b2"
    using sendARPResponse_frame [of b1 "macAddr a" "arp_ipAddress a"] la assms(12) by (auto simp: b1)
  then have b2: "wire b2 = wire b @ [eth_header (macAddr a) (macAddr b) ARP_PROTOCOL
      @ arp_packet ARP_RESPONSE (macAddr b) ip (macAddr a) (arp_ipAddress a)]"
    by (simp add: transmits_fields b1)
  have rep: "take 28 (b_bytes a2 q) = arp_packet ARP_RESPONSE (macAddr b) ip (macAddr a) (arp_ipAddress a)"
    unfolding assms(16) b2 using la lb by (simp add: eth_header_def)
  have a2: "arp_ok a2" "arp_ipAddress a2 = arp_ipAddress a" "macAddr a2 = macAddr a"
    "routingTable a2 = (routingTable a)[i := ?r]"
    using arp_ok_transmits [OF ta] arp_transmits [OF ta] transmits_fields [OF ta] a1 by simp_all
  have rows: "\<forall>r \<in> set (routingTable a2). length (ipAddress r) = 4"
    using arp_ok_routes [OF a2(1)] by (simp add: route_ok_def)
  have "ARP_handlePayload q a2 = a2\<lparr>routingTable := resolve_row ip (macAddr b) (routingTable a2)\<rparr>"
    using ARP_handlePayload_packet [OF assms(14) rep assms(15) lb(1) ip la] a2
    by (simp add: arp_ok_def ARP_REQUEST_def ARP_RESPONSE_def)
  moreover have "?r \<in> set (routingTable a2)" using i_lt by (simp add: a2(4) set_update_memI)
  then have "ip \<in> ipAddress ` set (routingTable a2)" by (rule rev_image_eqI) simp
  ultimately have "getMACAddress (ARP_handlePayload q a2) ip = Some (macAddr b)"
    using find_mac_resolve [OF rows ip ip] by (simp add: getMACAddress_def)
  then show ?thesis using a1 b2 la by (simp add: request_frame_def eth_header_def broadcastMAC_def)
qed

lemma arp_resolves_witness:
  "\<exists>a1 (b2 :: arp) (a2 :: arp). requestMACAddress [10, 0, 0, 2] (demo_arp [2, 0, 0, 0, 0, 1] [10, 0, 0, 1]) = (True, a1)
    \<and> take 6 (last (wire b2)) = [2, 0, 0, 0, 0, 1]
    \<and> getMACAddress (ARP_handlePayload (MemBuffer 0x600 28) a2) [10, 0, 0, 2] = Some [2, 0, 0, 0, 0, 2]"
proof -
  let ?a = "demo_arp [2, 0, 0, 0, 0, 1] [10, 0, 0, 1]" and ?b = "demo_arp [2, 0, 0, 0, 0, 2] [10, 0, 0, 2]"
  let ?p = "MemBuffer 0x600 28" and ?ip = "[10, 0, 0, 2]"
  have ok: "arp_ok ?a" "arp_ok ?b" by (rule demo_arp_ok; simp)+
  have nz: "\<not> resolved zero_route" "lookupStatus zero_route = 0" "ipAddress zero_route = [0, 0, 0, 0]"
    by (simp_all add: resolved_def zero_route_def)
  have "request_row ?ip (routingTable ?a) = Some 0"
    by (simp add: request_row_def demo_arp_simps nz ipsEquate_eq upt_rec)
  moreover have free: "\<exists>t \<in> set (timerRegistry ?a). t_handler t = None"
    by (simp add: demo_arp_simps demo_net_simps numeral_3_eq_3)
  moreover have "\<not> (\<exists>r \<in> set (routingTable ?a). ipsEquate (ipAddress r) ?ip \<and> \<not> resolved r)"
    by (simp add: demo_arp_simps nz ipsEquate_eq)
  ultimately obtain a1 where a1: "requestMACAddress ?ip ?a = (True, a1)" "wire a1 = [request_frame ?a ?ip]" "arp_ok a1"
    using requestMACAddress_sends [OF ok(1), of ?ip 0] by (auto simp: demo_arp_simps(5))
  let ?f = "drop 14 (last (wire a1))"
  have lf: "length ?f = 28"
    unfolding a1(2) by (simp add: request_frame_def eth_header_def demo_arp_simps broadcastMAC_def length_arp_packet)
  define b1 where "b1 = snd (b_write ?p 0 ?f ?b)"
  have b1: "rest_same ?b b1" "b_ok b1 ?p" "take 28 (b_bytes b1 ?p) = ?f"
    using fill_bytes [OF Mem_wok, of ?f "0x600" 28 ?b] lf
    by (auto simp: b1_def b_ok_def rest_same_b_write simp del: b_write.simps)
  define b2 where "b2 = ARP_handlePayload ?p b1"
  note tb = rest_same_transmits [OF b1(1)]
  have pk: "take 28 (b_bytes b1 ?p) = arp_packet ARP_REQUEST [2, 0, 0, 0, 0, 1] [10, 0, 0, 1] [0, 0, 0, 0, 0, 0] ?ip"
    unfolding b1(3) a1(2) by (simp add: request_frame_def eth_header_def demo_arp_simps broadcastMAC_def)
  have "arp_ok b1" unfolding arp_ok_transmits [OF tb] by (rule ok)
  then have "length (drop 14 (last (wire b2))) = 28"
    using arp_answers_request_frame [of b1 ?p "[2, 0, 0, 0, 0, 1]" "[10, 0, 0, 1]" "[0, 0, 0, 0, 0, 0]"] b1(2) pk
      transmits_fields(3) [OF tb] arp_transmits(1) [OF tb]
    by (simp add: b2_def demo_arp_simps length_arp_packet)
  moreover define a2 where "a2 = snd (b_write ?p 0 (drop 14 (last (wire b2))) a1)"
  ultimately have a2: "rest_same a1 a2" "b_ok a2 ?p" "take 28 (b_bytes a2 ?p) = drop 14 (last (wire b2))"
    using fill_bytes [OF Mem_wok, of "drop 14 (last (wire b2))" "0x600" 28 a1]
    by (auto simp: b_ok_def rest_same_b_write simp del: b_write.simps)
  have "getMACAddress (ARP_handlePayload ?p a2) ?ip = Some (macAddr ?b) \<and> take 6 (last (wire b2)) = macAddr ?a"
    using arp_resolves [OF ok _ _ _ _ a1(1) b1(1,2) _ b1(3) b2_def [symmetric] a2(1,2) _ a2(3)] free
    by (simp add: demo_arp_simps nz)
  then show ?thesis using a1(1) unfolding demo_arp_simps by blast
qed

text \<open>
  C21: Lookups are retried and given up. On each timer the handler repeats the request for every row that has been
  waiting for at least 250 ms and has been requested fewer than five times, and counts it; a row that was requested five
  times is forgotten; rows that are resolved, free or waiting for less long are untouched; nothing else
  is sent. The timer is unregistered when no row is being looked up.
\<close>

theorem arp_retries:
  assumes "arp_ok s"
  shows "\<exists>s'. ARP_handleTimer index s = Some s'
    \<and> routingTable s' = map (\<lambda>r. if looking r \<and> 250 \<le> now s - lookupTime r
        then if lookupStatus r < 5 then r\<lparr>lookupStatus := lookupStatus r + 1, lookupTime := now s\<rparr> else zero_route
        else r) (routingTable s)
    \<and> wire s' = wire s @ map (\<lambda>r. request_frame s (ipAddress r))
        (filter (\<lambda>r. looking r \<and> 250 \<le> now s - lookupTime r \<and> lookupStatus r < 5) (routingTable s))
    \<and> arp_timer s' = (if \<exists>r \<in> set (routingTable s). looking r then arp_timer s else 0)"
proof -
  have "row_after (now s) = (\<lambda>r. if looking r \<and> 250 \<le> now s - lookupTime r
        then if lookupStatus r < 5 then r\<lparr>lookupStatus := lookupStatus r + 1, lookupTime := now s\<rparr> else zero_route
        else r)"
    by (auto simp: fun_eq_iff row_after_def expired_def not_less)
  moreover have "row_retry (now s) = (\<lambda>r. looking r \<and> 250 \<le> now s - lookupTime r \<and> lookupStatus r < 5)"
    by (auto simp: fun_eq_iff row_retry_def expired_def not_less)
  ultimately show ?thesis using ARP_handleTimer_spec [OF assms, of index] by (auto simp only:)
qed

lemma arp_retries_witness:
  "map_option wire (ARP_handleTimer 1 (demo_arp [2, 0, 0, 0, 0, 1] [10, 0, 0, 1])) = Some []"
proof -
  have "arp_ok (demo_arp [2, 0, 0, 0, 0, 1] [10, 0, 0, 1])" by (rule demo_arp_ok) simp_all
  from arp_retries [OF this, of 1] show ?thesis
    by (auto simp: demo_arp_simps looking_def zero_route_def)
qed

end
