(* ===== verification/IPHandler.thy ===== *)
theory IPHandler
  imports ARPHandler
begin

text \<open>
  IPHandler.h/.cpp: the registry of packet handlers, the choice of the next hop, building the header of
  a packet and checking the header of a received one. The virtual \<^verbatim>\<open>handlePacket\<close> of the handlers
  above is an argument of \<open>IP_handlePayload\<close>.
\<close>

section \<open>State\<close>

datatype packet_handler = UDPPacket | TCPPacket

record ip = arp +
  ip_ipAddress :: "u8 list"
  gatewayIP :: "u8 list"
  subnetMask :: "u8 list"
  ipNetwork :: "u8 list"
  ipBroadcastAddress :: "u8 list"
  nextPort :: u16
  ip_protocolRegistry :: "(u8 \<times> packet_handler option) list"
  sendPacketBuffer :: buffer

definition IP_HEADER_LENGTH :: u16 where "IP_HEADER_LENGTH = 20"

text \<open>
  The registry is an array of 3 entries of 3 bytes (a \<^verbatim>\<open>uint8_t\<close> and a 2-byte pointer). The scans run up to
  \<^verbatim>\<open>sizeof(protocolRegistry) / sizeof(protocolMap)\<close>, and \<^verbatim>\<open>protocolMap\<close> is the entry of EtherControl.h, of
  4 bytes.
\<close>

definition ip_capacity :: nat where "ip_capacity = 3"
definition ip_scanned :: nat where "ip_scanned = (ip_capacity * 3) div 4"

section \<open>Protocols and ports\<close>

definition IP_registerProtocol :: "u8 \<Rightarrow> packet_handler option \<Rightarrow> 'a ip_scheme \<Rightarrow> bool \<times> 'a ip_scheme" where
  "IP_registerProtocol protocol handler s =
     (case reg_put protocol handler (take ip_scanned (ip_protocolRegistry s)) of
        None \<Rightarrow> (False, s)
      | Some r \<Rightarrow> (True, s\<lparr>ip_protocolRegistry := r @ drop ip_scanned (ip_protocolRegistry s)\<rparr>))"

definition IP_getProtocolHandler :: "'a ip_scheme \<Rightarrow> u8 \<Rightarrow> packet_handler option" where
  "IP_getProtocolHandler s ipProtocol = reg_get (take ip_scanned (ip_protocolRegistry s)) ipProtocol"

definition getPort :: "'a ip_scheme \<Rightarrow> u16 \<times> 'a ip_scheme" where
  "getPort s = (nextPort s, s\<lparr>nextPort := nextPort s + 1\<rparr>)"

text \<open>The constructor; \<open>rnd\<close> is what \<^verbatim>\<open>random()\<close> returns (non-negative).\<close>

definition IPHandler_init :: "nat \<Rightarrow> u8 list \<Rightarrow> u8 list \<Rightarrow> u8 list \<Rightarrow> 'a ip_scheme \<Rightarrow> 'a ip_scheme" where
  "IPHandler_init rnd ip gateway subnet s =
     (let s = s\<lparr>ip_ipAddress := ip, gatewayIP := gateway, subnetMask := subnet\<rparr>;
          s = s\<lparr>ipNetwork := map (\<lambda>i. ip ! i AND subnet ! i) [0 ..< 4]\<rparr>;
          s = s\<lparr>ipBroadcastAddress := map (\<lambda>i. ipNetwork s ! i OR NOT (subnet ! i)) [0 ..< 4]\<rparr>;
          s = s\<lparr>ip_protocolRegistry := replicate ip_capacity (0, None)\<rparr>;
          s = s\<lparr>nextPort := word_of_nat (rnd mod 10000)\<rparr>;
          s = snd (registerProtocol IP_PROTOCOL (Some IPPayload) s)
      in s\<lparr>sendPacketBuffer := OffsetBuffer_new (sendPayloadBuffer s) IP_HEADER_LENGTH 0\<rparr>)"

section \<open>Routing\<close>

text \<open>
  \<^verbatim>\<open>if (subnetMask[i] & destinationIP[i] != ipNetwork[i]) onLocalNetwork = false;\<close> where the comparison
  binds tighter than the \<^verbatim>\<open>&\<close>.
\<close>

definition onLocalNetwork :: "'a ip_scheme \<Rightarrow> u8 list \<Rightarrow> bool" where
  "onLocalNetwork s destinationIP =
     list_all (\<lambda>i. (subnetMask s ! i AND (if destinationIP ! i \<noteq> ipNetwork s ! i then 1 else 0)) = 0) [0 ..< 4]"

definition getMACForIP :: "'a ip_scheme \<Rightarrow> u8 list \<Rightarrow> u8 list option" where
  "getMACForIP s destinationIP =
     (if onLocalNetwork s destinationIP \<and> ipsEquate (ipBroadcastAddress s) destinationIP then Some broadcastMAC
      else if onLocalNetwork s destinationIP then getMACAddress s destinationIP
      else getMACAddress s (gatewayIP s))"

section \<open>Sending\<close>

definition sendPacket :: "u8 list \<Rightarrow> u8 \<Rightarrow> u16 \<Rightarrow> 'a ip_scheme \<Rightarrow> bool \<times> 'a ip_scheme" where
  "sendPacket destinationIP protocol packetPayloadLength s =
     (let p = sendPayloadBuffer s; wr = b_write p
      in if b_size p < IP_HEADER_LENGTH + packetPayloadLength then (False, s)
         else case getMACForIP s destinationIP of
                None \<Rightarrow> (False, s)
              | Some mac_addr \<Rightarrow>
                  (let s = run_all
                        [write8 wr 0 0x45,
                         write8 wr 1 0x00,
                         writeNet16 wr 2 (packetPayloadLength + IP_HEADER_LENGTH),
                         writeNet16 wr 4 0,
                         writeNet16 wr 6 0x4000,
                         write8 wr 8 64,
                         write8 wr 9 protocol,
                         wr 12 (ip_ipAddress s),
                         wr 16 destinationIP] s;
                       s = snd (writeNet16 wr 10 (checksum (b_size p) (b_read s p) IP_HEADER_LENGTH 10 0) s)
                   in sendFrame mac_addr IP_PROTOCOL (packetPayloadLength + IP_HEADER_LENGTH) s))"

definition sendPacket_payload :: "u8 list \<Rightarrow> u8 \<Rightarrow> u8 list \<Rightarrow> 'a ip_scheme \<Rightarrow> bool \<times> 'a ip_scheme" where
  "sendPacket_payload destinationIP protocol payload s =
     (let p = sendPayloadBuffer s; packetPayloadLength = word_of_nat (length payload)
      in if b_size p < IP_HEADER_LENGTH + packetPayloadLength then (False, s)
         else sendPacket destinationIP protocol packetPayloadLength
                (snd (b_write p IP_HEADER_LENGTH payload s)))"

section \<open>Receiving\<close>

text \<open>The checks of \<^verbatim>\<open>handlePayload\<close> up to the protocol: the total length and the protocol.\<close>

definition IP_read_header :: "'a ip_scheme \<Rightarrow> buffer \<Rightarrow> (u16 \<times> u8) option" where
  "IP_read_header s p = do {
     require (\<not> b_size p < IP_HEADER_LENGTH);
     cs \<leftarrow> readNet16 (b_read s p) 10;
     require (cs = checksum (b_size p) (b_read s p) IP_HEADER_LENGTH 10 0);
     len \<leftarrow> readNet16 (b_read s p) 2;
     require (\<not> b_size p < len);
     ip \<leftarrow> b_read s p 16 4;
     require (ipsEquate ip (ip_ipAddress s) \<or> ipsEquate ip (ipBroadcastAddress s));
     protocol \<leftarrow> read8 (b_read s p) 9;
     Some (len, protocol)
   }"

type_synonym 's on_packet = "packet_handler \<Rightarrow> u8 list \<Rightarrow> buffer \<Rightarrow> 's \<Rightarrow> 's option"

definition IP_handlePayload :: "'a ip_scheme on_packet \<Rightarrow> buffer \<Rightarrow> 'a ip_scheme \<Rightarrow> 'a ip_scheme option" where
  "IP_handlePayload handlePacket p s =
     (case IP_read_header s p of
        None \<Rightarrow> Some s
      | Some (len, protocol) \<Rightarrow>
          (case IP_getProtocolHandler s protocol of
             None \<Rightarrow> Some s
           | Some handler \<Rightarrow>
               (let ipPacketBuffer = OffsetBuffer_new p IP_HEADER_LENGTH (len - IP_HEADER_LENGTH)
                in case b_read s p 12 4 of
                     None \<Rightarrow> Some s
                   | Some ip \<Rightarrow> handlePacket handler ip ipPacketBuffer s)))"

definition IP_getMaxReceivePayload :: "'a ip_scheme \<Rightarrow> u16" where
  "IP_getMaxReceivePayload s = getMaxReceivePayload s - IP_HEADER_LENGTH"

section \<open>The registry\<close>

lemma ip_scanned: "ip_scanned = 2"
  by (simp add: ip_scanned_def ip_capacity_def)

lemma IP_registerProtocol_simps:
  "fst (IP_registerProtocol k h s) = (reg_put k h (take ip_scanned (ip_protocolRegistry s)) \<noteq> None)"
  "snd (IP_registerProtocol k h s) = (case reg_put k h (take ip_scanned (ip_protocolRegistry s)) of
     None \<Rightarrow> s | Some r \<Rightarrow> s\<lparr>ip_protocolRegistry := r @ drop ip_scanned (ip_protocolRegistry s)\<rparr>)"
  by (auto simp: IP_registerProtocol_def split: option.split)

lemma take_scanned:
  assumes "reg_put k h (take ip_scanned rs) = Some r"
  shows "take ip_scanned (r @ drop ip_scanned rs) = r"
proof -
  have "length r = min (length rs) ip_scanned" using reg_put_length [OF assms] by simp
  then show ?thesis by (cases "ip_scanned \<le> length rs") auto
qed

interpretation packets: registry "\<lambda>k h. IP_registerProtocol k (Some h)" IP_getProtocolHandler
  "\<lambda>s. reg_ok (take ip_scanned (ip_protocolRegistry s))" "\<lambda>k. k \<noteq> 0"
  by unfold_locales
    (auto simp: IP_registerProtocol_simps IP_getProtocolHandler_def take_scanned reg_get_put split: option.split
      intro: reg_put_ok simp del: take_append)

section \<open>Well-formed states\<close>

definition ip_ok :: "'a ip_scheme \<Rightarrow> bool" where
  "ip_ok s = (arp_ok s \<and> length (ip_ipAddress s) = 4 \<and> length (gatewayIP s) = 4 \<and> length (subnetMask s) = 4
     \<and> length (ipNetwork s) = 4 \<and> length (ipBroadcastAddress s) = 4
     \<and> sendPacketBuffer s = after (sendPayloadBuffer s) IP_HEADER_LENGTH)"

lemma ip_same:
  assumes "arp.more s' = arp.more s"
  shows "ip_ipAddress s' = ip_ipAddress s" "gatewayIP s' = gatewayIP s" "subnetMask s' = subnetMask s"
    "ipNetwork s' = ipNetwork s" "ipBroadcastAddress s' = ipBroadcastAddress s" "nextPort s' = nextPort s"
    "ip_protocolRegistry s' = ip_protocolRegistry s" "sendPacketBuffer s' = sendPacketBuffer s" "ip.more s' = ip.more s"
  using assms by (cases s, cases s', simp)+

lemmas ip_transmits = ip_same [OF arp_transmits(4)]

lemma ip_ok_transmits: "transmits fs s s' \<Longrightarrow> ip_ok s' = ip_ok s"
  by (simp add: ip_ok_def arp_ok_transmits ip_transmits transmits_fields)

lemma ip_sizes:
  assumes "ip_ok s"
  shows "eth_ok s" "b_wok s (sendPayloadBuffer s)" "b_wok s (sendPacketBuffer s)"
    "unat (b_size (sendPayloadBuffer s)) = unat (b_size (drv_send s)) - 14"
    "unat (b_size (sendPacketBuffer s)) = unat (b_size (drv_send s)) - 34"
    "42 \<le> unat (b_size (drv_send s))" "20 \<le> b_size (sendPayloadBuffer s)"
proof -
  show e: "eth_ok s" and d: "42 \<le> unat (b_size (drv_send s))"
    using assms by (simp_all add: ip_ok_def arp_ok_def arp_net_ok_def)
  then show p: "b_wok s (sendPayloadBuffer s)" "unat (b_size (sendPayloadBuffer s)) = unat (b_size (drv_send s)) - 14"
    by (simp_all add: eth_ok_payload eth_payload_size)
  then show le: "20 \<le> b_size (sendPayloadBuffer s)" using d by (simp add: le16_iff)
  then show "b_wok s (sendPacketBuffer s)" "unat (b_size (sendPacketBuffer s)) = unat (b_size (drv_send s)) - 34"
    using assms p d by (simp_all add: ip_ok_def IP_HEADER_LENGTH_def after_wok size_after)
qed

lemma ip_packet_bytes:
  "ip_ok s \<Longrightarrow> b_bytes s (sendPacketBuffer s) = drop 20 (b_bytes s (sendPayloadBuffer s))"
  using ip_sizes(2,7) [of s] by (simp add: ip_ok_def IP_HEADER_LENGTH_def b_bytes_after buf.wok_ok)

lemma getMACForIP_length:
  assumes "ip_ok s" and "getMACForIP s dst = Some mac"
  shows "length mac = 6"
proof -
  have "length m = 6" if "getMACAddress s i = Some m" for i m
  proof -
    have "\<forall>r \<in> set (routingTable s). length (macAddress r) = 6"
      using assms(1) arp_ok_routes [of s] by (simp add: ip_ok_def route_ok_def)
    then show ?thesis using that unfolding getMACAddress_def
      by (auto simp: find_mac_index index_of_Some split: option.splits if_splits)
  qed
  then show ?thesis using assms(2) by (auto simp: getMACForIP_def broadcastMAC_def split: if_splits)
qed

section \<open>The header\<close>

definition ip_header :: "u16 \<Rightarrow> u8 \<Rightarrow> u16 \<Rightarrow> u8 list \<Rightarrow> u8 list \<Rightarrow> u8 list" where
  "ip_header len protocol c src dst =
     [0x45, 0] @ be16 len @ be16 0 @ be16 0x4000 @ [64, protocol] @ be16 c @ src @ dst"

definition ip_csum :: "u16 \<Rightarrow> u8 \<Rightarrow> u8 list \<Rightarrow> u8 list \<Rightarrow> u16" where
  "ip_csum len protocol src dst = csum 0 (ip_header len protocol 0 src dst)"

lemma length_ip_header [simp]: "length src = 4 \<Longrightarrow> length dst = 4 \<Longrightarrow> length (ip_header len protocol c src dst) = 20"
  by (simp add: ip_header_def)

lemma blank_ip_header: "blank 10 (ip_header len protocol c src dst) = ip_header len protocol 0 src dst"
  by (simp add: blank_def ip_header_def be16_def)

lemma put_ip_header: "put 10 (be16 c') (ip_header len protocol c src dst) = ip_header len protocol c' src dst"
  by (simp add: put_def ip_header_def be16_def)

definition ip_ops :: "u16 \<Rightarrow> u8 \<Rightarrow> u8 list \<Rightarrow> u8 list \<Rightarrow> op list" where
  "ip_ops len protocol src dst = layout 0 [[0x45], [0], be16 len, be16 0, be16 0x4000, [64], [protocol]]
     @ layout 12 [src, dst]"

lemma puts_ip_header:
  assumes "length src = 4" and "length dst = 4" and "20 \<le> length bs" and "length bs < 65536"
  shows "\<exists>x. puts (ip_ops len protocol src dst) bs = ip_header len protocol x src dst @ drop 20 bs"
proof -
  let ?h = "[0x45, 0] @ be16 len @ be16 0 @ be16 0x4000 @ [64, protocol]"
  have "puts (layout 0 [[0x45], [0], be16 len, be16 0, be16 0x4000, [64], [protocol]]) bs = ?h @ drop 10 bs"
    using assms by (subst puts_layout) (simp_all add: put_0)
  moreover have "puts (layout 12 [src, dst]) (?h @ drop 10 bs) = put 12 (src @ dst) (?h @ drop 10 bs)"
    using assms by (subst puts_layout) simp_all
  moreover have "drop 10 bs = [bs ! 10, bs ! 11] @ drop 12 bs"
    using assms(3) Cons_nth_drop_Suc [of 10 bs] Cons_nth_drop_Suc [of 11 bs] by simp
  then have "put 12 (src @ dst) (?h @ drop 10 bs) = ?h @ [bs ! 10, bs ! 11] @ src @ dst @ drop 20 bs"
    using assms by (simp add: put_def be16_def)
  moreover have "[bs ! 10, bs ! 11] = be16 (net16 (bs ! 10) (bs ! 11))" by (simp only: be16_net16)
  ultimately show ?thesis
    by (intro exI [of _ "net16 (bs ! 10) (bs ! 11)"]) (simp add: ip_ops_def puts_append ip_header_def)
qed

section \<open>Sending: what goes on the wire\<close>

lemma ip_write_list:
  assumes "length src = 4"
  shows "[write8 (b_write p) 0 0x45, write8 (b_write p) 1 0x00, writeNet16 (b_write p) 2 len,
      writeNet16 (b_write p) 4 0, writeNet16 (b_write p) 6 0x4000, write8 (b_write p) 8 64,
      write8 (b_write p) 9 protocol, b_write p 12 src, b_write p 16 dst]
    = map (op_write p) (ip_ops len protocol src dst)"
  using assms by (simp add: accessor_ops ip_ops_def)

lemma ip_ops_in: "length src = 4 \<Longrightarrow> length dst = 4 \<Longrightarrow> 20 \<le> n \<Longrightarrow> n < 65536 \<Longrightarrow>
    ops_in n (ip_ops len protocol src dst)"
  by (auto simp: ip_ops_def ops_in_def be16_def)

lemma sendPacket_ok:
  assumes "ip_ok s" and "length dst = 4" and "getMACForIP s dst = Some mac"
    and "unat n + 34 \<le> unat (b_size (drv_send s))"
  shows "\<exists>s'. sendPacket dst protocol n s = (True, s')
    \<and> transmits [eth_header mac (macAddr s) IP_PROTOCOL
        @ ip_header (n + 20) protocol (ip_csum (n + 20) protocol (ip_ipAddress s) dst) (ip_ipAddress s) dst
        @ take (unat n) (b_bytes s (sendPacketBuffer s))] s s'
    \<and> b_bytes s' (sendPacketBuffer s) = b_bytes s (sendPacketBuffer s)"
proof -
  let ?p = "sendPayloadBuffer s" and ?src = "ip_ipAddress s"
  let ?ops = "ip_ops (n + 20) protocol ?src dst"
  let ?c = "ip_csum (n + 20) protocol ?src dst"
  define B where "B = b_bytes s ?p"
  note sz = ip_sizes [OF assms(1)]
  have src: "length ?src = 4" using assms(1) by (simp add: ip_ok_def)
  have len: "length B = unat (b_size ?p)" using sz(2) by (simp add: B_def buf.length_bytes buf.wok_ok)
  then have l: "20 \<le> length B" "length B < 65536" "20 \<le> unat (b_size ?p)"
    using sz(4,6) unat16_le [of "b_size (drv_send s)"] by simp_all
  have ops: "ops_in (unat (b_size ?p)) ?ops" using src assms(2) l by (intro ip_ops_in) simp_all
  obtain x where B1: "b_bytes (writes ?p ?ops s) ?p = ip_header (n + 20) protocol x ?src dst @ drop 20 B"
    using puts_ip_header [OF src assms(2) l(1,2), of "n + 20" protocol]
    by (auto simp: seq_writes(2) [OF sz(2) ops] B_def)
  define s1 where "s1 = writes ?p ?ops s"
  have s1: "b_ok s1 ?p" "b_wok s1 ?p" using sz(2) by (simp_all add: s1_def writes_keep buf.wok_ok)
  have cs: "checksum (b_size ?p) (b_read s1 ?p) IP_HEADER_LENGTH 10 0 = ?c"
    using s1 l(3) B1 src assms(2)
    by (simp add: checksum_csum IP_HEADER_LENGTH_def blank_ip_header ip_csum_def flip: s1_def)
  have c_ops: "ops_in (unat (b_size ?p)) [(10, be16 ?c)]" using l(3) by (simp add: ops_in_def be16_def)
  define s2 where "s2 = writes ?p [(10, be16 ?c)] s1"
  have "b_bytes s2 ?p = put 10 (be16 ?c) (ip_header (n + 20) protocol x ?src dst @ drop 20 B)"
    unfolding s2_def seq_writes(2) [OF s1(2) c_ops] B1 [folded s1_def] by simp
  also have "\<dots> = put 10 (be16 ?c) (ip_header (n + 20) protocol x ?src dst) @ drop 20 B"
    using src assms(2) by (simp add: put_def)
  finally have B2: "b_bytes s2 ?p = ip_header (n + 20) protocol ?c ?src dst @ drop 20 B"
    by (simp add: put_ip_header)
  have rs: "rest_same s s2"
    unfolding s2_def s1_def by (rule rest_same_trans [OF rest_same_writes rest_same_writes])
  note f = net_rest_same [OF rs]
  have ok2: "ip_ok s2" using ip_ok_transmits [OF rest_same_transmits [OF rs]] assms(1) by simp
  have n20: "unat (20 + n) = unat n + 20"
    using assms(4) unat16_le [of "b_size (drv_send s)"] by (subst unat_add16) simp_all
  then have le: "n + 20 \<le> b_size (sendPayloadBuffer s2)"
    using assms(4) sz(4) by (simp add: le16_iff f add.commute)
  have mac: "length mac = 6" using assms(1,3) by (rule getMACForIP_length)
  obtain s' where send: "sendFrame mac IP_PROTOCOL (n + 20) s2 = (True, s')"
    and tr: "transmits [eth_header mac (macAddr s2) IP_PROTOCOL @ take (unat (n + 20)) (b_bytes s2 (sendPayloadBuffer s2))] s2 s'"
    and same: "b_bytes s' (sendPayloadBuffer s2) = b_bytes s2 (sendPayloadBuffer s2)"
    using sendFrame_frame [OF ip_sizes(1) [OF ok2] mac le] by blast
  have pb: "b_bytes s (sendPacketBuffer s) = drop 20 B"
    unfolding B_def by (rule ip_packet_bytes [OF assms(1)])
  have "take (unat (n + 20)) (b_bytes s2 ?p) = ip_header (n + 20) protocol ?c ?src dst @ take (unat n) (drop 20 B)"
    unfolding B2 using n20 src assms(2) by (simp add: add.commute)
  with transmits_rest_same [OF rs tr] pb
  have "transmits [eth_header mac (macAddr s) IP_PROTOCOL @ ip_header (n + 20) protocol ?c ?src dst
      @ take (unat n) (b_bytes s (sendPacketBuffer s))] s s'" by (simp add: f)
  moreover have "b_bytes s' (sendPacketBuffer s') = b_bytes s (sendPacketBuffer s)"
    using ip_packet_bytes [of s'] ok2 ip_ok_transmits [OF tr] transmits_fields(6) [OF tr] same B2 pb src assms(2)
    by (simp add: f)
  moreover have "sendPacketBuffer s' = sendPacketBuffer s" using ip_transmits(8) [OF calculation(1)] .
  moreover have "sendPacket dst protocol n s = (True, s')"
  proof -
    have small: "\<not> b_size ?p < IP_HEADER_LENGTH + n"
      using assms(4) sz(4) n20 by (simp add: less16 IP_HEADER_LENGTH_def)
    have c: "snd (writeNet16 (b_write ?p) 10 ?c s1) = s2" by (simp add: s2_def accessor_ops)
    show ?thesis
      unfolding sendPacket_def Let_def if_not_P [OF small] assms(3) option.case
      using send by (simp only: IP_HEADER_LENGTH_def ip_write_list [OF src] run_all_writes s1_def [symmetric]
          cs [unfolded IP_HEADER_LENGTH_def] c)
  qed
  ultimately show ?thesis by auto
qed

section \<open>Receiving: what is accepted\<close>

lemma getters: "b_ok s p \<Longrightarrow> unat off + 2 \<le> unat (b_size p) \<Longrightarrow>
    readNet16 (b_read s p) off = Some (net16 (b_bytes s p ! unat off) (b_bytes s p ! (unat off + 1)))"
  by (rule buf.readNet16_inside)

text \<open>The checks, in terms of the bytes of the packet.\<close>

definition ip_accepts :: "'a ip_scheme \<Rightarrow> u8 list \<Rightarrow> bool" where
  "ip_accepts s B = (20 \<le> length B \<and> net16 (B ! 10) (B ! 11) = csum 0 (blank 10 (take 20 B))
     \<and> unat (net16 (B ! 2) (B ! 3)) \<le> length B
     \<and> (window 16 4 B = ip_ipAddress s \<or> window 16 4 B = ipBroadcastAddress s))"

lemma IP_read_header_eq:
  assumes "ip_ok s" and "b_ok s p"
  shows "IP_read_header s p = (if ip_accepts s (b_bytes s p)
    then Some (net16 (b_bytes s p ! 2) (b_bytes s p ! 3), b_bytes s p ! 9) else None)"
proof -
  let ?B = "b_bytes s p"
  have len: "length ?B = unat (b_size p)" using assms(2) by (rule buf.length_bytes)
  show ?thesis
  proof (cases "b_size p < IP_HEADER_LENGTH")
    case True
    then have "\<not> ip_accepts s ?B" using len by (simp add: ip_accepts_def less16 IP_HEADER_LENGTH_def)
    with True show ?thesis by (simp add: IP_read_header_def)
  next
    case False
    then have sz: "20 \<le> unat (b_size p)" by (simp add: less16 IP_HEADER_LENGTH_def)
    have "checksum (b_size p) (b_read s p) IP_HEADER_LENGTH 10 0 = csum 0 (blank 10 (take 20 ?B))"
      using assms(2) sz by (simp add: checksum_csum IP_HEADER_LENGTH_def)
    moreover have "length (window 16 4 ?B) = 4" using len sz by simp
    ultimately show ?thesis
      using assms sz len False
      by (simp add: IP_read_header_def getters buf.rd_inside buf.read8_inside ipsEquate_eq ip_ok_def
          ip_accepts_def less16 require_def)
  qed
qed

lemma IP_handlePayload_eq:
  assumes "ip_ok s" and "b_ok s p"
  defines "B \<equiv> b_bytes s p"
  shows "IP_handlePayload hp p s =
    (if ip_accepts s B
     then case IP_getProtocolHandler s (B ! 9) of None \<Rightarrow> Some s
       | Some h \<Rightarrow> hp h (window 12 4 B) (OffsetBuffer_new p 20 (net16 (B ! 2) (B ! 3) - 20)) s
     else Some s)"
proof -
  have "b_read s p 12 4 = Some (window 12 4 B)" if "ip_accepts s B"
    using that assms(2) buf.length_bytes [OF assms(2)] by (simp add: ip_accepts_def B_def buf.rd_inside)
  then show ?thesis
    by (auto simp: IP_handlePayload_def IP_read_header_eq [OF assms(1,2)] IP_HEADER_LENGTH_def
        simp flip: B_def split: option.split)
qed

text \<open>A packet with a correct header.\<close>

lemma ip_accepts_packet:
  assumes "length src = 4" and "length dst = 4" and "unat len \<le> 20 + length rest"
    and "dst = ip_ipAddress s \<or> dst = ipBroadcastAddress s"
  shows "ip_accepts s (ip_header len protocol (ip_csum len protocol src dst) src dst @ rest)"
proof -
  let ?c = "ip_csum len protocol src dst"
  let ?h = "ip_header len protocol ?c src dst"
  have l: "length ?h = 20" using assms(1,2) by simp
  have "take 20 (?h @ rest) = ?h" using l by simp
  then have "csum 0 (blank 10 (take 20 (?h @ rest))) = ?c" by (simp add: blank_ip_header ip_csum_def)
  moreover have "(?h @ rest) ! 10 = be16 ?c ! 0" "(?h @ rest) ! 11 = be16 ?c ! 1"
    "(?h @ rest) ! 2 = be16 len ! 0" "(?h @ rest) ! 3 = be16 len ! 1"
    using assms(1,2) by (simp_all add: ip_header_def be16_def nth_append)
  moreover have "window 16 4 (?h @ rest) = dst"
    using assms(1,2) by (simp add: ip_header_def window_def be16_def)
  ultimately show ?thesis using assms(3,4) l by (simp add: ip_accepts_def be16_def bo_simps)
qed

lemma ip_packet_fields:
  assumes "length src = 4" and "length dst = 4"
  shows "(ip_header len protocol c src dst @ rest) ! 9 = protocol"
    "net16 ((ip_header len protocol c src dst @ rest) ! 2) ((ip_header len protocol c src dst @ rest) ! 3) = len"
    "window 12 4 (ip_header len protocol c src dst @ rest) = src"
  using assms by (simp_all add: ip_header_def nth_append window_def be16_def bo_simps)

text \<open>The payload that is handed up.\<close>

lemma ip_payload_buffer:
  assumes "b_ok s p" and "unat len = 20 + length payload" and "payload \<noteq> []"
    and "b_bytes s p = h @ payload @ rest" and "length h = 20"
  shows "b_ok s (OffsetBuffer_new p 20 (len - 20))" and "b_bytes s (OffsetBuffer_new p 20 (len - 20)) = payload"
    and "b_size (OffsetBuffer_new p 20 (len - 20)) = len - 20"
proof -
  have "length (b_bytes s p) = unat (b_size p)" using assms(1) by (rule buf.length_bytes)
  then have sz: "unat len \<le> unat (b_size p)" using assms(2,4,5) by simp
  have l: "unat (len - 20) = length payload" using assms(2) by (subst unat_sub16) (simp_all add: le16_iff)
  then have "OffsetBuffer_new p 20 (len - 20) = OffsetBuffer p 20 (len - 20)"
    using assms(2,3) sz by (intro OffsetBuffer_new_part) simp_all
  then show "b_ok s (OffsetBuffer_new p 20 (len - 20))" "b_bytes s (OffsetBuffer_new p 20 (len - 20)) = payload"
    "b_size (OffsetBuffer_new p 20 (len - 20)) = len - 20"
    using assms(1,2,4,5) sz l by (simp_all add: b_ok_def b_bytes_Offset window_def)
qed

text \<open>A correct packet for this host, with padding behind it, is handed up.\<close>

lemma ip_handles:
  assumes "ip_ok b" and "b_ok b p" and "length src = 4" and "length dst = 4"
    and "b_bytes b p = ip_header len protocol (ip_csum len protocol src dst) src dst @ payload @ padding"
    and "unat len = 20 + length payload" and "payload \<noteq> []"
    and "dst = ip_ipAddress b \<or> dst = ipBroadcastAddress b"
    and "IP_getProtocolHandler b protocol = Some h"
  defines "q \<equiv> OffsetBuffer_new p 20 (len - 20)"
  shows "IP_handlePayload handlePacket p b = handlePacket h src q b"
    and "b_ok b q" and "b_bytes b q = payload" and "b_size q = len - 20"
proof -
  have "ip_accepts b (b_bytes b p)"
    unfolding assms(5) using assms(3,4,6,8) by (intro ip_accepts_packet) simp_all
  then show "IP_handlePayload handlePacket p b = handlePacket h src q b"
    unfolding IP_handlePayload_eq [OF assms(1,2)] assms(5) ip_packet_fields [OF assms(3,4)] assms(9) q_def by simp
  show "b_ok b q" "b_bytes b q = payload" "b_size q = len - 20"
    unfolding q_def using ip_payload_buffer [OF assms(2,6,7,5)] assms(3,4) by simp_all
qed

lemma IPHandler_init_ok:
  assumes "arp_ok s" and "length ip = 4" and "length gw = 4" and "length subnet = 4"
  shows "ip_ok (IPHandler_init rnd ip gw subnet s)"
proof -
  have "20 \<le> b_size (sendPayloadBuffer s)"
    using assms(1) eth_payload_size [of s] by (auto simp: arp_ok_def arp_net_ok_def le16_iff)
  moreover have "arp_ok (s\<lparr>protocolRegistry := r\<rparr>)" for r
    using assms(1) by (simp add: arp_ok_def arp_net_ok_def eth_ok_def b_wok_def b_ok_def timers_ok_def)
  ultimately show ?thesis
    using assms unfolding IPHandler_init_def registerProtocol_simps Let_def
    by (auto simp: ip_ok_def arp_ok_def arp_net_ok_def eth_ok_def b_wok_def b_ok_def timers_ok_def
        IP_HEADER_LENGTH_def OffsetBuffer_new_after split: option.split)
qed

section \<open>Properties\<close>

text \<open>
  C22: \<^verbatim>\<open>sendPacket\<close> puts a correct IPv4 packet on the wire. When the packet fits into the send buffer and a hardware
  address for the next hop is known, it returns true and transmits one ethernet frame of type 0x0800
  to that address, whose payload is a 20-byte IPv4 header (no options, not fragmentable, ttl 64) with
  the total length, the protocol, both addresses and a header checksum that verifies, followed by the first
  bytes of the payload buffer, which is left unchanged.
\<close>

theorem sendPacket_transmits:
  assumes "ip_ok s" and "length dst = 4" and "getMACForIP s dst = Some mac"
    and "unat n + 34 \<le> unat (b_size (drv_send s))"
  shows "\<exists>s' hdr. sendPacket dst protocol n s = (True, s')
    \<and> wire s' = wire s @ [mac @ macAddr s @ be16 0x0800 @ hdr @ take (unat n) (b_bytes s (sendPacketBuffer s))]
    \<and> hdr = [0x45, 0] @ be16 (n + 20) @ [0, 0, 0x40, 0, 64, protocol] @ window 10 2 hdr @ ip_ipAddress s @ dst
    \<and> ones (wsum hdr) = 65535 \<and> length hdr = 20
    \<and> b_bytes s' (sendPacketBuffer s') = b_bytes s (sendPacketBuffer s) \<and> ip_ok s'"
proof -
  let ?src = "ip_ipAddress s"
  let ?c = "ip_csum (n + 20) protocol ?src dst"
  let ?h = "ip_header (n + 20) protocol ?c ?src dst"
  have src: "length ?src = 4" using assms(1) by (simp add: ip_ok_def)
  obtain s' where s': "sendPacket dst protocol n s = (True, s')"
    and t: "transmits [eth_header mac (macAddr s) IP_PROTOCOL @ ?h @ take (unat n) (b_bytes s (sendPacketBuffer s))] s s'"
    and b: "b_bytes s' (sendPacketBuffer s) = b_bytes s (sendPacketBuffer s)"
    using sendPacket_ok [OF assms] by blast
  have "be16 0 = [0, 0]" "be16 0x4000 = [0x40, 0]" by (simp_all add: be16_def)
  moreover have "window 10 2 ?h = be16 ?c" using src assms(2) by (simp add: ip_header_def window_def be16_def)
  moreover have "ones (0 + wsum (put 10 (be16 (csum 0 (blank 10 ?h))) ?h)) = 65535"
    using src assms(2) by (intro csum_verifies) simp_all
  then have "ones (wsum ?h) = 65535"
    by (simp add: blank_ip_header put_ip_header flip: ip_csum_def)
  ultimately show ?thesis
    using s' t b src assms(1,2) transmits_fields(1) [OF t] ip_transmits(8) [OF t] ip_ok_transmits [OF t]
    by (intro exI [of _ s'] exI [of _ ?h]) (simp add: eth_header_def IP_PROTOCOL_def ip_header_def)
qed

definition demo_ip :: "u8 list \<Rightarrow> u8 list \<Rightarrow> u8 list \<Rightarrow> u8 list \<Rightarrow> ip" where
  "demo_ip mac ip peer_mac peer_ip = IPHandler_init 4242 ip [10, 0, 0, 254] [255, 255, 255, 0]
     (arp.extend (demo_arp mac ip\<lparr>routingTable := [\<lparr>ipAddress = peer_ip, macAddress = peer_mac, lookupTime = 0,
        lookupStatus = 0x81\<rparr>, zero_route]\<rparr>)
      (ip.fields [] [] [] [] [] 0 [] (MemBuffer 0 0)))"

lemma demo_ip_simps:
  "drv_send (demo_ip mac ip m i) = MemBuffer 0x400 100"
  "sendPayloadBuffer (demo_ip mac ip m i) = OffsetBuffer (MemBuffer 0x400 100) 14 86"
  "sendPacketBuffer (demo_ip mac ip m i) = OffsetBuffer (OffsetBuffer (MemBuffer 0x400 100) 14 86) 20 66"
  "macAddr (demo_ip mac ip m i) = mac" "wire (demo_ip mac ip m i) = []"
  "ip_ipAddress (demo_ip mac ip m i) = ip" "gatewayIP (demo_ip mac ip m i) = [10, 0, 0, 254]"
  "subnetMask (demo_ip mac ip m i) = [255, 255, 255, 0]"
  "ipNetwork (demo_ip mac ip m i) = map (\<lambda>j. ip ! j AND [255, 255, 255, 0] ! j) [0 ..< 4]"
  "ip_protocolRegistry (demo_ip mac ip m i) = replicate 3 (0, None)"
  "routingTable (demo_ip mac ip m i) = [\<lparr>ipAddress = i, macAddress = m, lookupTime = 0, lookupStatus = 0x81\<rparr>, zero_route]"
  by (simp_all add: demo_ip_def IPHandler_init_def arp.defs ip.defs registerProtocol_simps demo_arp_simps
      IP_HEADER_LENGTH_def OffsetBuffer_new_def reinit_def ip_capacity_def Let_def split: option.split)

lemma demo_ip_ok:
  assumes "length mac = 6" and "length ip = 4" and "length m = 6" and "length i = 4"
  shows "ip_ok (demo_ip mac ip m i)"
proof -
  let ?r = "\<lparr>ipAddress = i, macAddress = m, lookupTime = 0, lookupStatus = 0x81\<rparr>"
  have res: "\<not> looking ?r" "\<not> looking zero_route" "lookupStatus zero_route = 0"
    by (simp_all add: attempts(3) looking_def zero_route_def)
  moreover have "route_ok ?r" using assms res(1) by (simp add: route_ok_def)
  ultimately have "table_ok [?r, zero_route]"
    by (auto simp: table_ok_def nth_Cons' less_Suc_eq)
  then have "arp_ok (arp.extend (demo_arp mac ip\<lparr>routingTable := [?r, zero_route]\<rparr>)
      (ip.fields [] [] [] [] [] 0 [] (MemBuffer 0 0)))"
    using demo_arp_ok [OF assms(1,2)] res
    by (auto simp: arp_ok_def arp_net_ok_def eth_ok_def b_wok_def b_ok_def timers_ok_def arp.defs)
  then show ?thesis unfolding demo_ip_def by (rule IPHandler_init_ok) (simp_all add: assms)
qed

lemma demo_ip_route:
  "getMACForIP (demo_ip mac [10, 0, 0, 1] m [10, 0, 0, 2]) [10, 0, 0, 2] = Some m"
proof -
  have "ipBroadcastAddress (demo_ip mac [10, 0, 0, 1] m [10, 0, 0, 2]) = [10, 0, 0, 255]"
    by (simp add: demo_ip_def IPHandler_init_def arp.defs ip.defs registerProtocol_simps Let_def upt_rec split: option.split)
  moreover have "resolved \<lparr>ipAddress = i, macAddress = m, lookupTime = 0, lookupStatus = 0x81\<rparr>" for i
    by (simp add: status_bits(3) bit7)
  ultimately show ?thesis
    by (simp add: getMACForIP_def onLocalNetwork_def demo_ip_simps upt_rec ipsEquate_eq getMACAddress_def)
qed

abbreviation demo_a :: ip where
  "demo_a \<equiv> demo_ip [2, 0, 0, 0, 0, 1] [10, 0, 0, 1] [2, 0, 0, 0, 0, 2] [10, 0, 0, 2]"

lemma sendPacket_transmits_witness:
  "length (wire (snd (sendPacket [10, 0, 0, 2] 17 8 demo_a))) = 1"
proof -
  have "ip_ok demo_a" by (rule demo_ip_ok) simp_all
  from sendPacket_transmits [OF this _ demo_ip_route, of 8 17] show ?thesis
    by (auto simp: demo_ip_simps)
qed

text \<open>
  \<^verbatim>\<open>sendPacket\<close> sends nothing without a route or room. When no hardware address is known for the next hop, or
  the packet with its 20-byte header does not fit behind the ethernet header (and the 16-bit sum in
  the check does not wrap), it returns false and has no effect.
\<close>

lemma sendPacket_refuses:
  assumes "ip_ok s"
    and "getMACForIP s dst = None \<or> unat (b_size (drv_send s)) - 34 < unat n \<and> unat n < 65516"
  shows "sendPacket dst protocol n s = (False, s)"
proof (cases "b_size (sendPayloadBuffer s) < IP_HEADER_LENGTH + n")
  case True
  then show ?thesis by (simp add: sendPacket_def)
next
  case False
  have "getMACForIP s dst = None"
  proof (rule ccontr)
    assume "getMACForIP s dst \<noteq> None"
    then have n: "unat (b_size (drv_send s)) - 34 < unat n" "unat n < 65516" using assms(2) by auto
    then have "unat (20 + n) = 20 + unat n" by (subst unat_add16) simp_all
    then have "b_size (sendPayloadBuffer s) < IP_HEADER_LENGTH + n"
      using n ip_sizes(4,6) [OF assms(1)] by (simp add: less16 IP_HEADER_LENGTH_def)
    with False show False by simp
  qed
  with False show ?thesis by (simp add: sendPacket_def)
qed

lemma sendPacket_refuses_witness:
  "sendPacket [10, 0, 0, 2] 17 67 demo_a = (False, demo_a)"
proof -
  have "ip_ok demo_a" by (rule demo_ip_ok) simp_all
  then show ?thesis by (rule sendPacket_refuses) (simp add: demo_ip_simps)
qed

text \<open>
  C18: A packet sent is a packet delivered. What \<open>a\<close> transmits with \<^verbatim>\<open>sendPacket\<close> to the address of \<open>b\<close> (or to the broadcast
  address of \<open>b\<close>'s network), received by \<open>b\<close> in any well-formed buffer, possibly with padding behind it, is passed to
  the handler \<open>b\<close> has registered for the protocol, with the IP address of \<open>a\<close> and a well-formed
  buffer that contains exactly the bytes \<open>a\<close> had in its payload buffer.
\<close>

theorem ip_delivers:
  assumes "ip_ok a" and "ip_ok b" and "length dst = 4" and "getMACForIP a dst = Some mac"
    and "unat n + 34 \<le> unat (b_size (drv_send a))" and "n \<noteq> 0"
    and "sendPacket dst protocol n a = (ok, a')"
    and "dst = ip_ipAddress b \<or> dst = ipBroadcastAddress b"
    and "IP_getProtocolHandler b protocol = Some h"
    and "b_ok b p" and "b_bytes b p = drop 14 (last (wire a')) @ padding"
  shows "ok \<and> (\<exists>q. b_ok b q \<and> b_bytes b q = take (unat n) (b_bytes a (sendPacketBuffer a))
    \<and> IP_handlePayload handlePacket p b = handlePacket h (ip_ipAddress a) q b)"
proof -
  let ?src = "ip_ipAddress a" and ?payload = "take (unat n) (b_bytes a (sendPacketBuffer a))"
  let ?h = "ip_header (n + 20) protocol (ip_csum (n + 20) protocol ?src dst) ?src dst"
  have src: "length ?src = 4" using assms(1) by (simp add: ip_ok_def)
  have mac: "length mac = 6" "length (macAddr a) = 6"
    using getMACForIP_length [OF assms(1,4)] ip_sizes(1) [OF assms(1)] by (simp_all add: eth_ok_def)
  from sendPacket_ok [OF assms(1,3-5), of protocol] assms(7)
  have ok: "ok" and t: "transmits [eth_header mac (macAddr a) IP_PROTOCOL @ ?h @ ?payload] a a'" by auto
  have B: "b_bytes b p = ?h @ ?payload @ padding"
    unfolding assms(11) transmits_fields(1) [OF t] using mac by (simp add: eth_header_def)
  have n20: "unat (n + 20) = 20 + unat n"
    using assms(5) unat16_le [of "b_size (drv_send a)"] by (subst unat_add16) simp_all
  have "length (b_bytes a (sendPacketBuffer a)) = unat (b_size (drv_send a)) - 34"
    using ip_sizes(3,5) [OF assms(1)] by (simp add: buf.length_bytes buf.wok_ok)
  then have len: "length ?payload = unat n" using assms(5) by simp
  have nz: "0 < unat n" using assms(6) by (simp add: unat_gt_0)
  have ne: "?payload \<noteq> []" using len nz by (metis list.size(3) less_numeral_extra(3))
  have l: "unat (n + 20) = 20 + length ?payload" using n20 len by simp
  note h = ip_handles [OF assms(2,10) src assms(3) B l ne assms(8,9)]
  show ?thesis
    using ok h(2,3) h(1) [of handlePacket]
    by (intro conjI exI [of _ "OffsetBuffer_new p 20 (n + 20 - 20)"])
qed

abbreviation demo_b :: ip where
  "demo_b \<equiv> snd (IP_registerProtocol 17 (Some UDPPacket)
     (demo_ip [2, 0, 0, 0, 0, 2] [10, 0, 0, 2] [2, 0, 0, 0, 0, 1] [10, 0, 0, 1]))"

lemma demo_b_ok: "ip_ok demo_b" "ip_ipAddress demo_b = [10, 0, 0, 2]" "IP_getProtocolHandler demo_b 17 = Some UDPPacket"
  "ip_protocolRegistry demo_b = [(17, Some UDPPacket), (0, None), (0, None)]"
proof -
  let ?d = "demo_ip [2, 0, 0, 0, 0, 2] [10, 0, 0, 2] [2, 0, 0, 0, 0, 1] [10, 0, 0, 1]"
  have "ip_ok ?d" by (rule demo_ip_ok) simp_all
  then show "ip_ok demo_b"
    by (auto simp: IP_registerProtocol_simps ip_ok_def arp_ok_def arp_net_ok_def eth_ok_def b_wok_def b_ok_def
        timers_ok_def split: option.split)
  show "ip_ipAddress demo_b = [10, 0, 0, 2]"
    by (simp add: IP_registerProtocol_simps demo_ip_simps split: option.split)
  show r: "ip_protocolRegistry demo_b = [(17, Some UDPPacket), (0, None), (0, None)]"
    by (simp add: IP_registerProtocol_simps ip_scanned demo_ip_simps numeral_2_eq_2 numeral_3_eq_3)
  show "IP_getProtocolHandler demo_b 17 = Some UDPPacket"
    by (simp add: IP_getProtocolHandler_def r ip_scanned)
qed

lemma ip_delivers_witness:
  "\<exists>frame. IP_handlePayload (\<lambda>h src q s. if h = UDPPacket \<and> src = [10, 0, 0, 1] then None else Some s)
      (MemBuffer 0x600 28) (snd (b_write (MemBuffer 0x600 28) 0 frame demo_b)) = None"
proof -
  let ?p = "MemBuffer 0x600 28" and ?hp = "\<lambda>h src q s. if h = UDPPacket \<and> src = [10, 0, 0, 1] then None else Some s"
  have a: "ip_ok demo_a" by (rule demo_ip_ok) simp_all
  have sz: "unat (8 :: u16) + 34 \<le> unat (b_size (drv_send demo_a))" by (simp add: demo_ip_simps)
  obtain a' where send: "sendPacket [10, 0, 0, 2] 17 8 demo_a = (True, a')"
    and t: "transmits [eth_header [2, 0, 0, 0, 0, 2] (macAddr demo_a) IP_PROTOCOL
        @ ip_header (8 + 20) 17 (ip_csum (8 + 20) 17 (ip_ipAddress demo_a) [10, 0, 0, 2]) (ip_ipAddress demo_a) [10, 0, 0, 2]
        @ take (unat (8 :: u16)) (b_bytes demo_a (sendPacketBuffer demo_a))] demo_a a'"
    using sendPacket_ok [OF a _ demo_ip_route sz, of 17] by auto
  define f where "f = drop 14 (last (wire a'))"
  have "length (b_bytes demo_a (sendPacketBuffer demo_a)) = 66"
    using ip_sizes(3,5) [OF a] by (simp add: buf.length_bytes buf.wok_ok demo_ip_simps(1))
  then have "length f = 28"
    unfolding f_def transmits_fields(1) [OF t] by (simp add: eth_header_def demo_ip_simps)
  moreover from this have "f \<noteq> []" by auto
  ultimately have fill: "b_bytes (snd (b_write ?p 0 f demo_b)) ?p = drop 14 (last (wire a')) @ []"
    unfolding f_def [symmetric] using fill_bytes [OF Mem_wok, of f "0x600" 28 demo_b] by (simp del: b_write.simps)
  note tb = rest_same_transmits [OF rest_same_b_write [of demo_b ?p 0 f]]
  have b: "ip_ok (snd (b_write ?p 0 f demo_b))" unfolding ip_ok_transmits [OF tb] by (rule demo_b_ok)
  have h: "IP_getProtocolHandler (snd (b_write ?p 0 f demo_b)) 17 = Some UDPPacket"
    using demo_b_ok(3) by (simp only: IP_getProtocolHandler_def ip_transmits(7) [OF tb])
  have d: "[10, 0, 0, 2] = ip_ipAddress (snd (b_write ?p 0 f demo_b)) \<or> [10, 0, 0, 2] = ipBroadcastAddress (snd (b_write ?p 0 f demo_b))"
    using demo_b_ok(2) by (simp only: ip_transmits(1) [OF tb] simp_thms)
  have "b_ok (snd (b_write ?p 0 f demo_b)) ?p" by (simp add: b_ok_def)
  from ip_delivers [OF a b _ demo_ip_route sz _ send d h this fill, of ?hp]
  have "IP_handlePayload ?hp ?p (snd (b_write ?p 0 f demo_b)) = None"
    by (auto simp: demo_ip_simps(6) simp del: b_write.simps)
  then show ?thesis by blast
qed

text \<open>
  C23: Only correct packets for this host are handed up. Whatever bytes the received buffer holds, the
  handler either has no effect, or the packet has at least 20 bytes, its header checksum field is the
  checksum of the rest of its header, its total length does not exceed the buffer, its destination
  is the own or the broadcast address, and a handler is registered for its protocol, which is then called
  once, with the packet's source address.
\<close>

theorem ip_drops_bad_packets:
  assumes "ip_ok s" and "b_ok s p" and "IP_handlePayload handlePacket p s \<noteq> Some s"
  defines "B \<equiv> b_bytes s p"
  shows "20 \<le> length B \<and> net16 (B ! 10) (B ! 11) = csum 0 (blank 10 (take 20 B))
    \<and> unat (net16 (B ! 2) (B ! 3)) \<le> length B
    \<and> (window 16 4 B = ip_ipAddress s \<or> window 16 4 B = ipBroadcastAddress s)
    \<and> (\<exists>h q. IP_getProtocolHandler s (B ! 9) = Some h
        \<and> IP_handlePayload handlePacket p s = handlePacket h (window 12 4 B) q s)"
  using assms(3) unfolding IP_handlePayload_eq [OF assms(1,2)] B_def ip_accepts_def
  by (auto split: if_splits option.splits)

lemma ip_drops_bad_packets_witness:
  "IP_handlePayload (\<lambda>_ _ _ _. None) (MemBuffer 0x600 19) demo_b = Some demo_b"
proof (rule ccontr)
  assume a: "IP_handlePayload (\<lambda>_ _ _ _. None) (MemBuffer 0x600 19) demo_b \<noteq> Some demo_b"
  have ok: "b_ok demo_b (MemBuffer 0x600 19)" by (simp add: b_ok_def)
  from ip_drops_bad_packets [OF demo_b_ok(1) ok a] buf.length_bytes [OF ok] show False by simp
qed

text \<open>
  Routing with octet masks. When every octet of the subnet mask is 255 or 0 and the network address is the own
  address under the mask, a destination in the own network is reached directly (through the table,
  or with the ethernet broadcast address for the network's broadcast address), any other through the
  gateway's hardware address.
\<close>

lemma routing_with_octet_masks:
  assumes "ip_ok s" and "length dst = 4"
    and "\<forall>i < 4. subnetMask s ! i = 255 \<or> subnetMask s ! i = 0"
    and "\<forall>i < 4. ipNetwork s ! i = ip_ipAddress s ! i AND subnetMask s ! i"
  shows "getMACForIP s dst =
    (if \<forall>i < 4. dst ! i AND subnetMask s ! i = ip_ipAddress s ! i AND subnetMask s ! i
     then if dst = ipBroadcastAddress s then Some broadcastMAC else getMACAddress s dst
     else getMACAddress s (gatewayIP s))"
proof -
  have m: "(x :: u8) AND 255 = x" for x
  proof -
    have "(255 :: u8) = - 1" by simp
    then show ?thesis by (simp only: and.right_neutral)
  qed
  have "(subnetMask s ! i AND (if dst ! i \<noteq> ipNetwork s ! i then 1 else 0) = 0)
      = (dst ! i AND subnetMask s ! i = ip_ipAddress s ! i AND subnetMask s ! i)" if "i < 4" for i
    using assms(3,4) that by (auto simp: m)
  then have "onLocalNetwork s dst
      = (\<forall>i < 4. dst ! i AND subnetMask s ! i = ip_ipAddress s ! i AND subnetMask s ! i)"
    by (auto simp: onLocalNetwork_def list_all_iff)
  moreover have "ipsEquate (ipBroadcastAddress s) dst = (dst = ipBroadcastAddress s)"
    using assms(1,2) by (auto simp: ipsEquate_eq ip_ok_def)
  ultimately show ?thesis unfolding getMACForIP_def by (simp only: split: if_split) blast
qed

lemma routing_with_octet_masks_witness:
  "getMACForIP demo_a [10, 0, 1, 2] = None"
proof -
  have ok: "ip_ok demo_a" by (rule demo_ip_ok) simp_all
  have m: "\<forall>i < 4. subnetMask demo_a ! i = 255 \<or> subnetMask demo_a ! i = 0"
    and n: "\<forall>i < 4. ipNetwork demo_a ! i = ip_ipAddress demo_a ! i AND subnetMask demo_a ! i"
    by (auto simp: demo_ip_simps less_Suc_eq eval_nat_numeral upt_rec)
  have far: "\<not> (\<forall>i < 4. [10, 0, 1, 2] ! i AND subnetMask demo_a ! i = ip_ipAddress demo_a ! i AND subnetMask demo_a ! i)"
    by (auto simp: demo_ip_simps intro!: exI [of _ "2 :: nat"])
  have "getMACAddress demo_a (gatewayIP demo_a) = None"
    by (simp add: getMACAddress_def demo_ip_simps ipsEquate_eq zero_route_def)
  then show ?thesis
    using routing_with_octet_masks [OF ok _ m n, of "[10, 0, 1, 2]"] unfolding if_not_P [OF far] by simp
qed

text \<open>
  C40: Other masks are not honoured. The test for the local network uses only the lowest bit of each octet of the mask: octets
  of the mask that are even, such as 240, are treated as 0, so that destinations outside the subnet
  count as local; octets that are odd are treated as 255.
\<close>

theorem routing_uses_lowest_mask_bit:
  "onLocalNetwork s dst = (\<forall>i < 4. odd (subnetMask s ! i) \<longrightarrow> dst ! i = ipNetwork s ! i)
    \<and> onLocalNetwork (s\<lparr>subnetMask := [255, 255, 255, 240], ipNetwork := [192, 168, 1, 0]\<rparr>) [192, 168, 1, 200]"
proof -
  have "(m AND (if c then 1 else 0) = 0) = (odd m \<longrightarrow> \<not> c)" for m :: u8 and c
    by (cases c) (auto simp: and_one_eq mod_2_eq_odd)
  then show ?thesis by (auto simp: onLocalNetwork_def list_all_iff less_Suc_eq eval_nat_numeral)
qed

lemma routing_uses_lowest_mask_bit_witness:
  "onLocalNetwork (demo_a\<lparr>subnetMask := [255, 255, 255, 240], ipNetwork := [192, 168, 1, 0]\<rparr>) [192, 168, 1, 200]
    \<and> \<not> onLocalNetwork (demo_a\<lparr>subnetMask := [255, 255, 255, 241], ipNetwork := [192, 168, 1, 192]\<rparr>) [192, 168, 1, 200]"
proof -
  have four: "(\<forall>i < 4. P i) = (P 0 \<and> P 1 \<and> P 2 \<and> P (3 :: nat))" for P
    by (auto simp: less_Suc_eq eval_nat_numeral)
  show ?thesis
    using routing_uses_lowest_mask_bit [of demo_a]
      routing_uses_lowest_mask_bit [of "demo_a\<lparr>subnetMask := [255, 255, 255, 241], ipNetwork := [192, 168, 1, 192]\<rparr>"
        "[192, 168, 1, 200]"]
    unfolding four by simp
qed

text \<open>
  Two handlers at most. On a freshly initialised IPHandler, two handlers for different protocols are registered and
  found; a third one is refused, although the array has three entries (the comment says it is large enough for ICMP, UDP
  and TCP).
\<close>

theorem ip_registry_holds_two:
  assumes "ip_protocolRegistry s = replicate ip_capacity (0, None)"
    and "distinct [p1, p2, p3]" and "0 \<notin> set [p1, p2, p3]"
  shows "\<exists>s1 s2. IP_registerProtocol p1 (Some h1) s = (True, s1) \<and> IP_registerProtocol p2 (Some h2) s1 = (True, s2)
    \<and> IP_getProtocolHandler s2 p1 = Some h1 \<and> IP_getProtocolHandler s2 p2 = Some h2
    \<and> IP_registerProtocol p3 (Some h3) s2 = (False, s2) \<and> length (ip_protocolRegistry s2) = 3"
proof -
  have r: "ip_protocolRegistry s = [(0, None), (0, None), (0, None)]"
    using assms(1) by (simp add: ip_capacity_def numeral_3_eq_3)
  let ?s1 = "s\<lparr>ip_protocolRegistry := [(p1, Some h1), (0, None), (0, None)]\<rparr>"
  let ?s2 = "?s1\<lparr>ip_protocolRegistry := [(p1, Some h1), (p2, Some h2), (0, None)]\<rparr>"
  have "IP_registerProtocol p1 (Some h1) s = (True, ?s1)"
    by (simp add: IP_registerProtocol_def ip_scanned r numeral_2_eq_2)
  moreover have "IP_registerProtocol p2 (Some h2) ?s1 = (True, ?s2)"
    using assms(2,3) by (simp add: IP_registerProtocol_def ip_scanned numeral_2_eq_2)
  moreover have "IP_registerProtocol p3 (Some h3) ?s2 = (False, ?s2)"
    using assms(2,3) by (simp add: IP_registerProtocol_def ip_scanned numeral_2_eq_2)
  moreover have "IP_getProtocolHandler ?s2 p1 = Some h1" "IP_getProtocolHandler ?s2 p2 = Some h2"
    using assms(2) by (simp_all add: IP_getProtocolHandler_def ip_scanned numeral_2_eq_2)
  ultimately show ?thesis by (intro exI [of _ ?s1] exI [of _ ?s2]) simp
qed

lemma ip_registry_holds_two_witness:
  "\<exists>s1 s2. IP_registerProtocol 17 (Some UDPPacket) demo_a = (True, s1)
    \<and> IP_registerProtocol 6 (Some TCPPacket) s1 = (True, s2) \<and> \<not> fst (IP_registerProtocol 1 (Some UDPPacket) s2)"
  using ip_registry_holds_two [of demo_a 17 6 1 UDPPacket TCPPacket UDPPacket]
  by (auto simp: demo_ip_simps ip_capacity_def)

end
