(* ===== verification/Transport.thy ===== *)
theory Transport
  imports IPHandler
begin

text \<open>
  What UDP and TCP have in common: the pseudo header of RFC 768 and RFC 793, whose sum their checksum functions
  start from, and a packet that is completed with a checksum and handed to the IP layer.
\<close>

section \<open>The pseudo header\<close>

text \<open>The sum of its words: protocol, length and the two addresses.\<close>

definition pseudo_sum :: "u8 \<Rightarrow> u16 \<Rightarrow> u8 list \<Rightarrow> u8 list \<Rightarrow> nat" where
  "pseudo_sum protocol len a b = unat protocol + unat len + wsum a + wsum b"

lemma pseudo_sum_commute: "pseudo_sum protocol len a b = pseudo_sum protocol len b a"
  by (simp add: pseudo_sum_def)

lemma unat_add32: "unat (a :: u32) + unat b < 2 ^ 32 \<Longrightarrow> unat (a + b) = unat a + unat b"
  by (simp add: unat_word_ariths)

lemma unat_ucast32: "unat (ucast (w :: u16) :: u32) = unat w" "unat (ucast (v :: u8) :: u32) = unat v"
  by (simp_all add: unsigned_ucast_eq take_bit_nat_eq_self_iff less_trans [OF unat16_less] less_trans [OF unat8_less])

lemma list4: "length (xs :: 'b list) = 4 \<longleftrightarrow> (\<exists>a b c d. xs = [a, b, c, d])"
  by (auto simp: numeral_eq_Suc length_Suc_conv)

lemma addr_words:
  assumes "length ip = 4"
  shows "unat (HTONS (word16 (take 2 ip))) + unat (HTONS (word16 (take 2 (drop 2 ip)))) = wsum ip"
  using assms by (auto simp: list4 bo_simps net16_unat)

text \<open>The sum in the order UDP and TCP compute it.\<close>

lemma pseudo_words:
  assumes "length a = 4" and "length b = 4"
  defines "w \<equiv> \<lambda>ip. (ucast (HTONS (word16 (take 2 ip))) :: u32)"
    and "w' \<equiv> \<lambda>ip. (ucast (HTONS (word16 (take 2 (drop 2 ip)))) :: u32)"
  shows "unat (ucast len + ucast protocol + w a + w' a + w b + w' b) = pseudo_sum protocol len a b"
    and "unat (ucast protocol + ucast len + w a + w' a + w b + w' b) = pseudo_sum protocol len a b"
    and "pseudo_sum protocol len a b < 2 ^ 30"
proof -
  note l = unat16_le [of len] unat8_le [of protocol] unat16_le [of "HTONS (word16 (take 2 a))"]
    unat16_le [of "HTONS (word16 (take 2 (drop 2 a)))"] unat16_le [of "HTONS (word16 (take 2 b))"]
    unat16_le [of "HTONS (word16 (take 2 (drop 2 b)))"]
  show "unat (ucast len + ucast protocol + w a + w' a + w b + w' b) = pseudo_sum protocol len a b"
    "unat (ucast protocol + ucast len + w a + w' a + w b + w' b) = pseudo_sum protocol len a b"
    using l addr_words [OF assms(1)] addr_words [OF assms(2)]
    by (simp_all add: unat_add32 unat_ucast32 w_def w'_def pseudo_sum_def)
  show "pseudo_sum protocol len a b < 2 ^ 30"
    using l addr_words [OF assms(1)] addr_words [OF assms(2)] by (simp add: pseudo_sum_def)
qed

section \<open>Fields at a known place\<close>

lemma read_at:
  assumes "b_ok s b" and "unat off = length pre"
  shows read8_at: "b_bytes s b = pre @ x # rest \<Longrightarrow> read8 (b_read s b) off = Some x"
    and readNet16_at: "b_bytes s b = pre @ be16 w @ rest \<Longrightarrow> readNet16 (b_read s b) off = Some w"
    and readNet32_at: "b_bytes s b = pre @ be32 v @ rest \<Longrightarrow> readNet32 (b_read s b) off = Some v"
  using buf.length_bytes [OF assms(1)] assms
  by (auto simp: buf.read8_inside buf.readNet16_inside buf.readNet32_inside nth_append be16_def be32_def bo_simps)

section \<open>A packet with a checksum\<close>

lemma getMACForIP_transmits: "transmits fs s s' \<Longrightarrow> getMACForIP s' dst = getMACForIP s dst"
  unfolding getMACForIP_def onLocalNetwork_def getMACAddress_def by (simp only: ip_transmits arp_transmits)

lemma send_with_checksum:
  fixes pseudo :: u32
  assumes "ip_ok s" and "length dst = 4" and "getMACForIP s dst = Some mac"
    and "unat n + 34 \<le> unat (b_size (drv_send s))" and "even (unat off)" and "unat off + 2 \<le> unat n"
    and "unat pseudo < 2 ^ 30"
  defines "p \<equiv> sendPacketBuffer s"
  defines "m \<equiv> take (unat n) (b_bytes s p)"
  defines "c \<equiv> checksum (b_size p) (b_read s p) n off pseudo"
  shows "c = csum (unat pseudo) (blank (unat off) m)"
    and "\<exists>s1 s'. writeNet16 (b_write p) off c s = (True, s1) \<and> sendPacket dst protocol n s1 = (True, s')
      \<and> transmits [eth_header mac (macAddr s) IP_PROTOCOL
        @ ip_header (n + 20) protocol (ip_csum (n + 20) protocol (ip_ipAddress s) dst) (ip_ipAddress s) dst
        @ put (unat off) (be16 c) m] s s'
      \<and> rest_same s s1 \<and> b_bytes s' p = put (unat off) (be16 c) (b_bytes s p)"
proof -
  note sz = ip_sizes [OF assms(1)]
  have w: "b_wok s p" "b_ok s p" using sz(3) by (simp_all add: p_def buf.wok_ok)
  have n: "unat n \<le> unat (b_size p)" using assms(4) sz(5) by (simp add: p_def)
  have len: "length (b_bytes s p) = unat (b_size p)" using w(2) by (rule buf.length_bytes)
  show "c = csum (unat pseudo) (blank (unat off) m)"
    unfolding c_def m_def using w(2) n assms(7) by (rule checksum_csum)
  have ops: "ops_in (unat (b_size p)) [(off, be16 c)]" using assms(6) n by (simp add: ops_in_def be16_def)
  define s1 where "s1 = writes p [(off, be16 c)] s"
  have "op_write p (off, be16 c) s = (True, s1)"
    using op_write_ok(1) [OF w(1) ops] by (simp add: s1_def prod_eq_iff)
  then have wr1: "writeNet16 (b_write p) off c s = (True, s1)" by (simp add: accessor_ops)
  have b1: "b_bytes s1 p = put (unat off) (be16 c) (b_bytes s p)"
    using seq_writes(2) [OF w(1) ops] by (simp add: s1_def)
  have rs: "rest_same s s1" unfolding s1_def by (rule rest_same_writes)
  note tr = rest_same_transmits [OF rs] and f = net_rest_same [OF rs]
  have ok1: "ip_ok s1" using ip_ok_transmits [OF tr] assms(1) by simp
  have m1: "getMACForIP s1 dst = Some mac"
    using assms(3) getMACForIP_transmits [OF tr] by simp
  have p1: "sendPacketBuffer s1 = p" by (simp add: p_def ip_transmits [OF tr])
  obtain s' where send: "sendPacket dst protocol n s1 = (True, s')"
    and t: "transmits [eth_header mac (macAddr s1) IP_PROTOCOL
        @ ip_header (n + 20) protocol (ip_csum (n + 20) protocol (ip_ipAddress s1) dst) (ip_ipAddress s1) dst
        @ take (unat n) (b_bytes s1 p)] s1 s'"
    and b': "b_bytes s' p = b_bytes s1 p"
    using sendPacket_ok [OF ok1 assms(2) m1, of n protocol] assms(4) unfolding f(3) p1 by blast
  have "take (unat n) (b_bytes s1 p) = put (unat off) (be16 c) m"
    using window_put_inside [of 0 "unat n" "b_bytes s p" "unat off" "be16 c"] assms(6) n len
    by (simp add: b1 m_def window_def)
  with transmits_rest_same [OF rs t] wr1 send rs b' b1
  show "\<exists>s1 s'. writeNet16 (b_write p) off c s = (True, s1) \<and> sendPacket dst protocol n s1 = (True, s')
      \<and> transmits [eth_header mac (macAddr s) IP_PROTOCOL
        @ ip_header (n + 20) protocol (ip_csum (n + 20) protocol (ip_ipAddress s) dst) (ip_ipAddress s) dst
        @ put (unat off) (be16 c) m] s s'
      \<and> rest_same s s1 \<and> b_bytes s' p = put (unat off) (be16 c) (b_bytes s p)"
    unfolding f ip_transmits(1) [OF tr] by metis
qed

text \<open>The receiver computes the checksum that is in the packet.\<close>

lemma checksum_matches:
  fixes pseudo :: u32
  assumes "b_ok s q" and "b_bytes s q = put (unat off) (be16 (csum ps (blank (unat off) m))) m"
    and "unat pseudo = ps" and "ps < 2 ^ 30" and "even (unat off)" and "unat off + 2 \<le> length m"
  shows "checksum (b_size q) (b_read s q) (b_size q) off pseudo = csum ps (blank (unat off) m)"
proof -
  have "take (unat (b_size q)) (b_bytes s q) = b_bytes s q"
    using buf.length_bytes [OF assms(1)] by simp
  moreover have "blank (unat off) (b_bytes s q) = blank (unat off) m"
    unfolding assms(2) using assms(5,6) by (intro blank_put) simp_all
  ultimately show ?thesis
    using checksum_csum [OF assms(1) order_refl, of pseudo off] assms(3,4) by simp
qed

end
