(* ===== verification/UDPHandler.thy ===== *)
theory UDPHandler
  imports Transport
begin

text \<open>
  UDPHandler.h/.cpp: the table of listeners, sending a datagram with its checksum and delivering a
  received one. The virtual \<^verbatim>\<open>handleDatagram\<close> of the listeners is an argument of \<open>UDP_handlePacket\<close>.
\<close>

section \<open>State\<close>

datatype datagram_receiver = DNSReceiver | AppReceiver nat

record udp = ip +
  receivers :: "(u16 \<times> datagram_receiver option) list"   \<comment> \<open>port, receiver\<close>
  udp_sendPayloadBuffer :: buffer

definition UDP_PROTOCOL :: u8 where "UDP_PROTOCOL = 0x11"
definition DATAGRAM_HEADER_LENGTH :: u16 where "DATAGRAM_HEADER_LENGTH = 8"

definition UDPHandler_new :: "bool \<Rightarrow> nat \<Rightarrow> 'a udp_scheme \<Rightarrow> 'a udp_scheme" where
  "UDPHandler_new allocated receiverCount s =
     (let s = s\<lparr>receivers := replicate (if allocated then receiverCount else 0) (0, None)\<rparr>;
          s = snd (IP_registerProtocol UDP_PROTOCOL (Some UDPPacket) s)
      in s\<lparr>udp_sendPayloadBuffer := OffsetBuffer_new (sendPacketBuffer s) DATAGRAM_HEADER_LENGTH 0\<rparr>)"

section \<open>Listeners\<close>

text \<open>\<open>index_of\<close> is the loop that stops at the first entry with a property.\<close>

definition registerListener :: "u16 \<Rightarrow> datagram_receiver option \<Rightarrow> 'a udp_scheme \<Rightarrow> bool \<times> 'a udp_scheme" where
  "registerListener port receiver s =
     (case index_of (\<lambda>e. fst e = port) (receivers s) of
        Some i \<Rightarrow> (True, s\<lparr>receivers := (receivers s)[i := (fst (receivers s ! i), receiver)]\<rparr>)
      | None \<Rightarrow>
          (case index_of (\<lambda>e. snd e = None) (receivers s) of
             Some i \<Rightarrow> (True, s\<lparr>receivers := (receivers s)[i := (port, receiver)]\<rparr>)
           | None \<Rightarrow> (False, s)))"

definition unregisterListener :: "u16 \<Rightarrow> 'a udp_scheme \<Rightarrow> 'a udp_scheme" where
  "unregisterListener port s =
     s\<lparr>receivers := map (\<lambda>e. if fst e = port then (0, None) else e) (receivers s)\<rparr>"

definition getListener :: "'a udp_scheme \<Rightarrow> u16 \<Rightarrow> datagram_receiver option" where
  "getListener s port = reg_get (receivers s) port"

section \<open>Datagrams\<close>

definition calcChecksum :: "'a udp_scheme \<Rightarrow> buffer \<Rightarrow> u16 \<Rightarrow> u8 list \<Rightarrow> u32" where
  "calcChecksum s buf len remoteIP =
     (let pseudo = (ucast len :: u32);
          pseudo = pseudo + ucast UDP_PROTOCOL;
          localIP = ip_ipAddress s;
          pseudo = pseudo + ucast (HTONS (word16 (take 2 localIP)));
          pseudo = pseudo + ucast (HTONS (word16 (take 2 (drop 2 localIP))));
          pseudo = pseudo + ucast (HTONS (word16 (take 2 remoteIP)));
          pseudo = pseudo + ucast (HTONS (word16 (take 2 (drop 2 remoteIP))))
      in ucast (checksum (b_size buf) (b_read s buf) len 6 pseudo))"

definition sendDatagram :: "u8 list \<Rightarrow> u16 \<Rightarrow> u16 \<Rightarrow> u16 \<Rightarrow> 'a udp_scheme \<Rightarrow> bool \<times> 'a udp_scheme" where
  "sendDatagram destinationIP destinationPort sourcePort payloadLength s =
     (let len = DATAGRAM_HEADER_LENGTH + payloadLength;
          datagram = sendPacketBuffer s; wr = b_write datagram
      in if b_size datagram < len then (False, s)
         else case seq_ok
                [writeNet16 wr 0 sourcePort,
                 writeNet16 wr 2 destinationPort,
                 writeNet16 wr 4 (payloadLength + DATAGRAM_HEADER_LENGTH),
                 (\<lambda>s. writeNet16 wr 6 (ucast (calcChecksum s datagram len destinationIP)) s)] s of
                (ok, s) \<Rightarrow>
                  if \<not> ok then (False, s)
                  else sendPacket destinationIP UDP_PROTOCOL (payloadLength + DATAGRAM_HEADER_LENGTH) s)"

definition sendDatagram_payload :: "u8 list \<Rightarrow> u16 \<Rightarrow> u16 \<Rightarrow> u8 list \<Rightarrow> 'a udp_scheme \<Rightarrow> bool \<times> 'a udp_scheme" where
  "sendDatagram_payload destinationIP destinationPort sourcePort payload s =
     (let datagram = sendPacketBuffer s; payloadLength = word_of_nat (length payload)
      in if b_size datagram < DATAGRAM_HEADER_LENGTH + payloadLength then (False, s)
         else case b_write datagram DATAGRAM_HEADER_LENGTH payload s of
                (ok, s) \<Rightarrow>
                  if \<not> ok then (False, s)
                  else sendDatagram destinationIP destinationPort sourcePort payloadLength s)"

text \<open>The overloads without a source port, and for a C string, whose terminating 0 is sent.\<close>

definition sendDatagram_noport :: "u8 list \<Rightarrow> u16 \<Rightarrow> u16 \<Rightarrow> 'a udp_scheme \<Rightarrow> bool \<times> 'a udp_scheme" where
  "sendDatagram_noport destinationIP destinationPort payloadLength =
     sendDatagram destinationIP destinationPort 0 payloadLength"

definition sendDatagram_payload_noport :: "u8 list \<Rightarrow> u16 \<Rightarrow> u8 list \<Rightarrow> 'a udp_scheme \<Rightarrow> bool \<times> 'a udp_scheme" where
  "sendDatagram_payload_noport destinationIP destinationPort payload =
     sendDatagram_payload destinationIP destinationPort 0 payload"

definition sendDatagram_string :: "u8 list \<Rightarrow> u16 \<Rightarrow> u16 \<Rightarrow> u8 list \<Rightarrow> 'a udp_scheme \<Rightarrow> bool \<times> 'a udp_scheme" where
  "sendDatagram_string destinationIP destinationPort sourcePort str =
     sendDatagram_payload destinationIP destinationPort sourcePort (str @ [0])"

text \<open>The reads and checks of \<^verbatim>\<open>handlePacket\<close>: source port, destination port and length.\<close>

definition UDP_read_header :: "'a udp_scheme \<Rightarrow> u8 list \<Rightarrow> buffer \<Rightarrow> (u16 \<times> u16 \<times> u16) option" where
  "UDP_read_header s sourceIP datagram = do {
     require (\<not> b_size datagram < DATAGRAM_HEADER_LENGTH);
     udpLength \<leftarrow> readNet16 (b_read s datagram) 4;
     require (\<not> udpLength > b_size datagram);
     cs \<leftarrow> readNet16 (b_read s datagram) 6;
     require (cs \<noteq> 0 \<longrightarrow> \<not> ucast cs \<noteq> calcChecksum s datagram (b_size datagram) sourceIP);
     sourcePort \<leftarrow> readNet16 (b_read s datagram) 0;
     destinationPort \<leftarrow> readNet16 (b_read s datagram) 2;
     datagramLength \<leftarrow> readNet16 (b_read s datagram) 4;
     Some (sourcePort, destinationPort, datagramLength)
   }"

type_synonym 's on_datagram = "datagram_receiver \<Rightarrow> u8 list \<Rightarrow> u16 \<Rightarrow> buffer \<Rightarrow> 's \<Rightarrow> 's option"

definition UDP_handlePacket :: "'a udp_scheme on_datagram \<Rightarrow> u8 list \<Rightarrow> buffer \<Rightarrow> 'a udp_scheme
    \<Rightarrow> 'a udp_scheme option" where
  "UDP_handlePacket handleDatagram sourceIP datagram s =
     (case UDP_read_header s sourceIP datagram of
        None \<Rightarrow> Some s
      | Some (sourcePort, destinationPort, datagramLength) \<Rightarrow>
          (case getListener s destinationPort of
             None \<Rightarrow> Some s
           | Some receiver \<Rightarrow>
               handleDatagram receiver sourceIP sourcePort
                 (OffsetBuffer_new datagram DATAGRAM_HEADER_LENGTH (datagramLength - DATAGRAM_HEADER_LENGTH)) s))"

section \<open>Listeners: the registry contract\<close>

text \<open>An entry in use has a port and a receiver, a free one neither.\<close>

definition listeners_ok :: "'a udp_scheme \<Rightarrow> bool" where
  "listeners_ok s = (\<forall>e \<in> set (receivers s). (fst e = 0) = (snd e = None))"

lemma reg_get_update_same:
  "i < length rs \<Longrightarrow> \<forall>j < i. fst (rs ! j) \<noteq> k \<Longrightarrow> reg_get (rs[i := (k, h)]) k = h"
proof (induction rs arbitrary: i)
  case (Cons e rs)
  show ?case
  proof (cases i)
    case (Suc j)
    with Cons.prems have "reg_get (rs[j := (k, h)]) k = h" by (intro Cons.IH) auto
    moreover have "fst e \<noteq> k" using Cons.prems(2) Suc by auto
    ultimately show ?thesis using Suc by (cases e) simp
  qed (cases e, simp)
qed simp

lemma reg_get_update_other:
  "i < length rs \<Longrightarrow> fst (rs ! i) \<noteq> k' \<Longrightarrow> k \<noteq> k' \<Longrightarrow> reg_get (rs[i := (k, h)]) k' = reg_get rs k'"
proof (induction rs arbitrary: i)
  case (Cons e rs)
  then show ?case by (cases e; cases i) auto
qed simp

lemma registerListener_cases:
  obtains (replace) i where "i < length (receivers s)" "fst (receivers s ! i) = port"
      "\<forall>j < i. fst (receivers s ! j) \<noteq> port"
      "registerListener port r s = (True, s\<lparr>receivers := (receivers s)[i := (port, r)]\<rparr>)"
  | (claim) i where "i < length (receivers s)" "snd (receivers s ! i) = None"
      "\<forall>j < length (receivers s). fst (receivers s ! j) \<noteq> port"
      "registerListener port r s = (True, s\<lparr>receivers := (receivers s)[i := (port, r)]\<rparr>)"
  | (full) "registerListener port r s = (False, s)"
      "\<forall>e \<in> set (receivers s). fst e \<noteq> port \<and> snd e \<noteq> None"
proof (cases "index_of (\<lambda>e. fst e = port) (receivers s)")
  case (Some i)
  then have "i < length (receivers s)" "fst (receivers s ! i) = port" "\<forall>j < i. fst (receivers s ! j) \<noteq> port"
    by (auto simp: index_of_Some)
  with Some show ?thesis by (intro replace) (auto simp: registerListener_def)
next
  case None
  then have new: "\<forall>e \<in> set (receivers s). fst e \<noteq> port" by (simp add: index_of_None)
  show ?thesis
  proof (cases "index_of (\<lambda>e. snd e = None) (receivers s)")
    case (Some i)
    then have "registerListener port r s = (True, s\<lparr>receivers := (receivers s)[i := (port, r)]\<rparr>)"
      using None by (simp add: registerListener_def)
    with Some new show ?thesis by (intro claim [of i]) (auto simp: index_of_Some)
  next
    case free: None
    then have "registerListener port r s = (False, s)" using None by (simp add: registerListener_def)
    with free new show ?thesis by (intro full) (auto simp: index_of_None)
  qed
qed

lemma registerListener_ok:
  assumes "listeners_ok s" and "port \<noteq> 0"
  shows "listeners_ok (snd (registerListener port (Some h) s))"
proof -
  have "listeners_ok (s\<lparr>receivers := (receivers s)[i := (port, Some h)]\<rparr>)" for i
    using assms by (auto simp: listeners_ok_def dest!: set_update_subset_insert [THEN subsetD])
  with assms(1) show ?thesis by (cases rule: registerListener_cases [of s port "Some h"]) auto
qed

lemma unregisterListener_ok: "listeners_ok s \<Longrightarrow> listeners_ok (unregisterListener port s)"
  by (auto simp: listeners_ok_def unregisterListener_def)

lemma getListener_register:
  assumes "listeners_ok s" and "port \<noteq> 0" and "port' \<noteq> 0" and "fst (registerListener port r s)"
  shows "getListener (snd (registerListener port r s)) port' = (if port' = port then r else getListener s port')"
proof -
  have "reg_get ((receivers s)[i := (port, r)]) port' = (if port' = port then r else reg_get (receivers s) port')"
    if "i < length (receivers s)" "fst (receivers s ! i) = port \<or> fst (receivers s ! i) = 0"
      "\<forall>j < i. fst (receivers s ! j) \<noteq> port" for i
    using that assms(3) reg_get_update_same [of i "receivers s" port r]
      reg_get_update_other [of i "receivers s" port' port r] by auto
  moreover have "fst (receivers s ! i) = 0" if "i < length (receivers s)" "snd (receivers s ! i) = None" for i
    using assms(1) that by (auto simp: listeners_ok_def)
  ultimately show ?thesis
    using assms(4) by (cases rule: registerListener_cases [of s port r]) (auto simp: getListener_def)
qed

lemma getListener_unregister:
  "getListener (unregisterListener port s) port' = (if port' = port then None else
     if port' = 0 then getListener (unregisterListener port s) 0 else getListener s port')"
proof (cases "port' = port \<or> port' \<noteq> 0")
  case True
  have "reg_get (map (\<lambda>e. if fst e = port then (0, None) else e) rs) port'
      = (if port' = port then None else reg_get rs port')" for rs :: "(u16 \<times> datagram_receiver option) list"
    using True by (induction rs) (auto split: prod.splits)
  then show ?thesis using True by (auto simp: getListener_def unregisterListener_def)
qed auto

interpretation listeners: registry "\<lambda>port h. registerListener port (Some h)" getListener listeners_ok
    "\<lambda>port. port \<noteq> 0"
proof unfold_locales
  fix s :: "'a udp_scheme" and port h
  show "\<not> fst (registerListener port (Some h) s) \<Longrightarrow> snd (registerListener port (Some h) s) = s"
    by (cases rule: registerListener_cases [of s port "Some h"]) auto
qed (auto simp: registerListener_ok getListener_register)

lemma udp_same:
  assumes "ip.more s' = ip.more s"
  shows "receivers s' = receivers s" "udp_sendPayloadBuffer s' = udp_sendPayloadBuffer s" "udp.more s' = udp.more s"
  using assms by (cases s, cases s', simp)+

section \<open>Sending: laws\<close>

text \<open>The datagram of RFC 768.\<close>

definition udp_ports :: "u16 \<Rightarrow> u16 \<Rightarrow> u16 \<Rightarrow> u8 list" where
  "udp_ports sp dp len = be16 sp @ be16 dp @ be16 len"

definition udp_csum :: "u8 list \<Rightarrow> u8 list \<Rightarrow> u16 \<Rightarrow> u16 \<Rightarrow> u16 \<Rightarrow> u8 list \<Rightarrow> u16" where
  "udp_csum src dst sp dp len payload =
     csum (pseudo_sum UDP_PROTOCOL len src dst) (udp_ports sp dp len @ [0, 0] @ payload)"

definition udp_datagram :: "u8 list \<Rightarrow> u8 list \<Rightarrow> u16 \<Rightarrow> u16 \<Rightarrow> u8 list \<Rightarrow> u8 list" where
  "udp_datagram src dst sp dp payload =
     (let len = word_of_nat (8 + length payload)
      in udp_ports sp dp len @ be16 (udp_csum src dst sp dp len payload) @ payload)"

lemma length_udp_ports [simp]: "length (udp_ports sp dp len) = 6"
  by (simp add: udp_ports_def)

lemma length_udp_datagram [simp]: "length (udp_datagram src dst sp dp payload) = 8 + length payload"
  by (simp add: udp_datagram_def Let_def)

lemma udp_fields:
  "blank 6 (udp_ports sp dp len @ x # y # payload) = udp_ports sp dp len @ 0 # 0 # payload"
  "put 6 [a, b] (udp_ports sp dp len @ x # y # payload) = udp_ports sp dp len @ a # b # payload"
  by (simp_all add: blank_def put_def udp_ports_def be16_def)

lemma calcChecksum_pseudo:
  assumes "length (ip_ipAddress s) = 4" and "length remote = 4"
  obtains ps where "calcChecksum s buf len remote = ucast (checksum (b_size buf) (b_read s buf) len 6 ps)"
    and "unat ps = pseudo_sum UDP_PROTOCOL len (ip_ipAddress s) remote" and "unat ps < 2 ^ 30"
  using pseudo_words [OF assms, where len = len and protocol = UDP_PROTOCOL] that unfolding calcChecksum_def Let_def by metis

lemma ucast_u32_u16: "(ucast (ucast (w :: u16) :: u32) :: u16) = w"
  by (rule bit_word_eqI) (auto simp: bit_simps)

lemma sendDatagram_ok:
  assumes "ip_ok s" and "length dst = 4" and "getMACForIP s dst = Some mac"
    and "unat n + 42 \<le> unat (b_size (drv_send s))"
  defines "payload \<equiv> take (unat n) (drop 8 (b_bytes s (sendPacketBuffer s)))"
  shows "\<exists>s'. sendDatagram dst dp sp n s = (True, s')
    \<and> transmits [eth_header mac (macAddr s) IP_PROTOCOL
        @ ip_header (n + 8 + 20) UDP_PROTOCOL (ip_csum (n + 8 + 20) UDP_PROTOCOL (ip_ipAddress s) dst) (ip_ipAddress s) dst
        @ udp_datagram (ip_ipAddress s) dst sp dp payload] s s'"
proof -
  let ?p = "sendPacketBuffer s" and ?src = "ip_ipAddress s"
  define B where "B = b_bytes s ?p"
  note sz = ip_sizes [OF assms(1)]
  have src: "length ?src = 4" using assms(1) by (simp add: ip_ok_def)
  have len: "length B = unat (b_size ?p)" using sz(3) by (simp add: B_def buf.length_bytes buf.wok_ok)
  then have room: "unat n + 8 \<le> length B" using assms(4) sz(5) by simp
  have n8: "unat (n + 8) = unat n + 8" "unat (8 + n) = unat n + 8"
    using room len unat16_le [of "b_size ?p"] by (simp_all add: unat_add16)
  have lp: "length payload = unat n" using room by (simp add: payload_def B_def [symmetric])
  have wn: "word_of_nat (8 + length payload) = n + 8" using lp by (simp add: add.commute)
  let ?h = "udp_ports sp dp (n + 8)"
  let ?ops = "layout 0 [be16 sp, be16 dp, be16 (n + 8)]"
  define s1 where "s1 = writes ?p ?ops s"
  have ops: "ops_in (unat (b_size ?p)) ?ops"
    using room len unat16_less [of "b_size ?p"] by (intro ops_in_layout) (auto simp: be16_def)
  have B1: "b_bytes s1 ?p = ?h @ drop 6 B"
    using room len unat16_less [of "b_size ?p"] unfolding s1_def seq_writes(2) [OF sz(3) ops]
    by (subst puts_layout) (simp_all add: put_0 udp_ports_def flip: B_def)
  have seq: "seq_ok [writeNet16 (b_write ?p) 0 sp, writeNet16 (b_write ?p) 2 dp, writeNet16 (b_write ?p) 4 (n + 8)] s = (True, s1)"
    using seq_writes(1) [OF sz(3) ops] by (simp add: s1_def accessor_ops)
  have rs: "rest_same s s1" unfolding s1_def by (rule rest_same_writes)
  note tr = rest_same_transmits [OF rs] and f = net_rest_same [OF rs]
  have ok1: "ip_ok s1" using ip_ok_transmits [OF tr] assms(1) by simp
  have p1: "sendPacketBuffer s1 = ?p" "ip_ipAddress s1 = ?src" by (simp_all add: ip_transmits [OF tr])
  obtain ps where cs: "calcChecksum s1 ?p (n + 8) dst = ucast (checksum (b_size ?p) (b_read s1 ?p) (n + 8) 6 ps)"
    and ps: "unat ps = pseudo_sum UDP_PROTOCOL (n + 8) ?src dst" "unat ps < 2 ^ 30"
    using calcChecksum_pseudo [of s1 dst ?p "n + 8"] src assms(2) unfolding p1 by blast
  have "drop 6 B = [B ! 6, B ! 7] @ drop 8 B"
    using room Cons_nth_drop_Suc [of 6 B] Cons_nth_drop_Suc [of 7 B] by simp
  then obtain x y where d: "drop 6 B = [x, y] @ drop 8 B" by blast
  have m: "take (unat (n + 8)) (b_bytes s1 ?p) = ?h @ [x, y] @ payload"
    unfolding B1 d n8 payload_def B_def [symmetric] by simp
  have m1: "getMACForIP s1 dst = Some mac" using assms(3) getMACForIP_transmits [OF tr] by simp
  have sz1: "unat (n + 8) + 34 \<le> unat (b_size (drv_send s1))" using assms(4) n8 f(3) by simp
  have off: "even (unat (6 :: u16))" "unat (6 :: u16) + 2 \<le> unat (n + 8)" using n8 by simp_all
  let ?c = "checksum (b_size ?p) (b_read s1 ?p) (n + 8) 6 ps"
  have c: "?c = udp_csum ?src dst sp dp (n + 8) payload"
    using send_with_checksum(1) [OF ok1 assms(2) m1 sz1 off ps(2)]
    unfolding p1 m ps(1) by (simp add: udp_fields udp_csum_def)
  obtain s2 s' where w: "writeNet16 (b_write ?p) 6 ?c s1 = (True, s2)"
    and send: "sendPacket dst UDP_PROTOCOL (n + 8) s2 = (True, s')"
    and t: "transmits [eth_header mac (macAddr s1) IP_PROTOCOL
        @ ip_header (n + 8 + 20) UDP_PROTOCOL (ip_csum (n + 8 + 20) UDP_PROTOCOL ?src dst) ?src dst
        @ put (unat (6 :: u16)) (be16 ?c) (?h @ [x, y] @ payload)] s1 s'"
    using send_with_checksum(2) [OF ok1 assms(2) m1 sz1 off ps(2), of UDP_PROTOCOL] unfolding p1 m by blast
  have "put (unat (6 :: u16)) (be16 ?c) (?h @ [x, y] @ payload) = udp_datagram ?src dst sp dp payload"
    unfolding c by (simp add: be16_def udp_fields udp_datagram_def Let_def wn [simplified] add.commute [of 8 n])
  with transmits_rest_same [OF rs t]
  have t': "transmits [eth_header mac (macAddr s) IP_PROTOCOL
        @ ip_header (n + 8 + 20) UDP_PROTOCOL (ip_csum (n + 8 + 20) UDP_PROTOCOL ?src dst) ?src dst
        @ udp_datagram ?src dst sp dp payload] s s'" by (simp add: f)
  have "\<not> b_size ?p < 8 + n" using room len n8 by (simp add: less16)
  moreover have "seq_ok [writeNet16 (b_write ?p) 0 sp, writeNet16 (b_write ?p) 2 dp, writeNet16 (b_write ?p) 4 (n + 8),
      (\<lambda>s. writeNet16 (b_write ?p) 6 (ucast (calcChecksum s ?p (8 + n) dst)) s)] s = (True, s2)"
    using seq w cs by (simp add: case_prod_beta ucast_u32_u16 add.commute split: if_splits)
  ultimately have "sendDatagram dst dp sp n s = (True, s')"
    using send by (simp only: sendDatagram_def Let_def DATAGRAM_HEADER_LENGTH_def if_False split_conv not_True_eq_False if_True)
  with t' show ?thesis by blast
qed

section \<open>Receiving: laws\<close>

text \<open>The checks of \<^verbatim>\<open>handlePacket\<close>, in terms of the bytes of the datagram.\<close>

definition udp_accepts :: "'a udp_scheme \<Rightarrow> u8 list \<Rightarrow> u8 list \<Rightarrow> bool" where
  "udp_accepts s src B = (8 \<le> length B \<and> unat (net16 (B ! 4) (B ! 5)) \<le> length B
     \<and> (net16 (B ! 6) (B ! 7) = 0
        \<or> net16 (B ! 6) (B ! 7) = csum (pseudo_sum UDP_PROTOCOL (word_of_nat (length B)) (ip_ipAddress s) src) (blank 6 B)))"

lemma UDP_read_header_eq:
  assumes "length (ip_ipAddress s) = 4" and "length src = 4" and "b_ok s q"
  defines "B \<equiv> b_bytes s q"
  shows "UDP_read_header s src q = (if udp_accepts s src B
    then Some (net16 (B ! 0) (B ! 1), net16 (B ! 2) (B ! 3), net16 (B ! 4) (B ! 5)) else None)"
proof -
  have len: "length B = unat (b_size q)" unfolding B_def using assms(3) by (rule buf.length_bytes)
  show ?thesis
  proof (cases "b_size q < DATAGRAM_HEADER_LENGTH")
    case True
    then have "\<not> udp_accepts s src B" using len by (simp add: udp_accepts_def less16 DATAGRAM_HEADER_LENGTH_def)
    with True show ?thesis by (simp add: UDP_read_header_def)
  next
    case False
    then have sz: "8 \<le> unat (b_size q)" by (simp add: less16 DATAGRAM_HEADER_LENGTH_def)
    obtain ps where c: "calcChecksum s q (b_size q) src = ucast (checksum (b_size q) (b_read s q) (b_size q) 6 ps)"
      and ps: "unat ps = pseudo_sum UDP_PROTOCOL (b_size q) (ip_ipAddress s) src" "unat ps < 2 ^ 30"
      using calcChecksum_pseudo [OF assms(1,2)] by blast
    have cs: "calcChecksum s q (b_size q) src
        = ucast (csum (pseudo_sum UDP_PROTOCOL (b_size q) (ip_ipAddress s) src) (blank 6 B))"
      unfolding c using checksum_csum [OF assms(3) order_refl ps(2), of 6] len by (simp add: ps(1) B_def)
    have inj: "(ucast w :: u32) = ucast w' \<longleftrightarrow> w = w'" for w w' :: u16
      by (metis ucast_u32_u16)
    have r: "readNet16 (b_read s q) 0 = Some (net16 (B ! 0) (B ! 1))" "readNet16 (b_read s q) 2 = Some (net16 (B ! 2) (B ! 3))"
      "readNet16 (b_read s q) 4 = Some (net16 (B ! 4) (B ! 5))" "readNet16 (b_read s q) 6 = Some (net16 (B ! 6) (B ! 7))"
      using assms(3) sz by (simp_all add: getters B_def)
    show ?thesis
      unfolding UDP_read_header_def cs inj r bind.bind_lunit
      using sz len False by (auto simp: udp_accepts_def less16 require_def)
  qed
qed

text \<open>
  A datagram is accepted when its checksum is 0 or the one for the receiver's own address: in particular when it is
  addressed to that.
\<close>

lemma udp_accepts_datagram:
  assumes "length payload + 8 < 65536"
  shows "udp_accepts s src (udp_datagram src dst sp dp payload) \<longleftrightarrow>
      udp_csum src dst sp dp (word_of_nat (8 + length payload)) payload
        \<in> {0, udp_csum src (ip_ipAddress s) sp dp (word_of_nat (8 + length payload)) payload}"
    and "net16 (udp_datagram src dst sp dp payload ! 0) (udp_datagram src dst sp dp payload ! 1) = sp"
    and "net16 (udp_datagram src dst sp dp payload ! 2) (udp_datagram src dst sp dp payload ! 3) = dp"
    and "net16 (udp_datagram src dst sp dp payload ! 4) (udp_datagram src dst sp dp payload ! 5)
      = word_of_nat (8 + length payload)"
proof -
  let ?len = "word_of_nat (8 + length payload) :: u16"
  have D: "udp_datagram src d sp dp payload = be16 sp @ be16 dp @ be16 ?len @ be16 (udp_csum src d sp dp ?len payload) @ payload"
    for d by (simp add: udp_datagram_def Let_def udp_ports_def)
  show "net16 (udp_datagram src dst sp dp payload ! 0) (udp_datagram src dst sp dp payload ! 1) = sp"
    "net16 (udp_datagram src dst sp dp payload ! 2) (udp_datagram src dst sp dp payload ! 3) = dp"
    "net16 (udp_datagram src dst sp dp payload ! 4) (udp_datagram src dst sp dp payload ! 5) = ?len"
    unfolding D be16_def by (simp_all only: append.simps nth_Cons_0 nth_Cons_numeral numeral_One pred_numeral_simps
        nth_Cons_Suc One_nat_def net16_be16 BitM.simps) (simp_all add: nth_Cons' bo_simps)
  have f: "net16 (udp_datagram src dst sp dp payload ! 6) (udp_datagram src dst sp dp payload ! 7)
      = udp_csum src dst sp dp ?len payload"
    "net16 (udp_datagram src dst sp dp payload ! 4) (udp_datagram src dst sp dp payload ! 5) = ?len"
    unfolding D be16_def by (simp_all add: nth_Cons' bo_simps)
  have l: "unat ?len = 8 + length payload" using assms by (intro unat_of_nat16) simp
  have "blank 6 (udp_datagram src dst sp dp payload) = udp_ports sp dp ?len @ 0 # 0 # payload"
    by (simp add: udp_datagram_def Let_def be16_def udp_fields)
  then have "csum (pseudo_sum UDP_PROTOCOL ?len (ip_ipAddress s) src) (blank 6 (udp_datagram src dst sp dp payload))
      = udp_csum src (ip_ipAddress s) sp dp ?len payload"
    by (simp add: udp_csum_def pseudo_sum_commute)
  then show "udp_accepts s src (udp_datagram src dst sp dp payload) \<longleftrightarrow>
      udp_csum src dst sp dp ?len payload \<in> {0, udp_csum src (ip_ipAddress s) sp dp ?len payload}"
    unfolding udp_accepts_def f using l by auto
qed

lemma UDP_handlePacket_eq:
  assumes "length (ip_ipAddress s) = 4" and "length src = 4" and "b_ok s q"
  defines "B \<equiv> b_bytes s q"
  shows "UDP_handlePacket handleDatagram src q s =
    (if udp_accepts s src B
     then case getListener s (net16 (B ! 2) (B ! 3)) of None \<Rightarrow> Some s
       | Some r \<Rightarrow> handleDatagram r src (net16 (B ! 0) (B ! 1)) (OffsetBuffer_new q 8 (net16 (B ! 4) (B ! 5) - 8)) s
     else Some s)"
  unfolding UDP_handlePacket_def UDP_read_header_eq [OF assms(1-3)] B_def DATAGRAM_HEADER_LENGTH_def
  by (auto split: option.split)

lemma OffsetBuffer_new_exact:
  assumes "b_ok s q" and "b_bytes s q = h @ payload" and "length h = unat n" and "unat l = length payload"
  shows "b_ok s (OffsetBuffer_new q n l)" and "b_bytes s (OffsetBuffer_new q n l) = payload"
proof -
  have len: "unat (b_size q) = unat n + unat l"
    using buf.length_bytes [OF assms(1)] assms(2-4) by simp
  moreover from this have "unat (n + l) = unat n + unat l"
    using unat16_less [of "b_size q"] by (intro unat_add16) simp
  ultimately have "b_size q = n + l" by (simp add: word_unat_eq_iff)
  moreover from this len have "n \<le> b_size q" by (simp add: le16_iff)
  ultimately have q: "OffsetBuffer_new q n l = after q n"
    by (auto simp: OffsetBuffer_new_def reinit_def after_def)
  with \<open>n \<le> b_size q\<close> assms show "b_ok s (OffsetBuffer_new q n l)" "b_bytes s (OffsetBuffer_new q n l) = payload"
    by (simp_all add: after_ok b_bytes_after)
qed

text \<open>What \<^verbatim>\<open>sendDatagram\<close> sends arrives at the UDP layer of every host the packet is for.\<close>

lemma udp_arrives:
  assumes "ip_ok a" and "ip_ok b" and "getMACForIP a dst = Some mac" and "length dst = 4"
    and "unat n + 42 \<le> unat (b_size (drv_send a))"
    and "sendDatagram dst dp sp n a = (ok, a')"
    and "IP_getProtocolHandler b UDP_PROTOCOL = Some UDPPacket"
    and "dst = ip_ipAddress b \<or> dst = ipBroadcastAddress b"
    and "b_ok b p" and "b_bytes b p = drop 14 (last (wire a')) @ padding"
  defines "payload \<equiv> take (unat n) (drop 8 (b_bytes a (sendPacketBuffer a)))"
  obtains q where "ok" and "IP_handlePayload handlePacket p b = handlePacket UDPPacket (ip_ipAddress a) q b"
    and "b_ok b q" and "b_bytes b q = udp_datagram (ip_ipAddress a) dst sp dp payload"
    and "length payload = unat n" and "length payload + 8 < 65536" and "word_of_nat (8 + length payload) = n + 8"
proof -
  let ?src = "ip_ipAddress a"
  let ?D = "udp_datagram ?src dst sp dp payload" and ?len = "n + 8 + 20"
  have src: "length ?src = 4" using assms(1) by (simp add: ip_ok_def)
  have mac: "length mac = 6" "length (macAddr a) = 6"
    using getMACForIP_length [OF assms(1,3)] ip_sizes(1) [OF assms(1)] by (simp_all add: eth_ok_def)
  from sendDatagram_ok [OF assms(1,4,3,5), of dp sp] assms(6)
  have ok: "ok" and t: "transmits [eth_header mac (macAddr a) IP_PROTOCOL
      @ ip_header ?len UDP_PROTOCOL (ip_csum ?len UDP_PROTOCOL ?src dst) ?src dst @ ?D] a a'" by (auto simp: payload_def)
  have B: "b_bytes b p = ip_header ?len UDP_PROTOCOL (ip_csum ?len UDP_PROTOCOL ?src dst) ?src dst @ ?D @ padding"
    unfolding assms(10) transmits_fields(1) [OF t] using mac by (simp add: eth_header_def)
  have "length (b_bytes a (sendPacketBuffer a)) = unat (b_size (drv_send a)) - 34"
    using ip_sizes(3,5) [OF assms(1)] by (simp add: buf.length_bytes buf.wok_ok)
  then have lp: "length payload = unat n" using assms(5) by (simp add: payload_def)
  have small: "unat n + 42 < 65536" using assms(5) unat16_less [of "b_size (drv_send a)"] by linarith
  have l: "unat ?len = 20 + length ?D"
    using small lp by (simp add: unat_add16)
  have ne: "?D \<noteq> []" by (simp flip: length_greater_0_conv)
  note h = ip_handles [OF assms(2,9) src assms(4) B l ne assms(8,7)]
  show ?thesis
    using that [of "OffsetBuffer_new p 20 (?len - 20)"] ok h(2,3) h(1) [of handlePacket] lp small
    by (simp add: add.commute)
qed

text \<open>The payload of a datagram that is accepted goes to the listener of its port.\<close>

lemma udp_accepted:
  assumes "length (ip_ipAddress b) = 4" and "length src = 4" and "b_ok b q" and "b_bytes b q = udp_datagram src dst sp dp payload"
    and "length payload + 8 < 65536" and "udp_accepts b src (udp_datagram src dst sp dp payload)" and "getListener b dp = Some r"
  shows "\<exists>q'. b_ok b q' \<and> b_bytes b q' = payload \<and> UDP_handlePacket handleDatagram src q b = handleDatagram r src sp q' b"
proof -
  let ?n = "word_of_nat (8 + length payload) - 8 :: u16"
  have "UDP_handlePacket handleDatagram src q b = handleDatagram r src sp (OffsetBuffer_new q 8 ?n) b"
    unfolding UDP_handlePacket_eq [OF assms(1-3)] assms(4) udp_accepts_datagram(2-4) [OF assms(5)] using assms(6,7) by simp
  moreover have "?n = word_of_nat (length payload)" by simp
  then have "unat ?n = length payload" using assms(5) by (simp only: unat_of_nat16)
  moreover obtain hd where "udp_datagram src dst sp dp payload = hd @ payload" "length hd = unat (8 :: u16)"
    by (simp add: udp_datagram_def Let_def)
  ultimately show ?thesis using OffsetBuffer_new_exact [OF assms(3), of hd payload 8 ?n] assms(4) by auto
qed

text \<open>
  The checksums to two addresses that agree in their first two octets are the same only when the addresses are, or when the last two octets are 0.0 in
  one and 255.255 in the other.
\<close>

lemma udp_csum_cancel:
  assumes "udp_csum src d sp dp len payload = udp_csum src e sp dp len payload" and "length d = 4" and "length e = 4"
    and "take 2 d = take 2 e"
  shows "d = e \<or> {drop 2 d, drop 2 e} = {[0, 0], [255, 255]}"
proof -
  obtain a b c0 c1 where d: "d = [a, b, c0, c1]" using assms(2) by (auto simp: length_Suc_conv numeral_eq_Suc)
  obtain e0 e1 where e: "e = [a, b, e0, e1]" using assms(3,4) by (auto simp: d length_Suc_conv numeral_eq_Suc)
  define x y where "x = 256 * unat c0 + unat c1" and "y = 256 * unat e0 + unat e1"
  have l: "unat z < 256" for z :: u8 using unsigned_less [of z] by simp
  have xy: "x \<le> 65535" "y \<le> 65535" using l [of c0] l [of c1] l [of e0] l [of e1] unfolding x_def y_def by linarith+
  have eq: "d = e" if "x = y"
  proof -
    have "x div 256 = unat c0" "x mod 256 = unat c1" "y div 256 = unat e0" "y mod 256 = unat e1"
      using l by (simp_all add: x_def y_def)
    then show ?thesis using that by (simp add: d e word_unat_eq_iff)
  qed
  have zero: "z = 0 \<and> w = 0" if "256 * unat z + unat w = 0" for z w :: u8 using that by (simp add: unat_eq_zero)
  have full: "z = 255 \<and> w = 255" if "256 * unat z + unat w = 65535" for z w :: u8
  proof -
    have "unat z = 255" "unat w = 255" using that l [of z] l [of w] by linarith+
    then show ?thesis by (simp add: word_unat_eq_iff)
  qed
  define m where "m = unat UDP_PROTOCOL + unat len + wsum src + (256 * unat a + unat b) + wsum (udp_ports sp dp len @ [0, 0] @ payload)"
  have s: "pseudo_sum UDP_PROTOCOL len src d + wsum (udp_ports sp dp len @ [0, 0] @ payload) = m + x"
    "pseudo_sum UDP_PROTOCOL len src e + wsum (udp_ports sp dp len @ [0, 0] @ payload) = m + y"
    by (simp_all add: pseudo_sum_def d e m_def x_def y_def)
  have "65535 - ones (m + x) = 65535 - ones (m + y)"
    using assms(1) unfolding udp_csum_def word_unat_eq_iff unat_csum s .
  then have o: "ones (m + x) = ones (m + y)" using ones_le [of "m + x"] ones_le [of "m + y"] by linarith
  show ?thesis
  proof (cases "x \<le> y")
    case True
    then have "x = y \<or> x = 0 \<and> y = 65535" using ones_cancel [OF o xy] by blast
    then show ?thesis using eq zero [of c0 c1] full [of e0 e1] unfolding x_def [symmetric] y_def [symmetric] by (auto simp: d e)
  next
    case False
    then have "y = x \<or> y = 0 \<and> x = 65535" using ones_cancel [OF o [symmetric] xy(2,1)] by simp
    then show ?thesis using eq zero [of e0 e1] full [of c0 c1] unfolding x_def [symmetric] y_def [symmetric] by (auto simp: d e)
  qed
qed

section \<open>Properties\<close>

text \<open>
  C13: A datagram sent is a datagram delivered. What host \<open>a\<close> sends with \<^verbatim>\<open>sendDatagram\<close> to the address of host \<open>b\<close>,
  received by \<open>b\<close> in any well-formed buffer, possibly with padding behind it, passes the checks of the IP and the UDP
  layer of \<open>b\<close> and reaches the listener \<open>b\<close> has registered for the destination port, with the address of \<open>a\<close>, the source
  port and a buffer that contains exactly the payload (also an empty one).
\<close>

theorem udp_delivers:
  assumes "ip_ok a" and "ip_ok b" and "getMACForIP a (ip_ipAddress b) = Some mac"
    and "unat n + 42 \<le> unat (b_size (drv_send a))"
    and "sendDatagram (ip_ipAddress b) dp sp n a = (ok, a')"
    and "IP_getProtocolHandler b UDP_PROTOCOL = Some UDPPacket" and "getListener b dp = Some r"
    and "b_ok b p" and "b_bytes b p = drop 14 (last (wire a')) @ padding"
    and "handlePacket UDPPacket = UDP_handlePacket handleDatagram"
  shows "ok \<and> (\<exists>q. b_ok b q \<and> b_bytes b q = take (unat n) (drop 8 (b_bytes a (sendPacketBuffer a)))
    \<and> IP_handlePayload handlePacket p b = handleDatagram r (ip_ipAddress a) sp q b)"
proof -
  let ?src = "ip_ipAddress a" and ?payload = "take (unat n) (drop 8 (b_bytes a (sendPacketBuffer a)))"
  have src: "length ?src = 4" "length (ip_ipAddress b) = 4" using assms(1,2) by (simp_all add: ip_ok_def)
  obtain q where ok: "ok" and run: "IP_handlePayload handlePacket p b = handlePacket UDPPacket ?src q b"
    and q: "b_ok b q" "b_bytes b q = udp_datagram ?src (ip_ipAddress b) sp dp ?payload"
    and l: "length ?payload = unat n" "length ?payload + 8 < 65536" "word_of_nat (8 + length ?payload) = n + 8"
    by (rule udp_arrives [OF assms(1-3) src(2) assms(4-6) disjI1 [OF refl] assms(8,9)])
  have "udp_accepts b ?src (udp_datagram ?src (ip_ipAddress b) sp dp ?payload)"
    unfolding udp_accepts_datagram(1) [OF l(2)] by (rule insertI2) (rule singletonI)
  from udp_accepted [OF src(2,1) q l(2) this assms(7), of handleDatagram] ok show ?thesis
    unfolding run assms(10) by (rule conjI [rotated])
qed

text \<open>A host with the UDP layer, an application on port 7 and a route to its peer.\<close>

definition demo_udp :: "ip \<Rightarrow> udp" where
  "demo_udp s = snd (registerListener 7 (Some (AppReceiver 0))
     (UDPHandler_new True 2 (ip.extend s \<lparr>receivers = [], udp_sendPayloadBuffer = MemBuffer 0 0\<rparr>)))"

lemma demo_udp_simps:
  fixes s :: ip
  assumes "ip_protocolRegistry s = replicate 3 (0, None)"
  shows "net.truncate (demo_udp s) = net.truncate s" "arp_ipAddress (demo_udp s) = arp_ipAddress s"
    "routingTable (demo_udp s) = routingTable s" "arp_timer (demo_udp s) = arp_timer s"
    "ip_ipAddress (demo_udp s) = ip_ipAddress s" "gatewayIP (demo_udp s) = gatewayIP s"
    "subnetMask (demo_udp s) = subnetMask s" "ipNetwork (demo_udp s) = ipNetwork s"
    "ipBroadcastAddress (demo_udp s) = ipBroadcastAddress s" "sendPacketBuffer (demo_udp s) = sendPacketBuffer s"
    "ip_protocolRegistry (demo_udp s) = [(17, Some UDPPacket), (0, None), (0, None)]"
    "receivers (demo_udp s) = [(7, Some (AppReceiver 0)), (0, None)]"
  using assms by (simp_all add: demo_udp_def UDPHandler_new_def registerListener_def ip.defs net.defs IP_registerProtocol_def
      ip_scanned UDP_PROTOCOL_def numeral_2_eq_2 numeral_3_eq_3 Let_def)

lemma net_truncate:
  fixes s :: "'a net_scheme" and s' :: "'b net_scheme"
  assumes "net.truncate s' = net.truncate s"
  shows "sram s' = sram s" "ram s' = ram s" "chip s' = chip s" "now s' = now s" "macAddr s' = macAddr s" "drv_send s' = drv_send s" "drv_recv s' = drv_recv s"
    "wire s' = wire s" "sendPayloadBuffer s' = sendPayloadBuffer s" "protocolRegistry s' = protocolRegistry s"
    "timerRegistry s' = timerRegistry s" "timers s' = timers s"
  using assms by (simp_all add: net.defs)

lemma ip_ok_extend:
  fixes s :: "'a ip_scheme" and s' :: "'b ip_scheme"
  assumes "net.truncate s' = net.truncate s" and "arp_ipAddress s' = arp_ipAddress s" and "routingTable s' = routingTable s"
    and "arp_timer s' = arp_timer s" and "ip_ipAddress s' = ip_ipAddress s" and "gatewayIP s' = gatewayIP s"
    and "subnetMask s' = subnetMask s" and "ipNetwork s' = ipNetwork s"
    and "ipBroadcastAddress s' = ipBroadcastAddress s" and "sendPacketBuffer s' = sendPacketBuffer s"
  shows "ip_ok s' = ip_ok s" and "getMACForIP s' d = getMACForIP s d"
  using assms(2-) net_truncate [OF assms(1)]
  by (simp_all only: ip_ok_def arp_ok_def arp_net_ok_def eth_ok_def b_wok_def b_ok_def timers_ok_def
      getMACForIP_def onLocalNetwork_def getMACAddress_def)

abbreviation demo_ua :: udp where "demo_ua \<equiv> demo_udp demo_a"
abbreviation demo_ub :: udp where
  "demo_ub \<equiv> demo_udp (demo_ip [2, 0, 0, 0, 0, 2] [10, 0, 0, 2] [2, 0, 0, 0, 0, 1] [10, 0, 0, 1])"

lemma demo_udp_ok:
  shows "ip_ok demo_ua" "ip_ok demo_ub" "getMACForIP demo_ua [10, 0, 0, 2] = Some [2, 0, 0, 0, 0, 2]"
    "drv_send demo_ua = MemBuffer 0x400 100" "wire demo_ua = []" "macAddr demo_ua = [2, 0, 0, 0, 0, 1]"
    "ip_ipAddress demo_ua = [10, 0, 0, 1]" "ip_ipAddress demo_ub = [10, 0, 0, 2]"
    "IP_getProtocolHandler demo_ub UDP_PROTOCOL = Some UDPPacket" "getListener demo_ub 7 = Some (AppReceiver 0)"
    "listeners_ok demo_ub"
proof -
  have a: "ip_ok demo_a" by (rule demo_ip_ok) simp_all
  have b: "ip_ok (demo_ip [2, 0, 0, 0, 0, 2] [10, 0, 0, 2] [2, 0, 0, 0, 0, 1] [10, 0, 0, 1])"
    by (rule demo_ip_ok) simp_all
  note d = demo_udp_simps [OF demo_ip_simps(10)] and n = net_truncate [OF demo_udp_simps(1) [OF demo_ip_simps(10)]]
  show "ip_ok demo_ua" "ip_ok demo_ub" using a b by (simp_all only: ip_ok_extend(1) [OF d(1-10)])
  show "getMACForIP demo_ua [10, 0, 0, 2] = Some [2, 0, 0, 0, 0, 2]"
    by (simp only: ip_ok_extend(2) [OF d(1-10)] demo_ip_route)
  show "drv_send demo_ua = MemBuffer 0x400 100" "wire demo_ua = []" "macAddr demo_ua = [2, 0, 0, 0, 0, 1]"
    by (simp_all add: n demo_ip_simps)
  show "ip_ipAddress demo_ua = [10, 0, 0, 1]" "ip_ipAddress demo_ub = [10, 0, 0, 2]"
    "getListener demo_ub 7 = Some (AppReceiver 0)" "listeners_ok demo_ub"
    by (simp_all add: d demo_ip_simps getListener_def listeners_ok_def)
  show "IP_getProtocolHandler demo_ub UDP_PROTOCOL = Some UDPPacket"
    by (simp add: d IP_getProtocolHandler_def ip_scanned UDP_PROTOCOL_def)
qed

lemma udp_delivers_witness:
  "\<exists>frame. IP_handlePayload (\<lambda>h. UDP_handlePacket (\<lambda>r src sp q s.
        if r = AppReceiver 0 \<and> src = [10, 0, 0, 1] \<and> sp = 9 \<and> length (b_bytes s q) = 5 then None else Some s))
      (MemBuffer 0x600 33) (snd (b_write (MemBuffer 0x600 33) 0 frame demo_ub)) = None"
proof -
  let ?p = "MemBuffer 0x600 33" and ?hd = "\<lambda>r src sp q (s :: udp).
        if r = AppReceiver 0 \<and> src = [10, 0, 0, 1] \<and> sp = 9 \<and> length (b_bytes s q) = 5 then None else Some s"
  note d = demo_udp_ok
  have sz: "unat (5 :: u16) + 42 \<le> unat (b_size (drv_send demo_ua))" by (simp add: d(4))
  let ?payload = "take (unat (5 :: u16)) (drop 8 (b_bytes demo_ua (sendPacketBuffer demo_ua)))"
  obtain a' where send: "sendDatagram [10, 0, 0, 2] 7 9 5 demo_ua = (True, a')"
    and t: "transmits [eth_header [2, 0, 0, 0, 0, 2] (macAddr demo_ua) IP_PROTOCOL
        @ ip_header (5 + 8 + 20) UDP_PROTOCOL (ip_csum (5 + 8 + 20) UDP_PROTOCOL (ip_ipAddress demo_ua) [10, 0, 0, 2])
            (ip_ipAddress demo_ua) [10, 0, 0, 2]
        @ udp_datagram (ip_ipAddress demo_ua) [10, 0, 0, 2] 9 7 ?payload] demo_ua a'"
    using sendDatagram_ok [OF d(1) _ d(3) sz, of 7 9] by auto
  have "length (b_bytes demo_ua (sendPacketBuffer demo_ua)) = 66"
    using ip_sizes(3,5) [OF d(1)] by (simp add: buf.length_bytes buf.wok_ok d(4))
  then have l: "length ?payload = 5" by simp
  define f where "f = drop 14 (last (wire a'))"
  have "length f = 33"
    unfolding f_def transmits_fields(1) [OF t] using l by (simp add: eth_header_def d(5,6,7))
  moreover from this have "f \<noteq> []" by auto
  ultimately have fill: "b_bytes (snd (b_write ?p 0 f demo_ub)) ?p = drop 14 (last (wire a')) @ []"
    unfolding f_def [symmetric] using fill_bytes [OF Mem_wok, of f "0x600" 33 demo_ub] by (simp del: b_write.simps)
  define b where "b = snd (b_write ?p 0 f demo_ub)"
  note tb = rest_same_transmits [OF rest_same_b_write [of demo_ub ?p 0 f], folded b_def]
  have b: "ip_ok b" unfolding ip_ok_transmits [OF tb] by (rule d(2))
  have ip: "ip_ipAddress b = [10, 0, 0, 2]" using d(8) by (simp only: ip_transmits(1) [OF tb])
  have h: "IP_getProtocolHandler b UDP_PROTOCOL = Some UDPPacket"
    using d(9) by (simp only: IP_getProtocolHandler_def ip_transmits(7) [OF tb])
  have r: "getListener b 7 = Some (AppReceiver 0)"
    using d(10) udp_same [OF ip_transmits(9) [OF tb]] by (simp only: getListener_def)
  have ok: "b_ok b ?p" by (simp add: b_ok_def)
  from udp_delivers [OF d(1) b _ sz, of "[2, 0, 0, 0, 0, 2]" 7 9 True a' "AppReceiver 0" ?p "[]" "\<lambda>h. UDP_handlePacket ?hd" ?hd]
  have "IP_handlePayload (\<lambda>h. UDP_handlePacket ?hd) ?p b = None"
    using d(3) send h r ok fill [folded b_def] l by (auto simp: ip d(7))
  then show ?thesis unfolding b_def by blast
qed

text \<open>
  Bad datagrams are dropped. Whatever bytes the IP layer hands over, the handler either has no effect, or there
  are at least 8, the length field does not exceed them, the checksum field is 0 or the checksum of the datagram
  with the pseudo header from the sender's to the own address, and the listener registered for the destination port is
  called once with the sender's address and the source port.
\<close>

lemma udp_drops_bad_datagrams:
  assumes "ip_ok s" and "length src = 4" and "b_ok s q" and "UDP_handlePacket handleDatagram src q s \<noteq> Some s"
  defines "B \<equiv> b_bytes s q"
  shows "8 \<le> length B \<and> unat (net16 (B ! 4) (B ! 5)) \<le> length B
    \<and> net16 (B ! 6) (B ! 7) \<in> {0, csum (pseudo_sum 17 (word_of_nat (length B)) (ip_ipAddress s) src) (blank 6 B)}
    \<and> (\<exists>r q'. getListener s (net16 (B ! 2) (B ! 3)) = Some r
        \<and> UDP_handlePacket handleDatagram src q s = handleDatagram r src (net16 (B ! 0) (B ! 1)) q' s)"
proof -
  have ip: "length (ip_ipAddress s) = 4" using assms(1) by (simp add: ip_ok_def)
  from assms(4) show ?thesis
    unfolding UDP_handlePacket_eq [OF ip assms(2,3)] B_def udp_accepts_def UDP_PROTOCOL_def
    by (auto split: if_splits option.splits)
qed

lemma udp_drops_bad_datagrams_witness:
  "UDP_handlePacket (\<lambda>_ _ _ _ _. None) [10, 0, 0, 1] (MemBuffer 0x600 7) demo_ub = Some demo_ub"
proof (rule ccontr)
  assume a: "UDP_handlePacket (\<lambda>_ _ _ _ _. None) [10, 0, 0, 1] (MemBuffer 0x600 7) demo_ub \<noteq> Some demo_ub"
  have ok: "b_ok demo_ub (MemBuffer 0x600 7)" by (simp add: b_ok_def)
  from udp_drops_bad_datagrams [OF demo_udp_ok(2) _ ok a] buf.length_bytes [OF ok] show False by simp
qed

text \<open>
  C14: A broadcast datagram is lost. A datagram that a host sends with \<^verbatim>\<open>sendDatagram\<close> to the broadcast address of a network is
  accepted by the IP layer of the receivers, but its checksum covers the broadcast address while they verify it with their own. Let the address of
  the receiver differ from the broadcast address in the last two octets only, as in every network of at most 65536 addresses, and these
  octets not be 0.0 or 255.255. Then no listener is called, whatever the datagram holds, but for one that happens to have the
  checksum 0, which stands for none: that one reaches the listener of its port with its payload.
\<close>

theorem udp_broadcast_is_dropped:
  assumes "ip_ok a" and "ip_ok b" and "getMACForIP a (ipBroadcastAddress b) = Some mac"
    and "unat n + 42 \<le> unat (b_size (drv_send a))"
    and "sendDatagram (ipBroadcastAddress b) dp sp n a = (ok, a')"
    and "IP_getProtocolHandler b UDP_PROTOCOL = Some UDPPacket" and "getListener b dp = Some r"
    and "b_ok b p" and "b_bytes b p = drop 14 (last (wire a')) @ padding"
    and "handlePacket UDPPacket = UDP_handlePacket handleDatagram"
    and "take 2 (ip_ipAddress b) = take 2 (ipBroadcastAddress b)" and "ip_ipAddress b \<noteq> ipBroadcastAddress b"
    and "drop 2 (ip_ipAddress b) \<notin> {[0, 0], [255, 255]}"
  defines "payload \<equiv> take (unat n) (drop 8 (b_bytes a (sendPacketBuffer a)))"
  shows "if udp_csum (ip_ipAddress a) (ipBroadcastAddress b) sp dp (n + 8) payload = 0
    then \<exists>q. b_ok b q \<and> b_bytes b q = payload \<and> IP_handlePayload handlePacket p b = handleDatagram r (ip_ipAddress a) sp q b
    else IP_handlePayload handlePacket p b = Some b"
proof -
  let ?src = "ip_ipAddress a" and ?bc = "ipBroadcastAddress b"
  have src: "length ?src = 4" "length (ip_ipAddress b) = 4" "length ?bc = 4"
    using assms(1,2) by (simp_all add: ip_ok_def)
  obtain q where run: "IP_handlePayload handlePacket p b = handlePacket UDPPacket ?src q b"
    and q: "b_ok b q" "b_bytes b q = udp_datagram ?src ?bc sp dp payload"
    and l: "length payload + 8 < 65536" "word_of_nat (8 + length payload) = n + 8"
    unfolding payload_def
    by (rule udp_arrives [OF assms(1-3) src(3) assms(4-6) disjI2 [OF refl] assms(8,9)])
  note acc = udp_accepts_datagram(1) [OF l(1), of b ?src ?bc sp dp, unfolded l(2)]
  have "udp_csum ?src ?bc sp dp (n + 8) payload \<noteq> udp_csum ?src (ip_ipAddress b) sp dp (n + 8) payload"
    using udp_csum_cancel [OF _ src(2,3) assms(11), of ?src sp dp "n + 8" payload] assms(12,13) by (auto simp: doubleton_eq_iff)
  then show ?thesis
    using acc udp_accepted [OF src(2,1) q l(1) _ assms(7), of handleDatagram] UDP_handlePacket_eq [OF src(2,1) q(1), of handleDatagram]
    unfolding run assms(10) q(2) by auto
qed

lemma demo_udp_broadcast:
  "ipBroadcastAddress demo_ub = [10, 0, 0, 255]" "getMACForIP demo_ua [10, 0, 0, 255] = Some broadcastMAC"
proof -
  have b: "ipBroadcastAddress (demo_ip mac [10, 0, 0, j] m i) = [10, 0, 0, 255]" if "j AND 0 = 0" for mac m i j
    by (simp add: demo_ip_def IPHandler_init_def arp.defs ip.defs registerProtocol_simps Let_def upt_rec split: option.split)
  note d = demo_udp_simps [OF demo_ip_simps(10)]
  show "ipBroadcastAddress demo_ub = [10, 0, 0, 255]" using b by (simp add: d)
  have "onLocalNetwork demo_a [10, 0, 0, 255]" by (simp add: onLocalNetwork_def demo_ip_simps upt_rec)
  then have "getMACForIP demo_a [10, 0, 0, 255] = Some broadcastMAC"
    using b by (simp add: getMACForIP_def ipsEquate_def upt_rec)
  then show "getMACForIP demo_ua [10, 0, 0, 255] = Some broadcastMAC"
    by (simp only: ip_ok_extend(2) [OF d(1-10)])
qed

lemma udp_broadcast_is_dropped_witness:
  "\<exists>frame s. IP_handlePayload (\<lambda>h. UDP_handlePacket (\<lambda>_ _ _ _ _. None)) (MemBuffer 0x600 28) s = Some s
    \<and> s = snd (b_write (MemBuffer 0x600 28) 0 frame demo_ub)
    \<and> frame = drop 14 (last (wire (snd (sendDatagram [10, 0, 0, 255] 7 9 0 demo_ua))))"
proof -
  let ?p = "MemBuffer 0x600 28" and ?bc = "[10, 0, 0, 255]" and ?hd = "\<lambda>_ _ _ _ _. None"
  note d = demo_udp_ok
  have sz: "unat (0 :: u16) + 42 \<le> unat (b_size (drv_send demo_ua))" by (simp add: d(4))
  obtain a' where send: "sendDatagram ?bc 7 9 0 demo_ua = (True, a')"
    and t: "transmits [eth_header broadcastMAC (macAddr demo_ua) IP_PROTOCOL
        @ ip_header (0 + 8 + 20) UDP_PROTOCOL (ip_csum (0 + 8 + 20) UDP_PROTOCOL (ip_ipAddress demo_ua) ?bc)
            (ip_ipAddress demo_ua) ?bc
        @ udp_datagram (ip_ipAddress demo_ua) ?bc 9 7 []] demo_ua a'"
    using sendDatagram_ok [OF d(1) _ demo_udp_broadcast(2) sz, of 7 9] by auto
  define f where "f = drop 14 (last (wire a'))"
  have "length f = 28"
    unfolding f_def transmits_fields(1) [OF t] by (simp add: eth_header_def d(5,6,7) broadcastMAC_def)
  moreover from this have "f \<noteq> []" by auto
  ultimately have fill: "b_bytes (snd (b_write ?p 0 f demo_ub)) ?p = f @ []"
    using fill_bytes [OF Mem_wok, of f "0x600" 28 demo_ub] by (simp del: b_write.simps)
  define b where "b = snd (b_write ?p 0 f demo_ub)"
  note tb = rest_same_transmits [OF rest_same_b_write [of demo_ub ?p 0 f], folded b_def]
  have b: "ip_ok b" unfolding ip_ok_transmits [OF tb] by (rule d(2))
  have ip: "ip_ipAddress b = [10, 0, 0, 2]" "ipBroadcastAddress b = ?bc"
    using d(8) demo_udp_broadcast(1) by (simp_all only: ip_transmits(1,5) [OF tb])
  have h: "IP_getProtocolHandler b UDP_PROTOCOL = Some UDPPacket"
    using d(9) by (simp only: IP_getProtocolHandler_def ip_transmits(7) [OF tb])
  have ok: "b_ok b ?p" by (simp add: b_ok_def)
  have cs: "udp_csum [10, 0, 0, 1] ?bc 9 7 8 [] \<noteq> 0"
    by (simp add: udp_csum_def csum_def pseudo_sum_def udp_ports_def be16_def UDP_PROTOCOL_def ones_def)
  have r: "getListener b 7 = Some (AppReceiver 0)"
    using d(10) udp_same [OF ip_transmits(9) [OF tb]] by (simp only: getListener_def)
  have f: "b_bytes b ?p = drop 14 (last (wire a')) @ []" unfolding f_def [symmetric] b_def by (rule fill)
  have "IP_handlePayload (\<lambda>h. UDP_handlePacket ?hd) ?p b = Some b"
    using udp_broadcast_is_dropped [OF d(1) b, unfolded ip, OF demo_udp_broadcast(2) sz send h r ok f,
        of "\<lambda>h. UDP_handlePacket ?hd" ?hd] cs by (simp add: d(7))
  then show ?thesis using send by (auto simp: b_def f_def)
qed

end
