(* ===== verification/DNSHandler.thy ===== *)
theory DNSHandler
  imports UDPHandler
begin

text \<open>
  DNSHandler.h/.cpp: the cache of lookups, the request for a name, the response that fills an entry and the timer
  that repeats requests. An entry is pending (status 0), done (16, with the response code in the low four bits)
  or expired (64).
\<close>

section \<open>State\<close>

definition NO_ERROR :: u8 where "NO_ERROR = 0x00"
definition SERVER_FAILURE :: u8 where "SERVER_FAILURE = 0x02"
definition CLIENT_ERROR :: u8 where "CLIENT_ERROR = 0x08"
definition NO_RESPONSE :: u8 where "NO_RESPONSE = 0x09"
definition PENDING :: u8 where "PENDING = 0x00"
definition DONE :: u8 where "DONE = 0x10"
definition INIT :: u8 where "INIT = 0x20"
definition EXPIRED :: u8 where "EXPIRED = 0x40"
definition DNS_HEADER_LENGTH :: u16 where "DNS_HEADER_LENGTH = 12"

lemmas dns_consts = NO_ERROR_def SERVER_FAILURE_def CLIENT_ERROR_def NO_RESPONSE_def PENDING_def DONE_def INIT_def
  EXPIRED_def DNS_HEADER_LENGTH_def

text \<open>
  A name is the list of its characters, without the terminating 0; \<open>None\<close> is a pointer that has not been set or
  has been freed: using it is undefined.
\<close>

record dnsLookup =
  domainName :: "u8 list option"
  dns_ipAddress :: "u8 list"
  dns_status :: u8
  dns_time :: u32
  ttl :: u32
  dns_attempts :: u8

record dns = udp +
  cache :: "dnsLookup list"     \<comment> \<open>cacheCapacity entries\<close>
  cacheSize :: u8
  dnsIP :: "u8 list"
  dnsIPBackup :: "u8 list"
  dns_timer :: u8

text \<open>
  The constructor, for an allocation that succeeds. Every entry is initialised by
  \<^verbatim>\<open>cache[i].domainName[0] = '\0'\<close>, a write through a pointer that is not initialised, and \<^verbatim>\<open>memcpy(cache[i].ipAddress,0,4)\<close>,
  a copy from address 0. What the stray writes do to the rest of the state and which bytes are found at address
  0 are arguments, and so are the uninitialised fields of the entries.
\<close>

definition DNSHandler_new :: "('a dns_scheme \<Rightarrow> 'a dns_scheme) \<Rightarrow> u8 list \<Rightarrow> (nat \<Rightarrow> u32 \<times> u32 \<times> u8) \<Rightarrow> u8 list
    \<Rightarrow> nat \<Rightarrow> u8 list option \<Rightarrow> 'a dns_scheme \<Rightarrow> 'a dns_scheme" where
  "DNSHandler_new stray_writes at_zero junk dnsip capacity dnsipbackup s =
     (let s = s\<lparr>dnsIP := dnsip, dnsIPBackup := (case dnsipbackup of None \<Rightarrow> dnsip | Some b \<Rightarrow> b)\<rparr>;
          s = stray_writes s;
          s = s\<lparr>cache := map (\<lambda>i. case junk i of (time, t, attempts) \<Rightarrow>
                 \<lparr>domainName = None, dns_ipAddress = take 4 at_zero, dns_status = INIT OR NO_ERROR,
                  dns_time = time, ttl = t, dns_attempts = attempts\<rparr>) [0 ..< capacity],
               cacheSize := 0, dns_timer := 0\<rparr>
      in snd (registerListener 53 (Some DNSReceiver) s))"

section \<open>Requests\<close>

text \<open>
  The loop over the characters of the name: \<^verbatim>\<open>hostLengthOffset\<close> is where the length of the current label will
  be written, \<^verbatim>\<open>hostLength\<close> the number of its characters so far.
\<close>

fun write_labels :: "buffer \<Rightarrow> u8 list \<Rightarrow> u16 \<Rightarrow> u8 \<Rightarrow> u16 \<Rightarrow> 'a store_scheme
    \<Rightarrow> (u16 \<times> u8 \<times> u16) option \<times> 'a store_scheme" where
  "write_labels b [] hostLengthOffset hostLength len s = (Some (hostLengthOffset, hostLength, len), s)"
| "write_labels b (c # cs) hostLengthOffset hostLength len s =
     (if c = 0x2E
      then case write8 (b_write b) hostLengthOffset hostLength s of
             (ok, s) \<Rightarrow> if \<not> ok then (None, s)
               else write_labels b cs (hostLengthOffset + 1 + ucast hostLength) 0 (len + 1) s
      else case write8 (b_write b) (hostLengthOffset + 1 + ucast hostLength) c s of
             (ok, s) \<Rightarrow> if \<not> ok then (None, s)
               else write_labels b cs hostLengthOffset (hostLength + 1) (len + 1) s)"

definition sendDNSRequest :: "u8 list \<Rightarrow> u16 \<Rightarrow> u8 list \<Rightarrow> 'a dns_scheme \<Rightarrow> bool \<times> 'a dns_scheme" where
  "sendDNSRequest name rid dnsServer s =
     (let udpBuffer = udp_sendPayloadBuffer s; wr = b_write udpBuffer
      in if length name > 255 then (False, s)
         else if b_size udpBuffer < DNS_HEADER_LENGTH then (False, s)
         else case seq_ok [writeNet16 wr 0 rid, writeNet16 wr 2 0x0100, writeNet16 wr 4 0x0001, writeNet16 wr 6 0x0000,
                writeNet16 wr 8 0x0000, writeNet16 wr 10 0x0000] s of
                (ok, s) \<Rightarrow>
         if \<not> ok then (False, s)
         else (case write_labels udpBuffer name DNS_HEADER_LENGTH 0 DNS_HEADER_LENGTH s of
                (None, s) \<Rightarrow> (False, s)
              | (Some (hostLengthOffset, hostLength, len), s) \<Rightarrow>
         (let root = hostLengthOffset + 1 + ucast hostLength
          in case seq_ok [write8 wr hostLengthOffset hostLength, write8 wr root 0,
                 writeNet16 wr (root + 1) 1, writeNet16 wr (root + 1 + 2) 1] s of
               (ok, s) \<Rightarrow>
                 if \<not> ok then (False, s)
                 else (True, snd (sendDatagram dnsServer 53 53 (len + 1 + 1 + 4) s)))))"

section \<open>Lookups\<close>

text \<open>\<^verbatim>\<open>checkAndSetExpiration\<close>, on the entry.\<close>

definition expire :: "u32 \<Rightarrow> dnsLookup \<Rightarrow> dnsLookup" where
  "expire currentTime e =
     (if dns_status e = DONE OR NO_ERROR \<and> currentTime - dns_time e > ttl e * 1000
      then e\<lparr>dns_status := EXPIRED OR NO_ERROR\<rparr> else e)"

definition upd_entry :: "nat \<Rightarrow> (dnsLookup \<Rightarrow> dnsLookup) \<Rightarrow> 'a dns_scheme \<Rightarrow> 'a dns_scheme" where
  "upd_entry i f s = s\<lparr>cache := (cache s)[i := f (cache s ! i)]\<rparr>"

text \<open>\<^verbatim>\<open>if (this->timer == 0) this->timer = ip->registerTimer(this,delay);\<close>\<close>

definition start_timer :: "u16 \<Rightarrow> 'a dns_scheme \<Rightarrow> 'a dns_scheme" where
  "start_timer delay s =
     (if dns_timer s = 0
      then case registerTimer DNSTimer delay s of (t, s) \<Rightarrow> s\<lparr>dns_timer := t\<rparr>
      else s)"

text \<open>
  The loop over the entries in use that stops at the first one with the name; comparing with a freed name is
  undefined.
\<close>

fun find_name :: "u8 list \<Rightarrow> dnsLookup list \<Rightarrow> nat option option" where
  "find_name name [] = Some None"
| "find_name name (e # es) =
     (case domainName e of
        None \<Rightarrow> None
      | Some n \<Rightarrow> if name = n then Some (Some 0) else map_option (map_option Suc) (find_name name es))"

text \<open>
  A known name. The assignment of the error status in the last branch is written as a comparison and has no
  effect. The result is the address (\<open>None\<close> is the null pointer) and \<^verbatim>\<open>*err\<close>.
\<close>

definition resolve_known :: "nat \<Rightarrow> u8 list \<Rightarrow> bool \<Rightarrow> 'a dns_scheme \<Rightarrow> u8 list option \<times> u8 \<times> 'a dns_scheme" where
  "resolve_known i name force s =
     (let s = upd_entry i (expire (now s)) s;
          s = (if force \<or> dns_status (cache s ! i) AND 0xF0 = EXPIRED
               then case sendDNSRequest name (word_of_nat (i + 1)) (dnsIP s)
                           (upd_entry i (\<lambda>e. e\<lparr>dns_status := PENDING OR NO_ERROR\<rparr>) s) of
                      (ok, s) \<Rightarrow>
                        if ok
                        then start_timer 1000 (upd_entry i (\<lambda>e. e\<lparr>dns_time := now s, dns_attempts := 1\<rparr>) s)
                        else s
               else s)
      in (if dns_status (cache s ! i) = DONE then Some (dns_ipAddress (cache s ! i)) else None,
          dns_status (cache s ! i) AND 0x0F, s))"

text \<open>A new name; \<open>allocated\<close> tells whether the memory for the copy of the name could be allocated.\<close>

definition resolve_new :: "bool \<Rightarrow> u8 list \<Rightarrow> 'a dns_scheme \<Rightarrow> u8 list option \<times> u8 \<times> 'a dns_scheme" where
  "resolve_new allocated name s =
     (let i = unat (cacheSize s)
      in if length (cache s) \<le> i then (None, CLIENT_ERROR, s)
         else let s = upd_entry i (\<lambda>e. e\<lparr>dns_status := NO_ERROR OR PENDING\<rparr>) s
         in if \<not> allocated
            then (None, CLIENT_ERROR, upd_entry i (\<lambda>e. e\<lparr>domainName := None, dns_status := DONE OR CLIENT_ERROR\<rparr>) s)
            else let s = upd_entry i (\<lambda>e. e\<lparr>domainName := Some name, dns_attempts := 1\<rparr>) s
            in case sendDNSRequest name (word_of_nat (i + 1)) (dnsIP s) s of
                 (ok, s) \<Rightarrow>
                   if ok
                   then let s = start_timer 5000 (upd_entry i (\<lambda>e. e\<lparr>dns_time := now s\<rparr>) s)
                        in (None, NO_ERROR OR PENDING, s\<lparr>cacheSize := cacheSize s + 1\<rparr>)
                   else let s = upd_entry i (\<lambda>e. e\<lparr>domainName := None\<rparr>) s
                        in (None, CLIENT_ERROR, s\<lparr>cacheSize := cacheSize s + 1\<rparr>))"

definition resolve :: "bool \<Rightarrow> u8 list \<Rightarrow> bool \<Rightarrow> 'a dns_scheme \<Rightarrow> (u8 list option \<times> u8 \<times> 'a dns_scheme) option" where
  "resolve allocated name force s =
     (case find_name name (take (unat (cacheSize s)) (cache s)) of
        None \<Rightarrow> None
      | Some (Some i) \<Rightarrow> Some (resolve_known i name force s)
      | Some None \<Rightarrow> Some (resolve_new allocated name s))"

section \<open>Responses\<close>

text \<open>The checks of the header: the index of the entry, the response code and the two counts.\<close>

definition DNS_read_header :: "'a dns_scheme \<Rightarrow> u8 list \<Rightarrow> buffer \<Rightarrow> (nat \<times> u8 \<times> u16 \<times> u16) option" where
  "DNS_read_header s sourceIP packet = do {
     require (\<not> b_size packet < DNS_HEADER_LENGTH);
     require (\<not> (\<not> ipsEquate sourceIP (dnsIP s) \<and> \<not> ipsEquate sourceIP (dnsIPBackup s)));
     rid \<leftarrow> readNet16 (b_read s packet) 0;
     control \<leftarrow> readNet16 (b_read s packet) 2;
     qdcount \<leftarrow> readNet16 (b_read s packet) 4;
     ancount \<leftarrow> readNet16 (b_read s packet) 6;
     nscount \<leftarrow> readNet16 (b_read s packet) 8;
     arcount \<leftarrow> readNet16 (b_read s packet) 10;
     require (\<not> drop_bit 15 control \<noteq> 1);
     require (\<not> drop_bit 15 (push_bit 6 control) = 1);
     require (\<not> rid - 1 \<ge> ucast (cacheSize s));
     Some (unat (rid - 1), ucast (drop_bit 12 (push_bit 12 control)), qdcount, ancount)
   }"

text \<open>
  \<^verbatim>\<open>while (size > 0){ ptrOffset += size; if (!packet->read8(ptrOffset++,&size)) return; }\<close>, with the test for a
  compression pointer when \<open>pointers\<close>. The offset is a \<^verbatim>\<open>uint16_t\<close>: that the loop ends depends on the size of the
  buffer. The inner \<open>None\<close> is the \<^verbatim>\<open>return\<close>.
\<close>

partial_function (option) skip_name :: "bool \<Rightarrow> reader_fun \<Rightarrow> u16 \<Rightarrow> u8 \<Rightarrow> u16 option option" where
  "skip_name pointers rd ptrOffset sz =
     (if \<not> sz > 0 then Some (Some ptrOffset)
      else if pointers \<and> drop_bit 6 sz = 3 then Some (Some (ptrOffset + 1))
      else case read8 rd (ptrOffset + ucast sz) of
             None \<Rightarrow> Some None
           | Some sz2 \<Rightarrow> skip_name pointers rd (ptrOffset + ucast sz + 1) sz2)"

text \<open>The loop over the questions.\<close>

fun skip_questions :: "reader_fun \<Rightarrow> nat \<Rightarrow> u16 \<Rightarrow> u16 option option" where
  "skip_questions rd 0 ptrOffset = Some (Some ptrOffset)"
| "skip_questions rd (Suc n) ptrOffset =
     (case read8 rd ptrOffset of
        None \<Rightarrow> Some None
      | Some sz \<Rightarrow>
          (case skip_name False rd (ptrOffset + 1) sz of
             None \<Rightarrow> None
           | Some None \<Rightarrow> Some None
           | Some (Some p) \<Rightarrow> skip_questions rd n (p + 4)))"

text \<open>The four bytes of the address, stored one by one; \<open>False\<close> when a read fails and the handler returns.\<close>

fun store_ip :: "reader_fun \<Rightarrow> u16 \<Rightarrow> nat list \<Rightarrow> u8 list \<Rightarrow> bool \<times> u8 list" where
  "store_ip rd ptrOffset [] ip = (True, ip)"
| "store_ip rd ptrOffset (i # is) ip =
     (case read8 rd (ptrOffset + word_of_nat i) of
        None \<Rightarrow> (False, ip)
      | Some b \<Rightarrow> store_ip rd ptrOffset is (ip[i := b]))"

text \<open>The loop over the answers, on the cache entry; it ends with the first answer of four bytes.\<close>

fun read_answers :: "reader_fun \<Rightarrow> nat \<Rightarrow> u16 \<Rightarrow> dnsLookup \<Rightarrow> dnsLookup option" where
  "read_answers rd 0 ptrOffset e = Some e"
| "read_answers rd (Suc n) ptrOffset e =
     (case read8 rd ptrOffset of
        None \<Rightarrow> Some e
      | Some sz \<Rightarrow>
          (case skip_name True rd (ptrOffset + 1) sz of
             None \<Rightarrow> None
           | Some None \<Rightarrow> Some e
           | Some (Some p) \<Rightarrow>
               (case readNet32 rd (p + 4) of
                  None \<Rightarrow> Some e
                | Some t \<Rightarrow>
                    (let e = e\<lparr>ttl := t\<rparr>
                     in case readNet16 rd (p + 4 + 4) of
                          None \<Rightarrow> Some e
                        | Some rdlength \<Rightarrow>
                            if rdlength = 4
                            then Some (e\<lparr>dns_ipAddress := snd (store_ip rd (p + 4 + 4 + 2) [0 ..< 4] (dns_ipAddress e))\<rparr>)
                            else read_answers rd n (p + 4 + 4 + 2 + rdlength) e))))"

text \<open>
  The test \<^verbatim>\<open>cacheEntry->status & PENDING != PENDING\<close> masks the status with the value of the comparison, 0: it never
  ends the handler.
\<close>

definition DNS_handleDatagram :: "u8 list \<Rightarrow> u16 \<Rightarrow> buffer \<Rightarrow> 'a dns_scheme \<Rightarrow> 'a dns_scheme option" where
  "DNS_handleDatagram sourceIP sourcePort packet s =
     (case DNS_read_header s sourceIP packet of
        None \<Rightarrow> Some s
      | Some (i, status, qdcount, ancount) \<Rightarrow>
          if dns_status (cache s ! i) AND (if PENDING \<noteq> PENDING then 1 else 0) \<noteq> 0 then Some s
          else let s = upd_entry i (\<lambda>e. e\<lparr>dns_status := DONE OR status\<rparr>) s
          in if status \<noteq> NO_ERROR then Some s
             else let s = upd_entry i (\<lambda>e. e\<lparr>dns_time := now s\<rparr>) s
             in if ancount \<le> 0
                then Some (upd_entry i (\<lambda>e. e\<lparr>dns_status := DONE OR SERVER_FAILURE\<rparr>) s)
                else do {
                  p \<leftarrow> skip_questions (b_read s packet) (unat qdcount) DNS_HEADER_LENGTH;
                  case p of
                    None \<Rightarrow> Some s
                  | Some p \<Rightarrow> do {
                      e \<leftarrow> read_answers (b_read s packet) (unat ancount) p (cache s ! i);
                      Some (upd_entry i (\<lambda>_. e) s)
                    }
                })"

section \<open>The timer\<close>

text \<open>
  One turn of the loop, for entry \<open>i\<close>; the first component is \<^verbatim>\<open>needTimer\<close>. Sending the name of an entry whose
  name has been freed is undefined.
\<close>

definition DNS_timer_entry :: "nat \<Rightarrow> bool \<times> 'a dns_scheme \<Rightarrow> (bool \<times> 'a dns_scheme) option" where
  "DNS_timer_entry i = (\<lambda>(needTimer, s).
     let e = cache s ! i
     in if dns_status e = PENDING OR NO_ERROR \<and> now s - dns_time e > 1000
        then if dns_attempts e \<ge> 5
             then Some (needTimer, upd_entry i (\<lambda>e. e\<lparr>dns_status := DONE OR NO_RESPONSE\<rparr>) s)
             else let s = upd_entry i (\<lambda>e. e\<lparr>dns_attempts := dns_attempts e + 1, dns_time := now s\<rparr>) s;
                      dnsServer = (if dns_attempts (cache s ! i) mod 2 = 0 then dnsIPBackup s else dnsIP s)
                  in case domainName (cache s ! i) of
                       None \<Rightarrow> None
                     | Some name \<Rightarrow> Some (True, snd (sendDNSRequest name (word_of_nat (i + 1)) dnsServer s))
        else Some (needTimer, s))"

definition DNS_handleTimer :: "u8 \<Rightarrow> 'a dns_scheme \<Rightarrow> 'a dns_scheme option" where
  "DNS_handleTimer index s = do {
     (needTimer, s) \<leftarrow> each DNS_timer_entry [0 ..< unat (cacheSize s)] (False, s);
     if \<not> needTimer
     then do { s \<leftarrow> unregisterTimer (dns_timer s) s; Some (s\<lparr>dns_timer := 0\<rparr>) }
     else Some s
   }"

section \<open>The handler returns\<close>

text \<open>
  Reads at or behind \<open>n\<close> fail, the last address apart: the packet is an OffsetBuffer of \<open>n\<close> bytes, whose check wraps
  there.
\<close>

definition bounded :: "nat \<Rightarrow> reader_fun \<Rightarrow> bool" where
  "bounded n rd = (n + 256 < 65536 \<and> (\<forall>off. n \<le> unat off \<longrightarrow> unat off < 65535 \<longrightarrow> read8 rd off = None))"

lemma bounded_Offset: "unat l + 256 < 65536 \<Longrightarrow> bounded (unat l) (b_read s (OffsetBuffer inner off l))"
  by (auto simp: bounded_def read8_def intro!: Offset_rejects simp del: b_read.simps)

lemma skip_name_inside:
  assumes "bounded n rd" and "unat ptr \<le> n"
  shows "skip_name pointers rd ptr sz \<noteq> None"
  using assms(2)
proof (induction "n - unat ptr" arbitrary: ptr sz rule: less_induct)
  case less
  show ?case
  proof (cases "sz > 0 \<and> \<not> (pointers \<and> drop_bit 6 sz = 3)")
    case False
    then show ?thesis by (subst skip_name.simps) auto
  next
    case True
    have b: "n + 256 < 65536" using assms(1) by (simp add: bounded_def)
    have "0 < unat sz" using True by (simp add: word_less_nat_alt)
    moreover have "unat (ucast sz :: u16) = unat sz"
      using unat8_le [of sz] by (simp add: unsigned_ucast_eq take_bit_nat_eq_self_iff)
    ultimately have r: "unat (ptr + ucast sz) = unat ptr + unat sz" "0 < unat sz" "unat sz \<le> 255"
      using less.prems b unat8_le [of sz] by (simp_all add: unat_add16)
    show ?thesis
    proof (cases "read8 rd (ptr + ucast sz)")
      case None
      then show ?thesis using True by (subst skip_name.simps) auto
    next
      case (Some sz')
      have "unat (ptr + ucast sz) < 65535" using r less.prems b by linarith
      with Some assms(1) have "unat (ptr + ucast sz) < n" by (metis bounded_def not_less option.distinct(1))
      then have p: "unat (ptr + ucast sz + 1) = unat ptr + unat sz + 1" "unat ptr + unat sz + 1 \<le> n"
        using r b by (simp_all add: unat_add16)
      have "skip_name pointers rd (ptr + ucast sz + 1) sz' \<noteq> None"
        using p r(2) by (intro less.hyps) auto
      then show ?thesis using True Some by (subst skip_name.simps) auto
    qed
  qed
qed

lemma skip_name_returns:
  assumes "bounded n rd"
  shows "skip_name pointers rd ptr sz \<noteq> None"
proof (cases "read8 rd (ptr + ucast sz)")
  case None
  then show ?thesis by (subst skip_name.simps) auto
next
  case (Some sz')
  have b: "n + 256 < 65536" using assms by (simp add: bounded_def)
  have "unat (ptr + ucast sz) < n \<or> \<not> unat (ptr + ucast sz) < 65535"
    using assms Some by (auto simp: bounded_def not_less [symmetric])
  then have "unat (ptr + ucast sz + 1) \<le> n"
  proof
    assume "\<not> unat (ptr + ucast sz) < 65535"
    then have "unat (ptr + ucast sz) = 65535" using unat16_le [of "ptr + ucast sz"] by simp
    then show ?thesis by (subst unat_word_ariths) simp
  qed (use b in \<open>simp add: unat_add16\<close>)
  then have "skip_name pointers rd (ptr + ucast sz + 1) sz' \<noteq> None" by (rule skip_name_inside [OF assms])
  then show ?thesis using Some by (subst skip_name.simps) auto
qed

lemma skip_questions_returns:
  assumes "bounded n rd"
  shows "skip_questions rd k ptr \<noteq> None"
  by (induction k arbitrary: ptr)
    (simp_all add: skip_name_returns [OF assms] split: option.split del: not_None_eq)

lemma read_answers_returns:
  assumes "bounded n rd"
  shows "read_answers rd k ptr e \<noteq> None"
  by (induction k arbitrary: ptr e)
    (simp_all add: skip_name_returns [OF assms] Let_def split: option.split del: not_None_eq)

text \<open>What the loop over the answers can change.\<close>

lemma read_answers_keeps:
  "read_answers rd k ptr e = Some e' \<Longrightarrow>
    domainName e' = domainName e \<and> dns_status e' = dns_status e \<and> dns_time e' = dns_time e \<and> dns_attempts e' = dns_attempts e"
proof (induction k arbitrary: ptr e)
  case (Suc k)
  show ?case
    using Suc.prems by (auto split: option.splits if_splits simp: Let_def dest!: Suc.IH)
qed simp

section \<open>What a response changes\<close>

definition dns_ok :: "'a dns_scheme \<Rightarrow> bool" where
  "dns_ok s = (ip_ok s \<and> unat (cacheSize s) \<le> length (cache s) \<and> length (cache s) \<le> 255
     \<and> length (dnsIP s) = 4 \<and> length (dnsIPBackup s) = 4 \<and> (\<forall>e \<in> set (cache s). length (dns_ipAddress e) = 4))"

lemma upd_entry_twice [simp]: "upd_entry i f (upd_entry i g s) = upd_entry i (\<lambda>e. f (g e)) s"
  by (cases "i < length (cache s)") (simp_all add: upd_entry_def list_update_beyond)

lemma upd_entry_simps [simp]:
  "i < length (cache s) \<Longrightarrow> cache (upd_entry i f s) ! i = f (cache s ! i)"
  "length (cache (upd_entry i f s)) = length (cache s)" "now (upd_entry i f s) = now s"
  "b_read (upd_entry i f s) b = b_read s b"
proof -
  have "b_read (s\<lparr>cache := c\<rparr>) b off n = b_read s b off n" for c off n
    by (induction b arbitrary: off) (auto simp: driver_read_def split: option.split)
  then show "b_read (upd_entry i f s) b = b_read s b" by (simp add: upd_entry_def fun_eq_iff)
qed (simp_all add: upd_entry_def)

text \<open>The checks of the header, in terms of the bytes.\<close>

definition dns_accepts :: "'a dns_scheme \<Rightarrow> u8 list \<Rightarrow> u8 list \<Rightarrow> bool" where
  "dns_accepts s src B = (12 \<le> length B \<and> (src = dnsIP s \<or> src = dnsIPBackup s)
     \<and> bit (net16 (B ! 2) (B ! 3)) 15 \<and> \<not> bit (net16 (B ! 2) (B ! 3)) 9
     \<and> 1 \<le> unat (net16 (B ! 0) (B ! 1)) \<and> unat (net16 (B ! 0) (B ! 1)) \<le> unat (cacheSize s))"

lemma flag_bits:
  fixes w :: u16
  shows "drop_bit 15 w = 1 \<longleftrightarrow> bit w 15" and "bit (push_bit 6 w) 15 \<longleftrightarrow> bit w 9"
proof -
  have "drop_bit 15 w = (if bit w 15 then 1 else 0)"
  proof (rule bit_word_eqI)
    fix n
    show "bit (drop_bit 15 w) n = bit (if bit w 15 then 1 else 0 :: u16) n"
      using bit_imp_le_length [of w "15 + n"] by (cases "n = 0") (auto simp: bit_simps bit_1_iff)
  qed
  then show "drop_bit 15 w = 1 \<longleftrightarrow> bit w 15" by simp
  show "bit (push_bit 6 w) 15 \<longleftrightarrow> bit w 9" by (simp add: bit_simps)
qed

lemma id_in_cache:
  "\<not> (rid :: u16) - 1 \<ge> ucast (n :: u8) \<longleftrightarrow> 1 \<le> unat rid \<and> unat rid \<le> unat n"
proof -
  have n: "unat (ucast n :: u16) = unat n"
    using unat8_le [of n] by (simp add: unsigned_ucast_eq take_bit_nat_eq_self_iff)
  show ?thesis
  proof (cases "rid = 0")
    case True
    then show ?thesis using n unat8_le [of n] by (simp add: not_le word_less_nat_alt)
  next
    case False
    then have "0 < unat rid" by (simp add: unat_gt_0)
    then have "unat (rid - 1) = unat rid - 1" by (subst unat_sub16) (simp_all add: le16_iff)
    then show ?thesis using n \<open>0 < unat rid\<close> by (auto simp: not_le word_less_nat_alt)
  qed
qed

lemma DNS_read_header_eq:
  assumes "dns_ok s" and "length src = 4" and "b_ok s packet"
  defines "B \<equiv> b_bytes s packet"
  shows "DNS_read_header s src packet = (if dns_accepts s src B
    then Some (unat (net16 (B ! 0) (B ! 1)) - 1, ucast (drop_bit 12 (push_bit 12 (net16 (B ! 2) (B ! 3)))),
      net16 (B ! 4) (B ! 5), net16 (B ! 6) (B ! 7)) else None)"
proof -
  have len: "length B = unat (b_size packet)" unfolding B_def using assms(3) by (rule buf.length_bytes)
  show ?thesis
  proof (cases "b_size packet < DNS_HEADER_LENGTH")
    case True
    then have "\<not> dns_accepts s src B" using len by (simp add: dns_accepts_def less16 DNS_HEADER_LENGTH_def)
    with True show ?thesis by (simp add: DNS_read_header_def)
  next
    case False
    then have sz: "12 \<le> unat (b_size packet)" by (simp add: less16 DNS_HEADER_LENGTH_def)
    have r: "readNet16 (b_read s packet) 0 = Some (net16 (B ! 0) (B ! 1))"
      "readNet16 (b_read s packet) 2 = Some (net16 (B ! 2) (B ! 3))"
      "readNet16 (b_read s packet) 4 = Some (net16 (B ! 4) (B ! 5))"
      "readNet16 (b_read s packet) 6 = Some (net16 (B ! 6) (B ! 7))"
      "readNet16 (b_read s packet) 8 = Some (net16 (B ! 8) (B ! 9))"
      "readNet16 (b_read s packet) 10 = Some (net16 (B ! 10) (B ! 11))"
      using assms(3) sz by (simp_all add: getters B_def)
    have e: "ipsEquate src (dnsIP s) = (src = dnsIP s)" "ipsEquate src (dnsIPBackup s) = (src = dnsIPBackup s)"
      using assms(1,2) by (simp_all add: ipsEquate_eq dns_ok_def)
    have u: "unat (net16 (B ! 0) (B ! 1) - 1) = unat (net16 (B ! 0) (B ! 1)) - 1"
      if "1 \<le> unat (net16 (B ! 0) (B ! 1))" using that by (subst unat_sub16) (simp_all add: le16_iff)
    show ?thesis
      unfolding DNS_read_header_def r e bind.bind_lunit id_in_cache flag_bits not_not
      using sz len False u by (auto simp: dns_accepts_def require_def)
  qed
qed

lemma store_ip_length [simp]: "length (snd (store_ip rd ptr is ip)) = length ip"
  by (induction "is" arbitrary: ip) (auto split: option.split)

lemma read_answers_length: "read_answers rd k ptr e = Some e' \<Longrightarrow> length (dns_ipAddress e') = length (dns_ipAddress e)"
  by (induction k arbitrary: ptr e) (auto split: option.splits if_splits simp: Let_def)

lemma rcode_nibble: "(DONE OR ucast (drop_bit 12 (push_bit 12 (w :: u16)))) AND 0xF0 = DONE"
proof (rule bit_word_eqI)
  fix n
  assume "n < LENGTH(8)"
  then consider "n = 0" | "n = 1" | "n = 2" | "n = 3" | "n = 4" | "n = 5" | "n = 6" | "n = 7" by fastforce
  then show "bit ((DONE OR ucast (drop_bit 12 (push_bit 12 w))) AND 0xF0) n = bit DONE n"
    by cases (simp_all add: DONE_def bit_simps)
qed

text \<open>An accepted response updates the status, and then possibly the other fields, of its entry.\<close>

lemma DNS_handleDatagram_effect:
  assumes "dns_ok s" and "length src = 4" and "b_ok s packet" and "packet = OffsetBuffer inner off len"
    and "unat len < 65280" and "dns_accepts s src (b_bytes s packet)"
  defines "i \<equiv> unat (net16 (b_bytes s packet ! 0) (b_bytes s packet ! 1)) - 1"
  shows "\<exists>e. DNS_handleDatagram src sport packet s = Some (s\<lparr>cache := (cache s)[i := e]\<rparr>)
    \<and> domainName e = domainName (cache s ! i) \<and> dns_attempts e = dns_attempts (cache s ! i)
    \<and> length (dns_ipAddress e) = 4 \<and> dns_status e AND 0xF0 = DONE \<and> i < unat (cacheSize s)"
proof -
  let ?B = "b_bytes s packet" and ?k = "cache s ! i"
  let ?st = "ucast (drop_bit 12 (push_bit 12 (net16 (?B ! 2) (?B ! 3)))) :: u8"
  have i: "i < unat (cacheSize s)" "i < length (cache s)"
    using assms(1,6) by (auto simp: dns_accepts_def dns_ok_def i_def)
  have upd: "upd_entry i f s = s\<lparr>cache := (cache s)[i := f ?k]\<rparr>" for f by (simp add: upd_entry_def)
  have k4: "length (dns_ipAddress ?k) = 4" using assms(1) i(2) by (simp add: dns_ok_def)
  have st: "(DONE OR ?st) AND 0xF0 = DONE" by (rule rcode_nibble)
  have sf: "(DONE OR SERVER_FAILURE) AND 0xF0 = DONE" by (simp add: dns_consts)
  have hd: "DNS_read_header s src packet = Some (i, ?st, net16 (?B ! 4) (?B ! 5), net16 (?B ! 6) (?B ! 7))"
    using DNS_read_header_eq [OF assms(1-3)] assms(6) by (simp add: i_def)
  let ?goal = "\<lambda>r. \<exists>e. r = Some (s\<lparr>cache := (cache s)[i := e]\<rparr>) \<and> domainName e = domainName ?k
      \<and> dns_attempts e = dns_attempts ?k \<and> length (dns_ipAddress e) = 4 \<and> dns_status e AND 0xF0 = DONE"
  let ?s1 = "upd_entry i (\<lambda>e. e\<lparr>dns_status := DONE OR ?st\<rparr>) s"
  let ?s2 = "upd_entry i (\<lambda>e. e\<lparr>dns_status := DONE OR ?st, dns_time := now s\<rparr>) s"
  have G: "?goal (Some (upd_entry i f s))"
    if "domainName (f ?k) = domainName ?k" "dns_attempts (f ?k) = dns_attempts ?k" "length (dns_ipAddress (f ?k)) = 4"
      "dns_status (f ?k) AND 0xF0 = DONE" for f
    using that upd by blast
  have rd: "bounded (unat len) (b_read s packet)"
    using assms(5) unfolding assms(4) by (intro bounded_Offset) simp
  have "?goal (DNS_handleDatagram src sport packet s)"
  proof (cases "?st \<noteq> NO_ERROR")
    case True
    then have "DNS_handleDatagram src sport packet s = Some ?s1"
      by (simp add: DNS_handleDatagram_def hd Let_def)
    then show ?thesis using G [of "\<lambda>e. e\<lparr>dns_status := DONE OR ?st\<rparr>"] st k4 by simp
  next
    case ok: False
    show ?thesis
    proof (cases "net16 (?B ! 6) (?B ! 7) = 0")
      case True
      then have "DNS_handleDatagram src sport packet s
          = Some (upd_entry i (\<lambda>e. e\<lparr>dns_time := now s, dns_status := DONE OR SERVER_FAILURE\<rparr>) s)"
        using ok by (simp add: DNS_handleDatagram_def hd Let_def)
      then show ?thesis
        using G [of "\<lambda>e. e\<lparr>dns_time := now s, dns_status := DONE OR SERVER_FAILURE\<rparr>"] sf k4 by simp
    next
      case False
      obtain p where p: "skip_questions (b_read s packet) (unat (net16 (?B ! 4) (?B ! 5))) DNS_HEADER_LENGTH = Some p"
        using skip_questions_returns [OF rd] by (meson not_None_eq)
      show ?thesis
      proof (cases p)
        case None
        then have "DNS_handleDatagram src sport packet s = Some ?s2"
          using ok False p by (simp add: DNS_handleDatagram_def hd Let_def)
        then show ?thesis using G [of "\<lambda>e. e\<lparr>dns_status := DONE OR ?st, dns_time := now s\<rparr>"] st k4 by simp
      next
        case (Some q)
        let ?k2 = "?k\<lparr>dns_status := DONE OR ?st, dns_time := now s\<rparr>"
        obtain e where e: "read_answers (b_read s packet) (unat (net16 (?B ! 6) (?B ! 7))) q ?k2 = Some e"
          using read_answers_returns [OF rd] by (meson not_None_eq)
        have "DNS_handleDatagram src sport packet s = Some (upd_entry i (\<lambda>_. e) s)"
          using ok False p Some e i(2) by (simp add: DNS_handleDatagram_def hd Let_def)
        moreover have "domainName e = domainName ?k" "dns_attempts e = dns_attempts ?k" "dns_status e = DONE OR ?st"
          "length (dns_ipAddress e) = 4"
          using read_answers_keeps [OF e] read_answers_length [OF e] k4 by simp_all
        ultimately show ?thesis using G [of "\<lambda>_. e"] st by simp
      qed
    qed
  qed
  with i(1) show ?thesis by blast
qed

lemma dns_ok_entry:
  assumes "dns_ok s" and "length (dns_ipAddress e) = 4"
  shows "dns_ok (s\<lparr>cache := (cache s)[i := e]\<rparr>)"
proof -
  have "ip_ok (s\<lparr>cache := c\<rparr>) = ip_ok s" for c
    by (simp add: ip_ok_def arp_ok_def arp_net_ok_def eth_ok_def b_wok_def b_ok_def timers_ok_def)
  then show ?thesis
    using assms by (auto simp: dns_ok_def dest!: set_update_subset_insert [THEN subsetD])
qed

section \<open>Names and answers in a message\<close>

text \<open>Labels, each behind its length, and a terminator: a 0, or a compression pointer of two bytes.\<close>

definition dns_name :: "u8 list list \<Rightarrow> u8 list \<Rightarrow> u8 list" where
  "dns_name ls term = concat (map (\<lambda>l. word_of_nat (length l) # l) ls) @ term"

definition dns_labels :: "u8 list list \<Rightarrow> bool" where
  "dns_labels ls = (\<forall>l \<in> set ls. 0 < length l \<and> length l < 64)"

definition terminator :: "bool \<Rightarrow> u8 list \<Rightarrow> bool" where
  "terminator pointers term = (term = [0] \<or> pointers \<and> (\<exists>c d. term = [c, d] \<and> drop_bit 6 c = 3))"

lemma label_length:
  assumes "0 < length (l :: u8 list)" and "length l < 64"
  shows "unat (word_of_nat (length l) :: u8) = length l" and "(word_of_nat (length l) :: u8) > 0"
    and "drop_bit 6 (word_of_nat (length l) :: u8) \<noteq> 3"
proof -
  show u: "unat (word_of_nat (length l) :: u8) = length l"
    using assms(2) by (simp add: unat_of_nat)
  then show "(word_of_nat (length l) :: u8) > 0" using assms(1) by (simp add: word_less_nat_alt)
  have "unat (drop_bit 6 (word_of_nat (length l) :: u8)) = length l div 64"
    unfolding unat_drop_bit_eq u by (simp add: drop_bit_eq_div)
  then show "drop_bit 6 (word_of_nat (length l) :: u8) \<noteq> 3" using assms(2) by (auto simp: word_unat_eq_iff)
qed

lemma unat_ucast16: "unat (ucast (b :: u8) :: u16) = unat b"
  using unat8_le [of b] by (simp add: unsigned_ucast_eq take_bit_nat_eq_self_iff)

lemma unat_plus16: "unat (a :: u16) + n < 65536 \<Longrightarrow> unat (a + word_of_nat n) = unat a + n"
  by (subst unat_add16) (simp_all add: unat_of_nat16)

text \<open>The loop over the labels stops behind the name.\<close>

lemma skip_name_labels:
  assumes "b_ok s b" and "length (b_bytes s b) < 65536" and "dns_labels ls" and "terminator pointers term"
    and "b_bytes s b = pre @ dns_name ls term @ rest" and "unat ptr = length pre + 1"
    and "sz = dns_name ls term ! 0"
  shows "\<exists>p. skip_name pointers (b_read s b) ptr sz = Some (Some p) \<and> unat p = length pre + length (dns_name ls term)"
  using assms(3,5-)
proof (induction ls arbitrary: pre ptr sz)
  case Nil
  from assms(4) consider "term = [0]" | c d where "pointers" "term = [c, d]" "drop_bit 6 c = 3" by (auto simp: terminator_def)
  then show ?case
  proof cases
    case 1
    with Nil show ?thesis by (subst skip_name.simps) (auto simp: dns_name_def)
  next
    case 2
    then have "c \<noteq> 0" by auto
    then have "c > 0" by (simp add: word_neq_0_conv)
    moreover have "unat (ptr + 1) = length pre + 2"
      using Nil assms(2) 2 by (subst unat_add16) (simp_all add: dns_name_def)
    ultimately show ?thesis using 2 Nil by (subst skip_name.simps) (auto simp: dns_name_def)
  qed
next
  case (Cons l ls)
  have l: "0 < length l" "length l < 64" "dns_labels ls" using Cons.prems(1) by (auto simp: dns_labels_def)
  note w = label_length [OF l(1,2)]
  have sz: "sz = word_of_nat (length l)" using Cons.prems(4) by (simp add: dns_name_def)
  have B: "b_bytes s b = (pre @ word_of_nat (length l) # l) @ dns_name ls term @ rest"
    using Cons.prems(2) by (simp add: dns_name_def)
  have "0 < length (dns_name ls term)" using assms(4) by (auto simp: dns_name_def terminator_def)
  then obtain m where ne: "length (dns_name ls term) = Suc m" using gr0_implies_Suc by blast
  have r: "unat (ptr + ucast sz) = length pre + 1 + length l"
    using assms(2) B ne Cons.prems(3) w(1) by (subst unat_add16) (simp_all add: unat_ucast16 sz)
  have lt: "unat (ptr + ucast sz) < unat (b_size b)"
    using buf.length_bytes [OF assms(1)] B ne r by simp
  have nx: "read8 (b_read s b) (ptr + ucast sz) = Some (dns_name ls term ! 0)"
    using buf.read8_inside [OF assms(1) lt] ne unfolding r B by (simp add: nth_append)
  have r1: "unat (ptr + ucast sz + 1) = length (pre @ word_of_nat (length l) # l) + 1"
    using assms(2) B ne r by (subst unat_add16) simp_all
  from Cons.IH [OF l(3) B r1 refl] obtain p
    where p: "skip_name pointers (b_read s b) (ptr + ucast sz + 1) (dns_name ls term ! 0) = Some (Some p)"
      "unat p = length (pre @ word_of_nat (length l) # l) + length (dns_name ls term)" by blast
  have "skip_name pointers (b_read s b) ptr sz = Some (Some p)"
    using w(2,3) nx p(1) by (subst skip_name.simps) (simp add: sz)
  then show ?case using p(2) by (auto simp: dns_name_def)
qed

lemma store_ip_at:
  assumes "b_ok s b" and "b_bytes s b = pre @ ip @ rest" and "unat off = length pre" and "length ip = 4"
    and "length old = 4" and "length (b_bytes s b) < 65536"
  shows "store_ip (b_read s b) off [0 ..< 4] old = (True, ip)"
proof -
  obtain a b' c d where ip: "ip = [a, b', c, d]" using assms(4) by (auto simp: list4)
  obtain w x y z where old: "old = [w, x, y, z]" using assms(5) by (auto simp: list4)
  have "unat (off + 1) = length pre + 1" "unat (off + 2) = length pre + 2" "unat (off + 3) = length pre + 3"
    using assms(2,3,6) ip by (simp_all add: unat_add16)
  then have "read8 (b_read s b) off = Some a" "read8 (b_read s b) (off + 1) = Some b'"
    "read8 (b_read s b) (off + 2) = Some c" "read8 (b_read s b) (off + 3) = Some d"
    using assms(2,3) ip read8_at [OF assms(1), of off pre a "[b', c, d] @ rest"]
      read8_at [OF assms(1), of "off + 1" "pre @ [a]" b' "[c, d] @ rest"]
      read8_at [OF assms(1), of "off + 2" "pre @ [a, b']" c "d # rest"]
      read8_at [OF assms(1), of "off + 3" "pre @ [a, b', c]" d rest] by simp_all
  then show ?thesis by (simp add: upt_rec ip old)
qed

lemma dns_name_hd:
  assumes "terminator pointers term"
  shows "dns_name ls term = dns_name ls term ! 0 # tl (dns_name ls term)"
proof -
  have "dns_name ls term \<noteq> []" using assms by (cases ls) (auto simp: dns_name_def terminator_def)
  then show ?thesis by (cases "dns_name ls term") auto
qed

lemma skip_questions_at:
  assumes "b_ok s b" and "length (b_bytes s b) < 65536" and "dns_labels ls"
    and "b_bytes s b = pre @ dns_name ls [0] @ qtc @ rest" and "length qtc = 4" and "unat ptr = length pre"
  shows "\<exists>p. skip_questions (b_read s b) 1 ptr = Some (Some p) \<and> unat p = length pre + length (dns_name ls [0]) + 4"
proof -
  have tm: "terminator False [0]" by (simp add: terminator_def)
  note h = dns_name_hd [OF tm, of ls]
  have "unat (ptr + 1) = length pre + 1"
    using assms(2,4,5,6) by (subst unat_add16) simp_all
  from skip_name_labels [OF assms(1-3) tm assms(4) this refl] obtain p
    where p: "skip_name False (b_read s b) (ptr + 1) (dns_name ls [0] ! 0) = Some (Some p)"
      "unat p = length pre + length (dns_name ls [0])" by blast
  have "read8 (b_read s b) ptr = Some (dns_name ls [0] ! 0)"
    by (rule read8_at [OF assms(1,6), of _ "tl (dns_name ls [0]) @ qtc @ rest"]) (use assms(4) h in \<open>metis append_Cons\<close>)
  then have "skip_questions (b_read s b) (Suc 0) ptr = Some (Some (p + 4))" using p(1) by simp
  moreover have "unat (p + 4) = length pre + length (dns_name ls [0]) + 4"
    using p(2) assms(2,4,5) by (subst unat_add16) simp_all
  ultimately show ?thesis by auto
qed

lemma read_answers_at:
  assumes "b_ok s b" and "length (b_bytes s b) < 65536" and "dns_labels ls" and "terminator True term"
    and "b_bytes s b = pre @ dns_name ls term @ atc @ be32 t @ be16 4 @ ip @ rest"
    and "length atc = 4" and "length ip = 4" and "unat ptr = length pre" and "length (dns_ipAddress e) = 4"
  shows "read_answers (b_read s b) (Suc k) ptr e = Some (e\<lparr>ttl := t, dns_ipAddress := ip\<rparr>)"
proof -
  let ?n = "dns_name ls term"
  note h = dns_name_hd [OF assms(4), of ls]
  have "unat (ptr + 1) = length pre + 1"
    using assms(2,5-8) by (subst unat_add16) simp_all
  from skip_name_labels [OF assms(1-5) this refl] obtain p
    where p: "skip_name True (b_read s b) (ptr + 1) (?n ! 0) = Some (Some p)" "unat p = length pre + length ?n" by blast
  have u: "unat (p + 4) = length pre + length ?n + 4" "unat (p + 8) = length pre + length ?n + 8"
    "unat (p + 10) = length pre + length ?n + 10"
    using p(2) assms(2,5-7) by (simp_all add: unat_add16)
  have "read8 (b_read s b) ptr = Some (?n ! 0)"
    by (rule read8_at [OF assms(1,8), of _ "tl ?n @ atc @ be32 t @ be16 4 @ ip @ rest"])
      (use assms(5) h in \<open>metis append_Cons\<close>)
  moreover have "readNet32 (b_read s b) (p + 4) = Some t"
    by (rule readNet32_at [OF assms(1), of _ "pre @ ?n @ atc" _ "be16 4 @ ip @ rest"]) (use assms(5,6) u in simp_all)
  moreover have "readNet16 (b_read s b) (p + 8) = Some 4"
    by (rule readNet16_at [OF assms(1), of _ "pre @ ?n @ atc @ be32 t" _ "ip @ rest"]) (use assms(5,6) u in simp_all)
  moreover have "store_ip (b_read s b) (p + 10) [0 ..< 4] (dns_ipAddress e) = (True, ip)"
    by (rule store_ip_at [OF assms(1), of "pre @ ?n @ atc @ be32 t @ be16 4" _ rest])
      (use assms(2,5,6,7,9) u in simp_all)
  ultimately show ?thesis using p(1) by (simp add: add.assoc)
qed

text \<open>The search for a name gives the first entry with it; it does not depend on the other fields.\<close>

lemma find_name_nth:
  "find_name name es = Some (Some i) \<Longrightarrow> i < length es \<and> domainName (es ! i) = Some name"
proof (induction es arbitrary: i)
  case (Cons e es)
  then show ?case by (cases i) (auto split: option.splits if_splits)
qed simp

lemma find_name_same:
  "map domainName es = map domainName es' \<Longrightarrow> find_name name es = find_name name es'"
proof (induction es arbitrary: es')
  case (Cons e es)
  then show ?case by (cases es') (auto split: option.split)
qed auto

section \<open>Properties\<close>

text \<open>
  C15: The response handler returns. Whatever bytes a datagram of up to 65279 bytes holds, and whichever labels, pointers
  and lengths they claim, the loops of \<^verbatim>\<open>handleDatagram\<close> over labels, questions and answers end.
\<close>

theorem dns_handler_returns:
  assumes "dns_ok s" and "length src = 4" and "b_ok s (OffsetBuffer inner off len)" and "unat len < 65280"
  shows "\<exists>s'. DNS_handleDatagram src sport (OffsetBuffer inner off len) s = Some s' \<and> dns_ok s'"
proof (cases "dns_accepts s src (b_bytes s (OffsetBuffer inner off len))")
  case True
  then show ?thesis
    using DNS_handleDatagram_effect [OF assms(1-3) refl assms(4), of sport] dns_ok_entry [OF assms(1)] by blast
next
  case False
  then show ?thesis using assms(1) DNS_read_header_eq [OF assms(1-3)] by (simp add: DNS_handleDatagram_def)
qed

text \<open>
  C16: Only the entry a server answers for changes. A datagram has an effect only when it comes from one of the two
  configured servers, has a complete header with the response bit set and the truncation bit clear, and an id between 1
  and the number of entries in use. Then exactly one entry changes, the one with that id: its name and its attempt
  counter stay, and it counts as done.
\<close>

theorem dns_changes_answered_entry:
  assumes "dns_ok s" and "length src = 4" and "b_ok s (OffsetBuffer inner off len)" and "unat len < 65280"
    and "DNS_handleDatagram src sport (OffsetBuffer inner off len) s = Some s'" and "s' \<noteq> s"
  defines "B \<equiv> b_bytes s (OffsetBuffer inner off len)"
  defines "rid \<equiv> unat (net16 (B ! 0) (B ! 1))"
  shows "12 \<le> length B \<and> src \<in> {dnsIP s, dnsIPBackup s} \<and> bit (B ! 2) 7 \<and> \<not> bit (B ! 2) 1
    \<and> 1 \<le> rid \<and> rid \<le> unat (cacheSize s)
    \<and> (\<exists>e. s' = s\<lparr>cache := (cache s)[rid - 1 := e]\<rparr> \<and> domainName e = domainName (cache s ! (rid - 1))
        \<and> dns_attempts e = dns_attempts (cache s ! (rid - 1)) \<and> dns_status e AND 0xF0 = DONE)"
proof -
  have acc: "dns_accepts s src B"
    using assms(5,6) DNS_read_header_eq [OF assms(1-3)] unfolding B_def
    by (rule_tac ccontr) (simp add: DNS_handleDatagram_def)
  then have "bit (B ! 2) 7" "\<not> bit (B ! 2) 1" by (simp_all add: dns_accepts_def net16_bit)
  with acc DNS_handleDatagram_effect [OF assms(1-3) refl assms(4) acc [unfolded B_def], of sport] assms(5)
  show ?thesis unfolding dns_accepts_def rid_def B_def by fastforce
qed

text \<open>
  C17: An answer is used until it expires. A response without error (response code 0) whose id is that of the entry with a
  name, with one question and a first answer of four bytes (its name written out or a compression pointer; whatever
  follows), makes \<^verbatim>\<open>resolve\<close> return the answer's address for that name, without sending a request, as long as
  not more milliseconds have passed than the answer's time to live (times 1000, in 32 bits) says.
\<close>

theorem dns_answer_resolves:
  assumes "dns_ok s" and "src \<in> {dnsIP s, dnsIPBackup s}"
    and "b_ok s (OffsetBuffer inner off len)" and "unat len < 65280"
    and "find_name name (take (unat (cacheSize s)) (cache s)) = Some (Some i)"
    and "b_bytes s (OffsetBuffer inner off len) = be16 (word_of_nat (i + 1)) @ be16 flags @ be16 1 @ be16 an @ counts
      @ dns_name qs [0] @ qtc @ dns_name as term @ atc @ be32 t @ be16 4 @ ip @ rest"
    and "length counts = 4" and "length qtc = 4" and "length atc = 4" and "length ip = 4" and "an \<noteq> 0"
    and "dns_labels qs" and "dns_labels as" and "terminator True term"
    and "bit flags 15" and "\<not> bit flags 9" and "drop_bit 12 (push_bit 12 flags) = 0"
    and "unat d \<le> unat (t * 1000)"
  shows "\<exists>s'. DNS_handleDatagram src sport (OffsetBuffer inner off len) s = Some s'
    \<and> resolve allocated name False (s'\<lparr>now := now s + d\<rparr>) = Some (Some ip, NO_ERROR, s'\<lparr>now := now s + d\<rparr>)"
proof -
  let ?b = "OffsetBuffer inner off len"
  let ?rid = "word_of_nat (i + 1) :: u16"
  let ?B = "b_bytes s ?b" and ?e = "cache s ! i"
  let ?e' = "?e\<lparr>dns_status := DONE, dns_time := now s, ttl := t, dns_ipAddress := ip\<rparr>"
  let ?s' = "upd_entry i (\<lambda>_. ?e') s"
  have src: "length src = 4" and c: "unat (cacheSize s) \<le> length (cache s)" "length (cache s) \<le> 255"
    using assms(1,2) by (auto simp: dns_ok_def)
  have i: "i < unat (cacheSize s)" "i < length (cache s)" using find_name_nth [OF assms(5)] by auto
  have rid: "unat ?rid = i + 1" using i c by (intro unat_of_nat16) simp
  have len: "length ?B = unat len" using buf.length_bytes [OF assms(3)] by simp
  have B: "?B ! 0 = be16 ?rid ! 0" "?B ! 1 = be16 ?rid ! 1" "?B ! 2 = be16 flags ! 0" "?B ! 3 = be16 flags ! 1"
    "?B ! 4 = 0" "?B ! 5 = 1" "?B ! 6 = be16 an ! 0" "?B ! 7 = be16 an ! 1"
    unfolding assms(6) by (simp_all add: be16_def nth_append bo_simps)
  have nets: "net16 (?B ! 0) (?B ! 1) = ?rid" "net16 (?B ! 2) (?B ! 3) = flags" "net16 (?B ! 4) (?B ! 5) = 1"
    "net16 (?B ! 6) (?B ! 7) = an"
    unfolding B by (simp_all add: be16_def bo_simps) (simp add: net16_def)
  have acc: "dns_accepts s src ?B"
    unfolding dns_accepts_def nets rid using assms(2,6,7,15,16) i by auto
  have hd: "DNS_read_header s src ?b = Some (i, 0, 1, an)"
    using DNS_read_header_eq [OF assms(1) src assms(3)] acc assms(17) unfolding nets rid by simp
  have small: "length ?B < 65536" using len assms(4) by simp
  obtain p where p: "skip_questions (b_read s ?b) 1 DNS_HEADER_LENGTH = Some (Some p)"
      "unat p = 12 + length (dns_name qs [0]) + 4"
    using skip_questions_at [OF assms(3) small assms(12), of "be16 ?rid @ be16 flags @ be16 1 @ be16 an @ counts" qtc
        "dns_name as term @ atc @ be32 t @ be16 4 @ ip @ rest" DNS_HEADER_LENGTH] assms(6,7,8)
    by (auto simp: DNS_HEADER_LENGTH_def)
  obtain k where k: "unat an = Suc k" using assms(11) by (metis unat_eq_zero not0_implies_Suc)
  have l4: "length (dns_ipAddress ?e) = 4" using assms(1) i by (simp add: dns_ok_def)
  have ra: "read_answers (b_read s ?b) (unat an) p (?e\<lparr>dns_status := DONE, dns_time := now s\<rparr>) = Some ?e'"
    unfolding k by (subst read_answers_at [OF assms(3) small assms(13,14), where rest = rest and atc = atc
          and pre = "be16 ?rid @ be16 flags @ be16 1 @ be16 an @ counts @ dns_name qs [0] @ qtc"])
      (use assms(6-10) p(2) l4 in simp_all)
  have "DNS_handleDatagram src sport ?b s = Some ?s'"
    using p(1) ra assms(11) i hd by (simp add: DNS_handleDatagram_def Let_def dns_consts)
  moreover have "resolve allocated name False (?s'\<lparr>now := now s + d\<rparr>) = Some (Some ip, NO_ERROR, ?s'\<lparr>now := now s + d\<rparr>)"
  proof -
    have "map domainName (cache ?s') = map domainName (cache s)"
      using i(2) list_update_id [of "map domainName (cache s)" i] by (simp add: upd_entry_def map_update)
    then have "map domainName (take n (cache ?s')) = map domainName (take n (cache s))" for n
      by (simp add: take_map [symmetric])
    from find_name_same [OF this] have n: "find_name name (take (unat (cacheSize s)) (cache ?s')) = Some (Some i)"
      using assms(5) by simp
    moreover have "cacheSize ?s' = cacheSize s" "cache ?s' ! i = ?e'" using i by (simp_all add: upd_entry_def)
    moreover have "expire (now s + d) ?e' = ?e'" using assms(18) by (simp add: expire_def word_less_nat_alt)
    ultimately show ?thesis
      using i by (simp add: resolve_def resolve_known_def upd_entry_def Let_def dns_consts)
  qed
  ultimately show ?thesis by blast
qed

lemma dns_same:
  assumes "udp.more s' = udp.more s"
  shows "cache s' = cache s" "cacheSize s' = cacheSize s" "dnsIP s' = dnsIP s" "dnsIPBackup s' = dnsIPBackup s"
    "dns_timer s' = dns_timer s" "dns.more s' = dns.more s"
  using assms by (cases s, cases s', simp)+

text \<open>A host that waits for the address of the name \<^verbatim>\<open>a\<close>, and the response of the server.\<close>

definition demo_dns :: dns where
  "demo_dns = udp.extend demo_ub
     \<lparr>cache = [\<lparr>domainName = Some [97], dns_ipAddress = [0, 0, 0, 0], dns_status = PENDING, dns_time = 0, ttl = 0,
                dns_attempts = 1\<rparr>],
      cacheSize = 1, dnsIP = [10, 0, 0, 1], dnsIPBackup = [10, 0, 0, 1], dns_timer = 0\<rparr>"

definition demo_response :: "u8 list" where
  "demo_response = be16 1 @ be16 0x8180 @ be16 1 @ be16 1 @ [0, 0, 0, 0] @ dns_name [[97]] [0] @ [0, 1, 0, 1]
     @ dns_name [] [0xC0, 12] @ [0, 1, 0, 1] @ be32 3600 @ be16 4 @ [10, 0, 0, 9]"

abbreviation demo_pk :: buffer where "demo_pk \<equiv> OffsetBuffer (MemBuffer 0x600 35) 0 35"
definition demo_arrived :: dns where "demo_arrived = snd (b_write demo_pk 0 demo_response demo_dns)"

lemma demo_dns_ok:
  shows "b_bytes demo_arrived demo_pk = demo_response" "b_ok demo_arrived demo_pk" "dns_ok demo_arrived"
    "cache demo_arrived = cache demo_dns" "cacheSize demo_arrived = 1" "dnsIP demo_arrived = [10, 0, 0, 1]"
proof -
  have l: "length demo_response = 35" by (simp add: demo_response_def dns_name_def be16_def be32_def)
  then have ne: "demo_response \<noteq> []" by auto
  have w: "b_wok demo_dns demo_pk" by (rule Offset_wok [OF Mem_wok]) simp
  show "b_bytes demo_arrived demo_pk = demo_response"
    unfolding demo_arrived_def by (rule fill_bytes [OF w _ ne]) (simp add: l)
  note r = rest_same_b_write [of demo_dns demo_pk 0 demo_response, folded demo_arrived_def]
  show "b_ok demo_arrived demo_pk" using buf.wok_ok [OF w] by (simp only: rest_same_ok [OF r])
  note t = rest_same_transmits [OF r] and u = udp_same(3) [OF ip_transmits(9) [OF rest_same_transmits [OF r]]]
  have f: "cache demo_arrived = cache demo_dns \<and> cacheSize demo_arrived = 1 \<and> dnsIP demo_arrived = [10, 0, 0, 1]
      \<and> dnsIPBackup demo_arrived = [10, 0, 0, 1]"
    unfolding dns_same(1-4) [OF u] by (simp add: demo_dns_def udp.defs)
  then show "cache demo_arrived = cache demo_dns" "cacheSize demo_arrived = 1" "dnsIP demo_arrived = [10, 0, 0, 1]"
    by simp_all
  have "ip_ok demo_dns = ip_ok demo_ub" by (rule ip_ok_extend) (simp_all add: demo_dns_def udp.defs net.defs)
  then have "ip_ok demo_arrived" unfolding ip_ok_transmits [OF t] using demo_udp_ok(2) by simp
  then show "dns_ok demo_arrived" using f by (simp add: dns_ok_def demo_dns_def udp.defs)
qed

lemma dns_handler_returns_witness:
  "\<exists>s'. DNS_handleDatagram [10, 0, 0, 1] 53 demo_pk demo_arrived = Some s' \<and> dns_ok s'"
  by (rule dns_handler_returns [OF demo_dns_ok(3) _ demo_dns_ok(2)]) simp_all

lemma dns_changes_answered_entry_witness:
  "\<exists>e. DNS_handleDatagram [10, 0, 0, 1] 53 demo_pk demo_arrived = Some (demo_arrived\<lparr>cache := [e]\<rparr>)
    \<and> domainName e = Some [97] \<and> dns_status e AND 0xF0 = DONE"
proof -
  note d = demo_dns_ok
  have src: "length [10, 0, 0, 1 :: u8] = 4" by simp
  have c: "cache demo_arrived = [\<lparr>domainName = Some [97], dns_ipAddress = [0, 0, 0, 0], dns_status = PENDING, dns_time = 0,
      ttl = 0, dns_attempts = 1\<rparr>]"
    unfolding d(4) by (simp add: demo_dns_def udp.defs)
  have B: "demo_response ! 0 = 0" "demo_response ! Suc 0 = 1" "demo_response ! 2 = 0x81" "demo_response ! 3 = 0x80"
    by (simp_all add: demo_response_def be16_def)
  have acc: "dns_accepts demo_arrived [10, 0, 0, 1] (b_bytes demo_arrived demo_pk)"
    unfolding d(1) dns_accepts_def
    by (simp add: B d(5,6) net16_def demo_response_def dns_name_def be16_def be32_def bit_simps)
  obtain e where e: "DNS_handleDatagram [10, 0, 0, 1] 53 demo_pk demo_arrived = Some (demo_arrived\<lparr>cache := [e]\<rparr>)"
      "dns_status e AND 0xF0 = DONE"
    using DNS_handleDatagram_effect [OF d(3) src d(2) refl _ acc, of 53] unfolding d(1) c by (auto simp: B net16_def)
  have "dns_status e \<noteq> PENDING" using e(2) by (auto simp: dns_consts)
  then have ne: "demo_arrived\<lparr>cache := [e]\<rparr> \<noteq> demo_arrived"
    using c by (auto dest: arg_cong [of _ _ cache])
  have l35: "unat (35 :: u16) < 65280" by simp
  have rid: "unat (net16 (demo_response ! 0) (demo_response ! 1)) = 1" by (simp add: B net16_def)
  obtain e' where "demo_arrived\<lparr>cache := [e]\<rparr> = demo_arrived\<lparr>cache := [e']\<rparr>" and n: "domainName e' = Some [97]"
    using dns_changes_answered_entry [OF d(3) src d(2) _ e(1) ne]
    unfolding d(1) c rid diff_self_eq_0 list_update_code nth_Cons_0 dnsLookup.simps
    using l35 by blast
  then have "e' = e" by (auto dest: arg_cong [of _ _ cache])
  then show ?thesis using e n by blast
qed

lemma dns_answer_resolves_witness:
  "\<exists>s'. DNS_handleDatagram [10, 0, 0, 1] 53 demo_pk demo_arrived = Some s'
    \<and> resolve True [97] False (s'\<lparr>now := now demo_arrived + 3600000\<rparr>)
        = Some (Some [10, 0, 0, 9], NO_ERROR, s'\<lparr>now := now demo_arrived + 3600000\<rparr>)"
proof -
  note d = demo_dns_ok
  have f: "find_name [97] (take (unat (cacheSize demo_arrived)) (cache demo_arrived)) = Some (Some 0)"
    unfolding d(4,5) by (simp add: demo_dns_def udp.defs)
  have B: "b_bytes demo_arrived demo_pk = be16 (word_of_nat (0 + 1)) @ be16 0x8180 @ be16 1 @ be16 1 @ [0, 0, 0, 0]
      @ dns_name [[97]] [0] @ [0, 1, 0, 1] @ dns_name [] [0xC0, 12] @ [0, 1, 0, 1] @ be32 3600 @ be16 4 @ [10, 0, 0, 9] @ []"
    unfolding d(1) by (simp add: demo_response_def)
  have fl: "bit (0x8180 :: u16) 15" "\<not> bit (0x8180 :: u16) 9" "drop_bit 12 (push_bit 12 (0x8180 :: u16)) = 0"
    by (simp_all add: bit_simps)
  show ?thesis
    by (rule dns_answer_resolves [OF d(3) _ d(2) _ f B _ _ _ _ _ _ _ _ fl])
      (simp_all add: d(6) dns_labels_def terminator_def)
qed

end
