(* ===== verification/Socket.thy ===== *)
theory Socket
  imports DNSHandler
begin

text \<open>
  Socket.h/.cpp: the state of a TCP connection and what API calls, timer ticks and received segments do to it.
  The sockets are objects in a heap, the list \<open>sockets\<close>; a pointer to a socket is its index. The virtual methods
  of a socket (its events) are arguments, the fields of \<open>vtable\<close>; they may call any operation of the
  socket themselves. \<open>None\<close> as an outcome is a call through a null pointer or undefined behaviour of a layer below.
\<close>

section \<open>State\<close>

definition LISTEN :: u8 where "LISTEN = 1"
definition SYN_SENT :: u8 where "SYN_SENT = 2"
definition SYN_RECEIVED :: u8 where "SYN_RECEIVED = 3"
definition ESTABLISHED :: u8 where "ESTABLISHED = 4"
definition FIN_WAIT_1 :: u8 where "FIN_WAIT_1 = 5"
definition FIN_WAIT_2 :: u8 where "FIN_WAIT_2 = 6"
definition CLOSE_WAIT :: u8 where "CLOSE_WAIT = 7"
definition CLOSING :: u8 where "CLOSING = 8"
definition LAST_ACK :: u8 where "LAST_ACK = 9"
definition TIME_WAIT :: u8 where "TIME_WAIT = 10"
definition CLOSED :: u8 where "CLOSED = 11"
definition RESOLVING :: u8 where "RESOLVING = 20"
definition UNKNOWN_HOST :: u8 where "UNKNOWN_HOST = 21"
definition AWAITING_ACK :: u8 where "AWAITING_ACK = 0xF0"

lemmas sock_states = LISTEN_def SYN_SENT_def SYN_RECEIVED_def ESTABLISHED_def FIN_WAIT_1_def FIN_WAIT_2_def
  CLOSE_WAIT_def CLOSING_def LAST_ACK_def TIME_WAIT_def CLOSED_def RESOLVING_def UNKNOWN_HOST_def AWAITING_ACK_def

definition ACK :: u8 where "ACK = 16"
definition PSH :: u8 where "PSH = 8"
definition RST :: u8 where "RST = 4"
definition SYN :: u8 where "SYN = 2"
definition FIN :: u8 where "FIN = 1"

lemmas seg_flags = ACK_def PSH_def RST_def SYN_def FIN_def

definition TIME_WAIT_DURATION :: u32 where "TIME_WAIT_DURATION = 240"
definition ACK_WAIT_DURATION :: u32 where "ACK_WAIT_DURATION = 1"
definition TCP_PROTOCOL :: u8 where "TCP_PROTOCOL = 0x06"
definition TCP_HEADER_LENGTH :: u16 where "TCP_HEADER_LENGTH = 20"

record socket =
  state :: u8
  listenPort :: u16
  localPort :: u16
  connectOnResolution :: bool
  remoteIP :: "u8 list"
  remotePort :: u16
  localSeq :: u32
  remoteSeq :: u32
  remoteMSS :: u16
  remoteWindow :: u16
  stateTime :: u32
  timeout :: u32
  sk_attempts :: u8
  sk_tcp :: bool                \<comment> \<open>the pointer to the TCPHandler is not null\<close>
  sk_stash :: "buffer option"
  recvBuffer :: "buffer option"
  sendBuffer :: "buffer option"
  lastDataLength :: u16
  remoteDomain :: "u8 list option"

text \<open>The TCPHandler: its registered sockets, each with its part of the outbound buffer.\<close>

record tcp = dns +
  sockets :: "socket list"
  registeredSockets :: "(nat option \<times> buffer) list"
  tcp_timerIndex :: u8
  maxOutboundLen :: u16

record 's vtable =
  onEstablished :: "nat \<Rightarrow> 's \<Rightarrow> 's option"
  onDataReceived :: "nat \<Rightarrow> buffer \<Rightarrow> 's \<Rightarrow> (bool \<times> 's) option"
  onReadyToSend :: "nat \<Rightarrow> 's \<Rightarrow> 's option"
  onRemoteClosed :: "nat \<Rightarrow> 's \<Rightarrow> 's option"
  onLocalClosed :: "nat \<Rightarrow> 's \<Rightarrow> 's option"
  onClosed :: "nat \<Rightarrow> 's \<Rightarrow> 's option"
  onReset :: "nat \<Rightarrow> bool \<Rightarrow> 's \<Rightarrow> 's option"
  getApplicationWindowSize :: "nat \<Rightarrow> 's \<Rightarrow> u16"
  allocates :: bool             \<comment> \<open>an allocation made during the call succeeds\<close>

definition sock :: "'a tcp_scheme \<Rightarrow> nat \<Rightarrow> socket" where
  "sock s x = sockets s ! x"

definition upd :: "nat \<Rightarrow> (socket \<Rightarrow> socket) \<Rightarrow> 'a tcp_scheme \<Rightarrow> 'a tcp_scheme" where
  "upd x f s = s\<lparr>sockets := (sockets s)[x := f (sock s x)]\<rparr>"

text \<open>TCPHandler::getMaxSegmentSize, the default of \<^verbatim>\<open>getApplicationWindowSize\<close> and the event handlers that do nothing.\<close>

definition getMaxSegmentSize :: "'a tcp_scheme \<Rightarrow> u16" where
  "getMaxSegmentSize s = IP_getMaxReceivePayload s - TCP_HEADER_LENGTH - 4"

definition Socket_vtable :: "(nat \<Rightarrow> buffer \<Rightarrow> 'a tcp_scheme \<Rightarrow> (bool \<times> 'a tcp_scheme) option) \<Rightarrow> bool
    \<Rightarrow> 'a tcp_scheme vtable" where
  "Socket_vtable received allocs =
     \<lparr>onEstablished = (\<lambda>x. Some), onDataReceived = received, onReadyToSend = (\<lambda>x. Some), onRemoteClosed = (\<lambda>x. Some),
      onLocalClosed = (\<lambda>x. Some), onClosed = (\<lambda>x. Some), onReset = (\<lambda>x b. Some),
      getApplicationWindowSize = (\<lambda>x. getMaxSegmentSize), allocates = allocs\<rparr>"

section \<open>Constructors\<close>

text \<open>
  \<^verbatim>\<open>init\<close>; \<open>k\<close> holds the fields it does not set and \<open>rnd\<close> is what \<^verbatim>\<open>random()\<close> returns. \<^verbatim>\<open>tcp\<close> is null, so that \<^verbatim>\<open>closed()\<close>
  sets the state CLOSED; the event it fires in a constructor is the one of class Socket, which does nothing.
\<close>

definition Socket_init :: "nat \<Rightarrow> u32 \<Rightarrow> socket \<Rightarrow> socket" where
  "Socket_init rnd time k = k\<lparr>localSeq := word_of_nat (rnd mod 1000), remoteSeq := 0, remoteMSS := 0, remoteWindow := 0,
     sk_tcp := False, sk_attempts := 0, lastDataLength := 0, sk_stash := None, recvBuffer := None, sendBuffer := None,
     connectOnResolution := False, timeout := 0, state := CLOSED, stateTime := time\<rparr>"

definition Socket_new_ip :: "socket \<Rightarrow> nat \<Rightarrow> u32 \<Rightarrow> u8 list \<Rightarrow> u16 \<Rightarrow> socket" where
  "Socket_new_ip junk rnd time ip port =
     Socket_init rnd time (junk\<lparr>listenPort := 0, remoteIP := ip, remotePort := port, remoteDomain := None\<rparr>)"

definition Socket_new_domain :: "socket \<Rightarrow> nat \<Rightarrow> u32 \<Rightarrow> u8 list \<Rightarrow> u16 \<Rightarrow> socket" where
  "Socket_new_domain junk rnd time server port =
     Socket_init rnd time (junk\<lparr>listenPort := 0, remoteDomain := Some server, remoteIP := [0, 0, 0, 0], remotePort := port\<rparr>)"

definition Socket_new_listen :: "socket \<Rightarrow> nat \<Rightarrow> u32 \<Rightarrow> u16 \<Rightarrow> socket" where
  "Socket_new_listen junk rnd time port =
     Socket_init rnd time (junk\<lparr>listenPort := port, localPort := port\<rparr>)"

section \<open>Queries\<close>

definition isHost :: "socket \<Rightarrow> bool" where "isHost k = (listenPort k > 0)"
definition isClient :: "socket \<Rightarrow> bool" where "isClient k = (listenPort k = 0)"

definition equals_remote :: "socket \<Rightarrow> u8 list \<Rightarrow> u16 \<Rightarrow> u16 \<Rightarrow> bool" where
  "equals_remote k ip rport lport =
     (if isHost k \<and> state k = LISTEN then False
      else if state k = CLOSED then False
      else if rport \<noteq> remotePort k then False
      else if lport \<noteq> localPort k then False
      else if \<not> ipsEquate ip (remoteIP k) then False
      else True)"

definition equals_listen :: "socket \<Rightarrow> u16 \<Rightarrow> bool" where
  "equals_listen k port =
     (if \<not> isHost k then False else if state k \<noteq> LISTEN then False else if listenPort k \<noteq> port then False else True)"

definition getMaxSendPayload :: "socket \<Rightarrow> u16" where
  "getMaxSendPayload k =
     (let n = (case sk_stash k of None \<Rightarrow> 0 | Some b \<Rightarrow> b_size b);
          n = (if remoteWindow k < n then remoteWindow k else n)
      in if remoteMSS k > 0 \<and> remoteMSS k < n then remoteMSS k else n)"

definition getState :: "socket \<Rightarrow> u8" where "getState k = state k AND 0x0F"

definition getSendDataBuffer :: "socket \<Rightarrow> buffer option" where
  "getSendDataBuffer k = (if sk_tcp k then sendBuffer k else None)"

definition readyToSend :: "socket \<Rightarrow> bool" where
  "readyToSend k =
     (if state k AND 0x0F \<noteq> ESTABLISHED then False else if state k AND 0xF0 = AWAITING_ACK then False else True)"

definition localClosed :: "socket \<Rightarrow> bool" where
  "localClosed k = (state k \<in> {FIN_WAIT_1, FIN_WAIT_2, CLOSING, LAST_ACK, TIME_WAIT, LISTEN, CLOSED})"

definition remoteClosed :: "socket \<Rightarrow> bool" where
  "remoteClosed k = (state k \<in> {CLOSE_WAIT, LAST_ACK, CLOSING, TIME_WAIT, LISTEN, CLOSED})"

definition setTimeout :: "u32 \<Rightarrow> socket \<Rightarrow> socket" where "setTimeout t k = k\<lparr>timeout := t\<rparr>"

text \<open>\<^verbatim>\<open>read\<close>: the bytes copied, none when it returns 0.\<close>

definition Socket_read :: "'a tcp_scheme \<Rightarrow> nat \<Rightarrow> u16 \<Rightarrow> u16 \<Rightarrow> u8 list" where
  "Socket_read s x len offset =
     (case recvBuffer (sock s x) of
        None \<Rightarrow> []
      | Some b \<Rightarrow>
          (let len = (if b_size b - offset < len then b_size b - offset else len)
           in case b_read s b offset len of None \<Rightarrow> [] | Some bytes \<Rightarrow> bytes))"

section \<open>Sending a segment\<close>

definition getWindowSize :: "'a tcp_scheme vtable \<Rightarrow> nat \<Rightarrow> 'a tcp_scheme \<Rightarrow> u16" where
  "getWindowSize v x s =
     (let appSize = getApplicationWindowSize v x s
      in if appSize > getMaxSegmentSize s then getMaxSegmentSize s else appSize)"

definition sk_calcChecksum :: "'a tcp_scheme \<Rightarrow> nat \<Rightarrow> buffer \<Rightarrow> u16 \<Rightarrow> u16" where
  "sk_calcChecksum s x buf len =
     (let pseudo = (0 :: u32);
          pseudo = pseudo + ucast TCP_PROTOCOL;
          pseudo = pseudo + ucast len;
          localIP = ip_ipAddress s;
          remote = remoteIP (sock s x);
          pseudo = pseudo + ucast (HTONS (word16 (take 2 localIP)));
          pseudo = pseudo + ucast (HTONS (word16 (take 2 (drop 2 localIP))));
          pseudo = pseudo + ucast (HTONS (word16 (take 2 remote)));
          pseudo = pseudo + ucast (HTONS (word16 (take 2 (drop 2 remote))))
      in checksum (b_size buf) (b_read s buf) len 16 pseudo)"

definition transmit :: "nat \<Rightarrow> u16 \<Rightarrow> u8 \<Rightarrow> 'a tcp_scheme \<Rightarrow> bool \<times> 'a tcp_scheme" where
  "transmit x len option_length s =
     (case getMACForIP s (remoteIP (sock s x)) of
        None \<Rightarrow> (True, snd (requestMACAddress (remoteIP (sock s x)) s))
      | Some _ \<Rightarrow>
          (let buf = sendPacketBuffer s;
               len = len + TCP_HEADER_LENGTH + ucast option_length
           in case writeNet16 (b_write buf) 16 (sk_calcChecksum s x buf len) s of
                (ok, s) \<Rightarrow>
                  if \<not> ok then (False, s)
                  else sendPacket (remoteIP (sock s x)) TCP_PROTOCOL len s))"

text \<open>
  The part of \<^verbatim>\<open>sendSegment\<close> that depends on the control bits: the header length (byte 12, not written for a FIN), the MSS
  option, and the new \<^verbatim>\<open>localSeq\<close>. The result is the length of the options; \<open>None\<close> is \<^verbatim>\<open>return false\<close>.
\<close>

definition segment_options :: "nat \<Rightarrow> u8 \<Rightarrow> u16 \<Rightarrow> 'a tcp_scheme \<Rightarrow> u8 option \<times> 'a tcp_scheme" where
  "segment_options x control len s =
     (let wr = b_write (sendPacketBuffer s)
      in if control AND SYN = SYN
         then case seq_ok [write8 wr 12 0x60, write8 wr 20 0x02, write8 wr 21 0x04,
                   writeNet16 wr 22 (getMaxSegmentSize s)] s of
                (ok, s) \<Rightarrow>
                  if \<not> ok then (None, s) else (Some 4, upd x (\<lambda>k. k\<lparr>localSeq := localSeq k + 1\<rparr>) s)
         else if control AND FIN = FIN
         then (Some 0, upd x (\<lambda>k. k\<lparr>localSeq := localSeq k + 1\<rparr>) s)
         else case write8 wr 12 0x50 s of
                (ok, s) \<Rightarrow>
                  if \<not> ok then (None, s)
                  else (Some 0,
                    if len > 0
                    then upd x (\<lambda>k. k\<lparr>state := state k OR AWAITING_ACK, lastDataLength := len,
                                      localSeq := localSeq k + ucast len\<rparr>) s
                    else s))"

definition sendSegment :: "'a tcp_scheme vtable \<Rightarrow> nat \<Rightarrow> u8 \<Rightarrow> u16 \<Rightarrow> u32 \<Rightarrow> u32 \<Rightarrow> 'a tcp_scheme
    \<Rightarrow> (bool \<times> 'a tcp_scheme) option" where
  "sendSegment v x control len seq0 ack0 s =
     (if \<not> sk_tcp (sock s x) then None
      else let k = sock s x;
               seq = (if control AND RST \<noteq> RST then localSeq k else seq0);
               ack = (if control AND RST \<noteq> RST then remoteSeq k else ack0);
               wr = b_write (sendPacketBuffer s)
      in case seq_ok [writeNet16 wr 0 (localPort k), writeNet16 wr 2 (remotePort k), writeNet32 wr 4 seq,
               writeNet32 wr 8 ack] s of
           (ok, s) \<Rightarrow>
             if \<not> ok then Some (False, s)
             else (case segment_options x control len s of
                (None, s) \<Rightarrow> Some (False, s)
              | (Some optionLength, s) \<Rightarrow>
                  (case seq_ok [write8 wr 13 control, (\<lambda>s. writeNet16 wr 14 (getWindowSize v x s) s), writeNet16 wr 18 0x0000] s of
                     (ok, s) \<Rightarrow> if \<not> ok then Some (False, s) else Some (transmit x len optionLength s))))"

section \<open>Changes of state\<close>

definition setState :: "'a tcp_scheme vtable \<Rightarrow> nat \<Rightarrow> u8 \<Rightarrow> 'a tcp_scheme \<Rightarrow> 'a tcp_scheme option" where
  "setState v x st s =
     (let priorState = state (sock s x);
          s = upd x (\<lambda>k. k\<lparr>state := st, stateTime := now s\<rparr>) s
      in do {
        s \<leftarrow> (if st = CLOSED \<and> priorState \<noteq> RESOLVING then onClosed v x s else Some s);
        if st = ESTABLISHED then do { s \<leftarrow> onEstablished v x s; onReadyToSend v x s } else Some s
      })"

definition closed :: "'a tcp_scheme vtable \<Rightarrow> nat \<Rightarrow> 'a tcp_scheme \<Rightarrow> 'a tcp_scheme option" where
  "closed v x s = (if sk_tcp (sock s x) \<and> isHost (sock s x) then setState v x LISTEN s else setState v x CLOSED s)"

definition reset :: "'a tcp_scheme vtable \<Rightarrow> nat \<Rightarrow> u32 \<Rightarrow> u32 \<Rightarrow> 'a tcp_scheme \<Rightarrow> (bool \<times> 'a tcp_scheme) option" where
  "reset v x seq ack s = do {
     (ok, s) \<leftarrow> (if ack = remoteSeq (sock s x) then sendSegment v x (RST OR ACK) 0 seq ack s
                  else sendSegment v x RST 0 seq ack s);
     if \<not> ok then Some (False, s) else do { s \<leftarrow> onReset v x False s; Some (True, s) }
   }"

definition forceClose :: "'a tcp_scheme vtable \<Rightarrow> nat \<Rightarrow> 'a tcp_scheme \<Rightarrow> 'a tcp_scheme option" where
  "forceClose v x s = do {
     s \<leftarrow> (if state (sock s x) \<noteq> TIME_WAIT
           then map_option snd (reset v x (localSeq (sock s x)) (remoteSeq (sock s x)) s) else Some s);
     closed v x s
   }"

definition close :: "'a tcp_scheme vtable \<Rightarrow> nat \<Rightarrow> 'a tcp_scheme \<Rightarrow> (bool \<times> 'a tcp_scheme) option" where
  "close v x s =
     (if localClosed (sock s x) then Some (True, s)
      else do {
        (ok, s) \<leftarrow> sendSegment v x (FIN OR ACK) 0 0 0 s;
        if \<not> ok then Some (False, s)
        else let s = upd x (\<lambda>k. k\<lparr>sk_attempts := 1\<rparr>) s
        in do {
          s \<leftarrow> (if state (sock s x) AND 0x0F = ESTABLISHED then setState v x FIN_WAIT_1 s
                else if state (sock s x) = SYN_RECEIVED then setState v x FIN_WAIT_1 s
                else if state (sock s x) = CLOSE_WAIT then setState v x LAST_ACK s
                else Some s);
          s \<leftarrow> onLocalClosed v x s;
          Some (True, s)
        }
      })"

section \<open>Name resolution and connecting\<close>

text \<open>
  \<^verbatim>\<open>resolveIP\<close> calls \<^verbatim>\<open>connect\<close> when a resolution that \<^verbatim>\<open>connect\<close> has started is complete, and \<^verbatim>\<open>connect\<close> begins with \<^verbatim>\<open>resolveIP\<close>: each
  is given with the other as its first argument. The nested \<^verbatim>\<open>connect\<close> finds the state CLOSED or LISTEN and
  does not nest again: a depth of two is enough.
\<close>

definition resolveIP_with :: "('a tcp_scheme vtable \<Rightarrow> nat \<Rightarrow> 'a tcp_scheme \<Rightarrow> (bool \<times> 'a tcp_scheme) option)
    \<Rightarrow> 'a tcp_scheme vtable \<Rightarrow> nat \<Rightarrow> 'a tcp_scheme \<Rightarrow> (bool \<times> 'a tcp_scheme) option" where
  "resolveIP_with connect v x s =
     (if state (sock s x) \<noteq> RESOLVING \<and> state (sock s x) \<noteq> CLOSED \<and> state (sock s x) \<noteq> UNKNOWN_HOST
      then Some (False, s)
      else case remoteDomain (sock s x) of
             None \<Rightarrow> Some (True, s)
           | Some name \<Rightarrow> do {
               (rip, err, s) \<leftarrow> resolve (allocates v) name False s;
               if err \<noteq> NO_ERROR
               then do { s \<leftarrow> setState v x UNKNOWN_HOST s; Some (False, s) }
               else case rip of
                 Some ip \<Rightarrow>
                   (let s = upd x (\<lambda>k. k\<lparr>remoteIP := ip\<rparr>) s
                    in if state (sock s x) = RESOLVING
                       then do {
                         s \<leftarrow> closed v x s;
                         if connectOnResolution (sock s x)
                         then connect v x (upd x (\<lambda>k. k\<lparr>connectOnResolution := False\<rparr>) s)
                         else Some (True, s)
                       }
                       else Some (True, s))
               | None \<Rightarrow> do { s \<leftarrow> setState v x RESOLVING s; Some (True, s) }
             })"

definition connect_with :: "('a tcp_scheme vtable \<Rightarrow> nat \<Rightarrow> 'a tcp_scheme \<Rightarrow> (bool \<times> 'a tcp_scheme) option)
    \<Rightarrow> 'a tcp_scheme vtable \<Rightarrow> nat \<Rightarrow> 'a tcp_scheme \<Rightarrow> (bool \<times> 'a tcp_scheme) option" where
  "connect_with resolveIP v x s = do {
     (ok, s) \<leftarrow> resolveIP v x s;
     if \<not> ok then Some (False, s)
     else if state (sock s x) = RESOLVING
     then Some (True, upd x (\<lambda>k. k\<lparr>connectOnResolution := True\<rparr>) s)
     else if state (sock s x) \<noteq> CLOSED then Some (False, s)
     else if \<not> sk_tcp (sock s x) then Some (False, s)
     else case getPort s of
       (port, s) \<Rightarrow> do {
         (ok, s) \<leftarrow> sendSegment v x SYN 0 0 0 (upd x (\<lambda>k. k\<lparr>localPort := port\<rparr>) s);
         if \<not> ok then Some (False, s)
         else do {
           s \<leftarrow> setState v x SYN_SENT (upd x (\<lambda>k. k\<lparr>sk_attempts := 1\<rparr>) s);
           Some (True, s)
         }
       }
   }"

fun connect_depth :: "nat \<Rightarrow> 'a tcp_scheme vtable \<Rightarrow> nat \<Rightarrow> 'a tcp_scheme \<Rightarrow> (bool \<times> 'a tcp_scheme) option" where
  "connect_depth 0 v x s = None"
| "connect_depth (Suc n) v x s = connect_with (resolveIP_with (connect_depth n)) v x s"

definition connect :: "'a tcp_scheme vtable \<Rightarrow> nat \<Rightarrow> 'a tcp_scheme \<Rightarrow> (bool \<times> 'a tcp_scheme) option" where
  "connect = connect_depth 2"

definition resolveIP :: "'a tcp_scheme vtable \<Rightarrow> nat \<Rightarrow> 'a tcp_scheme \<Rightarrow> (bool \<times> 'a tcp_scheme) option" where
  "resolveIP = resolveIP_with connect"

section \<open>Sending data\<close>

text \<open>\<^verbatim>\<open>send(length)\<close>: the data is in the send buffer. A stash that is null has no room, so no copy to it is made.\<close>

definition send :: "'a tcp_scheme vtable \<Rightarrow> nat \<Rightarrow> u16 \<Rightarrow> 'a tcp_scheme \<Rightarrow> (bool \<times> 'a tcp_scheme) option" where
  "send v x len s =
     (if len = 0 then Some (True, s)
      else if \<not> readyToSend (sock s x) then Some (False, s)
      else if len > getMaxSendPayload (sock s x) then Some (False, s)
      else let s = upd x (\<lambda>k. k\<lparr>sk_attempts := 1\<rparr>) s
      in case (getSendDataBuffer (sock s x), sk_stash (sock s x)) of
           (None, _) \<Rightarrow> Some (False, s)
         | (Some sb, None) \<Rightarrow> None
         | (Some sb, Some stash) \<Rightarrow> do {
             (ok, s) \<leftarrow> copyTo sb stash 0 0 len s;
             if \<not> ok then Some (False, s)
             else do {
               (ok, s) \<leftarrow> sendSegment v x (ACK OR PSH) len 0 0 s;
               if ok then Some (True, upd x (\<lambda>k. k\<lparr>stateTime := now s\<rparr>) s) else Some (False, s)
             }
           })"

definition send_data :: "'a tcp_scheme vtable \<Rightarrow> nat \<Rightarrow> u8 list \<Rightarrow> 'a tcp_scheme \<Rightarrow> (bool \<times> 'a tcp_scheme) option" where
  "send_data v x data s =
     (case getSendDataBuffer (sock s x) of
        None \<Rightarrow> Some (False, s)
      | Some sb \<Rightarrow>
          (case b_write sb 0 data s of
             (ok, s) \<Rightarrow> if \<not> ok then Some (False, s) else send v x (word_of_nat (length data)) s))"

definition resendData :: "'a tcp_scheme vtable \<Rightarrow> nat \<Rightarrow> 'a tcp_scheme \<Rightarrow> (bool \<times> 'a tcp_scheme) option" where
  "resendData v x s =
     (let s = upd x (\<lambda>k. k\<lparr>localSeq := localSeq k - ucast (lastDataLength k)\<rparr>) s
      in case (getSendDataBuffer (sock s x), sk_stash (sock s x)) of
           (None, _) \<Rightarrow> Some (False, s)
         | (Some sb, None) \<Rightarrow> None
         | (Some sb, Some stash) \<Rightarrow> do {
             (ok, s) \<leftarrow> copyFrom sb stash 0 0 (lastDataLength (sock s x)) s;
             if \<not> ok then Some (False, s)
             else sendSegment v x ACK (lastDataLength (sock s x)) 0 0 s
           })"

section \<open>The timer\<close>

text \<open>\<^verbatim>\<open>if (attempts++ > 10) { forceClose(); return; }\<close> followed by \<open>continue\<close>.\<close>

definition or_give_up :: "'a tcp_scheme vtable \<Rightarrow> nat \<Rightarrow> ('a tcp_scheme \<Rightarrow> 'a tcp_scheme option) \<Rightarrow> 'a tcp_scheme
    \<Rightarrow> 'a tcp_scheme option" where
  "or_give_up v x continue s =
     (let old = sk_attempts (sock s x);
          s = upd x (\<lambda>k. k\<lparr>sk_attempts := sk_attempts k + 1\<rparr>) s
      in if old > 10 then forceClose v x s else continue s)"

text \<open>Back up the sequence number by one and repeat a segment without data.\<close>

definition repeat_segment :: "'a tcp_scheme vtable \<Rightarrow> nat \<Rightarrow> u8 \<Rightarrow> 'a tcp_scheme \<Rightarrow> 'a tcp_scheme option" where
  "repeat_segment v x control s =
     map_option snd (sendSegment v x control 0 0 0 (upd x (\<lambda>k. k\<lparr>localSeq := localSeq k - 1\<rparr>) s))"

text \<open>The part of \<^verbatim>\<open>checkState\<close> behind the data retransmission.\<close>

definition checkState_control :: "'a tcp_scheme vtable \<Rightarrow> nat \<Rightarrow> u32 \<Rightarrow> 'a tcp_scheme \<Rightarrow> 'a tcp_scheme option" where
  "checkState_control v x elapsed s =
     (if state (sock s x) = SYN_SENT then or_give_up v x (repeat_segment v x SYN) s
      else if state (sock s x) = SYN_RECEIVED then or_give_up v x (repeat_segment v x (SYN OR ACK)) s
      else if state (sock s x) = FIN_WAIT_1 \<or> state (sock s x) = CLOSING
      then or_give_up v x (repeat_segment v x (FIN OR ACK)) s
      else if elapsed < TIME_WAIT_DURATION then Some s
      else if state (sock s x) = TIME_WAIT then closed v x s
      else Some s)"

definition checkState_resend :: "'a tcp_scheme vtable \<Rightarrow> nat \<Rightarrow> u32 \<Rightarrow> 'a tcp_scheme \<Rightarrow> 'a tcp_scheme option" where
  "checkState_resend v x elapsed s =
     (if state (sock s x) = ESTABLISHED then Some s
      else if state (sock s x) = RESOLVING then map_option snd (resolveIP v x s)
      else if elapsed < ACK_WAIT_DURATION then Some s
      else if state (sock s x) = ESTABLISHED OR AWAITING_ACK
      then or_give_up v x (\<lambda>s. do {
             (ok, s) \<leftarrow> resendData v x s;
             s \<leftarrow> (if \<not> ok then forceClose v x s else Some s);
             checkState_control v x elapsed s
           }) s
      else checkState_control v x elapsed s)"

definition checkState :: "'a tcp_scheme vtable \<Rightarrow> nat \<Rightarrow> 'a tcp_scheme \<Rightarrow> 'a tcp_scheme option" where
  "checkState v x s =
     (if state (sock s x) = CLOSED then Some s
      else if state (sock s x) = LISTEN then Some s
      else let elapsed = now s - stateTime (sock s x)
      in if timeout (sock s x) > 0 \<and> elapsed > timeout (sock s x)
         then if \<not> localClosed (sock s x) then map_option snd (close v x s)
              else do { s \<leftarrow> forceClose v x s; checkState_resend v x elapsed s }
         else checkState_resend v x elapsed s)"

section \<open>Received segments\<close>

text \<open>
  The first part of \<^verbatim>\<open>handleSegment\<close>: the receive buffer is emptied, the fields are read, the window and (for a SYN
  to a listening socket) the remote address are stored, and the checksum is verified, for which the socket needs its
  handler. The result is the control bits, the acknowledgement and the sequence number; the inner \<open>None\<close> is a \<^verbatim>\<open>return\<close>.
\<close>

definition segment_intake :: "nat \<Rightarrow> u8 list \<Rightarrow> buffer \<Rightarrow> 'a tcp_scheme \<Rightarrow> ((u8 \<times> u32 \<times> u32) option \<times> 'a tcp_scheme) option" where
  "segment_intake x sourceIP buf s =
     (let s = upd x (\<lambda>k. k\<lparr>recvBuffer := Some (OffsetBuffer_new buf (b_size buf) 0)\<rparr>) s;
          rd = b_read s buf
      in case do { opt \<leftarrow> read8 rd 13; ack \<leftarrow> readNet32 rd 8; seq \<leftarrow> readNet32 rd 4; wnd \<leftarrow> readNet16 rd 14;
                   Some (opt, ack, seq, wnd) } of
           None \<Rightarrow> Some (None, s)
         | Some (opt, ack, seq, wnd) \<Rightarrow>
             (let s = upd x (\<lambda>k. k\<lparr>remoteWindow := wnd\<rparr>) s;
                  s = (if state (sock s x) = LISTEN \<and> opt = SYN then upd x (\<lambda>k. k\<lparr>remoteIP := sourceIP\<rparr>) s else s)
              in if \<not> sk_tcp (sock s x) then None
                 else case readNet16 rd 16 of
                   None \<Rightarrow> Some (None, s)
                 | Some givenChecksum \<Rightarrow>
                     if givenChecksum \<noteq> sk_calcChecksum s x buf (b_size buf) then Some (None, s)
                     else Some (Some (opt, ack, seq), s)))"

text \<open>The two places that answer an unexpected segment with a reset.\<close>

definition segment_reset :: "'a tcp_scheme vtable \<Rightarrow> nat \<Rightarrow> u8 \<Rightarrow> u32 \<Rightarrow> u32 \<Rightarrow> buffer \<Rightarrow> 'a tcp_scheme
    \<Rightarrow> 'a tcp_scheme option" where
  "segment_reset v x opt ack seq buf s =
     map_option snd (if opt AND ACK = ACK then reset v x ack 0 s else reset v x 0 (seq + ucast (b_size buf)) s)"

text \<open>A segment with the RST bit.\<close>

definition segment_rst :: "'a tcp_scheme vtable \<Rightarrow> nat \<Rightarrow> u32 \<Rightarrow> u32 \<Rightarrow> 'a tcp_scheme \<Rightarrow> 'a tcp_scheme option" where
  "segment_rst v x ack seq s =
     (if state (sock s x) = SYN_SENT \<and> ack = localSeq (sock s x)
      then do { s \<leftarrow> closed v x s; onReset v x True s }
      else if remoteSeq (sock s x) = seq
      then if state (sock s x) = LISTEN then Some s
           else if state (sock s x) = SYN_RECEIVED then closed v x s
           else do { s \<leftarrow> closed v x s; onReset v x True s }
      else Some s)"

text \<open>
  The header length and the MSS option of a segment with the SYN bit: the new \<^verbatim>\<open>remoteMSS\<close>, or \<open>None\<close> for \<^verbatim>\<open>return\<close>.
\<close>

definition read_mss :: "reader_fun \<Rightarrow> u16 \<Rightarrow> u16 option" where
  "read_mss rd mss = do {
     tcp_header_size \<leftarrow> read8 rd 12;
     if drop_bit 4 tcp_header_size = 6
     then let tcpopt = (case readNet32 rd 20 of None \<Rightarrow> 0 | Some w \<Rightarrow> w)
          in if drop_bit 16 tcpopt = 0x0204 then Some (ucast (drop_bit 16 (push_bit 16 tcpopt))) else Some mss
     else Some mss
   }"

text \<open>A SYN to a listening socket.\<close>

definition segment_accept :: "'a tcp_scheme vtable \<Rightarrow> nat \<Rightarrow> u32 \<Rightarrow> buffer \<Rightarrow> 'a tcp_scheme \<Rightarrow> 'a tcp_scheme option" where
  "segment_accept v x seq buf s =
     (let rd = b_read s buf;
          s = upd x (\<lambda>k. k\<lparr>remoteSeq := seq + 1\<rparr>) s
      in case readNet16 rd 2 of
           None \<Rightarrow> Some s
         | Some port \<Rightarrow>
             (let s = upd x (\<lambda>k. k\<lparr>remotePort := port\<rparr>) s
              in case read_mss rd (remoteMSS (sock s x)) of
                   None \<Rightarrow> Some s
                 | Some mss \<Rightarrow>
                     (let s = upd x (\<lambda>k. k\<lparr>remoteMSS := mss\<rparr>) s
                      in case readNet16 rd 0 of
                           None \<Rightarrow> Some s
                         | Some port \<Rightarrow> do {
                             (ok, s) \<leftarrow> sendSegment v x (SYN OR ACK) 0 0 0 (upd x (\<lambda>k. k\<lparr>remotePort := port\<rparr>) s);
                             if ok
                             then do { s \<leftarrow> setState v x SYN_RECEIVED s; Some (upd x (\<lambda>k. k\<lparr>sk_attempts := 1\<rparr>) s) }
                             else Some s
                           })))"

text \<open>A SYN, without or with an acknowledgement, for a socket that has sent a SYN.\<close>

definition segment_syn_sent :: "'a tcp_scheme vtable \<Rightarrow> nat \<Rightarrow> bool \<Rightarrow> u32 \<Rightarrow> buffer \<Rightarrow> 'a tcp_scheme
    \<Rightarrow> 'a tcp_scheme option" where
  "segment_syn_sent v x acked seq buf s =
     (let s = upd x (\<lambda>k. k\<lparr>remoteSeq := seq + 1\<rparr>) s
      in case read_mss (b_read s buf) (remoteMSS (sock s x)) of
           None \<Rightarrow> Some s
         | Some mss \<Rightarrow>
             (let s = upd x (\<lambda>k. k\<lparr>remoteMSS := mss\<rparr>) s
              in if acked
                 then do { (_, s) \<leftarrow> sendSegment v x ACK 0 0 0 s; setState v x ESTABLISHED s }
                 else do { s \<leftarrow> setState v x SYN_RECEIVED s; map_option snd (sendSegment v x ACK 0 0 0 s) }))"

text \<open>The data of a segment: \<open>h\<close> is the header length in bytes.\<close>

definition segment_data :: "'a tcp_scheme vtable \<Rightarrow> nat \<Rightarrow> u8 \<Rightarrow> u32 \<Rightarrow> u16 \<Rightarrow> u16 \<Rightarrow> buffer \<Rightarrow> 'a tcp_scheme
    \<Rightarrow> 'a tcp_scheme option" where
  "segment_data v x opt seq h payloadSize buf s =
     (let rb = OffsetBuffer_new buf h 0;
          s = upd x (\<lambda>k. k\<lparr>recvBuffer := Some rb\<rparr>) s;
          s = (if opt AND FIN = FIN then upd x (\<lambda>k. k\<lparr>remoteSeq := remoteSeq k + 1\<rparr>) s else s)
      in do {
        s \<leftarrow> (if b_size rb > 0
              then do {
                (ok, s) \<leftarrow> onDataReceived v x rb s;
                Some (if ok
                      then upd x (\<lambda>k. k\<lparr>remoteSeq := seq + ucast payloadSize, stateTime := now s\<rparr>) s
                      else s)
              }
              else Some s);
        map_option snd (sendSegment v x ACK 0 0 0 s)
      })"

text \<open>The FIN bit of a segment.\<close>

definition segment_fin :: "'a tcp_scheme vtable \<Rightarrow> nat \<Rightarrow> u8 \<Rightarrow> u32 \<Rightarrow> u16 \<Rightarrow> 'a tcp_scheme \<Rightarrow> 'a tcp_scheme option" where
  "segment_fin v x opt ack payloadSize s = do {
     s \<leftarrow> (if payloadSize = 0
           then map_option snd (sendSegment v x ACK 0 0 0 (upd x (\<lambda>k. k\<lparr>remoteSeq := remoteSeq k + 1\<rparr>) s))
           else Some s);
     s \<leftarrow> (if state (sock s x) = FIN_WAIT_1
           then if opt AND ACK = ACK \<and> ack = localSeq (sock s x) then setState v x TIME_WAIT s
                else setState v x CLOSING s
           else if state (sock s x) = FIN_WAIT_2 then setState v x TIME_WAIT s
           else if state (sock s x) AND 0x0F = ESTABLISHED then setState v x CLOSE_WAIT s
           else Some s);
     onRemoteClosed v x s
   }"

text \<open>A segment for an established connection.\<close>

definition segment_established :: "'a tcp_scheme vtable \<Rightarrow> nat \<Rightarrow> u8 \<Rightarrow> u32 \<Rightarrow> u32 \<Rightarrow> buffer \<Rightarrow> 'a tcp_scheme
    \<Rightarrow> 'a tcp_scheme option" where
  "segment_established v x opt ack seq buf s =
     (if opt AND ACK \<noteq> ACK then Some s
      else let clearAck = (ack = localSeq (sock s x) \<and> state (sock s x) AND AWAITING_ACK = AWAITING_ACK)
      in if seq \<noteq> remoteSeq (sock s x) then map_option snd (sendSegment v x ACK 0 0 0 s)
         else case read8 (b_read s buf) 12 of
                None \<Rightarrow> Some s
              | Some b \<Rightarrow>
                  (let h = ucast (drop_bit 4 b) * 4;
                       payloadSize = b_size buf - h
                   in do {
                     s \<leftarrow> (if payloadSize > 0 then segment_data v x opt seq h payloadSize buf s else Some s);
                     s \<leftarrow> (if opt AND FIN = FIN then segment_fin v x opt ack payloadSize s else Some s);
                     if clearAck then onReadyToSend v x (upd x (\<lambda>k. k\<lparr>state := state k AND 0x0F\<rparr>) s) else Some s
                   }))"

text \<open>An acknowledgement outside ESTABLISHED and SYN_SENT.\<close>

definition segment_acked :: "'a tcp_scheme vtable \<Rightarrow> nat \<Rightarrow> 'a tcp_scheme \<Rightarrow> 'a tcp_scheme option" where
  "segment_acked v x s =
     (if state (sock s x) = SYN_RECEIVED then setState v x ESTABLISHED s
      else if state (sock s x) = FIN_WAIT_1 then setState v x FIN_WAIT_2 s
      else if state (sock s x) = CLOSING then setState v x TIME_WAIT s
      else if state (sock s x) = LAST_ACK then closed v x s
      else Some s)"

text \<open>\<^verbatim>\<open>handleSegment\<close> behind the checksum: the cases of RFC 793 in the order of the code.\<close>

definition segment_process :: "'a tcp_scheme vtable \<Rightarrow> nat \<Rightarrow> u8 \<Rightarrow> u32 \<Rightarrow> u32 \<Rightarrow> buffer \<Rightarrow> 'a tcp_scheme
    \<Rightarrow> 'a tcp_scheme option" where
  "segment_process v x opt ack seq buf s =
     (let k = sock s x; st = state k
      in if st = CLOSED \<and> opt AND RST \<noteq> RST then segment_reset v x opt ack seq buf s
         else if st = LISTEN \<and> opt AND SYN \<noteq> SYN \<and> opt AND RST \<noteq> RST then segment_reset v x opt ack seq buf s
         else if (st = LISTEN \<or> st = SYN_SENT \<or> st = SYN_RECEIVED) \<and> opt AND ACK = ACK \<and> ack > localSeq k
         then map_option snd (reset v x ack 0 s)
         else if st \<in> {ESTABLISHED, FIN_WAIT_1, FIN_WAIT_2, CLOSE_WAIT, CLOSING, LAST_ACK, TIME_WAIT}
           \<and> (opt AND ACK = ACK \<and> ack > localSeq k \<or> seq > remoteSeq k)
         then map_option snd (sendSegment v x ACK 0 0 0 s)
         else if opt AND RST = RST then segment_rst v x ack seq s
         else if st = LISTEN \<and> opt = SYN then segment_accept v x seq buf s
         else if st = SYN_SENT \<and> opt = SYN then segment_syn_sent v x False seq buf s
         else if st = SYN_SENT \<and> opt = ACK OR SYN \<and> ack = localSeq k then segment_syn_sent v x True seq buf s
         else if st AND 0x0F = ESTABLISHED then segment_established v x opt ack seq buf s
         else if opt AND ACK = ACK \<and> ack = localSeq k then segment_acked v x s
         else forceClose v x s)"

definition handleSegment :: "'a tcp_scheme vtable \<Rightarrow> nat \<Rightarrow> u8 list \<Rightarrow> buffer \<Rightarrow> 'a tcp_scheme \<Rightarrow> 'a tcp_scheme option" where
  "handleSegment v x sourceIP buf s = do {
     (r, s) \<leftarrow> segment_intake x sourceIP buf s;
     case r of
       None \<Rightarrow> Some s
     | Some (opt, ack, seq) \<Rightarrow> segment_process v x opt ack seq buf s
   }"

end
