(* ===== verification/TCPHandler.thy ===== *)
theory TCPHandler
  imports Socket
begin

text \<open>
  TCPHandler.h/.cpp and the registration of sockets with it (Socket.cpp): the table of sockets, the choice of the socket
  a segment is for, the timer, and how a socket enters and leaves the table.
\<close>

section \<open>Constructor\<close>

text \<open>
  Every entry gets its part of the outbound buffer. A capacity of 0 divides by zero, a failed allocation writes
  through a null pointer.
\<close>

definition TCPHandler_new :: "bool \<Rightarrow> u8 \<Rightarrow> buffer \<Rightarrow> 'a tcp_scheme \<Rightarrow> 'a tcp_scheme option" where
  "TCPHandler_new allocated capacity outboundBuffer s =
     (let stashSize = b_size outboundBuffer;
          n = b_size (sendPacketBuffer s) - TCP_HEADER_LENGTH;
          stashSize = (if stashSize > n then n else stashSize)
      in if capacity = 0 \<or> \<not> allocated then None
         else let len = stashSize div ucast capacity;
                  s = s\<lparr>maxOutboundLen := len\<rparr>;
                  s = s\<lparr>registeredSockets :=
                        map (\<lambda>i. (None, OffsetBuffer_new outboundBuffer (len * word_of_nat i) len)) [0 ..< unat capacity]\<rparr>;
                  s = snd (IP_registerProtocol TCP_PROTOCOL (Some TCPPacket) s)
              in Some (s\<lparr>tcp_timerIndex := 0\<rparr>))"

section \<open>The table of sockets\<close>

definition getStash :: "'a tcp_scheme \<Rightarrow> nat \<Rightarrow> buffer option" where
  "getStash s x = map_option (\<lambda>i. snd (registeredSockets s ! i)) (index_of (\<lambda>r. fst r = Some x) (registeredSockets s))"

definition set_slot :: "nat \<Rightarrow> nat option \<Rightarrow> 'a tcp_scheme \<Rightarrow> 'a tcp_scheme" where
  "set_slot i p s = s\<lparr>registeredSockets := (registeredSockets s)[i := (p, snd (registeredSockets s ! i))]\<rparr>"

text \<open>
  Socket::registerTCPHandler and TCPHandler::registerSocket call each other; whichever is called first, the second
  call of it finds the registration made and returns: three levels are enough.
\<close>

fun registerTCPHandler_depth :: "nat \<Rightarrow> 'a tcp_scheme vtable \<Rightarrow> nat \<Rightarrow> 'a tcp_scheme \<Rightarrow> (bool \<times> 'a tcp_scheme) option"
  and registerSocket_depth :: "nat \<Rightarrow> 'a tcp_scheme vtable \<Rightarrow> nat \<Rightarrow> 'a tcp_scheme \<Rightarrow> (bool \<times> 'a tcp_scheme) option" where
  "registerTCPHandler_depth 0 v x s = None"
| "registerTCPHandler_depth (Suc n) v x s =
     (if sk_tcp (sock s x) then Some (True, s)
      else do {
        (ok, s) \<leftarrow> registerSocket_depth n v x (upd x (\<lambda>k. k\<lparr>sk_tcp := True\<rparr>) s);
        if ok
        then do {
          s \<leftarrow> Some (upd x (\<lambda>k. k\<lparr>sk_stash := getStash s x\<rparr>) s);
          s \<leftarrow> (if isHost (sock s x) then setState v x LISTEN s else Some s);
          Some (True, upd x (\<lambda>k. k\<lparr>sendBuffer := Some (OffsetBuffer_new (sendPacketBuffer s) 20 0)\<rparr>) s)
        }
        else Some (False, upd x (\<lambda>k. k\<lparr>sk_tcp := False\<rparr>) s)
      })"
| "registerSocket_depth 0 v x s = None"
| "registerSocket_depth (Suc n) v x s =
     (case index_of (\<lambda>r. fst r = Some x) (registeredSockets s) of
        Some _ \<Rightarrow> Some (True, s)
      | None \<Rightarrow>
          (case index_of (\<lambda>r. fst r = None) (registeredSockets s) of
             None \<Rightarrow> Some (False, s)
           | Some i \<Rightarrow> do {
               (ok, s) \<leftarrow> registerTCPHandler_depth n v x (set_slot i (Some x) s);
               if ok
               then if tcp_timerIndex s = 0
                    then case registerTimer TCPTimer 1000 s of
                           (t, s) \<Rightarrow>
                             let s = s\<lparr>tcp_timerIndex := t\<rparr>
                             in if t = 0 then Some (False, set_slot i None s) else Some (True, s)
                    else Some (True, s)
               else Some (False, set_slot i None s)
             }))"

definition registerTCPHandler :: "'a tcp_scheme vtable \<Rightarrow> nat \<Rightarrow> 'a tcp_scheme \<Rightarrow> (bool \<times> 'a tcp_scheme) option" where
  "registerTCPHandler = registerTCPHandler_depth 3"

definition registerSocket :: "'a tcp_scheme vtable \<Rightarrow> nat \<Rightarrow> 'a tcp_scheme \<Rightarrow> (bool \<times> 'a tcp_scheme) option" where
  "registerSocket = registerSocket_depth 3"

text \<open>\<^verbatim>\<open>nullCount\<close> is the number of entries that are free after the loop.\<close>

definition unregisterSocket :: "nat \<Rightarrow> 'a tcp_scheme \<Rightarrow> 'a tcp_scheme option" where
  "unregisterSocket x s =
     (let rs = map (\<lambda>r. if fst r = Some x then (None, snd r) else r) (registeredSockets s);
          nullCount = length (filter (\<lambda>r. fst r = None) rs);
          s = s\<lparr>registeredSockets := rs\<rparr>
      in if nullCount = length rs
         then do { s \<leftarrow> unregisterTimer (tcp_timerIndex s) s; Some (s\<lparr>tcp_timerIndex := 0\<rparr>) }
         else Some s)"

definition unregisterTCPHandler :: "'a tcp_scheme vtable \<Rightarrow> nat \<Rightarrow> 'a tcp_scheme \<Rightarrow> 'a tcp_scheme option" where
  "unregisterTCPHandler v x s =
     (if sk_tcp (sock s x)
      then do {
        s \<leftarrow> forceClose v x s;
        s \<leftarrow> unregisterSocket x s;
        forceClose v x (upd x (\<lambda>k. k\<lparr>sk_tcp := False, sk_stash := None\<rparr>) s)
      }
      else Some s)"

text \<open>The destructors. What else they do is to free memory.\<close>

definition Socket_delete :: "'a tcp_scheme vtable \<Rightarrow> nat \<Rightarrow> 'a tcp_scheme \<Rightarrow> 'a tcp_scheme option" where
  "Socket_delete v x s = do {
     s \<leftarrow> unregisterTCPHandler v x s;
     Some (upd x (\<lambda>k. k\<lparr>recvBuffer := None, sendBuffer := None\<rparr>) s)
   }"

definition TCPHandler_delete :: "'a tcp_scheme vtable \<Rightarrow> 'a tcp_scheme \<Rightarrow> 'a tcp_scheme option" where
  "TCPHandler_delete v s =
     each (\<lambda>i s. case fst (registeredSockets s ! i) of
             None \<Rightarrow> Some s
           | Some x \<Rightarrow> do { (ok, s) \<leftarrow> close v x s; unregisterTCPHandler v x s })
       [0 ..< length (registeredSockets s)] s"

section \<open>Segments and the timer\<close>

definition TCP_handleTimer :: "'a tcp_scheme vtable \<Rightarrow> u8 \<Rightarrow> 'a tcp_scheme \<Rightarrow> 'a tcp_scheme option" where
  "TCP_handleTimer v index s =
     each (\<lambda>i s. case fst (registeredSockets s ! i) of None \<Rightarrow> Some s | Some x \<Rightarrow> checkState v x s)
       [0 ..< length (registeredSockets s)] s"

text \<open>The two loops of \<^verbatim>\<open>handlePacket\<close>: the first registered socket of the connection, else the first that listens.\<close>

definition find_socket :: "'a tcp_scheme \<Rightarrow> (socket \<Rightarrow> bool) \<Rightarrow> nat option" where
  "find_socket s P =
     (case index_of (\<lambda>r. case fst r of None \<Rightarrow> False | Some x \<Rightarrow> P (sock s x)) (registeredSockets s) of
        None \<Rightarrow> None
      | Some i \<Rightarrow> fst (registeredSockets s ! i))"

definition TCP_handlePacket :: "'a tcp_scheme vtable \<Rightarrow> u8 list \<Rightarrow> buffer \<Rightarrow> 'a tcp_scheme \<Rightarrow> 'a tcp_scheme option" where
  "TCP_handlePacket v sourceIP packet s =
     (case do { sourcePort \<leftarrow> readNet16 (b_read s packet) 0; lport \<leftarrow> readNet16 (b_read s packet) 2;
                Some (sourcePort, lport) } of
        None \<Rightarrow> Some s
      | Some (sourcePort, lport) \<Rightarrow>
          (case find_socket s (\<lambda>k. equals_remote k sourceIP sourcePort lport) of
             Some x \<Rightarrow> handleSegment v x sourceIP packet s
           | None \<Rightarrow>
               (case find_socket s (\<lambda>k. equals_listen k lport) of
                  Some x \<Rightarrow> handleSegment v x sourceIP packet s
                | None \<Rightarrow> Some s)))"

end
