(* ===== verification/BufferedSocket.thy ===== *)
theory BufferedSocket
  imports TCPHandler
begin

text \<open>
  BufferedSocket.h/.cpp: a socket that keeps received data in a buffer of its own until it is read. The buffer is
  an allocated array of the memory of the microcontroller.
\<close>

section \<open>State\<close>

record bsocket =
  bs_recvBuffer :: u16      \<comment> \<open>a pointer; 0 is null\<close>
  bufferSize :: u16
  bufferCapacity :: u16

record buffered = tcp +
  bsockets :: "bsocket list"

definition bsock :: "'a buffered_scheme \<Rightarrow> nat \<Rightarrow> bsocket" where
  "bsock s x = bsockets s ! x"

definition bupd :: "nat \<Rightarrow> (bsocket \<Rightarrow> bsocket) \<Rightarrow> 'a buffered_scheme \<Rightarrow> 'a buffered_scheme" where
  "bupd x f s = s\<lparr>bsockets := (bsockets s)[x := f (bsock s x)]\<rparr>"

text \<open>\<^verbatim>\<open>init\<close>; \<open>p\<close> is what \<^verbatim>\<open>malloc\<close> returned.\<close>

definition BufferedSocket_init :: "u16 \<Rightarrow> u16 \<Rightarrow> bsocket" where
  "BufferedSocket_init p capacity =
     \<lparr>bs_recvBuffer = p, bufferSize = 0, bufferCapacity = (if p = 0 then 0 else capacity)\<rparr>"

section \<open>Operations\<close>

text \<open>\<^verbatim>\<open>memcpy\<close> to and from the memory of the microcontroller.\<close>

definition mem_store :: "u16 \<Rightarrow> u8 list \<Rightarrow> 'a store_scheme \<Rightarrow> 'a store_scheme" where
  "mem_store p xs s = s\<lparr>sram := pokes (addrs (\<lambda>a. a + 1) p (length xs)) xs (sram s)\<rparr>"

definition mem_load :: "'a store_scheme \<Rightarrow> u16 \<Rightarrow> nat \<Rightarrow> u8 list" where
  "mem_load s p n = map (sram s) (addrs (\<lambda>a. a + 1) p n)"

definition BufferedSocket_onDataReceived :: "nat \<Rightarrow> buffer \<Rightarrow> 'a buffered_scheme \<Rightarrow> bool \<times> 'a buffered_scheme" where
  "BufferedSocket_onDataReceived x buf s =
     (if bufferSize (bsock s x) + b_size buf > bufferCapacity (bsock s x) then (False, s)
      else let ptr = bs_recvBuffer (bsock s x) + bufferSize (bsock s x)
      in case b_read s buf 0 (b_size buf) of
           None \<Rightarrow> (False, s)
         | Some data \<Rightarrow> (True, bupd x (\<lambda>k. k\<lparr>bufferSize := bufferSize k + b_size buf\<rparr>) (mem_store ptr data s)))"

definition dataAvailable :: "'a buffered_scheme \<Rightarrow> nat \<Rightarrow> u16" where
  "dataAvailable s x = bufferSize (bsock s x)"

definition BufferedSocket_read :: "nat \<Rightarrow> u16 \<Rightarrow> 'a buffered_scheme \<Rightarrow> u8 list \<times> 'a buffered_scheme" where
  "BufferedSocket_read x len s =
     (let k = bsock s x;
          len = (if len > bufferSize k then bufferSize k else len);
          data = mem_load s (bs_recvBuffer k) (unat len);
          s = (if bufferCapacity k > 1
               then mem_store (bs_recvBuffer k) (mem_load s (bs_recvBuffer k + len) (unat (bufferSize k - len))) s
               else s)
      in (data, bupd x (\<lambda>k. k\<lparr>bufferSize := bufferSize k - len\<rparr>) s))"

definition BufferedSocket_getApplicationWindowSize :: "nat \<Rightarrow> 'a buffered_scheme \<Rightarrow> u16" where
  "BufferedSocket_getApplicationWindowSize x s = bufferCapacity (bsock s x) - bufferSize (bsock s x)"

text \<open>The virtual methods of a BufferedSocket: those it does not override are the ones of Socket.\<close>

definition BufferedSocket_vtable :: "bool \<Rightarrow> 'a buffered_scheme vtable" where
  "BufferedSocket_vtable allocs =
     (Socket_vtable (\<lambda>x buf s. Some (BufferedSocket_onDataReceived x buf s)) allocs)
       \<lparr>getApplicationWindowSize := BufferedSocket_getApplicationWindowSize\<rparr>"

end
