(* ===== verification/Stack.thy ===== *)
theory Stack
  imports BufferedSocket
begin

text \<open>
  The layers put together: the virtual methods that the lower layers call, resolved to the handlers of the
  repository. What an application does with a datagram is an argument.
\<close>

type_synonym 's application = "nat \<Rightarrow> u8 list \<Rightarrow> u16 \<Rightarrow> buffer \<Rightarrow> 's \<Rightarrow> 's option"

definition stack_handleDatagram :: "'a dns_scheme application \<Rightarrow> 'a dns_scheme on_datagram" where
  "stack_handleDatagram app r sourceIP sourcePort buf s =
     (case r of
        DNSReceiver \<Rightarrow> DNS_handleDatagram sourceIP sourcePort buf s
      | AppReceiver n \<Rightarrow> app n sourceIP sourcePort buf s)"

definition stack_handlePacket :: "'a tcp_scheme vtable \<Rightarrow> 'a tcp_scheme application \<Rightarrow> 'a tcp_scheme on_packet" where
  "stack_handlePacket v app h sourceIP buf s =
     (case h of
        UDPPacket \<Rightarrow> UDP_handlePacket (stack_handleDatagram app) sourceIP buf s
      | TCPPacket \<Rightarrow> TCP_handlePacket v sourceIP buf s)"

definition stack_handlePayload :: "'a tcp_scheme vtable \<Rightarrow> 'a tcp_scheme application \<Rightarrow> 'a tcp_scheme on_payload" where
  "stack_handlePayload v app h buf s =
     (case h of
        ARPPayload \<Rightarrow> Some (ARP_handlePayload buf s)
      | IPPayload \<Rightarrow> IP_handlePayload (stack_handlePacket v app) buf s)"

definition stack_handleTimer :: "'a tcp_scheme vtable \<Rightarrow> 'a tcp_scheme on_timer" where
  "stack_handleTimer v h index s =
     (case h of
        ARPTimer \<Rightarrow> ARP_handleTimer index s
      | DNSTimer \<Rightarrow> DNS_handleTimer index s
      | TCPTimer \<Rightarrow> TCP_handleTimer v index s)"

definition stack_processFrame :: "('a tcp_scheme \<Rightarrow> u16 \<times> 'a tcp_scheme) \<Rightarrow> 'a tcp_scheme vtable
    \<Rightarrow> 'a tcp_scheme application \<Rightarrow> 'a tcp_scheme \<Rightarrow> (bool \<times> 'a tcp_scheme) option" where
  "stack_processFrame receiveFrame v app =
     processFrame receiveFrame (stack_handlePayload v app) (stack_handleTimer v)"

end
