(* ===== verification/Segments.thy ===== *)
theory Segments
  imports Socket
begin

text \<open>
  What goes over the wire and what comes from it: the segment that \<^verbatim>\<open>sendSegment\<close> builds, in the format of RFC 793, and
  the checks \<^verbatim>\<open>handleSegment\<close> makes before it looks at the state.
\<close>

section \<open>Changing a socket\<close>

text \<open>The fields of a socket do not touch memory, network or other sockets.\<close>

lemma sock_upd [simp]:
  "sock (upd x f s) y = (if y = x \<and> x < length (sockets s) then f (sock s x) else sock s y)"
  "length (sockets (upd x f s)) = length (sockets s)"
  by (auto simp: sock_def upd_def nth_list_update list_update_beyond)

lemma upd_upd [simp]: "upd x f (upd x g s) = upd x (\<lambda>k. f (g k)) s"
  by (cases "x < length (sockets s)") (simp_all add: upd_def sock_def list_update_beyond)

lemma upd_cong: "f (sock s x) = g (sock s x) \<Longrightarrow> upd x f s = upd x g s"
  by (simp add: upd_def)

lemma upd_same: "f (sock s x) = sock s x \<Longrightarrow> upd x f s = s"
  by (cases "x < length (sockets s)") (simp_all add: upd_def sock_def list_update_beyond)

lemma upd_fields [simp]:
  "now (upd x f s) = now s" "macAddr (upd x f s) = macAddr s" "drv_send (upd x f s) = drv_send s"
  "drv_recv (upd x f s) = drv_recv s" "wire (upd x f s) = wire s" "sendPayloadBuffer (upd x f s) = sendPayloadBuffer s"
  "sendPacketBuffer (upd x f s) = sendPacketBuffer s" "ip_ipAddress (upd x f s) = ip_ipAddress s"
  "registeredSockets (upd x f s) = registeredSockets s" "tcp_timerIndex (upd x f s) = tcp_timerIndex s"
  "nextPort (upd x f s) = nextPort s" "tcp.more (upd x f s) = tcp.more s" "chip (upd x f s) = chip s"
  "routingTable (upd x f s) = routingTable s" "ipBroadcastAddress (upd x f s) = ipBroadcastAddress s"
  "ip_protocolRegistry (upd x f s) = ip_protocolRegistry s"
  by (simp_all add: upd_def)

lemma upd_buffers [simp]:
  "b_bytes (upd x f s) b = b_bytes s b" "b_ok (upd x f s) b = b_ok s b" "b_wok (upd x f s) b = b_wok s b"
  "b_read (upd x f s) b = b_read s b"
proof -
  have "fetch (upd x f s) c = fetch s c" for c by (cases c) (auto simp: upd_def)
  then show "b_bytes (upd x f s) b = b_bytes s b" by (simp add: b_bytes_def)
  have "b_read (s\<lparr>sockets := c\<rparr>) b off n = b_read s b off n" for c off n
    by (induction b arbitrary: off) (auto simp: driver_read_def split: option.split)
  then show "b_read (upd x f s) b = b_read s b" by (simp add: upd_def fun_eq_iff)
qed (simp_all add: b_ok_def b_wok_def)

lemma upd_ip [simp]: "ip_ok (upd x f s) = ip_ok s" "getMACForIP (upd x f s) dst = getMACForIP s dst"
  by (intro ip_ok_extend; simp add: upd_def net.defs)+

lemma tcp_same:
  assumes "dns.more s' = dns.more s"
  shows "sockets s' = sockets s" "registeredSockets s' = registeredSockets s" "tcp_timerIndex s' = tcp_timerIndex s"
    "maxOutboundLen s' = maxOutboundLen s" "tcp.more s' = tcp.more s"
  using assms by (cases s, cases s', simp)+

lemmas tcp_transmits = tcp_same [OF dns_same(6) [OF udp_same(3) [OF ip_transmits(9)]]]

lemma sock_transmits: "transmits fs s s' \<Longrightarrow> sock s' x = sock s x"
  by (simp add: sock_def tcp_transmits)

lemma rest_same_upd: "rest_same s s' \<Longrightarrow> rest_same (upd x f s) (upd x f s')"
  by (cases s, cases s') (simp add: rest_same_def upd_def sock_def)

lemma transmits_upd:
  assumes "transmits fs s s'"
  shows "transmits fs (upd x f s) (upd x f s')"
proof -
  obtain s0 where "rest_same s s0" and s': "s' = s0\<lparr>wire := wire s @ fs\<rparr>"
    using assms by (auto simp: transmits_def)
  then have "rest_same (upd x f s) (upd x f s0)" by (intro rest_same_upd)
  moreover have "upd x f s' = (upd x f s0)\<lparr>wire := wire (upd x f s) @ fs\<rparr>"
    unfolding s' by (simp add: upd_def sock_def)
  ultimately show ?thesis unfolding transmits_def by blast
qed

text \<open>The window a socket announces depends on the receiving side only, so sending does not change it.\<close>

locale window_law =
  fixes v :: "'a tcp_scheme vtable"
  assumes window: "tcp.more s' = tcp.more s \<Longrightarrow> drv_recv s' = drv_recv s \<Longrightarrow>
    getApplicationWindowSize v x s' = getApplicationWindowSize v x s"
begin

lemma getWindowSize_same:
  "tcp.more s' = tcp.more s \<Longrightarrow> drv_recv s' = drv_recv s \<Longrightarrow> getWindowSize v x s' = getWindowSize v x s"
  using window [of s' s x]
  by (simp add: getWindowSize_def Let_def getMaxSegmentSize_def IP_getMaxReceivePayload_def getMaxReceivePayload_def)

lemma getWindowSize_transmits: "transmits fs s s' \<Longrightarrow> getWindowSize v x s' = getWindowSize v x s"
  by (intro getWindowSize_same) (simp_all add: tcp_transmits transmits_fields)

end

interpretation socket_window: window_law "Socket_vtable received allocs"
  by unfold_locales
    (simp add: Socket_vtable_def getMaxSegmentSize_def IP_getMaxReceivePayload_def getMaxReceivePayload_def)

section \<open>The segment\<close>

text \<open>The header up to the checksum, and the whole segment; \<open>rest\<close> is the options and the data.\<close>

definition tcp_prefix :: "u16 \<Rightarrow> u16 \<Rightarrow> u32 \<Rightarrow> u32 \<Rightarrow> u8 \<Rightarrow> u8 \<Rightarrow> u16 \<Rightarrow> u8 list" where
  "tcp_prefix sp dp seq ack off control wnd = be16 sp @ be16 dp @ be32 seq @ be32 ack @ [off, control] @ be16 wnd"

definition tcp_csum :: "u8 list \<Rightarrow> u8 list \<Rightarrow> u8 list \<Rightarrow> u8 list \<Rightarrow> u16" where
  "tcp_csum src dst pre rest =
     csum (pseudo_sum TCP_PROTOCOL (word_of_nat (20 + length rest)) src dst) (pre @ [0, 0, 0, 0] @ rest)"

definition tcp_segment :: "u8 list \<Rightarrow> u8 list \<Rightarrow> u8 list \<Rightarrow> u8 list \<Rightarrow> u8 list" where
  "tcp_segment src dst pre rest = pre @ be16 (tcp_csum src dst pre rest) @ [0, 0] @ rest"

definition mss_option :: "u16 \<Rightarrow> u8 list" where "mss_option mss = [2, 4] @ be16 mss"

lemma lengths [simp]: "length (tcp_prefix sp dp seq ack off control wnd) = 16" "length (mss_option mss) = 4"
  by (simp_all add: tcp_prefix_def mss_option_def be16_def be32_def)

lemma length_tcp_segment [simp]: "length (tcp_segment src dst pre rest) = length pre + 4 + length rest"
  by (simp add: tcp_segment_def be16_def)

text \<open>What sending does to the fields of the socket.\<close>

definition sent :: "u8 \<Rightarrow> u16 \<Rightarrow> socket \<Rightarrow> socket" where
  "sent control n k =
     (if control AND SYN = SYN \<or> control AND FIN = FIN then k\<lparr>localSeq := localSeq k + 1\<rparr>
      else if n > 0
      then k\<lparr>state := state k OR AWAITING_ACK, lastDataLength := n, localSeq := localSeq k + ucast n\<rparr>
      else k)"

lemma sent_fields [simp]:
  "remoteIP (sent control n k) = remoteIP k" "sk_tcp (sent control n k) = sk_tcp k"
  "localPort (sent control n k) = localPort k" "remotePort (sent control n k) = remotePort k"
  "remoteSeq (sent control n k) = remoteSeq k" "listenPort (sent control n k) = listenPort k"
  "sk_stash (sent control n k) = sk_stash k" "sendBuffer (sent control n k) = sendBuffer k"
  "sk_attempts (sent control n k) = sk_attempts k" "recvBuffer (sent control n k) = recvBuffer k"
  "remoteMSS (sent control n k) = remoteMSS k" "remoteWindow (sent control n k) = remoteWindow k"
  "stateTime (sent control n k) = stateTime k" "timeout (sent control n k) = timeout k"
  by (simp_all add: sent_def)

text \<open>The pieces of the packet buffer that the fields of the header go to.\<close>

lemma put_pieces:
  assumes "24 \<le> length B"
  obtains h a b w c u r where "B = h @ [a, b] @ w @ c @ u @ r"
    and "length h = 12" and "length w = 2" and "length c = 2" and "length u = 2" and "4 \<le> length r" and "a = B ! 12"
proof (rule that)
  have "drop 12 B = [B ! 12, B ! 13] @ drop 14 B"
    using assms Cons_nth_drop_Suc [of 12 B] Cons_nth_drop_Suc [of 13 B] by simp
  moreover have "drop n B = take 2 (drop n B) @ drop (n + 2) B" for n
    by (metis append_take_drop_id drop_drop add.commute)
  from this [of 14] this [of 16] this [of 18]
  have "drop 14 B = take 2 (drop 14 B) @ take 2 (drop 16 B) @ take 2 (drop 18 B) @ drop 20 B" by simp
  ultimately show "B = take 12 B @ [B ! 12, B ! 13] @ take 2 (drop 14 B) @ take 2 (drop 16 B) @ take 2 (drop 18 B) @ drop 20 B"
    by (metis append_take_drop_id append.assoc)
qed (use assms in simp_all)

text \<open>The writes of the three kinds of segments, in the order of the code.\<close>

definition seg_ops1 :: "socket \<Rightarrow> u32 \<Rightarrow> u32 \<Rightarrow> op list" where
  "seg_ops1 k seq ack = [(0, be16 (localPort k)), (2, be16 (remotePort k)), (4, be32 seq), (8, be32 ack)]"

definition seg_ops2 :: "u8 \<Rightarrow> u16 \<Rightarrow> op list" where
  "seg_ops2 control mss =
     (if control AND SYN = SYN then [(12, [0x60]), (20, [2]), (21, [4]), (22, be16 mss)]
      else if control AND FIN = FIN then [] else [(12, [0x50])])"

definition seg_ops3 :: "u8 \<Rightarrow> u16 \<Rightarrow> op list" where
  "seg_ops3 control wnd = [(13, [control]), (14, be16 wnd), (18, be16 0)]"

lemmas seg_ops_defs = seg_ops1_def seg_ops2_def seg_ops3_def

lemma puts_segment:
  fixes control :: u8 and mss :: u16
  assumes "24 \<le> length B"
  defines "off \<equiv> (if control AND SYN = SYN then 0x60 else if control AND FIN = FIN then B ! 12 else 0x50)"
    and "opt \<equiv> (if control AND SYN = SYN then mss_option mss else [])"
  shows "\<exists>c. length c = 2 \<and> puts (seg_ops3 control wnd) (puts (seg_ops2 control mss) (puts (seg_ops1 k seq ack) B))
    = tcp_prefix (localPort k) (remotePort k) seq ack off control wnd @ c @ [0, 0] @ opt @ drop (20 + length opt) B"
proof -
  obtain h a b w c u r where B: "B = h @ [a, b] @ w @ c @ u @ r"
    and l: "length h = 12" "length w = 2" "length c = 2" "length u = 2" "4 \<le> length r" and a: "a = B ! 12"
    by (rule put_pieces [OF assms(1)])
  have "puts (seg_ops3 control wnd) (puts (seg_ops2 control mss) (puts (seg_ops1 k seq ack) B))
      = tcp_prefix (localPort k) (remotePort k) seq ack off control wnd @ c @ [0, 0] @ opt @ drop (20 + length opt) B"
    using l unfolding off_def opt_def a [symmetric] unfolding B
    by (simp add: seg_ops_defs put_def be16_def be32_def tcp_prefix_def mss_option_def)
  with l(3) show ?thesis by blast
qed

lemma seg_ops_in:
  assumes "24 \<le> n"
  shows "ops_in n (seg_ops1 k seq ack)" "ops_in n (seg_ops2 control mss)" "ops_in n (seg_ops3 control wnd)"
  using assms by (simp_all add: seg_ops_defs ops_in_def be16_def be32_def)

text \<open>The options and the new state of the socket, as writes.\<close>

lemma segment_options_ok:
  assumes "ip_ok s" and "24 \<le> unat (b_size (sendPacketBuffer s))"
  shows "segment_options x control n s = (Some (if control AND SYN = SYN then 4 else 0),
    upd x (sent control n) (writes (sendPacketBuffer s) (seg_ops2 control (getMaxSegmentSize s)) s))"
proof -
  let ?ops = "seg_ops2 control (getMaxSegmentSize s)"
  have same: "upd x (\<lambda>k. k) t = t" for t :: "'a tcp_scheme" by (intro upd_same) simp
  have q: "seq_ok (map (op_write (sendPacketBuffer s)) ?ops) s = (True, writes (sendPacketBuffer s) ?ops s)"
    using seq_writes(1) [OF ip_sizes(3) [OF assms(1)] seg_ops_in(2) [OF assms(2)]] .
  consider "control AND SYN = SYN" | "control AND SYN \<noteq> SYN" "control AND FIN = FIN"
    | "control AND SYN \<noteq> SYN" "control AND FIN \<noteq> FIN" by blast
  then show ?thesis
  proof cases
    case 1
    then have "sent control n = (\<lambda>k. k\<lparr>localSeq := localSeq k + 1\<rparr>)" by (simp add: sent_def fun_eq_iff)
    with 1 q show ?thesis
      by (simp only: segment_options_def seg_ops2_def accessor_ops Let_def if_True list.map split_conv) simp
  next
    case 2
    then have "sent control n = (\<lambda>k. k\<lparr>localSeq := localSeq k + 1\<rparr>)" by (simp add: sent_def fun_eq_iff)
    with 2 show ?thesis by (simp add: segment_options_def seg_ops2_def)
  next
    case 3
    then have "sent control n = (\<lambda>k. if n > 0 then k\<lparr>state := state k OR AWAITING_ACK, lastDataLength := n,
        localSeq := localSeq k + ucast n\<rparr> else k)" by (simp add: sent_def fun_eq_iff)
    with 3 q show ?thesis
      by (cases "n > 0") (auto simp: segment_options_def seg_ops2_def accessor_ops same split: if_splits prod.splits)
  qed
qed

lemma calc_pseudo:
  assumes "length (ip_ipAddress s) = 4" and "length (remoteIP (sock s x)) = 4"
  obtains ps where "sk_calcChecksum s x buf len = checksum (b_size buf) (b_read s buf) len 16 ps"
    and "unat ps = pseudo_sum TCP_PROTOCOL len (ip_ipAddress s) (remoteIP (sock s x))" and "unat ps < 2 ^ 30"
  using pseudo_words(2,3) [OF assms, where len = len and protocol = TCP_PROTOCOL] that
  unfolding sk_calcChecksum_def Let_def add_0 by metis

text \<open>The segment that is sent, as a function of the state, and the frame that carries it.\<close>

definition seg_opt :: "u8 \<Rightarrow> 'a tcp_scheme \<Rightarrow> u8 list" where
  "seg_opt control s = (if control AND SYN = SYN then mss_option (getMaxSegmentSize s) else [])"

definition seg_prefix :: "'a tcp_scheme vtable \<Rightarrow> nat \<Rightarrow> u8 \<Rightarrow> u32 \<Rightarrow> u32 \<Rightarrow> 'a tcp_scheme \<Rightarrow> u8 list" where
  "seg_prefix v x control seq0 ack0 s =
     tcp_prefix (localPort (sock s x)) (remotePort (sock s x))
       (if control AND RST = RST then seq0 else localSeq (sock s x))
       (if control AND RST = RST then ack0 else remoteSeq (sock s x))
       (if control AND SYN = SYN then 0x60
        else if control AND FIN = FIN then b_bytes s (sendPacketBuffer s) ! 12 else 0x50)
       control (getWindowSize v x s)"

definition seg_rest :: "u8 \<Rightarrow> u16 \<Rightarrow> 'a tcp_scheme \<Rightarrow> u8 list" where
  "seg_rest control n s =
     seg_opt control s @ take (unat n) (drop (20 + length (seg_opt control s)) (b_bytes s (sendPacketBuffer s)))"

definition sent_segment :: "'a tcp_scheme vtable \<Rightarrow> nat \<Rightarrow> u8 \<Rightarrow> u16 \<Rightarrow> u32 \<Rightarrow> u32 \<Rightarrow> 'a tcp_scheme \<Rightarrow> u8 list" where
  "sent_segment v x control n seq0 ack0 s =
     tcp_segment (ip_ipAddress s) (remoteIP (sock s x)) (seg_prefix v x control seq0 ack0 s) (seg_rest control n s)"

definition ip_frame :: "u8 list \<Rightarrow> u8 list \<Rightarrow> u8 list \<Rightarrow> u8 list \<Rightarrow> u8 \<Rightarrow> u8 list \<Rightarrow> u8 list" where
  "ip_frame mac own src dst protocol payload =
     (let n = word_of_nat (20 + length payload)
      in eth_header mac own IP_PROTOCOL @ ip_header n protocol (ip_csum n protocol src dst) src dst @ payload)"

lemma transmit_ok:
  fixes ol :: u8
  assumes "ip_ok s" and "length (remoteIP (sock s x)) = 4" and "getMACForIP s (remoteIP (sock s x)) = Some mac"
    and "unat (n + TCP_HEADER_LENGTH + ucast ol) = 20 + length rest" and "54 + length rest \<le> unat (b_size (drv_send s))"
    and "take (20 + length rest) (b_bytes s (sendPacketBuffer s)) = pre @ c @ [0, 0] @ rest"
    and "length pre = 16" and "length c = 2"
  defines "dst \<equiv> remoteIP (sock s x)" and "src \<equiv> ip_ipAddress s"
  shows "\<exists>s'. transmit x n ol s = (True, s')
    \<and> transmits [ip_frame mac (macAddr s) src dst TCP_PROTOCOL (tcp_segment src dst pre rest)] s s'"
proof -
  let ?p = "sendPacketBuffer s" and ?n = "n + TCP_HEADER_LENGTH + ucast ol"
  have wn: "word_of_nat (20 + length rest) = ?n" unfolding assms(4) [symmetric] by (simp del: of_nat_add)
  then have wn': "word_of_nat (20 + (20 + length rest)) = ?n + 20" by (simp add: of_nat_add [of 20] add.commute)
  have m: "take (unat ?n) (b_bytes s ?p) = pre @ c @ [0, 0] @ rest" using assms(4,6) by simp
  have dst: "length dst = 4" and src: "length src = 4" using assms(1,2) by (simp_all add: dst_def src_def ip_ok_def)
  obtain ps where ck: "sk_calcChecksum s x ?p ?n = checksum (b_size ?p) (b_read s ?p) ?n 16 ps"
    and ps: "unat ps = pseudo_sum TCP_PROTOCOL ?n src dst" "unat ps < 2 ^ 30"
    using calc_pseudo [of s x] src dst unfolding src_def dst_def by metis
  have off: "even (unat (16 :: u16))" "unat (16 :: u16) + 2 \<le> unat ?n" and sz: "unat ?n + 34 \<le> unat (b_size (drv_send s))"
    using assms(4,5) by auto
  have "blank 16 (pre @ c @ [0, 0] @ rest) = pre @ [0, 0, 0, 0] @ rest"
    using assms(7,8) by (cases c rule: list.exhaust) (auto simp: blank_def length_Suc_conv)
  then have cs: "sk_calcChecksum s x ?p ?n = tcp_csum src dst pre rest"
    using send_with_checksum(1) [OF assms(1) dst assms(3) [folded dst_def] sz off ps(2)]
    unfolding m ps(1) ck tcp_csum_def wn by simp
  have pt: "put 16 (be16 (tcp_csum src dst pre rest)) (pre @ c @ [0, 0] @ rest) = tcp_segment src dst pre rest"
    using assms(7,8) by (simp add: put_def tcp_segment_def be16_def)
  obtain s1 s' where w: "writeNet16 (b_write ?p) 16 (sk_calcChecksum s x ?p ?n) s = (True, s1)"
    and send: "sendPacket dst TCP_PROTOCOL ?n s1 = (True, s')" and rs: "rest_same s s1"
    and t: "transmits [eth_header mac (macAddr s) IP_PROTOCOL
        @ ip_header (?n + 20) TCP_PROTOCOL (ip_csum (?n + 20) TCP_PROTOCOL src dst) src dst
        @ tcp_segment src dst pre rest] s s'"
    using send_with_checksum(2) [OF assms(1) dst assms(3) [folded dst_def] sz off ps(2), of TCP_PROTOCOL] pt
    unfolding src_def [symmetric] m cs ck [symmetric] by auto
  have "remoteIP (sock s1 x) = dst"
    using sock_transmits [OF rest_same_transmits, OF rs] by (simp add: dst_def)
  with w send assms(3) have "transmit x n ol s = (True, s')" by (simp add: transmit_def)
  moreover have "20 + length (tcp_segment src dst pre rest) = 20 + (20 + length rest)" using assms(7) by simp
  then have "word_of_nat (20 + length (tcp_segment src dst pre rest)) = ?n + 20" by (simp only: wn')
  ultimately show ?thesis using t unfolding ip_frame_def Let_def by metis
qed

context window_law
begin

lemma sendSegment_ok:
  fixes s :: "'a tcp_scheme" and control :: u8
  assumes "ip_ok s" and "x < length (sockets s)" and "sk_tcp (sock s x)" and "length (remoteIP (sock s x)) = 4"
    and "getMACForIP s (remoteIP (sock s x)) = Some mac" and "unat n + 58 \<le> unat (b_size (drv_send s))"
  shows "\<exists>s'. sendSegment v x control n seq0 ack0 s = Some (True, s')
    \<and> transmits [ip_frame mac (macAddr s) (ip_ipAddress s) (remoteIP (sock s x)) TCP_PROTOCOL
        (sent_segment v x control n seq0 ack0 s)] (upd x (sent control n) s) s'"
proof -
  let ?p = "sendPacketBuffer s" and ?u = "upd x (sent control n)" and ?mss = "getMaxSegmentSize s"
  let ?ol = "if control AND SYN = SYN then 4 else 0 :: u8"
  define k where "k = sock s x"
  let ?seq = "if control AND RST \<noteq> RST then localSeq k else seq0"
  let ?ack = "if control AND RST \<noteq> RST then remoteSeq k else ack0"
  define B where "B = b_bytes s ?p"
  define opt where "opt = seg_opt control s"
  define pre where "pre = seg_prefix v x control seq0 ack0 s"
  note sz = ip_sizes [OF assms(1)]
  have room: "24 + unat n \<le> unat (b_size ?p)" using sz(5) assms(6) by simp
  then have r24: "24 \<le> unat (b_size ?p)" by simp
  have lB: "length B = unat (b_size ?p)" using sz(3) by (simp add: B_def buf.length_bytes buf.wok_ok)
  define s1 where "s1 = writes ?p (seg_ops1 k ?seq ?ack) s"
  define s2 where "s2 = writes ?p (seg_ops2 control ?mss) s1"
  define s3 where "s3 = writes ?p (seg_ops3 control (getWindowSize v x s)) (?u s2)"
  have rs1: "rest_same s s1" and rs2: "rest_same s s2"
    unfolding s2_def s1_def by (blast intro: rest_same_writes rest_same_trans)+
  have rs3: "rest_same (?u s) s3"
    unfolding s3_def by (rule rest_same_trans [OF rest_same_upd [OF rs2] rest_same_writes])
  note t1 = rest_same_transmits [OF rs1] and t2 = rest_same_transmits [OF rs2] and t3 = rest_same_transmits [OF rs3]
  have w: "b_wok s ?p" "b_wok s1 ?p" "b_wok (?u s2) ?p"
    using sz(3) transmits_ok(2) [OF t1] transmits_ok(2) [OF t2] by simp_all
  have p: "sendPacketBuffer s1 = ?p" "getMaxSegmentSize s1 = ?mss" "ip_ok s1"
    using ip_ok_transmits [OF t1] assms(1)
    by (simp_all add: ip_transmits [OF t1] getMaxSegmentSize_def IP_getMaxReceivePayload_def getMaxReceivePayload_def
        transmits_fields [OF t1])
  have q1: "seq_ok [writeNet16 (b_write ?p) 0 (localPort k), writeNet16 (b_write ?p) 2 (remotePort k),
      writeNet32 (b_write ?p) 4 ?seq, writeNet32 (b_write ?p) 8 ?ack] s = (True, s1)"
    using seq_writes(1) [OF w(1) seg_ops_in(1) [OF r24]] by (simp add: s1_def seg_ops1_def accessor_ops writeNet32_op)
  have q2: "segment_options x control n s1 = (Some ?ol, ?u s2)"
    using segment_options_ok [OF p(3)] r24 unfolding p by (simp add: s2_def)
  have wnd: "getWindowSize v x t = getWindowSize v x s" if "rest_same (?u s2) t" for t
  proof -
    from rest_same_trans [OF rest_same_upd [OF rs2] that] have "transmits [] (?u s) t" by (rule rest_same_transmits)
    then show ?thesis by (intro getWindowSize_same) (simp_all add: tcp_transmits transmits_fields)
  qed
  have "rest_same (?u s2) (snd (op_write ?p (13, [control]) (?u s2)))"
    unfolding op_write_def by (rule rest_same_b_write)
  note wnd13 = wnd [OF this]
  have "seq_ok (map (op_write ?p) (seg_ops3 control (getWindowSize v x s))) (?u s2) = (True, s3)"
    using seq_writes(1) [OF w(3) seg_ops_in(3) [OF r24]] by (simp add: s3_def)
  then have q3: "seq_ok [write8 (b_write ?p) 13 control, (\<lambda>t. writeNet16 (b_write ?p) 14 (getWindowSize v x t) t),
      writeNet16 (b_write ?p) 18 0] (?u s2) = (True, s3)"
    using wnd13 by (simp add: seg_ops3_def accessor_ops case_prod_beta split: if_splits)
  have "b_bytes s3 ?p = puts (seg_ops3 control (getWindowSize v x s)) (puts (seg_ops2 control ?mss) (puts (seg_ops1 k ?seq ?ack) B))"
    using seq_writes(2) [OF w(3) seg_ops_in(3) [OF r24]] seq_writes(2) [OF w(2) seg_ops_in(2) [OF r24]]
      seq_writes(2) [OF w(1) seg_ops_in(1) [OF r24]] by (simp add: s3_def s2_def s1_def B_def)
  then obtain c where c: "length c = 2" and b3: "b_bytes s3 ?p = pre @ c @ [0, 0] @ opt @ drop (20 + length opt) B"
    using puts_segment [where B = B and control = control and mss = ?mss and wnd = "getWindowSize v x s" and k = k
        and seq = ?seq and ack = ?ack] lB r24
    by (auto simp: pre_def opt_def seg_prefix_def seg_opt_def k_def B_def if_not_P cong: if_cong)
  define rest where "rest = seg_rest control n s"
  have lo: "length opt = unat ?ol" by (simp add: opt_def seg_opt_def)
  have lr: "length rest = unat ?ol + unat n"
    using room lB lo by (simp add: rest_def seg_rest_def opt_def B_def)
  have "unat n + 24 < 65536" using room unat16_less [of "b_size ?p"] by linarith
  then have un: "unat (n + TCP_HEADER_LENGTH + ucast ?ol) = 20 + length rest"
    by (auto simp: TCP_HEADER_LENGTH_def unat_add16 lr)
  have m: "take (20 + length rest) (b_bytes s3 ?p) = pre @ c @ [0, 0] @ rest"
    using c lr lo unfolding b3 by (simp add: pre_def seg_prefix_def rest_def seg_rest_def opt_def B_def)
  have k3: "sock s3 x = sent control n k" using sock_transmits [OF t3] assms(2) by (simp add: k_def)
  have f3: "ip_ok s3" "sendPacketBuffer s3 = ?p" "ip_ipAddress s3 = ip_ipAddress s" "macAddr s3 = macAddr s"
    "drv_send s3 = drv_send s" "getMACForIP s3 (remoteIP k) = Some mac"
    using assms(1,5) ip_ok_transmits [OF t3] getMACForIP_transmits [OF t3, of "remoteIP k"]
    by (simp_all add: ip_transmits [OF t3] transmits_fields [OF t3] k_def)
  have lp: "length pre = 16" by (simp add: pre_def seg_prefix_def)
  have r3: "remoteIP (sock s3 x) = remoteIP k" by (simp add: k3)
  have room': "54 + length rest \<le> unat (b_size (drv_send s))" using assms(6) unfolding lr by auto
  obtain s' where "transmit x n ?ol s3 = (True, s')"
    and t: "transmits [ip_frame mac (macAddr s) (ip_ipAddress s) (remoteIP k) TCP_PROTOCOL
        (tcp_segment (ip_ipAddress s) (remoteIP k) pre rest)] s3 s'"
    using transmit_ok [of s3 x mac n ?ol rest pre c] f3(1,6) assms(4) un m lp c room' unfolding r3 f3 k_def by auto
  with q1 q2 q3 have "sendSegment v x control n seq0 ack0 s = Some (True, s')"
    using assms(3) by (simp only: sendSegment_def Let_def k_def [symmetric] split_conv not_True_eq_False if_False option.case)
  then show ?thesis
    using transmits_rest_same [OF rs3 t] by (simp add: sent_segment_def pre_def rest_def k_def)
qed

end

text \<open>The frame arrives at the TCP layer of the host it is addressed to.\<close>

lemma ip_frame_arrives:
  assumes "ip_ok b" and "b_ok b p" and "length src = 4" and "length mac = 6" and "length own = 6"
    and "b_bytes b p = drop 14 (ip_frame mac own src (ip_ipAddress b) protocol payload) @ padding"
    and "payload \<noteq> []" and "20 + length payload < 65536" and "IP_getProtocolHandler b protocol = Some h"
  obtains q where "\<And>handlePacket. IP_handlePayload handlePacket p b = handlePacket h src q b"
    and "b_ok b q" and "b_bytes b q = payload"
proof -
  let ?n = "word_of_nat (20 + length payload) :: u16"
  have n: "unat ?n = 20 + length payload" using assms(8) by (intro unat_of_nat16) simp
  have dst: "length (ip_ipAddress b) = 4" using assms(1) by (simp add: ip_ok_def)
  have "b_bytes b p = ip_header ?n protocol (ip_csum ?n protocol src (ip_ipAddress b)) src (ip_ipAddress b) @ payload @ padding"
    unfolding assms(6) using assms(4,5) by (simp add: ip_frame_def Let_def eth_header_def be16_def)
  from ip_handles [OF assms(1,2,3) dst this n assms(7) disjI1 [OF refl] assms(9)] that show ?thesis by blast
qed

section \<open>The checks of a received segment\<close>

definition intaken :: "u8 list \<Rightarrow> buffer \<Rightarrow> u8 list \<Rightarrow> socket \<Rightarrow> socket" where
  "intaken src buf B k = k\<lparr>recvBuffer := Some (OffsetBuffer_new buf (b_size buf) 0), remoteWindow := net16 (B ! 14) (B ! 15),
     remoteIP := (if state k = LISTEN \<and> B ! 13 = SYN then src else remoteIP k)\<rparr>"

definition seg_valid :: "u8 list \<Rightarrow> u8 list \<Rightarrow> u8 list \<Rightarrow> bool" where
  "seg_valid own remote B =
     (net16 (B ! 16) (B ! 17) = csum (pseudo_sum TCP_PROTOCOL (word_of_nat (length B)) own remote) (blank 16 B))"

lemma segment_intake_eq:
  assumes "x < length (sockets s)" and "sk_tcp (sock s x)" and "length (ip_ipAddress s) = 4" and "length src = 4"
    and "length (remoteIP (sock s x)) = 4" and "b_ok s buf"
  defines "B \<equiv> b_bytes s buf" and "k \<equiv> sock s x"
  assumes "18 \<le> length B"
  shows "segment_intake x src buf s = Some
    (if seg_valid (ip_ipAddress s) (remoteIP (intaken src buf B k)) B
     then Some (B ! 13, net32 (B ! 8) (B ! 9) (B ! 10) (B ! 11), net32 (B ! 4) (B ! 5) (B ! 6) (B ! 7)) else None,
     upd x (intaken src buf B) s)"
proof -
  have len: "length B = unat (b_size buf)" unfolding B_def using assms(6) by (rule buf.length_bytes)
  have sz: "18 \<le> unat (b_size buf)" using assms(9) len by simp
  have r: "read8 (b_read s buf) 13 = Some (B ! 13)" "readNet16 (b_read s buf) 14 = Some (net16 (B ! 14) (B ! 15))"
    "readNet16 (b_read s buf) 16 = Some (net16 (B ! 16) (B ! 17))"
    "readNet32 (b_read s buf) 8 = Some (net32 (B ! 8) (B ! 9) (B ! 10) (B ! 11))"
    "readNet32 (b_read s buf) 4 = Some (net32 (B ! 4) (B ! 5) (B ! 6) (B ! 7))"
    using assms(6) sz by (simp_all add: B_def buf.read8_inside buf.readNet16_inside buf.readNet32_inside)
  define s1 where "s1 = upd x (intaken src buf B) s"
  have k1: "sock s1 x = intaken src buf B k" using assms(1) by (simp add: s1_def k_def)
  have "length (remoteIP (sock s1 x)) = 4" using assms(4,5) by (simp add: k1 intaken_def k_def)
  then obtain ps where ck: "sk_calcChecksum s1 x buf (b_size buf) = checksum (b_size buf) (b_read s buf) (b_size buf) 16 ps"
    and ps: "unat ps = pseudo_sum TCP_PROTOCOL (b_size buf) (ip_ipAddress s) (remoteIP (intaken src buf B k))"
      "unat ps < 2 ^ 30"
    using calc_pseudo [of s1 x buf "b_size buf"] assms(3) unfolding k1 by (auto simp: s1_def)
  have "take (unat (b_size buf)) B = B" using len by simp
  then have c: "sk_calcChecksum s1 x buf (b_size buf)
      = csum (pseudo_sum TCP_PROTOCOL (word_of_nat (length B)) (ip_ipAddress s) (remoteIP (intaken src buf B k))) (blank 16 B)"
    using checksum_csum [OF assms(6) order_refl ps(2), of 16] unfolding ck ps(1) B_def [symmetric] len by simp
  have tcp: "sk_tcp (sock s1 x)" using assms(2) by (simp add: k1 intaken_def k_def)
  let ?s2 = "upd x (\<lambda>k. k\<lparr>remoteWindow := net16 (B ! 14) (B ! 15)\<rparr>) (upd x (\<lambda>k. k\<lparr>recvBuffer := Some (OffsetBuffer_new buf (b_size buf) 0)\<rparr>) s)"
  have "(if state (sock ?s2 x) = LISTEN \<and> B ! 13 = SYN then upd x (\<lambda>k. k\<lparr>remoteIP := src\<rparr>) ?s2 else ?s2) = s1"
    using assms(1) by (auto simp: s1_def intaken_def intro!: upd_cong)
  then show ?thesis
    using tcp unfolding seg_valid_def c [symmetric] s1_def [symmetric] segment_intake_def Let_def upd_buffers
      r bind.bind_lunit option.case prod.case by (simp only: not_not if_False if_True not_True_eq_False split: if_splits) auto
qed

text \<open>A segment of the peer, in the format above, is read back and accepted.\<close>

lemma tcp_segment_fields:
  fixes src dst rest :: "u8 list" and sp dp wnd :: u16 and seq ack :: u32 and off control :: u8
  defines "B \<equiv> tcp_segment src dst (tcp_prefix sp dp seq ack off control wnd) rest"
  shows "net16 (B ! 0) (B ! 1) = sp" "net16 (B ! 2) (B ! 3) = dp" "net32 (B ! 4) (B ! 5) (B ! 6) (B ! 7) = seq"
    "net32 (B ! 8) (B ! 9) (B ! 10) (B ! 11) = ack" "B ! 12 = off" "B ! 13 = control" "net16 (B ! 14) (B ! 15) = wnd"
    "net16 (B ! 16) (B ! 17) = tcp_csum src dst (tcp_prefix sp dp seq ack off control wnd) rest"
  unfolding B_def tcp_segment_def tcp_prefix_def be16_def be32_def
  by (simp_all only: append.simps nth_Cons_0 nth_Cons_numeral numeral_One pred_numeral_simps nth_Cons_Suc One_nat_def
      BitM.simps net16_be16 net32_be32) (simp_all add: nth_Cons' bo_simps)

lemma tcp_segment_valid:
  "seg_valid dst src (tcp_segment src dst (tcp_prefix sp dp seq ack off control wnd) rest)"
proof -
  let ?p = "tcp_prefix sp dp seq ack off control wnd"
  have "blank 16 (tcp_segment src dst ?p rest) = ?p @ [0, 0, 0, 0] @ rest"
    by (simp add: blank_def tcp_segment_def be16_def)
  then show ?thesis
    unfolding seg_valid_def tcp_segment_fields by (simp add: tcp_csum_def pseudo_sum_commute)
qed

end
