(* ===== verification/Connections.thy ===== *)
theory Connections
  imports Stack Segments
begin

text \<open>
  Two hosts: how a segment that one sends is handled by the other, from the buffer it is received in up to the socket,
  and how a connection is opened.
\<close>

section \<open>Sockets without events\<close>

text \<open>The events of class Socket, and of classes that do not override them, do nothing.\<close>

locale quiet_events = window_law v for v :: "'a tcp_scheme vtable" +
  assumes quiet: "onEstablished v x s = Some s" "onReadyToSend v x s = Some s" "onRemoteClosed v x s = Some s"
    "onLocalClosed v x s = Some s" "onClosed v x s = Some s" "onReset v x remote s = Some s"
begin

lemma setState_quiet: "setState v x st s = Some (upd x (\<lambda>k. k\<lparr>state := st, stateTime := now s\<rparr>) s)"
  by (simp add: setState_def Let_def quiet)

lemma closed_quiet: "closed v x s = Some (upd x (\<lambda>k. k\<lparr>state := (if sk_tcp k \<and> isHost k then LISTEN else CLOSED), stateTime := now s\<rparr>) s)"
  by (auto simp: closed_def setState_quiet intro!: upd_cong)

end

interpretation socket_events: quiet_events "Socket_vtable received allocs"
  by unfold_locales (simp_all add: Socket_vtable_def)

lemma buffered_more: "tcp.more s = \<lparr>bsockets = bsockets s, \<dots> = buffered.more s\<rparr>"
  by (cases s) (simp only: tcp.select_convs buffered.select_convs)

lemma buffered_same:
  assumes "tcp.more s' = tcp.more s"
  shows "bsockets s' = bsockets s" "buffered.more s' = buffered.more s"
  using assms by (simp_all only: buffered_more buffered.ext_inject)

interpretation buffered_events: quiet_events "BufferedSocket_vtable allocs"
proof unfold_locales
  fix s s' :: "'a buffered_scheme" and x
  assume "tcp.more s' = tcp.more s"
  then show "getApplicationWindowSize (BufferedSocket_vtable allocs) x s' = getApplicationWindowSize (BufferedSocket_vtable allocs) x s"
    by (simp add: BufferedSocket_vtable_def BufferedSocket_getApplicationWindowSize_def bsock_def buffered_same(1) [of s' s])
qed (simp_all add: BufferedSocket_vtable_def Socket_vtable_def)

section \<open>The socket a segment is for\<close>

lemma find_socket_None:
  "find_socket s P = None \<longleftrightarrow> (\<forall>x. (Some x) \<in> fst ` set (registeredSockets s) \<longrightarrow> \<not> P (sock s x))"
proof -
  let ?Q = "\<lambda>r. case fst r of None \<Rightarrow> False | Some x \<Rightarrow> P (sock s x)"
  have "find_socket s P = None \<longleftrightarrow> index_of ?Q (registeredSockets s) = None"
    by (auto simp: find_socket_def index_of_Some split: option.split)
  also have "\<dots> \<longleftrightarrow> (\<forall>x. Some x \<in> fst ` set (registeredSockets s) \<longrightarrow> \<not> P (sock s x))"
    unfolding index_of_None by (force split: option.splits)
  finally show ?thesis .
qed

lemma find_socket_Some:
  assumes "find_socket s P = Some x"
  shows "P (sock s x)" and "Some x \<in> fst ` set (registeredSockets s)"
proof -
  obtain i where i: "index_of (\<lambda>r. case fst r of None \<Rightarrow> False | Some x \<Rightarrow> P (sock s x)) (registeredSockets s) = Some i"
    and x: "fst (registeredSockets s ! i) = Some x"
    using assms by (auto simp: find_socket_def split: option.splits)
  then have "i < length (registeredSockets s)" by (simp add: index_of_Some)
  with i x show "P (sock s x)" "Some x \<in> fst ` set (registeredSockets s)"
    by (auto simp: index_of_Some intro!: image_eqI [of _ _ "registeredSockets s ! i"])
qed

text \<open>A socket that comes to match is found when no other does.\<close>

lemma find_socket_upd:
  assumes "find_socket s P = None" and "Some x \<in> fst ` set (registeredSockets s)" and "x < length (sockets s)"
    and "P (f (sock s x))"
  shows "find_socket (upd x f s) P = Some x"
proof (cases "find_socket (upd x f s) P")
  case None
  then show ?thesis using assms(2-4) by (auto simp: find_socket_None)
next
  case (Some y)
  from find_socket_Some [OF this] assms(1) show ?thesis
    using Some by (auto simp: find_socket_None split: if_splits)
qed

lemma find_socket_same:
  assumes "sockets s' = sockets s" and "registeredSockets s' = registeredSockets s"
  shows "find_socket s' P = find_socket s P"
  unfolding find_socket_def sock_def assms ..

section \<open>From the wire to the socket\<close>

text \<open>A frame is received: its payload is in the buffer \<open>p\<close>, which the IP layer gets.\<close>

definition receive_packet :: "'a tcp_scheme vtable \<Rightarrow> 'a tcp_scheme application \<Rightarrow> buffer \<Rightarrow> u8 list \<Rightarrow> 'a tcp_scheme
    \<Rightarrow> 'a tcp_scheme option" where
  "receive_packet v app p frame s = stack_handlePayload v app IPPayload p (snd (b_write p 0 (drop 14 frame) s))"

lemma receive_segment:
  assumes "ip_ok s" and "b_wok s p" and "length src = 4" and "length mac = 6" and "length own = 6"
    and "unat (b_size p) = 20 + length seg" and "seg \<noteq> []" and "IP_getProtocolHandler s TCP_PROTOCOL = Some TCPPacket"
  obtains q s1 where "\<And>v app. receive_packet v app p (ip_frame mac own src (ip_ipAddress s) TCP_PROTOCOL seg) s = TCP_handlePacket v src q s1"
    and "rest_same s s1" and "b_ok s1 q" and "b_bytes s1 q = seg"
proof -
  let ?f = "ip_frame mac own src (ip_ipAddress s) TCP_PROTOCOL seg"
  define s1 where "s1 = snd (b_write p 0 (drop 14 ?f) s)"
  have dst: "length (ip_ipAddress s) = 4" using assms(1) by (simp add: ip_ok_def)
  have "length (drop 14 ?f) = 20 + length seg"
    using assms(3-5) dst by (simp add: ip_frame_def Let_def eth_header_def be16_def)
  then have B: "b_bytes s1 p = drop 14 ?f @ []"
    unfolding s1_def append_Nil2 using assms(6) by (intro fill_bytes [OF assms(2)]) auto
  have rs: "rest_same s s1" unfolding s1_def by (rule rest_same_b_write)
  note t = rest_same_transmits [OF rs]
  have ip: "ip_ok s1" "ip_ipAddress s1 = ip_ipAddress s" "IP_getProtocolHandler s1 TCP_PROTOCOL = Some TCPPacket" "b_ok s1 p"
    using ip_ok_transmits [OF t] assms(1,8) transmits_ok(1) [OF t] buf.wok_ok [OF assms(2)]
    by (simp_all add: ip_transmits [OF t] IP_getProtocolHandler_def)
  have l: "20 + length seg < 65536" using assms(6) unat16_less [of "b_size p"] by simp
  obtain q where h: "\<And>hp. IP_handlePayload hp p s1 = hp TCPPacket src q s1" and q: "b_ok s1 q" "b_bytes s1 q = seg"
    by (rule ip_frame_arrives [OF ip(1,4) assms(3-5) B [folded ip(2)] assms(7) l ip(3)]) (rule that)
  have "receive_packet v app p ?f s = TCP_handlePacket v src q s1" for v app
    by (simp add: receive_packet_def stack_handlePayload_def flip: s1_def) (simp add: h stack_handlePacket_def)
  from that [OF this rs q] show ?thesis .
qed

text \<open>The socket that gets a segment addressed to this host.\<close>

definition target :: "'a tcp_scheme \<Rightarrow> u8 list \<Rightarrow> u16 \<Rightarrow> u16 \<Rightarrow> nat option" where
  "target s src sp dp = (case find_socket s (\<lambda>k. equals_remote k src sp dp) of
     Some x \<Rightarrow> Some x | None \<Rightarrow> find_socket s (\<lambda>k. equals_listen k dp))"

lemma TCP_handlePacket_target:
  assumes "b_ok s q" and "b_bytes s q = tcp_segment src dst (tcp_prefix sp dp seq ack off control wnd) rest"
  shows "TCP_handlePacket v src q s = (case target s src sp dp of None \<Rightarrow> Some s | Some x \<Rightarrow> handleSegment v x src q s)"
proof -
  have "18 \<le> unat (b_size q)" using buf.length_bytes [OF assms(1)] assms(2) by simp
  then have "readNet16 (b_read s q) 0 = Some sp" "readNet16 (b_read s q) 2 = Some dp"
    using assms tcp_segment_fields(1,2) [of src dst sp dp seq ack off control wnd rest]
    by (simp_all add: buf.readNet16_inside)
  then show ?thesis by (simp add: TCP_handlePacket_def target_def split: option.split)
qed

lemma handleSegment_valid:
  assumes "b_ok s q" and "b_bytes s q = tcp_segment src (ip_ipAddress s) (tcp_prefix sp dp seq ack off control wnd) rest"
    and "x < length (sockets s)" and "sk_tcp (sock s x)" and "ip_ok s" and "length src = 4" and "length (remoteIP (sock s x)) = 4"
    and "remoteIP (sock s x) = src \<or> state (sock s x) = LISTEN \<and> control = SYN"
  shows "handleSegment v x src q s = segment_process v x control ack seq q (upd x (\<lambda>k. k\<lparr>recvBuffer :=
    Some (OffsetBuffer_new q (b_size q) 0), remoteWindow := wnd, remoteIP := src\<rparr>) s)"
proof -
  let ?B = "b_bytes s q"
  have own: "length (ip_ipAddress s) = 4" using assms(5) by (simp add: ip_ok_def)
  have l: "18 \<le> length ?B" unfolding assms(2) by simp
  note f = tcp_segment_fields [of src "ip_ipAddress s" sp dp seq ack off control wnd rest, folded assms(2)]
  have r: "remoteIP (intaken src q ?B (sock s x)) = src" using assms(8) f(6) by (auto simp: intaken_def)
  have v: "seg_valid (ip_ipAddress s) src ?B" unfolding assms(2) by (rule tcp_segment_valid)
  have "segment_intake x src q s = Some (Some (control, ack, seq), upd x (intaken src q ?B) s)"
    using segment_intake_eq [OF assms(3,4) own assms(6,7,1) l] v unfolding r f by simp
  moreover have "upd x (intaken src q ?B) s = upd x (\<lambda>k. k\<lparr>recvBuffer :=
      Some (OffsetBuffer_new q (b_size q) 0), remoteWindow := wnd, remoteIP := src\<rparr>) s"
    using r f(7) by (intro upd_cong) (simp add: intaken_def)
  ultimately show ?thesis by (simp add: handleSegment_def)
qed

lemma target_transmits: "transmits fs s s' \<Longrightarrow> target s' = target s"
  unfolding target_def fun_eq_iff by (simp add: find_socket_same [OF tcp_transmits(1,2)] split: option.split)

definition received :: "u8 list \<Rightarrow> u16 \<Rightarrow> buffer \<Rightarrow> socket \<Rightarrow> socket" where
  "received src wnd q k = k\<lparr>recvBuffer := Some (OffsetBuffer_new q (b_size q) 0), remoteWindow := wnd, remoteIP := src\<rparr>"

lemma receive_for_socket:
  fixes s :: "'a tcp_scheme"
  assumes "ip_ok s" and "b_wok s p" and "length src = 4" and "length mac = 6" and "length own = 6"
    and "seg = tcp_segment src (ip_ipAddress s) (tcp_prefix sp dp seq ack off control wnd) rest"
    and "unat (b_size p) = 40 + length rest" and "IP_getProtocolHandler s TCP_PROTOCOL = Some TCPPacket"
    and "target s src sp dp = Some x" and "x < length (sockets s)" and "sk_tcp (sock s x)" and "length (remoteIP (sock s x)) = 4"
    and "remoteIP (sock s x) = src \<or> state (sock s x) = LISTEN \<and> control = SYN"
  obtains q s1 where "\<And>v app. receive_packet v app p (ip_frame mac own src (ip_ipAddress s) TCP_PROTOCOL seg) s
      = segment_process v x control ack seq q (upd x (received src wnd q) s1)"
    and "rest_same s s1" and "b_ok s1 q" and "b_bytes s1 q = seg"
proof -
  have l: "unat (b_size p) = 20 + length seg" and ne: "seg \<noteq> []"
    using assms(7) unfolding assms(6) by (auto simp: tcp_segment_def)
  obtain q s1
    where r: "\<And>v app. receive_packet v app p (ip_frame mac own src (ip_ipAddress s) TCP_PROTOCOL seg) s = TCP_handlePacket v src q s1"
    and s1: "rest_same s s1" "b_ok s1 q" "b_bytes s1 q = seg"
    by (rule receive_segment [OF assms(1-5) l ne assms(8)]) (rule that)
  note t = rest_same_transmits [OF s1(1)]
  have same: "ip_ipAddress s1 = ip_ipAddress s" "sockets s1 = sockets s" "sock s1 x = sock s x" "ip_ok s1"
    using assms(1) ip_ok_transmits [OF t] by (simp_all add: ip_transmits [OF t] tcp_transmits [OF t] sock_transmits [OF t])
  have tg: "target s1 src sp dp = Some x"
    using assms(9) by (simp add: target_transmits [OF t])
  have B: "b_bytes s1 q = tcp_segment src (ip_ipAddress s1) (tcp_prefix sp dp seq ack off control wnd) rest"
    using s1(3) assms(6) same by simp
  have "TCP_handlePacket v src q s1 = segment_process v x control ack seq q (upd x (received src wnd q) s1)" for v
    using handleSegment_valid [OF s1(2) B] assms(3,10-13) same tg
    unfolding TCP_handlePacket_target [OF s1(2) B] received_def [abs_def] by simp
  then show ?thesis by (intro that [OF _ s1]) (simp only: r)
qed

section \<open>Opening a connection\<close>

text \<open>A segment without data.\<close>

lemma seg_rest_control [simp]: "seg_rest control 0 s = seg_opt control s"
  by (simp add: seg_rest_def)

lemma nextPort_update [simp]:
  "ip_ok (s\<lparr>nextPort := n\<rparr>) = ip_ok s" "getMACForIP (s\<lparr>nextPort := n\<rparr>) dst = getMACForIP s dst"
  "sock (s\<lparr>nextPort := n\<rparr>) x = sock s x" "b_wok (s\<lparr>nextPort := n\<rparr>) b = b_wok s b"
  "IP_getProtocolHandler (s\<lparr>nextPort := n\<rparr>) i = IP_getProtocolHandler s i"
  by (simp_all add: IP_getProtocolHandler_def ip_ok_def arp_ok_def arp_net_ok_def eth_ok_def b_wok_def b_ok_def timers_ok_def
      getMACForIP_def onLocalNetwork_def getMACAddress_def sock_def)

text \<open>The MSS option is read back.\<close>

lemma net32_halves:
  "drop_bit 16 (net32 a b c d) = ucast (net16 a b)" "ucast (drop_bit 16 (push_bit 16 (net32 a b c d))) = net16 c d"
  by (rule bit_word_eqI; auto simp: net32_bit net16_bit bit_simps)+

lemma read_mss_option:
  assumes "b_ok s q" and "b_bytes s q = tcp_segment src dst (tcp_prefix sp dp seq ack 0x60 control wnd) (mss_option mss)"
  shows "read_mss (b_read s q) m = Some mss"
proof -
  have l: "24 \<le> unat (b_size q)" using buf.length_bytes [OF assms(1)] assms(2) by simp
  have "read8 (b_read s q) 12 = Some 0x60"
    using l assms tcp_segment_fields(5) [of src dst sp dp seq ack "0x60" control wnd "mss_option mss"]
    by (simp add: buf.read8_inside)
  moreover have "readNet32 (b_read s q) 20 = Some (net32 2 4 (ucast (drop_bit 8 mss)) (ucast mss))"
    using l assms by (simp add: buf.readNet32_inside tcp_segment_def nth_append mss_option_def be16_def)
  ultimately show ?thesis by (simp add: read_mss_def net32_halves bo_simps) (simp add: net16_def)
qed

definition can_send :: "nat \<Rightarrow> u8 list \<Rightarrow> 'a tcp_scheme \<Rightarrow> bool" where
  "can_send x mac s = (ip_ok s \<and> x < length (sockets s) \<and> sk_tcp (sock s x) \<and> length (remoteIP (sock s x)) = 4
     \<and> getMACForIP s (remoteIP (sock s x)) = Some mac \<and> 58 \<le> unat (b_size (drv_send s)))"

text \<open>The frame of a segment without data, with the window and the MSS of the sender.\<close>

definition control_frame :: "'a tcp_scheme vtable \<Rightarrow> nat \<Rightarrow> u8 list \<Rightarrow> u8 \<Rightarrow> 'a tcp_scheme \<Rightarrow> u8 list" where
  "control_frame v x mac control s =
     ip_frame mac (macAddr s) (ip_ipAddress s) (remoteIP (sock s x)) TCP_PROTOCOL (sent_segment v x control 0 0 0 s)"

lemma sent_control: "control AND RST \<noteq> RST \<Longrightarrow> control AND FIN \<noteq> FIN \<Longrightarrow>
  sent_segment v x control 0 0 0 s = tcp_segment (ip_ipAddress s) (remoteIP (sock s x))
    (tcp_prefix (localPort (sock s x)) (remotePort (sock s x)) (localSeq (sock s x)) (remoteSeq (sock s x))
      (if control AND SYN = SYN then 0x60 else 0x50) control (getWindowSize v x s)) (seg_opt control s)"
  by (simp add: sent_segment_def seg_prefix_def)

lemma connect_unfold: "connect v x s = connect_with (resolveIP_with (connect_depth 1)) v x s"
  unfolding connect_def numeral_2_eq_2 by simp

context quiet_events
begin

lemma send_control:
  fixes s :: "'a tcp_scheme"
  assumes "can_send x mac s"
  shows "\<exists>s'. sendSegment v x control 0 0 0 s = Some (True, s')
    \<and> transmits [control_frame v x mac control s] (upd x (sent control 0) s) s'"
  using assms sendSegment_ok [of s x mac 0 control 0 0] by (simp add: can_send_def control_frame_def)

lemma send_and_change:
  fixes s :: "'a tcp_scheme"
  assumes "can_send x mac s"
  shows "\<exists>s1 s'. sendSegment v x control 0 0 0 s = Some (True, s1) \<and> setState v x st (upd x f s1) = Some s'
    \<and> transmits [control_frame v x mac control s]
        (upd x (\<lambda>k. (f (sent control 0 k))\<lparr>state := st, stateTime := now s\<rparr>) s) s'"
proof -
  obtain s1 where s1: "sendSegment v x control 0 0 0 s = Some (True, s1)"
    and t: "transmits [control_frame v x mac control s] (upd x (sent control 0) s) s1"
    using send_control [OF assms] by blast
  have "now s1 = now s" using transmits_fields(2) [OF t] by simp
  with transmits_upd [OF t, of x "\<lambda>k. (f k)\<lparr>state := st, stateTime := now s\<rparr>"] s1 show ?thesis
    by (auto simp: setState_quiet)
qed

text \<open>The client: \<^verbatim>\<open>connect\<close> on a closed socket with a known address.\<close>

lemma connect_ok:
  fixes s :: "'a tcp_scheme"
  assumes "can_send x mac s" and "remoteDomain (sock s x) = None" and "state (sock s x) = CLOSED"
  defines "s0 \<equiv> upd x (\<lambda>k. k\<lparr>localPort := nextPort s\<rparr>) (s\<lparr>nextPort := nextPort s + 1\<rparr>)"
  shows "\<exists>s'. connect v x s = Some (True, s')
    \<and> transmits [control_frame v x mac SYN s0]
        (upd x (\<lambda>k. k\<lparr>localSeq := localSeq k + 1, sk_attempts := 1, state := SYN_SENT, stateTime := now s\<rparr>) s0) s'"
proof -
  have "can_send x mac s0" using assms(1) by (simp add: can_send_def s0_def)
  from send_and_change [OF this, of SYN SYN_SENT "\<lambda>k. k\<lparr>sk_attempts := 1\<rparr>"]
  obtain s1 s' where "sendSegment v x SYN 0 0 0 s0 = Some (True, s1)" "setState v x SYN_SENT (upd x (\<lambda>k. k\<lparr>sk_attempts := 1\<rparr>) s1) = Some s'"
    and t: "transmits [control_frame v x mac SYN s0]
        (upd x (\<lambda>k. ((sent SYN 0 k)\<lparr>sk_attempts := 1\<rparr>)\<lparr>state := SYN_SENT, stateTime := now s0\<rparr>) s0) s'" by blast
  moreover have "resolveIP_with c v x s = Some (True, s)" for c
    using assms(2,3) by (simp add: resolveIP_with_def)
  ultimately have "connect v x s = Some (True, s')"
    using assms(1,3) by (simp add: connect_unfold connect_with_def getPort_def s0_def can_send_def sock_states)
  moreover have "(sent SYN 0 k)\<lparr>sk_attempts := 1, state := SYN_SENT, stateTime := now s\<rparr>
      = k\<lparr>localSeq := localSeq k + 1, sk_attempts := 1, state := SYN_SENT, stateTime := now s\<rparr>" for k
    by (simp add: sent_def)
  moreover have "now s0 = now s" by (simp add: s0_def)
  ultimately show ?thesis using t by auto
qed

text \<open>The server: a SYN for a listening socket.\<close>

lemma accept_ok:
  fixes s :: "'a tcp_scheme"
  assumes "can_send x mac s" and "b_ok s q" and "state (sock s x) = LISTEN"
    and "b_bytes s q = tcp_segment src dst (tcp_prefix sp dp seq ack 0x60 SYN wnd) (mss_option mss)"
  defines "s0 \<equiv> upd x (\<lambda>k. k\<lparr>remoteSeq := seq + 1, remoteMSS := mss, remotePort := sp\<rparr>) s"
  shows "\<exists>s'. segment_process v x SYN ack seq q s = Some s'
    \<and> transmits [control_frame v x mac (SYN OR ACK) s0]
        (upd x (\<lambda>k. k\<lparr>localSeq := localSeq k + 1, state := SYN_RECEIVED, stateTime := now s, sk_attempts := 1\<rparr>) s0) s'"
proof -
  have l: "20 \<le> unat (b_size q)" using buf.length_bytes [OF assms(2)] assms(4) by simp
  have p: "readNet16 (b_read s q) 0 = Some sp" "readNet16 (b_read s q) 2 = Some dp"
    using l assms(2,4) tcp_segment_fields(1,2) [of src dst sp dp seq ack "0x60" SYN wnd "mss_option mss"]
    by (simp_all add: buf.readNet16_inside)
  note m = read_mss_option [OF assms(2,4)]
  have "can_send x mac s0" using assms(1) by (simp add: can_send_def s0_def)
  from send_and_change [OF this, of "SYN OR ACK" SYN_RECEIVED "\<lambda>k. k"]
  obtain s1 s' where s1: "sendSegment v x (SYN OR ACK) 0 0 0 s0 = Some (True, s1)"
      "setState v x SYN_RECEIVED (upd x (\<lambda>k. k) s1) = Some s'"
    and t: "transmits [control_frame v x mac (SYN OR ACK) s0]
        (upd x (\<lambda>k. (sent (SYN OR ACK) 0 k)\<lparr>state := SYN_RECEIVED, stateTime := now s0\<rparr>) s0) s'" by blast
  have "segment_process v x SYN ack seq q s = segment_accept v x seq q s"
    using assms(3) by (simp add: segment_process_def sock_states seg_flags)
  also have "segment_accept v x seq q s = Some (upd x (\<lambda>k. k\<lparr>sk_attempts := 1\<rparr>) s')"
  proof -
    have "upd x (\<lambda>k. k\<lparr>remotePort := sp\<rparr>) (upd x (\<lambda>k. k\<lparr>remoteMSS := mss\<rparr>) (upd x (\<lambda>k. k\<lparr>remotePort := dp\<rparr>)
        (upd x (\<lambda>k. k\<lparr>remoteSeq := seq + 1\<rparr>) s))) = s0"
      by (simp add: s0_def)
    then show ?thesis
      using s1 upd_same [of "\<lambda>k. k" s1 x] by (simp add: segment_accept_def Let_def p m del: upd_upd)
  qed
  finally have "segment_process v x SYN ack seq q s = Some (upd x (\<lambda>k. k\<lparr>sk_attempts := 1\<rparr>) s')" .
  moreover have "((sent (SYN OR ACK) 0 k)\<lparr>state := SYN_RECEIVED, stateTime := now s0\<rparr>)\<lparr>sk_attempts := 1\<rparr>
      = k\<lparr>localSeq := localSeq k + 1, state := SYN_RECEIVED, stateTime := now s, sk_attempts := 1\<rparr>" for k
    by (simp add: sent_def seg_flags s0_def)
  ultimately show ?thesis using transmits_upd [OF t, of x "\<lambda>k. k\<lparr>sk_attempts := 1\<rparr>"] by auto
qed

text \<open>The client again: the answer to its SYN.\<close>

lemma syn_sent_ok:
  fixes s :: "'a tcp_scheme"
  assumes "can_send x mac s" and "b_ok s q" and "state (sock s x) = SYN_SENT" and "ack = localSeq (sock s x)"
    and "b_bytes s q = tcp_segment src dst (tcp_prefix sp dp seq ack 0x60 (SYN OR ACK) wnd) (mss_option mss)"
  defines "s0 \<equiv> upd x (\<lambda>k. k\<lparr>remoteSeq := seq + 1, remoteMSS := mss\<rparr>) s"
  shows "\<exists>s'. segment_process v x (SYN OR ACK) ack seq q s = Some s'
    \<and> transmits [control_frame v x mac ACK s0]
        (upd x (\<lambda>k. k\<lparr>state := ESTABLISHED, stateTime := now s\<rparr>) s0) s'"
proof -
  note m = read_mss_option [OF assms(2,5)]
  have "can_send x mac s0" using assms(1) by (simp add: can_send_def s0_def)
  from send_and_change [OF this, of ACK ESTABLISHED "\<lambda>k. k"]
  obtain s1 s' where s1: "sendSegment v x ACK 0 0 0 s0 = Some (True, s1)"
      "setState v x ESTABLISHED (upd x (\<lambda>k. k) s1) = Some s'"
    and t: "transmits [control_frame v x mac ACK s0]
        (upd x (\<lambda>k. (sent ACK 0 k)\<lparr>state := ESTABLISHED, stateTime := now s0\<rparr>) s0) s'" by blast
  have "segment_process v x (SYN OR ACK) ack seq q s = segment_syn_sent v x True seq q s"
    using assms(3,4) by (simp add: segment_process_def sock_states seg_flags)
  also have "segment_syn_sent v x True seq q s = Some s'"
    using s1 upd_same [of "\<lambda>k. k" s1 x] by (simp add: segment_syn_sent_def Let_def m s0_def)
  finally have "segment_process v x (SYN OR ACK) ack seq q s = Some s'" .
  moreover have "(sent ACK 0 k) = k" for k by (simp add: sent_def seg_flags)
  ultimately show ?thesis using t by (auto simp: s0_def)
qed

text \<open>The server again: the acknowledgement of its SYN.\<close>

lemma acked_ok:
  assumes "state (sock s x) = SYN_RECEIVED" and "ack = localSeq (sock s x)"
  shows "segment_process v x ACK ack seq q s = Some (upd x (\<lambda>k. k\<lparr>state := ESTABLISHED, stateTime := now s\<rparr>) s)"
  using assms by (simp add: segment_process_def segment_acked_def setState_quiet sock_states seg_flags)

end

lemma can_send_transmits: "transmits fs s s' \<Longrightarrow> can_send x mac s' = can_send x mac s"
  by (simp add: can_send_def ip_ok_transmits tcp_transmits sock_transmits getMACForIP_transmits transmits_fields)

lemma protocol_transmits: "transmits fs s s' \<Longrightarrow> IP_getProtocolHandler s' n = IP_getProtocolHandler s n"
  by (simp add: IP_getProtocolHandler_def ip_transmits)

lemma protocol_upd [simp]: "IP_getProtocolHandler (upd x f s) n = IP_getProtocolHandler s n"
  by (simp add: IP_getProtocolHandler_def)

lemma mss_transmits: "transmits fs s s' \<Longrightarrow> getMaxSegmentSize s' = getMaxSegmentSize s"
  by (simp add: getMaxSegmentSize_def IP_getMaxReceivePayload_def getMaxReceivePayload_def transmits_fields)

lemma mss_upd [simp]: "getMaxSegmentSize (upd x f s) = getMaxSegmentSize s"
  by (simp add: getMaxSegmentSize_def IP_getMaxReceivePayload_def getMaxReceivePayload_def)

lemma mss_nextPort [simp]: "getMaxSegmentSize (s\<lparr>nextPort := n\<rparr>) = getMaxSegmentSize s"
  by (simp add: getMaxSegmentSize_def IP_getMaxReceivePayload_def getMaxReceivePayload_def)

lemma control_frame_eq:
  fixes control :: u8
  assumes "control AND RST \<noteq> RST" and "control AND FIN \<noteq> FIN" and "sock s x = k"
  shows "control_frame v x mac control s = ip_frame mac (macAddr s) (ip_ipAddress s) (remoteIP k) TCP_PROTOCOL
    (tcp_segment (ip_ipAddress s) (remoteIP k)
      (tcp_prefix (localPort k) (remotePort k) (localSeq k) (remoteSeq k)
        (if control AND SYN = SYN then 0x60 else 0x50) control (getWindowSize v x s))
      (if control AND SYN = SYN then mss_option (getMaxSegmentSize s) else []))"
  by (simp add: control_frame_def sent_control [OF assms(1,2)] assms(3) seg_opt_def)

lemma target_connection:
  "find_socket s (\<lambda>k. equals_remote k src sp dp) = None \<Longrightarrow> Some x \<in> fst ` set (registeredSockets s) \<Longrightarrow>
    x < length (sockets s) \<Longrightarrow> equals_remote (f (sock s x)) src sp dp \<Longrightarrow> target (upd x f s) src sp dp = Some x"
  by (simp add: target_def find_socket_upd)

text \<open>What the three steps look like from the wire.\<close>

definition syn_frame :: "u8 \<Rightarrow> u8 list \<Rightarrow> u8 list \<Rightarrow> u8 list \<Rightarrow> u8 list \<Rightarrow> u16 \<Rightarrow> u16 \<Rightarrow> u32 \<Rightarrow> u32 \<Rightarrow> u16 \<Rightarrow> u16 \<Rightarrow> u8 list" where
  "syn_frame control mac own src dst sp dp seq ack wnd mss = ip_frame mac own src dst TCP_PROTOCOL
     (tcp_segment src dst (tcp_prefix sp dp seq ack 0x60 control wnd) (mss_option mss))"

definition ack_frame :: "u8 list \<Rightarrow> u8 list \<Rightarrow> u8 list \<Rightarrow> u8 list \<Rightarrow> u16 \<Rightarrow> u16 \<Rightarrow> u32 \<Rightarrow> u32 \<Rightarrow> u16 \<Rightarrow> u8 list" where
  "ack_frame mac own src dst sp dp seq ack wnd = ip_frame mac own src dst TCP_PROTOCOL
     (tcp_segment src dst (tcp_prefix sp dp seq ack 0x50 ACK wnd) [])"

text \<open>A state in which \<open>x\<close> can be reached and can answer.\<close>

definition can_receive :: "nat \<Rightarrow> buffer \<Rightarrow> u8 list \<Rightarrow> u16 \<Rightarrow> u16 \<Rightarrow> 'a tcp_scheme \<Rightarrow> bool" where
  "can_receive x p src sp dp s = (ip_ok s \<and> b_wok s p \<and> length src = 4 \<and> x < length (sockets s) \<and> sk_tcp (sock s x)
     \<and> length (remoteIP (sock s x)) = 4 \<and> IP_getProtocolHandler s TCP_PROTOCOL = Some TCPPacket
     \<and> target s src sp dp = Some x)"

lemma receive_in:
  fixes s :: "'a tcp_scheme"
  assumes "can_receive x p src sp dp s" and "length mac = 6" and "length own = 6" and "unat (b_size p) = 40 + length rest"
    and "remoteIP (sock s x) = src \<or> state (sock s x) = LISTEN \<and> control = SYN"
  obtains q s1 where "\<And>v app. receive_packet v app p (ip_frame mac own src (ip_ipAddress s) TCP_PROTOCOL
        (tcp_segment src (ip_ipAddress s) (tcp_prefix sp dp seq ack off control wnd) rest)) s
      = segment_process v x control ack seq q (upd x (received src wnd q) s1)"
    and "rest_same s s1" and "b_ok s1 q"
    and "b_bytes s1 q = tcp_segment src (ip_ipAddress s) (tcp_prefix sp dp seq ack off control wnd) rest"
proof -
  have c: "ip_ok s" "b_wok s p" "length src = 4" "IP_getProtocolHandler s TCP_PROTOCOL = Some TCPPacket"
    "target s src sp dp = Some x" "x < length (sockets s)" "sk_tcp (sock s x)" "length (remoteIP (sock s x)) = 4"
    using assms(1) by (simp_all add: can_receive_def)
  show ?thesis by (rule receive_for_socket [OF c(1-3) assms(2,3) refl assms(4) c(4-8) assms(5)]) (rule that)
qed

context quiet_events
begin

lemma server_step:
  fixes s :: "'a tcp_scheme"
  assumes "can_receive y p src sp dp s" and "length mac = 6" and "length own = 6" and "unat (b_size p) = 44"
    and "state (sock s y) = LISTEN" and "getMACForIP s src = Some mac'" and "58 \<le> unat (b_size (drv_send s))"
  defines "k \<equiv> sock s y"
  shows "\<exists>s' rb. receive_packet v app p (syn_frame SYN mac own src (ip_ipAddress s) sp dp seq ack wnd mss) s = Some s'
    \<and> transmits [syn_frame (SYN OR ACK) mac' (macAddr s) (ip_ipAddress s) src (localPort k) sp (localSeq k) (seq + 1)
        (getWindowSize v y s) (getMaxSegmentSize s)]
      (upd y (\<lambda>k. k\<lparr>recvBuffer := rb, remoteWindow := wnd, remoteIP := src, remoteSeq := seq + 1, remoteMSS := mss,
        remotePort := sp, localSeq := localSeq k + 1, state := SYN_RECEIVED, stateTime := now s, sk_attempts := 1\<rparr>) s) s'"
proof -
  have l: "unat (b_size p) = 40 + length (mss_option mss)" using assms(4) by simp
  obtain q s1 where r: "\<And>v app. receive_packet v app p (syn_frame SYN mac own src (ip_ipAddress s) sp dp seq ack wnd mss) s
      = segment_process v y SYN ack seq q (upd y (received src wnd q) s1)" and s1: "rest_same s s1" "b_ok s1 q"
      "b_bytes s1 q = tcp_segment src (ip_ipAddress s) (tcp_prefix sp dp seq ack 0x60 SYN wnd) (mss_option mss)"
    unfolding syn_frame_def by (rule receive_in [OF assms(1-3) l disjI2 [OF conjI [OF assms(5) refl]]]) (rule that [unfolded syn_frame_def])
  note t1 = rest_same_transmits [OF s1(1)]
  let ?s = "upd y (received src wnd q) s1"
  let ?t = "upd y (\<lambda>k. k\<lparr>remoteSeq := seq + 1, remoteMSS := mss, remotePort := sp\<rparr>) ?s"
  have y: "y < length (sockets s)" "length src = 4" using assms(1) by (simp_all add: can_receive_def)
  have same: "sock s1 y = k" "length (sockets s1) = length (sockets s)" "now s1 = now s" "macAddr s1 = macAddr s"
    "ip_ipAddress s1 = ip_ipAddress s" "getMaxSegmentSize s1 = getMaxSegmentSize s" "tcp.more s1 = tcp.more s"
    "drv_recv s1 = drv_recv s"
    using sock_transmits [OF t1] by (simp_all add: k_def ip_transmits [OF t1] tcp_transmits [OF t1] transmits_fields [OF t1] mss_transmits [OF t1])
  have cs: "can_send y mac' ?s"
    using assms(1,6,7) y same ip_ok_transmits [OF t1] getMACForIP_transmits [OF t1]
    by (simp add: can_send_def can_receive_def received_def transmits_fields [OF t1] k_def)
  have "state (sock ?s y) = LISTEN" using assms(5) y same by (simp add: received_def k_def)
  from accept_ok [OF cs _ this, of q src "ip_ipAddress s" sp dp seq ack wnd mss] s1(2,3)
  obtain s' where s': "segment_process v y SYN ack seq q ?s = Some s'"
    and t: "transmits [control_frame v y mac' (SYN OR ACK) ?t]
        (upd y (\<lambda>k. k\<lparr>localSeq := localSeq k + 1, state := SYN_RECEIVED, stateTime := now ?s, sk_attempts := 1\<rparr>) ?t) s'"
    by auto
  have k0: "sock ?t y = (received src wnd q k)\<lparr>remoteSeq := seq + 1, remoteMSS := mss, remotePort := sp\<rparr>"
    using y same by simp
  have w: "getWindowSize v y (upd y f s1) = getWindowSize v y s" for f using same by (intro getWindowSize_same) simp_all
  have fr: "control_frame v y mac' (SYN OR ACK) ?t
      = syn_frame (SYN OR ACK) mac' (macAddr s) (ip_ipAddress s) src (localPort k) sp (localSeq k) (seq + 1)
        (getWindowSize v y s) (getMaxSegmentSize s)"
    using control_frame_eq [OF _ _ k0, of "SYN OR ACK" v mac'] same
    by (simp add: syn_frame_def w seg_flags received_def)
  from transmits_rest_same [OF rest_same_upd [OF s1(1)], OF t [unfolded fr, unfolded upd_upd upd_fields same received_def]]
  have t': "transmits [syn_frame (SYN OR ACK) mac' (macAddr s) (ip_ipAddress s) src (localPort k) sp (localSeq k) (seq + 1)
        (getWindowSize v y s) (getMaxSegmentSize s)]
      (upd y (\<lambda>k. k\<lparr>recvBuffer := Some (OffsetBuffer_new q (b_size q) 0), remoteWindow := wnd, remoteIP := src,
        remoteSeq := seq + 1, remoteMSS := mss,
        remotePort := sp, localSeq := localSeq k + 1, state := SYN_RECEIVED, stateTime := now s, sk_attempts := 1\<rparr>) s) s'"
    by simp
  have "receive_packet v app p (syn_frame SYN mac own src (ip_ipAddress s) sp dp seq ack wnd mss) s = Some s'"
    unfolding r by (rule s')
  with t' show ?thesis by blast
qed

lemma client_step:
  fixes s :: "'a tcp_scheme"
  assumes "can_receive x p src sp dp s" and "length mac = 6" and "length own = 6" and "unat (b_size p) = 44"
    and "state (sock s x) = SYN_SENT" and "remoteIP (sock s x) = src" and "localSeq (sock s x) = ack"
    and "getMACForIP s src = Some mac'" and "58 \<le> unat (b_size (drv_send s))"
  defines "k \<equiv> sock s x"
  shows "\<exists>s' rb. receive_packet v app p (syn_frame (SYN OR ACK) mac own src (ip_ipAddress s) sp dp seq ack wnd mss) s = Some s'
    \<and> transmits [ack_frame mac' (macAddr s) (ip_ipAddress s) src (localPort k) (remotePort k) ack (seq + 1) (getWindowSize v x s)]
      (upd x (\<lambda>k. k\<lparr>recvBuffer := rb, remoteWindow := wnd, remoteIP := src, remoteSeq := seq + 1, remoteMSS := mss,
        state := ESTABLISHED, stateTime := now s\<rparr>) s) s'"
proof -
  have l: "unat (b_size p) = 40 + length (mss_option mss)" using assms(4) by simp
  obtain q s1 where r: "\<And>v app. receive_packet v app p (syn_frame (SYN OR ACK) mac own src (ip_ipAddress s) sp dp seq ack wnd mss) s
      = segment_process v x (SYN OR ACK) ack seq q (upd x (received src wnd q) s1)" and s1: "rest_same s s1" "b_ok s1 q"
      "b_bytes s1 q = tcp_segment src (ip_ipAddress s) (tcp_prefix sp dp seq ack 0x60 (SYN OR ACK) wnd) (mss_option mss)"
    unfolding syn_frame_def by (rule receive_in [OF assms(1-3) l disjI1 [OF assms(6)]]) (rule that [unfolded syn_frame_def])
  note t1 = rest_same_transmits [OF s1(1)]
  let ?s = "upd x (received src wnd q) s1"
  let ?t = "upd x (\<lambda>k. k\<lparr>remoteSeq := seq + 1, remoteMSS := mss\<rparr>) ?s"
  have x: "x < length (sockets s)" "length src = 4" using assms(1) by (simp_all add: can_receive_def)
  have same: "sock s1 x = k" "length (sockets s1) = length (sockets s)" "now s1 = now s" "macAddr s1 = macAddr s"
    "ip_ipAddress s1 = ip_ipAddress s" "tcp.more s1 = tcp.more s" "drv_recv s1 = drv_recv s"
    using sock_transmits [OF t1] by (simp_all add: k_def ip_transmits [OF t1] tcp_transmits [OF t1] transmits_fields [OF t1])
  have cs: "can_send x mac' ?s"
    using assms(1,8,9) x same ip_ok_transmits [OF t1] getMACForIP_transmits [OF t1]
    by (simp add: can_send_def can_receive_def received_def transmits_fields [OF t1] k_def)
  have st: "state (sock ?s x) = SYN_SENT" "ack = localSeq (sock ?s x)"
    using assms(5,7) x same by (simp_all add: received_def k_def)
  from syn_sent_ok [OF cs _ st, of q src "ip_ipAddress s" sp dp seq wnd mss] s1(2,3)
  obtain s' where s': "segment_process v x (SYN OR ACK) ack seq q ?s = Some s'"
    and t: "transmits [control_frame v x mac' ACK ?t] (upd x (\<lambda>k. k\<lparr>state := ESTABLISHED, stateTime := now ?s\<rparr>) ?t) s'"
    by auto
  have k0: "sock ?t x = (received src wnd q k)\<lparr>remoteSeq := seq + 1, remoteMSS := mss\<rparr>"
    using x same by simp
  have w: "getWindowSize v x (upd x f s1) = getWindowSize v x s" for f using same by (intro getWindowSize_same) simp_all
  have fr: "control_frame v x mac' ACK ?t
      = ack_frame mac' (macAddr s) (ip_ipAddress s) src (localPort k) (remotePort k) ack (seq + 1) (getWindowSize v x s)"
    using control_frame_eq [OF _ _ k0, of ACK v mac'] same assms(7)
    by (simp add: ack_frame_def w seg_flags received_def k_def)
  from transmits_rest_same [OF rest_same_upd [OF s1(1)], OF t [unfolded fr, unfolded upd_upd upd_fields same received_def]]
    r [of v app, unfolded s'] show ?thesis by blast
qed

lemma established_step:
  fixes s :: "'a tcp_scheme"
  assumes "can_receive y p src sp dp s" and "length mac = 6" and "length own = 6" and "unat (b_size p) = 40"
    and "state (sock s y) = SYN_RECEIVED" and "remoteIP (sock s y) = src" and "localSeq (sock s y) = ack"
  shows "\<exists>s' rb fs. receive_packet v app p (ack_frame mac own src (ip_ipAddress s) sp dp seq ack wnd) s = Some s'
    \<and> transmits fs (upd y (\<lambda>k. k\<lparr>recvBuffer := rb, remoteWindow := wnd, remoteIP := src,
        state := ESTABLISHED, stateTime := now s\<rparr>) s) s'"
proof -
  have l: "unat (b_size p) = 40 + length ([] :: u8 list)" using assms(4) by simp
  obtain q s1 where r: "\<And>v app. receive_packet v app p (ack_frame mac own src (ip_ipAddress s) sp dp seq ack wnd) s
      = segment_process v y ACK ack seq q (upd y (received src wnd q) s1)" and s1: "rest_same s s1"
    unfolding ack_frame_def by (rule receive_in [OF assms(1-3) l disjI1 [OF assms(6)]]) (rule that [unfolded ack_frame_def])
  note t1 = rest_same_transmits [OF s1]
  let ?s = "upd y (received src wnd q) s1"
  have y: "y < length (sockets s1)" using assms(1) by (simp add: can_receive_def tcp_transmits [OF t1])
  have k: "state (sock ?s y) = SYN_RECEIVED" "ack = localSeq (sock ?s y)"
    using assms(5,7) y by (simp_all add: received_def sock_transmits [OF t1])
  have "now s1 = now s" by (simp add: transmits_fields [OF t1])
  moreover note rest_same_transmits [OF rest_same_upd [OF s1, of y "\<lambda>k. k\<lparr>recvBuffer := Some (OffsetBuffer_new q (b_size q) 0),
      remoteWindow := wnd, remoteIP := src, state := ESTABLISHED, stateTime := now s\<rparr>"]]
  ultimately show ?thesis
    using acked_ok [OF k, of seq q] r [of v app] unfolding received_def by auto
qed

end

section \<open>Properties\<close>

text \<open>
  C1: The handshake succeeds. A client that calls \<^verbatim>\<open>connect\<close> on a closed socket sends a SYN; the listening socket of the
  server that receives it answers with SYN and ACK; when the client receives that, its connection is established and it
  acknowledges; when the server receives the acknowledgement, its connection is established, too. Each then knows the
  sequence number, the address, the port and the maximum segment size of the other. Every frame goes through the checks
  of the IP layer and the choice of the socket on the other side.
\<close>

theorem handshake:
  assumes "quiet_events va" and "quiet_events vb"
    and "can_send x macb a" and "state (sock a x) = CLOSED" and "remoteDomain (sock a x) = None"
    and "remoteIP (sock a x) = ip_ipAddress b" and "Some x \<in> fst ` set (registeredSockets a)"
    and "find_socket a (\<lambda>k. equals_remote k (ip_ipAddress b) (remotePort (sock a x)) (nextPort a)) = None"
    and "ip_ok b" and "y < length (sockets b)" and "sk_tcp (sock b y)" and "length (remoteIP (sock b y)) = 4"
    and "getMACForIP b (ip_ipAddress a) = Some maca" and "58 \<le> unat (b_size (drv_send b))"
    and "localPort (sock b y) = remotePort (sock a x)" and "state (sock b y) = LISTEN"
    and "find_socket b (\<lambda>k. equals_remote k (ip_ipAddress a) (nextPort a) (remotePort (sock a x))) = None"
    and "find_socket b (\<lambda>k. equals_listen k (remotePort (sock a x))) = Some y"
    and "IP_getProtocolHandler a TCP_PROTOCOL = Some TCPPacket" and "IP_getProtocolHandler b TCP_PROTOCOL = Some TCPPacket"
    and "b_wok b p" and "unat (b_size p) = 44" and "b_wok a q" and "unat (b_size q) = 44" and "b_wok b r" and "unat (b_size r) = 40"
  shows "\<exists>a1 b2 a3 b4. connect va x a = Some (True, a1)
    \<and> receive_packet vb appb p (last (wire a1)) b = Some b2
    \<and> receive_packet va appa q (last (wire b2)) a1 = Some a3
    \<and> receive_packet vb appb r (last (wire a3)) b2 = Some b4
    \<and> state (sock a3 x) = ESTABLISHED \<and> state (sock b4 y) = ESTABLISHED
    \<and> remoteSeq (sock a3 x) = localSeq (sock b4 y) \<and> remoteSeq (sock b4 y) = localSeq (sock a3 x)
    \<and> remoteIP (sock b4 y) = ip_ipAddress a \<and> remotePort (sock b4 y) = localPort (sock a3 x)
    \<and> remoteMSS (sock a3 x) = getMaxSegmentSize b \<and> remoteMSS (sock b4 y) = getMaxSegmentSize a"
proof -
  let ?ka = "sock a x" and ?kb = "sock b y" and ?ia = "ip_ipAddress a" and ?ib = "ip_ipAddress b"
  let ?port = "remotePort ?ka" and ?n = "nextPort a"
  let ?a = "a\<lparr>nextPort := ?n + 1\<rparr>"
  note ca = assms(3) [unfolded can_send_def]
  have mac: "length macb = 6" "length maca = 6" "length (macAddr a) = 6" "length (macAddr b) = 6" "length ?ia = 4" "length ?ib = 4"
    using ca assms(9,13) getMACForIP_length [of a _ macb] getMACForIP_length [of b _ maca] ip_sizes(1)
    by (auto simp: eth_ok_def ip_ok_def dest: ip_sizes(1))
  obtain a1 where c: "connect va x a = Some (True, a1)" and
    t1: "transmits [syn_frame SYN macb (macAddr a) ?ia ?ib ?n ?port (localSeq ?ka) (remoteSeq ?ka)
        (getWindowSize va x (upd x (\<lambda>k. k\<lparr>localPort := ?n\<rparr>) ?a)) (getMaxSegmentSize a)]
      (upd x (\<lambda>k. k\<lparr>localPort := ?n, localSeq := localSeq k + 1, sk_attempts := 1, state := SYN_SENT, stateTime := now a\<rparr>) ?a) a1"
    (is "transmits [?F] ?A a1")
  proof -
    have fr: "control_frame va x macb SYN (upd x (\<lambda>k. k\<lparr>localPort := ?n\<rparr>) ?a) = ?F"
      using ca assms(6) by (subst control_frame_eq) (auto simp: syn_frame_def seg_flags)
    obtain a1 where c: "connect va x a = Some (True, a1)"
      and t: "transmits [control_frame va x macb SYN (upd x (\<lambda>k. k\<lparr>localPort := ?n\<rparr>) ?a)]
        (upd x (\<lambda>k. k\<lparr>localSeq := localSeq k + 1, sk_attempts := 1, state := SYN_SENT, stateTime := now a\<rparr>)
          (upd x (\<lambda>k. k\<lparr>localPort := ?n\<rparr>) ?a)) a1"
      using quiet_events.connect_ok [OF assms(1,3,5,4)] by blast
    show ?thesis by (rule that [OF c]) (use t [unfolded fr upd_upd] in simp)
  qed
  have wire1: "last (wire a1) = ?F" using transmits_fields(1) [OF t1] by simp
  have rb: "can_receive y p ?ia ?n ?port b"
    using assms(9-12,17,18,20,21) mac by (simp add: can_receive_def target_def)
  obtain b2 rb2 where r2: "receive_packet vb appb p ?F b = Some b2" and
    t2: "transmits [syn_frame (SYN OR ACK) maca (macAddr b) ?ib ?ia ?port ?n (localSeq ?kb) (localSeq ?ka + 1)
        (getWindowSize vb y b) (getMaxSegmentSize b)]
      (upd y (\<lambda>k. k\<lparr>recvBuffer := rb2, remoteWindow := getWindowSize va x (upd x (\<lambda>k. k\<lparr>localPort := ?n\<rparr>) ?a), remoteIP := ?ia,
        remoteSeq := localSeq ?ka + 1, remoteMSS := getMaxSegmentSize a, remotePort := ?n, localSeq := localSeq k + 1,
        state := SYN_RECEIVED, stateTime := now b, sk_attempts := 1\<rparr>) b) b2" (is "transmits [?G] ?B b2")
    using quiet_events.server_step [OF assms(2) rb mac(1,3) assms(22,16,13,14)] unfolding assms(15) by blast
  have wire2: "last (wire b2) = ?G" using transmits_fields(1) [OF t2] by simp
  have x: "x < length (sockets a)" and y: "y < length (sockets b)" using ca assms(10) by auto
  have k1: "sock a1 x = ?ka\<lparr>localPort := ?n, localSeq := localSeq ?ka + 1, sk_attempts := 1, state := SYN_SENT, stateTime := now a\<rparr>"
    using x by (simp add: sock_transmits [OF t1])
  have k2: "sock b2 y = ?kb\<lparr>recvBuffer := rb2, remoteWindow := getWindowSize va x (upd x (\<lambda>k. k\<lparr>localPort := ?n\<rparr>) ?a),
        remoteIP := ?ia, remoteSeq := localSeq ?ka + 1, remoteMSS := getMaxSegmentSize a, remotePort := ?n,
        localSeq := localSeq ?kb + 1, state := SYN_RECEIVED, stateTime := now b, sk_attempts := 1\<rparr>"
    using y by (simp add: sock_transmits [OF t2])
  have "target ?A ?ib ?port ?n = Some x"
  proof (rule target_connection)
    show "find_socket ?a (\<lambda>k. equals_remote k ?ib ?port ?n) = None"
      using assms(8) find_socket_same [of ?a a] by simp
  qed (use x assms(6,7) mac in \<open>simp_all add: equals_remote_def ipsEquate_eq sock_states\<close>)
  then have "can_receive x q ?ib ?port ?n a1"
    using ca mac assms(6,19,23) k1
    by (simp add: can_receive_def ip_ok_transmits [OF t1] transmits_ok(2) [OF t1] tcp_transmits [OF t1] protocol_transmits [OF t1]
        target_transmits [OF t1])
  note ra = this and ia1 = ip_transmits(1) [OF t1]
  obtain a3 rb3 where r3: "receive_packet va appa q ?G a1 = Some a3" and
    t3: "transmits [ack_frame macb (macAddr a) ?ia ?ib ?n ?port (localSeq ?ka + 1) (localSeq ?kb + 1) (getWindowSize va x a1)]
      (upd x (\<lambda>k. k\<lparr>recvBuffer := rb3, remoteWindow := getWindowSize vb y b, remoteIP := ?ib, remoteSeq := localSeq ?kb + 1,
        remoteMSS := getMaxSegmentSize b, state := ESTABLISHED, stateTime := now a1\<rparr>) a1) a3" (is "transmits [?H] _ a3")
  proof -
    have "state (sock a1 x) = SYN_SENT" "remoteIP (sock a1 x) = ?ib" "localSeq (sock a1 x) = localSeq ?ka + 1"
      "getMACForIP a1 ?ib = Some macb" "58 \<le> unat (b_size (drv_send a1))"
      using k1 assms(6) ca by (simp_all add: getMACForIP_transmits [OF t1] transmits_fields [OF t1])
    from quiet_events.client_step [OF assms(1) ra mac(2,4) assms(24) this, of appa "localSeq ?kb" "getWindowSize vb y b" "getMaxSegmentSize b"]
    obtain a3 rb3 where r: "receive_packet va appa q ?G a1 = Some a3" and
      t: "transmits [ack_frame macb (macAddr a1) ?ia ?ib (localPort (sock a1 x)) (remotePort (sock a1 x)) (localSeq ?ka + 1)
        (localSeq ?kb + 1) (getWindowSize va x a1)]
      (upd x (\<lambda>k. k\<lparr>recvBuffer := rb3, remoteWindow := getWindowSize vb y b, remoteIP := ?ib, remoteSeq := localSeq ?kb + 1,
        remoteMSS := getMaxSegmentSize b, state := ESTABLISHED, stateTime := now a1\<rparr>) a1) a3"
      unfolding ia1 by auto
    show ?thesis by (rule that [OF r]) (use t k1 in \<open>simp add: transmits_fields(3) [OF t1]\<close>)
  qed
  have wire3: "last (wire a3) = ?H" using transmits_fields(1) [OF t3] by simp
  have "target ?B ?ia ?n ?port = Some y"
    using y assms(15) mac find_socket_Some(2) [OF assms(18)]
    by (intro target_connection [OF assms(17)]) (simp_all add: equals_remote_def ipsEquate_eq sock_states)
  then have rb': "can_receive y r ?ia ?n ?port b2"
    using assms(9-11,20,25) mac k2
    by (simp add: can_receive_def ip_ok_transmits [OF t2] transmits_ok(2) [OF t2] tcp_transmits [OF t2] protocol_transmits [OF t2]
        target_transmits [OF t2])
  obtain b4 rb4 fs where r4: "receive_packet vb appb r ?H b2 = Some b4" and
    t4: "transmits fs (upd y (\<lambda>k. k\<lparr>recvBuffer := rb4, remoteWindow := getWindowSize va x a1, remoteIP := ?ia,
        state := ESTABLISHED, stateTime := now b2\<rparr>) b2) b4"
  proof -
    have "state (sock b2 y) = SYN_RECEIVED" "remoteIP (sock b2 y) = ?ia" "localSeq (sock b2 y) = localSeq ?kb + 1"
      using k2 by simp_all
    from quiet_events.established_step [OF assms(2) rb' mac(1,3) assms(26) this, of appb "localSeq ?ka + 1" "getWindowSize va x a1"]
    show ?thesis using that unfolding ip_transmits(1) [OF t2] upd_fields by blast
  qed
  have "sock a3 x = (sock a1 x)\<lparr>recvBuffer := rb3, remoteWindow := getWindowSize vb y b, remoteIP := ?ib,
      remoteSeq := localSeq ?kb + 1, remoteMSS := getMaxSegmentSize b, state := ESTABLISHED, stateTime := now a1\<rparr>"
    using x by (simp add: sock_transmits [OF t3] tcp_transmits [OF t1])
  moreover have "sock b4 y = (sock b2 y)\<lparr>recvBuffer := rb4, remoteWindow := getWindowSize va x a1, remoteIP := ?ia,
        state := ESTABLISHED, stateTime := now b2\<rparr>"
    using y by (simp add: sock_transmits [OF t4] tcp_transmits [OF t2])
  ultimately show ?thesis
    by (intro exI [of _ a1] exI [of _ b2] exI [of _ a3] exI [of _ b4])
      (simp add: c r2 r3 r4 wire1 wire2 wire3 k1 k2)
qed

text \<open>Two hosts with one socket each, a client and a listening one.\<close>

definition demo_tcp :: "ip \<Rightarrow> socket \<Rightarrow> tcp" where
  "demo_tcp s k = (dns.extend (udp.extend (ip.extend s \<lparr>receivers = [], udp_sendPayloadBuffer = MemBuffer 0 0\<rparr>)
       \<lparr>cache = [], cacheSize = 0, dnsIP = [10, 0, 0, 1], dnsIPBackup = [10, 0, 0, 1], dns_timer = 0\<rparr>)
     \<lparr>sockets = [k], registeredSockets = [(Some 0, MemBuffer 0x900 30)], tcp_timerIndex = 1, maxOutboundLen = 30\<rparr>)
     \<lparr>ip_protocolRegistry := [(6, Some TCPPacket), (0, None), (0, None)]\<rparr>"

definition demo_socket :: socket where
  "demo_socket = \<lparr>state = CLOSED, listenPort = 0, localPort = 0, connectOnResolution = False, remoteIP = [0, 0, 0, 0],
     remotePort = 0, localSeq = 0, remoteSeq = 0, remoteMSS = 0, remoteWindow = 0, stateTime = 0, timeout = 0,
     sk_attempts = 0, sk_tcp = False, sk_stash = None, recvBuffer = None, sendBuffer = None, lastDataLength = 0,
     remoteDomain = None\<rparr>"

definition demo_client :: tcp where
  "demo_client = demo_tcp demo_a ((Socket_new_ip demo_socket 41 0 [10, 0, 0, 2] 80)\<lparr>sk_tcp := True\<rparr>)"

definition demo_server :: tcp where
  "demo_server = demo_tcp (demo_ip [2, 0, 0, 0, 0, 2] [10, 0, 0, 2] [2, 0, 0, 0, 0, 1] [10, 0, 0, 1])
     ((Socket_new_listen demo_socket 976 0 80)\<lparr>sk_tcp := True, state := LISTEN\<rparr>)"

lemma demo_tcp_fields:
  "sockets (demo_tcp s k) = [k]" "sock (demo_tcp s k) 0 = k"
  "registeredSockets (demo_tcp s k) = [(Some 0, MemBuffer 0x900 30)]" "drv_send (demo_tcp s k) = drv_send s"
  "ip_ipAddress (demo_tcp s k) = ip_ipAddress s" "nextPort (demo_tcp s k) = nextPort s"
  "sendPacketBuffer (demo_tcp s k) = sendPacketBuffer s"
  "ip_ok (demo_tcp s k) = ip_ok s" "getMACForIP (demo_tcp s k) dst = getMACForIP s dst"
  "IP_getProtocolHandler (demo_tcp s k) TCP_PROTOCOL = Some TCPPacket"
proof -
  note d = demo_tcp_def ip.defs udp.defs dns.defs
  show "ip_ok (demo_tcp s k) = ip_ok s" "getMACForIP (demo_tcp s k) dst = getMACForIP s dst"
    by (rule ip_ok_extend; simp add: d net.defs)+
qed (simp_all add: demo_tcp_def ip.defs udp.defs dns.defs sock_def IP_getProtocolHandler_def TCP_PROTOCOL_def ip_scanned)

lemma demo_tcp_hosts:
  shows "can_send 0 [2, 0, 0, 0, 0, 2] demo_client" "ip_ok demo_server"
    "getMACForIP demo_server [10, 0, 0, 1] = Some [2, 0, 0, 0, 0, 1]"
proof -
  note f = demo_tcp_fields
  have a: "ip_ok demo_a" by (rule demo_ip_ok) simp_all
  show "can_send 0 [2, 0, 0, 0, 0, 2] demo_client"
    using a demo_ip_route [of "[2, 0, 0, 0, 0, 1]" "[2, 0, 0, 0, 0, 2]"]
    by (simp add: can_send_def demo_client_def f Socket_new_ip_def Socket_init_def demo_ip_simps)
  show "ip_ok demo_server" unfolding demo_server_def f by (rule demo_ip_ok) simp_all
  let ?b = "demo_ip [2, 0, 0, 0, 0, 2] [10, 0, 0, 2] [2, 0, 0, 0, 0, 1] [10, 0, 0, 1]"
  have "ipBroadcastAddress ?b = [10, 0, 0, 255]"
    by (simp add: demo_ip_def IPHandler_init_def arp.defs ip.defs registerProtocol_simps Let_def upt_rec split: option.split)
  moreover have "resolved \<lparr>ipAddress = i, macAddress = m, lookupTime = 0, lookupStatus = 0x81\<rparr>" for i m
    by (simp add: status_bits(3) bit7)
  ultimately have "getMACForIP ?b [10, 0, 0, 1] = Some [2, 0, 0, 0, 0, 1]"
    by (simp add: getMACForIP_def onLocalNetwork_def demo_ip_simps upt_rec ipsEquate_eq getMACAddress_def)
  then show "getMACForIP demo_server [10, 0, 0, 1] = Some [2, 0, 0, 0, 0, 1]" by (simp add: demo_server_def f)
qed

definition demo_v :: "tcp vtable" where "demo_v = Socket_vtable (\<lambda>_ _ s. Some (True, s)) True"
definition demo_app :: "tcp application" where "demo_app = (\<lambda>_ _ _ _. Some)"

lemma handshake_witness:
  "\<exists>a1 b2 a3 b4. connect demo_v 0 demo_client = Some (True, a1)
    \<and> receive_packet demo_v demo_app (MemBuffer 0x600 44) (last (wire a1)) demo_server = Some b2
    \<and> receive_packet demo_v demo_app (MemBuffer 0x600 44) (last (wire b2)) a1 = Some a3
    \<and> receive_packet demo_v demo_app (MemBuffer 0x600 40) (last (wire a3)) b2 = Some b4
    \<and> state (sock b4 0) = ESTABLISHED \<and> remoteSeq (sock b4 0) = localSeq (sock a3 0)"
proof -
  note f = demo_tcp_fields and h = demo_tcp_hosts
  have v: "quiet_events demo_v" unfolding demo_v_def by (rule socket_events.quiet_events_axioms)
  have ka: "sock demo_client 0 = (Socket_new_ip demo_socket 41 0 [10, 0, 0, 2] 80)\<lparr>sk_tcp := True\<rparr>"
    and kb: "sock demo_server 0 = (Socket_new_listen demo_socket 976 0 80)\<lparr>sk_tcp := True, state := LISTEN\<rparr>"
    and ia: "ip_ipAddress demo_client = [10, 0, 0, 1]" and ib: "ip_ipAddress demo_server = [10, 0, 0, 2]"
    and r: "registeredSockets demo_client = [(Some 0, MemBuffer 0x900 30)]"
      "registeredSockets demo_server = [(Some 0, MemBuffer 0x900 30)]"
    and n: "length (sockets demo_server) = 1" "58 \<le> unat (b_size (drv_send demo_server))"
    and p: "IP_getProtocolHandler demo_client TCP_PROTOCOL = Some TCPPacket"
      "IP_getProtocolHandler demo_server TCP_PROTOCOL = Some TCPPacket"
    by (simp_all add: demo_client_def demo_server_def f demo_ip_simps)
  note k = Socket_new_ip_def Socket_new_listen_def Socket_init_def demo_socket_def sock_states
  have fs: "find_socket demo_client (\<lambda>k. equals_remote k (ip_ipAddress demo_server) (remotePort (sock demo_client 0)) (nextPort demo_client)) = None"
    "find_socket demo_server (\<lambda>k. equals_remote k (ip_ipAddress demo_client) (nextPort demo_client) (remotePort (sock demo_client 0))) = None"
    "find_socket demo_server (\<lambda>k. equals_listen k (remotePort (sock demo_client 0))) = Some 0"
    by (simp_all add: find_socket_def r ka kb equals_remote_def equals_listen_def isHost_def k)
  show ?thesis
    using handshake [OF v v h(1) _ _ _ _ fs(1) h(2) _ _ _ h(3) [folded ia] n(2) _ _ fs(2,3) p Mem_wok [of _ "0x600" 44] _
        Mem_wok [of _ "0x600" 44] _ Mem_wok [of _ "0x600" 40], where appa = demo_app and appb = demo_app]
    by (auto simp: ka kb ib r n k)
qed

end
