(* ===== verification/Exchange.thy ===== *)
theory Exchange
  imports Connections Controller_Copies
begin

text \<open>
  An established connection: data that is sent, handed to the application of the peer and acknowledged, and data that is
  sent again.
\<close>

section \<open>The application's event\<close>

lemma receiver_fields:
  "getApplicationWindowSize (v\<lparr>onDataReceived := d\<rparr>) = getApplicationWindowSize v"
  "onClosed (v\<lparr>onDataReceived := d\<rparr>) = onClosed v" "onEstablished (v\<lparr>onDataReceived := d\<rparr>) = onEstablished v"
  "onReadyToSend (v\<lparr>onDataReceived := d\<rparr>) = onReadyToSend v" "onReset (v\<lparr>onDataReceived := d\<rparr>) = onReset v"
  "onRemoteClosed (v\<lparr>onDataReceived := d\<rparr>) = onRemoteClosed v" "onLocalClosed (v\<lparr>onDataReceived := d\<rparr>) = onLocalClosed v"
  by simp_all

lemma quiet_any_receiver: "quiet_events v \<Longrightarrow> quiet_events (v\<lparr>onDataReceived := d\<rparr>)"
  unfolding quiet_events_def quiet_events_axioms_def window_law_def receiver_fields .

lemma receiver_irrelevant [simp]:
  "sendSegment (v\<lparr>onDataReceived := d\<rparr>) = sendSegment v" "setState (v\<lparr>onDataReceived := d\<rparr>) = setState v"
  "closed (v\<lparr>onDataReceived := d\<rparr>) = closed v" "reset (v\<lparr>onDataReceived := d\<rparr>) = reset v"
  "forceClose (v\<lparr>onDataReceived := d\<rparr>) = forceClose v"
proof -
  note e = receiver_fields
  show s: "sendSegment (v\<lparr>onDataReceived := d\<rparr>) = sendSegment v"
    unfolding fun_eq_iff sendSegment_def getWindowSize_def e by (intro allI refl)
  show t: "setState (v\<lparr>onDataReceived := d\<rparr>) = setState v" unfolding fun_eq_iff setState_def e by (intro allI refl)
  show c: "closed (v\<lparr>onDataReceived := d\<rparr>) = closed v" unfolding fun_eq_iff closed_def t by (intro allI refl)
  show r: "reset (v\<lparr>onDataReceived := d\<rparr>) = reset v" unfolding fun_eq_iff reset_def s e by (intro allI refl)
  show "forceClose (v\<lparr>onDataReceived := d\<rparr>) = forceClose v" unfolding fun_eq_iff forceClose_def c r by (intro allI refl)
qed

section \<open>Data in order\<close>

text \<open>What follows the event: the sequence number advances if the application took the data, and the data is acknowledged.\<close>

definition acknowledge :: "'a tcp_scheme vtable \<Rightarrow> nat \<Rightarrow> u32 \<Rightarrow> bool \<times> 'a tcp_scheme \<Rightarrow> 'a tcp_scheme option" where
  "acknowledge v x next = (\<lambda>(ok, s).
     map_option snd (sendSegment v x ACK 0 0 0 (if ok then upd x (\<lambda>k. k\<lparr>remoteSeq := next, stateTime := now s\<rparr>) s else s)))"

lemma OffsetBuffer_new_rest20:
  assumes "b_ok s q" and "b_bytes s q = h @ data" and "length h = 20"
  shows "OffsetBuffer_new q 20 0 = after q 20" and "b_bytes s (after q 20) = data" and "unat (b_size (after q 20)) = length data"
    and "unat (b_size q) = 20 + length data" and "b_ok s (after q 20)"
proof -
  show sz: "unat (b_size q) = 20 + length data" using buf.length_bytes [OF assms(1)] assms(2,3) by simp
  then have le: "20 \<le> b_size q" by (simp add: le16_iff)
  then show "OffsetBuffer_new q 20 0 = after q 20" "b_ok s (after q 20)"
    using assms(1) by (simp_all add: OffsetBuffer_new_after after_ok)
  show "unat (b_size (after q 20)) = length data" using le sz by (simp add: size_after)
  show "b_bytes s (after q 20) = data" using assms le by (simp add: b_bytes_after)
qed

lemma segment_process_payload:
  fixes s :: "'a tcp_scheme"
  assumes "x < length (sockets s)" and "b_ok s q" and "state (sock s x) = ESTABLISHED"
    and "b_bytes s q = tcp_segment src dst (tcp_prefix sp dp seq ack 0x50 control wnd) data"
    and "control AND ACK = ACK" and "control AND RST \<noteq> RST" and "data \<noteq> []"
    and "seq = remoteSeq (sock s x)" and "ack \<le> localSeq (sock s x)"
  defines "t \<equiv> upd x (\<lambda>k. k\<lparr>recvBuffer := Some (after q 20)\<rparr>) s"
  shows "segment_process v x control ack seq q s =
    (onDataReceived v x (after q 20) (if control AND FIN = FIN then upd x (\<lambda>k. k\<lparr>remoteSeq := remoteSeq k + 1\<rparr>) t else t)
      \<bind> acknowledge v x (seq + word_of_nat (length data)))
      \<bind> (\<lambda>s. if control AND FIN = FIN then segment_fin v x control ack (word_of_nat (length data)) s else Some s)"
    and "(word_of_nat (length data) :: u16) \<noteq> 0"
proof -
  obtain h where B: "b_bytes s q = h @ data" "length h = 20"
    using assms(4) by (auto simp: tcp_segment_def be16_def intro: that [of "_ @ _ # _ # 0 # 0 # []"])
  note r = OffsetBuffer_new_rest20 [OF assms(2) B]
  have h12: "read8 (b_read s q) 12 = Some 0x50"
    using r(4) assms(2,4) tcp_segment_fields(5) [of src dst sp dp seq ack "0x50" control wnd data]
    by (simp add: buf.read8_inside)
  have h: "ucast (drop_bit 4 (0x50 :: u8)) * 4 = (20 :: u16)" by simp
  have "unat (b_size q - 20) = length data" using r(4) by (subst unat_sub16) (simp_all add: le16_iff)
  moreover have "b_size q - 20 = word_of_nat (unat (b_size q - 20))" by simp
  ultimately have pay: "b_size q - 20 = word_of_nat (length data)" by simp
  have pos: "(0 :: u16) < word_of_nat (length data)" "0 < b_size (after q 20)"
    using r(3) \<open>unat (b_size q - 20) = length data\<close> assms(7) pay by (simp_all add: word_less_nat_alt)
  then show "(word_of_nat (length data) :: u16) \<noteq> 0" by simp
  have u: "(ucast (word_of_nat (length data) :: u16) :: u32) = word_of_nat (length data)"
  proof -
    have "length data < 65536" using r(4) unat16_less [of "b_size q"] by simp
    then show ?thesis by (simp add: word_unat_eq_iff unat_ucast32 unat_of_nat)
  qed
  have "segment_process v x control ack seq q s = segment_established v x control ack seq q s"
    using assms(3,6,8) leD [OF assms(9)] by (simp add: segment_process_def Let_def sock_states)
  also have "\<dots> = segment_data v x control seq 20 (word_of_nat (length data)) q s
      \<bind> (\<lambda>s. if control AND FIN = FIN then segment_fin v x control ack (word_of_nat (length data)) s else Some s)"
    using assms(3,5,8) pos(1) h12 unfolding pay [symmetric] by (simp add: segment_established_def Let_def h sock_states)
  also have "segment_data v x control seq 20 (word_of_nat (length data)) q s
      = onDataReceived v x (after q 20) (if control AND FIN = FIN then upd x (\<lambda>k. k\<lparr>remoteSeq := remoteSeq k + 1\<rparr>) t else t)
        \<bind> acknowledge v x (seq + word_of_nat (length data))"
    unfolding segment_data_def Let_def r(1) u acknowledge_def case_prod_beta t_def using pos by simp
  finally show "segment_process v x control ack seq q s =
    (onDataReceived v x (after q 20) (if control AND FIN = FIN then upd x (\<lambda>k. k\<lparr>remoteSeq := remoteSeq k + 1\<rparr>) t else t)
      \<bind> acknowledge v x (seq + word_of_nat (length data)))
      \<bind> (\<lambda>s. if control AND FIN = FIN then segment_fin v x control ack (word_of_nat (length data)) s else Some s)" .
qed

lemma segment_process_data:
  fixes s :: "'a tcp_scheme"
  assumes "x < length (sockets s)" and "b_ok s q" and "state (sock s x) = ESTABLISHED"
    and "b_bytes s q = tcp_segment src dst (tcp_prefix sp dp seq ack 0x50 control wnd) data"
    and "control AND ACK = ACK" and "control AND RST \<noteq> RST" and "control AND FIN \<noteq> FIN" and "data \<noteq> []"
    and "seq = remoteSeq (sock s x)" and "ack \<le> localSeq (sock s x)"
  shows "segment_process v x control ack seq q s =
    onDataReceived v x (after q 20) (upd x (\<lambda>k. k\<lparr>recvBuffer := Some (after q 20)\<rparr>) s)
      \<bind> acknowledge v x (seq + word_of_nat (length data))"
  using segment_process_payload(1) [OF assms(1-6,8-10), of v] assms(7) by simp

text \<open>The acknowledgement of outstanding data.\<close>

lemma segment_process_acked:
  assumes "x < length (sockets s)" and "b_ok s q" and "state (sock s x) = ESTABLISHED OR AWAITING_ACK"
    and "b_bytes s q = tcp_segment src dst (tcp_prefix sp dp seq ack 0x50 ACK wnd) []"
    and "seq = remoteSeq (sock s x)" and "ack = localSeq (sock s x)"
  shows "segment_process v x ACK ack seq q s = onReadyToSend v x (upd x (\<lambda>k. k\<lparr>state := ESTABLISHED\<rparr>) s)"
proof -
  have sz: "b_size q = 20" using buf.length_bytes [OF assms(2)] assms(4) by (simp add: word_unat_eq_iff)
  have h12: "read8 (b_read s q) 12 = Some 0x50"
    using sz assms(2,4) tcp_segment_fields(5) [of src dst sp dp seq ack "0x50" ACK wnd "[]"]
    by (simp add: buf.read8_inside)
  have h: "ucast (drop_bit 4 (0x50 :: u8)) * 4 = (20 :: u16)" by simp
  have "segment_process v x ACK ack seq q s = segment_established v x ACK ack seq q s"
    using assms(3,5,6) by (simp add: segment_process_def Let_def sock_states seg_flags)
  also have "\<dots> = onReadyToSend v x (upd x (\<lambda>k. k\<lparr>state := state k AND 0x0F\<rparr>) s)"
    using assms(3,5,6) h12 by (simp add: segment_established_def Let_def h sz sock_states seg_flags)
  also have "upd x (\<lambda>k. k\<lparr>state := state k AND 0x0F\<rparr>) s = upd x (\<lambda>k. k\<lparr>state := ESTABLISHED\<rparr>) s"
    using assms(3) by (intro upd_cong) (simp add: sock_states)
  finally show ?thesis .
qed

section \<open>Sending data\<close>

text \<open>
  A socket with data to send: no data is outstanding, the send buffer is the part of the packet buffer behind the header,
  the stash shares no memory with it, the packet buffer lies in the RAM or both lie in the controller, and \<open>n\<close> bytes fit everything.
\<close>

definition can_send_data :: "nat \<Rightarrow> u8 list \<Rightarrow> u16 \<Rightarrow> buffer \<Rightarrow> 'a tcp_scheme \<Rightarrow> bool" where
  "can_send_data x mac n st s = (can_send x mac s \<and> state (sock s x) = ESTABLISHED \<and> n \<noteq> 0
     \<and> unat n + 58 \<le> unat (b_size (drv_send s)) \<and> n \<le> getMaxSendPayload (sock s x)
     \<and> sendBuffer (sock s x) = Some (after (sendPacketBuffer s) 20) \<and> sk_stash (sock s x) = Some st
     \<and> can_copy s (after (sendPacketBuffer s) 20) st n \<and> set (b_cells (sendPacketBuffer s)) \<inter> set (b_cells st) = {})"

lemma attempts_payload [simp]: "getMaxSendPayload (k\<lparr>sk_attempts := a\<rparr>) = getMaxSendPayload k"
  by (simp add: getMaxSendPayload_def Let_def)

lemma can_copy_upd [simp]: "can_copy (upd x f s) = can_copy s"
  by (intro ext can_copy_chip) (simp add: upd_def)

lemma copyTo_stash:
  assumes "can_send_data x mac n st s"
  shows "\<exists>s1. copyTo (after (sendPacketBuffer s) 20) st 0 0 n s = Some (True, s1) \<and> rest_same s s1
    \<and> b_bytes s1 (sendPacketBuffer s) = b_bytes s (sendPacketBuffer s)
    \<and> take (unat n) (b_bytes s1 st) = take (unat n) (drop 20 (b_bytes s (sendPacketBuffer s)))"
proof -
  note c = assms [unfolded can_send_data_def]
  let ?p = "sendPacketBuffer s" and ?b = "after (sendPacketBuffer s) 20"
  have ip: "ip_ok s" using c by (simp add: can_send_def)
  note sz = ip_sizes [OF ip]
  have p20: "20 \<le> b_size ?p" using sz(5) c by (auto simp: le16_iff)
  have ok: "b_ok s ?p" using sz(3) by (rule buf.wok_ok)
  have p: "getBufferType ?p = 2" "getRootBuffer ?p = getRootBuffer ?b" "set (b_cells ?p) \<inter> set (b_cells st) = {}"
    using ip c by (simp_all add: ip_ok_def after_def)
  have "b_bytes s ?b = drop 20 (b_bytes s ?p)" using ok p20 by (simp add: b_bytes_after)
  then show ?thesis using can_copy_copies [of s ?b st n] c ok p by auto
qed

definition data_frame :: "'a tcp_scheme vtable \<Rightarrow> nat \<Rightarrow> u8 list \<Rightarrow> u8 \<Rightarrow> u32 \<Rightarrow> u8 list \<Rightarrow> 'a tcp_scheme \<Rightarrow> u8 list" where
  "data_frame v x mac control seq data s = ip_frame mac (macAddr s) (ip_ipAddress s) (remoteIP (sock s x)) TCP_PROTOCOL
     (tcp_segment (ip_ipAddress s) (remoteIP (sock s x))
       (tcp_prefix (localPort (sock s x)) (remotePort (sock s x)) seq (remoteSeq (sock s x)) 0x50 control (getWindowSize v x s)) data)"

lemma can_send_data_transmits: "transmits fs s s' \<Longrightarrow> can_send_data x mac n st s' = can_send_data x mac n st s"
  by (simp add: can_send_data_def can_copy_chip [OF transmits_fields(11)] can_send_transmits sock_transmits transmits_fields ip_transmits)

context window_law
begin

lemma send_ok:
  fixes s :: "'a tcp_scheme"
  assumes "can_send_data x mac n st s"
  defines "k \<equiv> sock s x"
  shows "\<exists>s'. send v x n s = Some (True, s')
    \<and> transmits [ip_frame mac (macAddr s) (ip_ipAddress s) (remoteIP k) TCP_PROTOCOL
        (tcp_segment (ip_ipAddress s) (remoteIP k)
          (tcp_prefix (localPort k) (remotePort k) (localSeq k) (remoteSeq k) 0x50 (ACK OR PSH) (getWindowSize v x s))
          (take (unat n) (drop 20 (b_bytes s (sendPacketBuffer s)))))]
      (upd x (\<lambda>k. k\<lparr>sk_attempts := 1, state := ESTABLISHED OR AWAITING_ACK, lastDataLength := n,
        localSeq := localSeq k + ucast n, stateTime := now s\<rparr>) s) s'"
proof -
  note c = assms(1) [unfolded can_send_data_def can_send_def]
  let ?p = "sendPacketBuffer s" and ?t = "upd x (\<lambda>k. k\<lparr>sk_attempts := 1\<rparr>) s"
  have "can_send_data x mac n st ?t" using c by (simp add: can_send_data_def can_send_def)
  then obtain s1 where s1: "copyTo (after ?p 20) st 0 0 n ?t = Some (True, s1)"
    and rs: "rest_same ?t s1" and b1: "b_bytes s1 ?p = b_bytes s ?p"
    using copyTo_stash [of x mac n st ?t] by auto
  note t1 = rest_same_transmits [OF rs]
  have k1: "sock s1 x = k\<lparr>sk_attempts := 1\<rparr>" using c by (simp add: sock_transmits [OF t1] k_def)
  have f1: "ip_ok s1" "x < length (sockets s1)" "ip_ipAddress s1 = ip_ipAddress s" "macAddr s1 = macAddr s"
    "drv_send s1 = drv_send s" "getMACForIP s1 (remoteIP k) = Some mac" "sendPacketBuffer s1 = ?p" "now s1 = now s"
    using c ip_ok_transmits [OF t1] getMACForIP_transmits [OF t1]
    by (simp_all add: ip_transmits [OF t1] transmits_fields [OF t1] tcp_transmits [OF t1] k_def)
  have w: "getWindowSize v x s1 = getWindowSize v x s"
    using getWindowSize_transmits [OF t1, of x] getWindowSize_same [of ?t s x] by simp
  obtain s2 where s2: "sendSegment v x (ACK OR PSH) n 0 0 s1 = Some (True, s2)"
    and t2: "transmits [ip_frame mac (macAddr s1) (ip_ipAddress s1) (remoteIP (sock s1 x)) TCP_PROTOCOL
        (sent_segment v x (ACK OR PSH) n 0 0 s1)] (upd x (sent (ACK OR PSH) n) s1) s2"
    using sendSegment_ok [OF f1(1,2), of mac n "ACK OR PSH" 0 0] c f1 k1 by (auto simp: k_def)
  have seg: "sent_segment v x (ACK OR PSH) n 0 0 s1 = tcp_segment (ip_ipAddress s) (remoteIP k)
      (tcp_prefix (localPort k) (remotePort k) (localSeq k) (remoteSeq k) 0x50 (ACK OR PSH) (getWindowSize v x s))
      (take (unat n) (drop 20 (b_bytes s ?p)))"
    by (simp add: sent_segment_def seg_prefix_def seg_rest_def seg_opt_def k1 f1 w b1 seg_flags)
  have "readyToSend k" using c by (simp add: readyToSend_def k_def sock_states)
  then have "send v x n s = Some (True, upd x (\<lambda>k. k\<lparr>stateTime := now s2\<rparr>) s2)"
    using c s1 s2 by (simp add: send_def Let_def getSendDataBuffer_def k_def not_less)
  moreover have "now s2 = now s" using f1 by (simp add: transmits_fields [OF t2])
  moreover have "upd x (\<lambda>k. (sent (ACK OR PSH) n k)\<lparr>stateTime := now s\<rparr>) ?t
      = upd x (\<lambda>k. k\<lparr>sk_attempts := 1, state := ESTABLISHED OR AWAITING_ACK, lastDataLength := n,
          localSeq := localSeq k + ucast n, stateTime := now s\<rparr>) s"
    using c unfolding upd_upd by (intro upd_cong) (simp add: sent_def seg_flags word_neq_0_conv)
  ultimately show ?thesis
    using transmits_upd [OF t2, of x "\<lambda>k. k\<lparr>stateTime := now s\<rparr>"] rest_same_upd [OF rs, of x "\<lambda>k. (sent (ACK OR PSH) n k)\<lparr>stateTime := now s\<rparr>"]
    by (auto simp: seg f1 k1 intro: transmits_rest_same)
qed

end

section \<open>The steps of a transfer\<close>

lemma data_step:
  fixes s :: "'a tcp_scheme"
  assumes "can_receive y p src sp dp s" and "length mac = 6" and "length own = 6" and "unat (b_size p) = 40 + length data"
    and "data \<noteq> []" and "state (sock s y) = ESTABLISHED" and "remoteIP (sock s y) = src"
    and "remoteSeq (sock s y) = seq" and "localSeq (sock s y) = ack" and "control \<in> {ACK, ACK OR PSH}"
  obtains q s1 where "\<And>v app. receive_packet v app p (ip_frame mac own src (ip_ipAddress s) TCP_PROTOCOL
        (tcp_segment src (ip_ipAddress s) (tcp_prefix sp dp seq ack 0x50 control wnd) data)) s
      = onDataReceived v y q s1 \<bind> acknowledge v y (seq + word_of_nat (length data))"
    and "b_bytes s1 q = data"
    and "rest_same (upd y (\<lambda>k. k\<lparr>recvBuffer := Some q, remoteWindow := wnd, remoteIP := src\<rparr>) s) s1"
proof -
  obtain q s1 where r: "\<And>v app. receive_packet v app p (ip_frame mac own src (ip_ipAddress s) TCP_PROTOCOL
        (tcp_segment src (ip_ipAddress s) (tcp_prefix sp dp seq ack 0x50 control wnd) data)) s
      = segment_process v y control ack seq q (upd y (received src wnd q) s1)"
    and s1: "rest_same s s1" "b_ok s1 q"
      "b_bytes s1 q = tcp_segment src (ip_ipAddress s) (tcp_prefix sp dp seq ack 0x50 control wnd) data"
    by (rule receive_in [OF assms(1-4) disjI1 [OF assms(7)]]) (rule that)
  note t1 = rest_same_transmits [OF s1(1)]
  let ?s = "upd y (received src wnd q) s1"
  have y: "y < length (sockets ?s)" using assms(1) by (simp add: can_receive_def tcp_transmits [OF t1])
  have k: "state (sock ?s y) = ESTABLISHED" "seq = remoteSeq (sock ?s y)" "ack \<le> localSeq (sock ?s y)"
    using assms(6,8,9) y by (simp_all add: received_def sock_transmits [OF t1])
  have q: "b_ok ?s q" using s1(2) by simp
  have B: "b_bytes ?s q = tcp_segment src (ip_ipAddress s) (tcp_prefix sp dp seq ack 0x50 control wnd) data"
    using s1(3) by simp
  then obtain h where h: "b_bytes s1 q = h @ data" "length h = 20"
    by (auto simp: tcp_segment_def be16_def intro: that [of "_ @ _ # _ # 0 # 0 # []"])
  let ?u = "upd y (\<lambda>k. k\<lparr>recvBuffer := Some (after q 20)\<rparr>) ?s"
  show ?thesis
  proof (rule that [of "after q 20" ?u])
    fix v :: "'a tcp_scheme vtable" and app
    show "receive_packet v app p (ip_frame mac own src (ip_ipAddress s) TCP_PROTOCOL
        (tcp_segment src (ip_ipAddress s) (tcp_prefix sp dp seq ack 0x50 control wnd) data)) s
      = onDataReceived v y (after q 20) ?u \<bind> acknowledge v y (seq + word_of_nat (length data))"
      unfolding r
      by (rule segment_process_data [OF y q k(1) B _ _ _ assms(5) k(2,3)]) (use assms(10) in \<open>auto simp: seg_flags\<close>)
    show "b_bytes ?u (after q 20) = data" using OffsetBuffer_new_rest20(2) [OF s1(2) h] by simp
    have "?u = upd y (\<lambda>k. k\<lparr>recvBuffer := Some (after q 20), remoteWindow := wnd, remoteIP := src\<rparr>) s1"
      unfolding upd_upd by (intro upd_cong) (simp add: received_def)
    then show "rest_same (upd y (\<lambda>k. k\<lparr>recvBuffer := Some (after q 20), remoteWindow := wnd, remoteIP := src\<rparr>) s) ?u"
      by (simp only: rest_same_upd [OF s1(1)])
  qed
qed

context quiet_events
begin

lemma acknowledge_ok:
  fixes s :: "'a tcp_scheme"
  assumes "can_send x mac s"
  defines "k \<equiv> sock s x"
  shows "\<exists>s'. acknowledge v x next (True, s) = Some s'
    \<and> transmits [ack_frame mac (macAddr s) (ip_ipAddress s) (remoteIP k) (localPort k) (remotePort k) (localSeq k) next (getWindowSize v x s)]
      (upd x (\<lambda>k. k\<lparr>remoteSeq := next, stateTime := now s\<rparr>) s) s'"
proof -
  let ?t = "upd x (\<lambda>k. k\<lparr>remoteSeq := next, stateTime := now s\<rparr>) s"
  have x: "x < length (sockets s)" and cs: "can_send x mac ?t" using assms by (simp_all add: can_send_def)
  obtain s' where s': "sendSegment v x ACK 0 0 0 ?t = Some (True, s')"
    and t: "transmits [control_frame v x mac ACK ?t] (upd x (sent ACK 0) ?t) s'"
    using send_control [OF cs] by blast
  have "upd x (sent ACK 0) ?t = ?t" by (intro upd_same) (simp add: sent_def seg_flags)
  moreover have "sock ?t x = k\<lparr>remoteSeq := next, stateTime := now s\<rparr>" using x by (simp add: k_def)
  from control_frame_eq [OF _ _ this, of ACK v mac] getWindowSize_same [of ?t s x]
  have "control_frame v x mac ACK ?t
      = ack_frame mac (macAddr s) (ip_ipAddress s) (remoteIP k) (localPort k) (remotePort k) (localSeq k) next (getWindowSize v x s)"
    by (simp add: seg_flags ack_frame_def)
  ultimately show ?thesis using s' t by (auto simp: acknowledge_def)
qed

lemma acked_step:
  fixes s :: "'a tcp_scheme"
  assumes "can_receive x p src sp dp s" and "length mac = 6" and "length own = 6" and "unat (b_size p) = 40"
    and "state (sock s x) = ESTABLISHED OR AWAITING_ACK" and "remoteIP (sock s x) = src"
    and "remoteSeq (sock s x) = seq" and "localSeq (sock s x) = ack"
  shows "\<exists>s' rb. receive_packet v app p (ack_frame mac own src (ip_ipAddress s) sp dp seq ack wnd) s = Some s'
    \<and> transmits [] (upd x (\<lambda>k. k\<lparr>recvBuffer := rb, remoteWindow := wnd, remoteIP := src, state := ESTABLISHED\<rparr>) s) s'"
proof -
  have l: "unat (b_size p) = 40 + length ([] :: u8 list)" using assms(4) by simp
  obtain q s1 where r: "\<And>v app. receive_packet v app p (ack_frame mac own src (ip_ipAddress s) sp dp seq ack wnd) s
      = segment_process v x ACK ack seq q (upd x (received src wnd q) s1)" and s1: "rest_same s s1" "b_ok s1 q"
      "b_bytes s1 q = tcp_segment src (ip_ipAddress s) (tcp_prefix sp dp seq ack 0x50 ACK wnd) []"
    unfolding ack_frame_def by (rule receive_in [OF assms(1-3) l disjI1 [OF assms(6)]]) (rule that [unfolded ack_frame_def])
  note t1 = rest_same_transmits [OF s1(1)]
  let ?s = "upd x (received src wnd q) s1"
  have x: "x < length (sockets ?s)" using assms(1) by (simp add: can_receive_def tcp_transmits [OF t1])
  have k: "state (sock ?s x) = ESTABLISHED OR AWAITING_ACK" "seq = remoteSeq (sock ?s x)" "ack = localSeq (sock ?s x)"
    using assms(5,7,8) x by (simp_all add: received_def sock_transmits [OF t1])
  have q: "b_ok ?s q" "b_bytes ?s q = tcp_segment src (ip_ipAddress s) (tcp_prefix sp dp seq ack 0x50 ACK wnd) []"
    using s1(2,3) by simp_all
  note rest_same_transmits [OF rest_same_upd [OF s1(1), of x "\<lambda>k. k\<lparr>recvBuffer := Some (OffsetBuffer_new q (b_size q) 0),
      remoteWindow := wnd, remoteIP := src, state := ESTABLISHED\<rparr>"]]
  then show ?thesis
    using segment_process_acked [OF x q(1) k(1) q(2) k(2,3), of v] r [of v app] unfolding quiet received_def by auto
qed

end

lemma target_upd_same:
  assumes "\<And>src sp dp. equals_remote (f (sock s x)) src sp dp = equals_remote (sock s x) src sp dp"
    and "\<And>dp. equals_listen (f (sock s x)) dp = equals_listen (sock s x) dp"
  shows "target (upd x f s) = target s"
proof -
  have s: "find_socket (upd x f s) P = find_socket s P" if "P (f (sock s x)) = P (sock s x)" for P
  proof -
    have "P (sock (upd x f s) y) = P (sock s y)" for y using that by simp
    then show ?thesis unfolding find_socket_def upd_fields by presburger
  qed
  then show ?thesis unfolding target_def fun_eq_iff using assms by (simp split: option.split)
qed

section \<open>Which segments reach the application\<close>

lemma receiver_irrelevant2 [simp]:
  "segment_reset (v\<lparr>onDataReceived := d\<rparr>) = segment_reset v" "segment_rst (v\<lparr>onDataReceived := d\<rparr>) = segment_rst v"
  "segment_accept (v\<lparr>onDataReceived := d\<rparr>) = segment_accept v" "segment_syn_sent (v\<lparr>onDataReceived := d\<rparr>) = segment_syn_sent v"
  "segment_acked (v\<lparr>onDataReceived := d\<rparr>) = segment_acked v" "segment_fin (v\<lparr>onDataReceived := d\<rparr>) = segment_fin v"
  unfolding fun_eq_iff segment_reset_def segment_rst_def segment_accept_def segment_syn_sent_def segment_acked_def segment_fin_def
    receiver_irrelevant receiver_fields by (intro allI refl)+

lemma OffsetBuffer_new_pos: "0 < b_size (OffsetBuffer_new buf off 0) \<Longrightarrow> unat off < unat (b_size buf)"
  by (cases "off = b_size buf") (auto simp: OffsetBuffer_new_def reinit_def Let_def word_less_nat_alt not_less word_le_nat_alt
      word_unat_eq_iff split: if_splits)

text \<open>Another event makes a difference only for data at the place the socket expects.\<close>

definition next_data :: "u8 \<Rightarrow> u32 \<Rightarrow> buffer \<Rightarrow> 'a tcp_scheme \<Rightarrow> socket \<Rightarrow> bool" where
  "next_data opt seq buf s k = (opt AND ACK = ACK \<and> opt AND RST \<noteq> RST \<and> state k AND 0x0F = ESTABLISHED \<and> seq = remoteSeq k
     \<and> (\<exists>b. read8 (b_read s buf) 12 = Some b \<and> 4 * unat (drop_bit 4 b) < unat (b_size buf)))"

lemma unat_header: "unat (ucast (drop_bit 4 (b :: u8)) * 4 :: u16) = 4 * unat (drop_bit 4 b)"
proof -
  have "unat (drop_bit 4 b) \<le> 15" using unat8_le [of b] unfolding unat_drop_bit_eq by (simp add: drop_bit_eq_div)
  then show ?thesis by (simp add: unat_word_ariths unat_ucast16)
qed

lemma segment_established_receiver:
  assumes "segment_established (v\<lparr>onDataReceived := d\<rparr>) x opt ack seq buf s \<noteq> segment_established v x opt ack seq buf s"
  shows "opt AND ACK = ACK" and "seq = remoteSeq (sock s x)"
    and "\<exists>b. read8 (b_read s buf) 12 = Some b \<and> 4 * unat (drop_bit 4 b) < unat (b_size buf)"
proof -
  note u = assms [unfolded segment_established_def Let_def receiver_irrelevant receiver_irrelevant2 receiver_fields]
  show "opt AND ACK = ACK" "seq = remoteSeq (sock s x)" using u by (auto split: if_splits)
  show "\<exists>b. read8 (b_read s buf) 12 = Some b \<and> 4 * unat (drop_bit 4 b) < unat (b_size buf)"
  proof (cases "read8 (b_read s buf) 12")
    case None
    then show ?thesis using u by (auto split: if_splits)
  next
    case (Some b)
    let ?h = "ucast (drop_bit 4 b) * 4 :: u16"
    have eq: "segment_data (v\<lparr>onDataReceived := d\<rparr>) x opt seq ?h pay buf s = segment_data v x opt seq ?h pay buf s"
      if "\<not> 0 < b_size (OffsetBuffer_new buf ?h 0)" for pay
      unfolding segment_data_def Let_def if_not_P [OF that] receiver_irrelevant ..
    have "0 < b_size (OffsetBuffer_new buf ?h 0)"
    proof (rule ccontr)
      assume "\<not> 0 < b_size (OffsetBuffer_new buf ?h 0)"
      note eq = eq [OF this]
      show False using u unfolding Some option.case eq by (rule notE) (rule refl)
    qed
    then show ?thesis using Some OffsetBuffer_new_pos [of buf ?h] by (simp add: unat_header)
  qed
qed

lemma segment_process_receiver:
  assumes "segment_process (v\<lparr>onDataReceived := d\<rparr>) x opt ack seq buf s \<noteq> segment_process v x opt ack seq buf s"
  shows "next_data opt seq buf s (sock s x)"
proof -
  have "opt AND RST \<noteq> RST" "state (sock s x) AND 0x0F = ESTABLISHED"
    "segment_established (v\<lparr>onDataReceived := d\<rparr>) x opt ack seq buf s \<noteq> segment_established v x opt ack seq buf s"
    using assms unfolding segment_process_def Let_def receiver_irrelevant receiver_irrelevant2 by (auto split: if_splits)
  from this(1,2) segment_established_receiver [OF this(3)] show ?thesis by (simp add: next_data_def)
qed

section \<open>Properties\<close>

text \<open>The two ends of a connection.\<close>

definition peers :: "nat \<Rightarrow> nat \<Rightarrow> 'a tcp_scheme \<Rightarrow> 'b tcp_scheme \<Rightarrow> bool" where
  "peers x y a b = (remoteIP (sock a x) = ip_ipAddress b \<and> remoteIP (sock b y) = ip_ipAddress a
     \<and> remotePort (sock a x) = localPort (sock b y) \<and> remotePort (sock b y) = localPort (sock a x)
     \<and> localSeq (sock a x) = remoteSeq (sock b y) \<and> remoteSeq (sock a x) = localSeq (sock b y)
     \<and> state (sock a x) = ESTABLISHED \<and> state (sock b y) = ESTABLISHED)"

text \<open>What happens to a segment with data from socket \<open>x\<close> of \<open>a1\<close>, be it sent for the first time or again.\<close>

lemma arrival:
  fixes a1 :: "'a tcp_scheme" and b :: "'b tcp_scheme" and wnd :: u16
  assumes "quiet_events va" and "quiet_events vb" and "can_send y maca b" and "state (sock b y) = ESTABLISHED"
    and "remoteIP (sock b y) = ia" and "remotePort (sock b y) = sp" and "remoteSeq (sock b y) = seq"
    and "can_receive y p ia sp (localPort (sock b y)) b" and "unat (b_size p) = 40 + length data" and "data \<noteq> []"
    and "ip_ok a1" and "x < length (sockets a1)" and "state (sock a1 x) = ESTABLISHED OR AWAITING_ACK"
    and "remoteIP (sock a1 x) = ip_ipAddress b" and "remoteSeq (sock a1 x) = localSeq (sock b y)"
    and "localSeq (sock a1 x) = seq + word_of_nat (length data)" and "ip_ipAddress a1 = ia" and "localPort (sock a1 x) = sp"
    and "remotePort (sock a1 x) = localPort (sock b y)" and "length macb = 6" and "control \<in> {ACK, ACK OR PSH}"
    and "can_receive x r (ip_ipAddress b) (localPort (sock b y)) sp a1" and "unat (b_size r) = 40"
  defines "F \<equiv> ip_frame macb (macAddr a1) ia (ip_ipAddress b) TCP_PROTOCOL (tcp_segment ia (ip_ipAddress b)
      (tcp_prefix sp (localPort (sock b y)) seq (localSeq (sock b y)) 0x50 control wnd) data)"
  shows "\<exists>q s1 b2 a3. b_bytes s1 q = data
    \<and> (\<forall>event. receive_packet (vb\<lparr>onDataReceived := event\<rparr>) appb p F b = event y q s1 \<bind> acknowledge vb y (localSeq (sock a1 x)))
    \<and> acknowledge vb y (localSeq (sock a1 x)) (True, s1) = Some b2
    \<and> receive_packet va appa r (last (wire b2)) a1 = Some a3
    \<and> readyToSend (sock a3 x) \<and> peers x y a3 b2"
proof -
  let ?kb = "sock b y" and ?ib = "ip_ipAddress b" and ?next = "localSeq (sock a1 x)"
  note cb = assms(3) [unfolded can_send_def]
  have mac: "length maca = 6" "length (macAddr a1) = 6" "length (macAddr b) = 6"
    using assms(11) cb getMACForIP_length [of b _ maca] by (auto simp: eth_ok_def dest: ip_sizes(1))
  obtain q s1 where r: "\<And>v app. receive_packet v app p F b = onDataReceived v y q s1 \<bind> acknowledge v y ?next"
    and q: "b_bytes s1 q = data"
    and rs: "rest_same (upd y (\<lambda>k. k\<lparr>recvBuffer := Some q, remoteWindow := wnd, remoteIP := ia\<rparr>) b) s1"
    unfolding F_def assms(16)
    by (rule data_step [OF assms(8,20) mac(2) assms(9,10,4,5,7) refl assms(21), of wnd]) blast
  note ts = rest_same_transmits [OF rs]
  have "can_send y maca s1"
    using cb assms(5) unfolding can_send_transmits [OF ts] by (simp add: can_send_def)
  from quiet_events.acknowledge_ok [OF assms(2) this, of ?next]
  obtain b2 where ack: "acknowledge vb y ?next (True, s1) = Some b2"
    and t2: "transmits [ack_frame maca (macAddr s1) (ip_ipAddress s1) (remoteIP (sock s1 y)) (localPort (sock s1 y))
        (remotePort (sock s1 y)) (localSeq (sock s1 y)) ?next (getWindowSize vb y s1)]
      (upd y (\<lambda>k. k\<lparr>remoteSeq := ?next, stateTime := now s1\<rparr>) s1) b2" by blast
  have ks: "sock s1 y = ?kb\<lparr>recvBuffer := Some q, remoteWindow := wnd, remoteIP := ia\<rparr>"
    using cb by (simp add: sock_transmits [OF ts])
  have ib1: "ip_ipAddress s1 = ?ib" "length (sockets s1) = length (sockets b)" "macAddr s1 = macAddr b"
    by (simp_all add: ip_transmits [OF ts] tcp_transmits [OF ts] transmits_fields [OF ts])
  have wire2: "last (wire b2) = ack_frame maca (macAddr b) ?ib ia (localPort ?kb) sp (localSeq ?kb) ?next (getWindowSize vb y s1)"
    using transmits_fields(1) [OF t2] ks assms(6) by (simp add: ib1)
  obtain a3 rb where r3: "receive_packet va appa r (last (wire b2)) a1 = Some a3"
    and t3: "transmits [] (upd x (\<lambda>k. k\<lparr>recvBuffer := rb, remoteWindow := getWindowSize vb y s1, remoteIP := ?ib, state := ESTABLISHED\<rparr>) a1) a3"
    using quiet_events.acked_step [OF assms(1,22) mac(1,3) assms(23,13,14,15) refl, of appa "getWindowSize vb y s1"]
    unfolding wire2 assms(17) by blast
  have k3: "sock a3 x = (sock a1 x)\<lparr>recvBuffer := rb, remoteWindow := getWindowSize vb y s1, remoteIP := ?ib, state := ESTABLISHED\<rparr>"
    using assms(12) by (simp add: sock_transmits [OF t3])
  have k2: "sock b2 y = (sock s1 y)\<lparr>remoteSeq := ?next, stateTime := now s1\<rparr>"
    using cb by (simp add: sock_transmits [OF t2] ib1)
  have "receive_packet (vb\<lparr>onDataReceived := event\<rparr>) appb p F b = event y q s1 \<bind> acknowledge vb y ?next" for event
    unfolding r acknowledge_def by simp
  moreover have "peers x y a3 b2"
    unfolding peers_def k3 k2 ks using assms(4,6,15,17-19) by (simp add: ip_transmits [OF t3] ip_transmits [OF t2] ib1)
  moreover have "readyToSend (sock a3 x)" using k3 by (simp add: readyToSend_def sock_states)
  ultimately show ?thesis using q ack r3 by blast
qed

text \<open>
  C2: Data arrives once, in order and is acknowledged. Between the two ends of a connection, the bytes an application
  puts into the send buffer and sends with \<^verbatim>\<open>send(length)\<close> reach the \<^verbatim>\<open>onDataReceived\<close> of the peer in one call, with a
  buffer that holds exactly these bytes, whatever that event does. If it takes them, the peer
  acknowledges; until the acknowledgement comes back the sender is not ready to send, then it is, and the two ends agree
  on the sequence numbers again.
\<close>

theorem data_transfer:
  assumes "quiet_events va" and "quiet_events vb" and "peers x y a b"
    and "can_send_data x macb n st a" and "can_send y maca b"
    and "can_receive y p (ip_ipAddress a) (localPort (sock a x)) (localPort (sock b y)) b" and "unat (b_size p) = 40 + unat n"
    and "can_receive x r (ip_ipAddress b) (localPort (sock b y)) (localPort (sock a x)) a" and "unat (b_size r) = 40"
  defines "data \<equiv> take (unat n) (drop 20 (b_bytes a (sendPacketBuffer a)))"
  shows "\<exists>a1 q s1 b2 a3. send va x n a = Some (True, a1) \<and> \<not> readyToSend (sock a1 x)
    \<and> b_bytes s1 q = data \<and> length data = unat n
    \<and> (\<forall>event. receive_packet (vb\<lparr>onDataReceived := event\<rparr>) appb p (last (wire a1)) b
          = event y q s1 \<bind> acknowledge vb y (localSeq (sock a1 x)))
    \<and> acknowledge vb y (localSeq (sock a1 x)) (True, s1) = Some b2
    \<and> receive_packet va appa r (last (wire b2)) a1 = Some a3
    \<and> readyToSend (sock a3 x) \<and> peers x y a3 b2"
proof -
  let ?ka = "sock a x" and ?kb = "sock b y" and ?ia = "ip_ipAddress a" and ?ib = "ip_ipAddress b"
  note ca = assms(4) [unfolded can_send_data_def can_send_def] and pr = assms(3) [unfolded peers_def]
  have x: "x < length (sockets a)" using ca by simp
  have mac: "length macb = 6" using ca getMACForIP_length [of a _ macb] by auto
  have len: "length data = unat n"
    using ca ip_sizes(3,5) [of a] by (auto simp: data_def buf.length_bytes buf.wok_ok)
  then have ne: "data \<noteq> []" using ca by (auto simp: unat_eq_zero)
  obtain a1 where c: "send va x n a = Some (True, a1)" and
    t1: "transmits [ip_frame macb (macAddr a) ?ia ?ib TCP_PROTOCOL (tcp_segment ?ia ?ib
          (tcp_prefix (localPort ?ka) (localPort ?kb) (localSeq ?ka) (localSeq ?kb) 0x50 (ACK OR PSH) (getWindowSize va x a)) data)]
      (upd x (\<lambda>k. k\<lparr>sk_attempts := 1, state := ESTABLISHED OR AWAITING_ACK, lastDataLength := n,
        localSeq := localSeq k + ucast n, stateTime := now a\<rparr>) a) a1" (is "transmits [?F] ?A a1")
    using window_law.send_ok [OF quiet_events.axioms(1) [OF assms(1)] assms(4)] pr unfolding data_def by auto
  have wire1: "last (wire a1) = ?F" and own: "macAddr a1 = macAddr a" and ia: "ip_ipAddress a1 = ?ia" and ok: "ip_ok a1"
    using ca transmits_fields(1,3) [OF t1] by (simp_all add: ip_transmits [OF t1] ip_ok_transmits [OF t1])
  have k1: "sock a1 x = ?ka\<lparr>sk_attempts := 1, state := ESTABLISHED OR AWAITING_ACK, lastDataLength := n,
      localSeq := localSeq ?ka + ucast n, stateTime := now a\<rparr>" and x1: "x < length (sockets a1)"
    using x by (simp_all add: sock_transmits [OF t1] tcp_transmits [OF t1])
  have "target ?A = target a"
    using ca by (intro target_upd_same) (simp_all add: equals_remote_def equals_listen_def isHost_def sock_states)
  then have ra: "can_receive x r ?ib (localPort ?kb) (localPort ?ka) a1"
    using assms(8) k1
    by (simp add: can_receive_def ip_ok_transmits [OF t1] transmits_ok(2) [OF t1] tcp_transmits [OF t1] protocol_transmits [OF t1]
        target_transmits [OF t1])
  note arr = arrival [OF assms(1,2,5) _ _ _ _ assms(6) _ ne ok x1 _ _ _ _ ia _ _ mac _ ra assms(9),
      where control = "ACK OR PSH" and seq = "localSeq ?ka" and wnd = "getWindowSize va x a" and appa = appa and appb = appb, unfolded own]
  have "\<not> readyToSend (sock a1 x)" using k1 by (simp add: readyToSend_def sock_states)
  then show ?thesis
    using arr c wire1 k1 pr len assms(7) by auto
qed

text \<open>
  C4: No data out of order. Whatever segment arrives, replacing the \<^verbatim>\<open>onDataReceived\<close> of the application by any other
  event makes no difference unless the segment is complete, its checksum is right, its ACK bit is set and its RST bit is not,
  the lower half of the state is that of ESTABLISHED, the sequence number is exactly the one
  expected next, and the header leaves some data.
\<close>

theorem data_only_in_order:
  fixes inner off l
  defines "buf \<equiv> OffsetBuffer inner off l"
  assumes "x < length (sockets s)" and "sk_tcp (sock s x)" and "length (ip_ipAddress s) = 4" and "length src = 4"
    and "length (remoteIP (sock s x)) = 4" and "b_ok s buf"
    and "handleSegment (v\<lparr>onDataReceived := event\<rparr>) x src buf s \<noteq> handleSegment v x src buf s"
  defines "B \<equiv> b_bytes s buf"
  shows "18 \<le> length B \<and> seg_valid (ip_ipAddress s) (remoteIP (sock s x)) B \<and> B ! 13 AND ACK = ACK \<and> B ! 13 AND RST \<noteq> RST
    \<and> state (sock s x) AND 0x0F = ESTABLISHED \<and> net32 (B ! 4) (B ! 5) (B ! 6) (B ! 7) = remoteSeq (sock s x)
    \<and> 4 * unat (drop_bit 4 (B ! 12)) < length B"
proof -
  have len: "length B = unat (b_size buf)" unfolding B_def using assms(7) by (rule buf.length_bytes)
  have sz: "18 \<le> length B"
  proof (rule ccontr)
    assume "\<not> 18 \<le> length B"
    then have "readNet16 (b_read s buf) 16 = None" using len Offset_rejects [of inner off l 16 2 s] by (simp add: buf_def readNet16_def read16_def)
    then show False using assms(3,8) by (auto simp: handleSegment_def segment_intake_def Let_def split: option.splits if_splits)
  qed
  have in': "segment_intake x src buf s = Some
    (if seg_valid (ip_ipAddress s) (remoteIP (intaken src buf B (sock s x))) B
     then Some (B ! 13, net32 (B ! 8) (B ! 9) (B ! 10) (B ! 11), net32 (B ! 4) (B ! 5) (B ! 6) (B ! 7)) else None,
     upd x (intaken src buf B) s)"
    unfolding B_def by (rule segment_intake_eq [OF assms(2-7)]) (use sz in \<open>simp add: B_def\<close>)
  have "seg_valid (ip_ipAddress s) (remoteIP (intaken src buf B (sock s x))) B
    \<and> segment_process (v\<lparr>onDataReceived := event\<rparr>) x (B ! 13) (net32 (B ! 8) (B ! 9) (B ! 10) (B ! 11))
        (net32 (B ! 4) (B ! 5) (B ! 6) (B ! 7)) buf (upd x (intaken src buf B) s)
      \<noteq> segment_process v x (B ! 13) (net32 (B ! 8) (B ! 9) (B ! 10) (B ! 11))
        (net32 (B ! 4) (B ! 5) (B ! 6) (B ! 7)) buf (upd x (intaken src buf B) s)"
    using assms(8) unfolding handleSegment_def in' by (auto split: if_splits)
  then have v: "seg_valid (ip_ipAddress s) (remoteIP (intaken src buf B (sock s x))) B"
    and n: "next_data (B ! 13) (net32 (B ! 4) (B ! 5) (B ! 6) (B ! 7)) buf (upd x (intaken src buf B) s)
      (sock (upd x (intaken src buf B) s) x)"
    using segment_process_receiver by blast+
  have st: "state (sock s x) AND 0x0F = ESTABLISHED" using n assms(2) by (simp add: next_data_def intaken_def)
  then have "state (sock s x) \<noteq> LISTEN" by (auto simp: sock_states)
  then have "remoteIP (intaken src buf B (sock s x)) = remoteIP (sock s x)" by (simp add: intaken_def)
  moreover have "read8 (b_read s buf) 12 = Some (B ! 12)" using assms(7) sz len by (simp add: B_def buf.read8_inside)
  ultimately show ?thesis
    using v n st sz len assms(2) by (auto simp: next_data_def intaken_def)
qed

text \<open>Two ends of a connection, between ports 49152 and 80.\<close>

definition demo_sender :: tcp where
  "demo_sender = demo_tcp demo_a (demo_socket\<lparr>state := ESTABLISHED, localPort := 49152, remotePort := 80, remoteIP := [10, 0, 0, 2],
     localSeq := 42, remoteSeq := 977, remoteWindow := 1000, sk_tcp := True,
     sk_stash := Some (OffsetBuffer (MemBuffer 0x900 30) 0 30), sendBuffer := Some (after (sendPacketBuffer demo_a) 20)\<rparr>)"

definition demo_reader :: tcp where
  "demo_reader = demo_tcp (demo_ip [2, 0, 0, 0, 0, 2] [10, 0, 0, 2] [2, 0, 0, 0, 0, 1] [10, 0, 0, 1])
     (demo_socket\<lparr>state := ESTABLISHED, localPort := 80, remotePort := 49152, remoteIP := [10, 0, 0, 1],
       localSeq := 977, remoteSeq := 42, sk_tcp := True\<rparr>)"

lemma demo_can_send:
  assumes "n \<noteq> 0" and "n \<le> 30"
  shows "can_send_data 0 [2, 0, 0, 0, 0, 2] n (OffsetBuffer (MemBuffer 0x900 30) 0 30) demo_sender"
proof -
  note f = demo_tcp_fields and d = demo_sender_def demo_socket_def
  have a: "ip_ok demo_a" by (rule demo_ip_ok) simp_all
  note rt = demo_ip_route [of "[2, 0, 0, 0, 0, 1]" "[2, 0, 0, 0, 0, 2]"]
  let ?st = "OffsetBuffer (MemBuffer 0x900 30) 0 30"
  have st: "b_wok demo_sender ?st" by (rule Offset_wok [OF Mem_wok]) simp
  have dj: "set (b_cells (OffsetBuffer (OffsetBuffer (MemBuffer 0x400 100) 14 86) 20 66)) \<inter> set (b_cells ?st) = {}"
    by code_simp
  have n: "unat n \<le> 30" using assms(2) by (simp add: le16_iff)
  have "set (b_cells (OffsetBuffer (OffsetBuffer (OffsetBuffer (MemBuffer 0x400 100) 14 86) 20 66) 20 46)) \<inter> set (b_cells ?st) = {}"
    by code_simp
  moreover have "b_wok demo_sender (OffsetBuffer (OffsetBuffer (OffsetBuffer (MemBuffer 0x400 100) 14 86) 20 66) 20 46)"
    by (intro Offset_wok Mem_wok) simp_all
  ultimately have cc: "can_copy demo_sender (after (sendPacketBuffer demo_a) 20) ?st n"
    using st assms n by (simp add: can_copy_def demo_ip_simps after_def buf.wok_ok le16_iff)
  have "can_send 0 [2, 0, 0, 0, 0, 2] demo_sender" by (simp add: can_send_def d f demo_ip_simps a rt)
  then show ?thesis
    using cc dj n assms by (simp add: can_send_data_def d f demo_ip_simps getMaxSendPayload_def Let_def after_def)
qed

lemma demo_connection:
  shows "peers 0 0 demo_sender demo_reader"
    and "can_send_data 0 [2, 0, 0, 0, 0, 2] 5 (OffsetBuffer (MemBuffer 0x900 30) 0 30) demo_sender"
    and "can_send 0 [2, 0, 0, 0, 0, 1] demo_reader"
    and "can_receive 0 (MemBuffer 0x600 45) [10, 0, 0, 1] 49152 80 demo_reader"
    and "can_receive 0 (MemBuffer 0x600 40) [10, 0, 0, 2] 80 49152 demo_sender"
    and "localPort (sock demo_sender 0) = 49152" "localPort (sock demo_reader 0) = 80"
    and "ip_ipAddress demo_sender = [10, 0, 0, 1]" "ip_ipAddress demo_reader = [10, 0, 0, 2]"
proof -
  note f = demo_tcp_fields and d = demo_sender_def demo_reader_def demo_socket_def
  have a: "ip_ok demo_a" "ip_ok (demo_ip [2, 0, 0, 0, 0, 2] [10, 0, 0, 2] [2, 0, 0, 0, 0, 1] [10, 0, 0, 1])"
    by (rule demo_ip_ok; simp)+
  note rt = demo_ip_route [of "[2, 0, 0, 0, 0, 1]" "[2, 0, 0, 0, 0, 2]"] demo_tcp_hosts(3) [unfolded demo_server_def f]
  show "peers 0 0 demo_sender demo_reader" by (simp add: peers_def d f demo_ip_simps)
  show r: "can_send 0 [2, 0, 0, 0, 0, 1] demo_reader" by (simp add: can_send_def d f demo_ip_simps a rt)
  show "localPort (sock demo_sender 0) = 49152" "localPort (sock demo_reader 0) = 80"
    "ip_ipAddress demo_sender = [10, 0, 0, 1]" "ip_ipAddress demo_reader = [10, 0, 0, 2]"
    by (simp_all add: d f demo_ip_simps)
  show "can_send_data 0 [2, 0, 0, 0, 0, 2] 5 (OffsetBuffer (MemBuffer 0x900 30) 0 30) demo_sender" by (rule demo_can_send) simp_all
  have t: "find_socket demo_reader (\<lambda>k. equals_remote k [10, 0, 0, 1] 49152 80) = Some 0"
    "find_socket demo_sender (\<lambda>k. equals_remote k [10, 0, 0, 2] 80 49152) = Some 0"
    by (simp_all add: find_socket_def f d equals_remote_def ipsEquate_eq sock_states)
  show "can_receive 0 (MemBuffer 0x600 45) [10, 0, 0, 1] 49152 80 demo_reader"
    "can_receive 0 (MemBuffer 0x600 40) [10, 0, 0, 2] 80 49152 demo_sender"
    using t Mem_wok [of _ "0x600"] by (simp_all add: can_receive_def target_def d f demo_ip_simps a)
qed

lemma data_transfer_witness:
  "\<exists>a1 q s1 b2 a3. send demo_v 0 5 demo_sender = Some (True, a1)
    \<and> (\<forall>event. receive_packet (demo_v\<lparr>onDataReceived := event\<rparr>) demo_app (MemBuffer 0x600 45) (last (wire a1)) demo_reader
          = event 0 q s1 \<bind> acknowledge demo_v 0 (localSeq (sock a1 0))) \<and> length (b_bytes s1 q) = 5
    \<and> acknowledge demo_v 0 (localSeq (sock a1 0)) (True, s1) = Some b2
    \<and> receive_packet demo_v demo_app (MemBuffer 0x600 40) (last (wire b2)) a1 = Some a3 \<and> readyToSend (sock a3 0)"
proof -
  note d = demo_connection
  have v: "quiet_events demo_v" unfolding demo_v_def by (rule socket_events.quiet_events_axioms)
  have sz: "unat (b_size (MemBuffer 0x600 45)) = 40 + unat (5 :: u16)" "unat (b_size (MemBuffer 0x600 40)) = 40" by simp_all
  have five: "unat (5 :: u16) = 5" by simp
  show ?thesis
    using data_transfer [OF v v d(1-3), where p = "MemBuffer 0x600 45" and r = "MemBuffer 0x600 40" and appa = demo_app and appb = demo_app,
        unfolded d(6-9), OF d(4) sz(1) d(5) sz(2)]
    unfolding five by (elim exE conjE) (intro exI conjI, assumption+, simp_all only: )
qed

lemma sendSegment_returns: "sk_tcp (sock s x) \<Longrightarrow> sendSegment v x control len seq ack s \<noteq> None"
  unfolding sendSegment_def Let_def by (simp only: not_not if_False split: prod.split option.split if_split) simp

text \<open>The peer of \<open>demo_reader\<close> has sent a segment with one byte.\<close>

definition demo_segment :: "u8 list" where
  "demo_segment = tcp_segment [10, 0, 0, 1] [10, 0, 0, 2] (tcp_prefix 49152 80 42 977 0x50 (ACK OR PSH) 1000) [0x21]"

definition demo_got :: tcp where
  "demo_got = snd (b_write (OffsetBuffer (MemBuffer 0x600 21) 0 21) 0 demo_segment demo_reader)"

lemma demo_got:
  shows "b_ok demo_got (OffsetBuffer (MemBuffer 0x600 21) 0 21)"
    and "b_bytes demo_got (OffsetBuffer (MemBuffer 0x600 21) 0 21) = demo_segment"
    and "rest_same demo_reader demo_got"
proof -
  let ?b = "OffsetBuffer (MemBuffer 0x600 21) 0 21"
  have w: "b_wok demo_reader ?b" by (rule Offset_wok [OF Mem_wok]) simp_all
  show rs: "rest_same demo_reader demo_got" unfolding demo_got_def by (rule rest_same_b_write)
  then show "b_ok demo_got ?b" using buf.wok_ok [OF w] by (simp add: rest_same_ok [OF rs])
  show "b_bytes demo_got ?b = demo_segment"
    unfolding demo_got_def by (rule fill_bytes [OF w]) (simp_all add: demo_segment_def tcp_segment_def be16_def)
qed

lemma data_only_in_order_witness:
  "\<exists>v event. handleSegment (v\<lparr>onDataReceived := event\<rparr>) 0 [10, 0, 0, 1] (OffsetBuffer (MemBuffer 0x600 21) 0 21) demo_got
      \<noteq> handleSegment v 0 [10, 0, 0, 1] (OffsetBuffer (MemBuffer 0x600 21) 0 21) demo_got
    \<and> net32 (demo_segment ! 4) (demo_segment ! 5) (demo_segment ! 6) (demo_segment ! 7) = remoteSeq (sock demo_got 0)"
proof -
  let ?b = "OffsetBuffer (MemBuffer 0x600 21) 0 21"
  note t = rest_same_transmits [OF demo_got(3)]
  note f = demo_tcp_fields demo_reader_def demo_socket_def
  have k: "sock demo_got 0 = sock demo_reader 0" "length (sockets demo_got) = 1" "ip_ipAddress demo_got = [10, 0, 0, 2]"
    by (simp_all add: sock_transmits [OF t] tcp_transmits [OF t] ip_transmits [OF t] f demo_ip_simps)
  have "ip_ok demo_reader" by (simp add: f) (rule demo_ip_ok; simp)
  then have ok: "ip_ok demo_got" by (simp add: ip_ok_transmits [OF t])
  have B: "b_bytes demo_got ?b = tcp_segment [10, 0, 0, 1] (ip_ipAddress demo_got)
      (tcp_prefix 49152 80 42 977 0x50 (ACK OR PSH) 1000) [0x21]"
    by (simp add: demo_got(2) demo_segment_def k)
  have h: "handleSegment v 0 [10, 0, 0, 1] ?b demo_got = onDataReceived v 0 (after ?b 20) u \<bind> acknowledge v 0 43"
    if "u = upd 0 (\<lambda>k. k\<lparr>recvBuffer := Some (after ?b 20)\<rparr>) (upd 0 (\<lambda>k. k\<lparr>recvBuffer :=
      Some (OffsetBuffer_new ?b (b_size ?b) 0), remoteWindow := 1000, remoteIP := [10, 0, 0, 1]\<rparr>) demo_got)" for u v
  proof -
    have "handleSegment v 0 [10, 0, 0, 1] ?b demo_got = segment_process v 0 (ACK OR PSH) 977 42 ?b (upd 0 (\<lambda>k. k\<lparr>recvBuffer :=
      Some (OffsetBuffer_new ?b (b_size ?b) 0), remoteWindow := 1000, remoteIP := [10, 0, 0, 1]\<rparr>) demo_got)"
      by (rule handleSegment_valid [OF demo_got(1) B _ _ ok]) (simp_all add: k f)
    also have "\<dots> = onDataReceived v 0 (after ?b 20) u \<bind> acknowledge v 0 (42 + word_of_nat (length [0x21 :: u8]))"
      unfolding that by (rule segment_process_data) (use demo_got(1) B in \<open>simp_all add: k f seg_flags\<close>)
    finally show ?thesis by simp
  qed
  define u where "u = upd 0 (\<lambda>k. k\<lparr>recvBuffer := Some (after ?b 20)\<rparr>) (upd 0 (\<lambda>k. k\<lparr>recvBuffer :=
    Some (OffsetBuffer_new ?b (b_size ?b) 0), remoteWindow := 1000, remoteIP := [10, 0, 0, 1]\<rparr>) demo_got)"
  let ?v = "demo_v\<lparr>onDataReceived := \<lambda>x q s. Some (False, s)\<rparr>" and ?e = "\<lambda>x q s. None"
  have "sk_tcp (sock u 0)" by (simp add: u_def k f)
  then have "handleSegment ?v 0 [10, 0, 0, 1] ?b demo_got \<noteq> None"
    unfolding h [OF u_def] by (simp add: acknowledge_def sendSegment_returns)
  moreover have "handleSegment (?v\<lparr>onDataReceived := ?e\<rparr>) 0 [10, 0, 0, 1] ?b demo_got = None"
    unfolding h [OF u_def] by simp
  ultimately have d: "handleSegment (?v\<lparr>onDataReceived := ?e\<rparr>) 0 [10, 0, 0, 1] ?b demo_got
      \<noteq> handleSegment ?v 0 [10, 0, 0, 1] ?b demo_got" by metis
  from data_only_in_order [OF _ _ _ _ _ demo_got(1) d]
  have "net32 (demo_segment ! 4) (demo_segment ! 5) (demo_segment ! 6) (demo_segment ! 7) = remoteSeq (sock demo_got 0)"
    by (simp add: k f demo_got(2))
  with d show ?thesis by blast
qed

end
