(* ===== verification/Frames.thy ===== *)
theory Frames
  imports Connections
begin

text \<open>
  What the operations of a socket leave alone, whether they succeed or not: sending changes the memories, the wire and the ARP table, and of the
  layers above only the socket itself.
\<close>

section \<open>Sending\<close>

definition sends :: "'a net_scheme \<Rightarrow> 'a net_scheme \<Rightarrow> bool" where
  "sends s s' = (\<exists>fs. transmits fs s s')"

lemma sends_refl [simp, intro]: "sends s s"
  unfolding sends_def by (blast intro: transmits_none)

lemma sends_trans: "sends s s1 \<Longrightarrow> sends s1 s2 \<Longrightarrow> sends s s2"
  unfolding sends_def by (blast intro: transmits_trans)

lemma sends_b_write: "sends s (snd (b_write b off xs s))"
  unfolding sends_def by (blast intro: rest_same_transmits rest_same_b_write)

lemma sends_writes:
  "sends s (snd (write8 (b_write b) off d8 s))" "sends s (snd (writeNet16 (b_write b) off d16 s))"
  "sends s (snd (writeNet32 (b_write b) off32 d32 s))"
  by (simp_all add: write8_def writeNet16_def write16_def writeNet32_def write32_def sends_b_write)

lemma sends_seq_ok: "(\<And>f s. f \<in> set fs \<Longrightarrow> sends s (snd (f s))) \<Longrightarrow> sends s (snd (seq_ok fs s))"
proof (induction fs arbitrary: s)
  case (Cons f fs)
  obtain ok s1 where f: "f s = (ok, s1)" by fastforce
  then have "sends s s1" using Cons.prems [of f s] by simp
  then show ?case using Cons f by (auto intro: sends_trans)
qed simp

lemma sends_run_all: "(\<And>f s. f \<in> set fs \<Longrightarrow> sends s (snd (f s))) \<Longrightarrow> sends s (run_all fs s)"
proof (induction fs arbitrary: s)
  case (Cons f fs)
  then show ?case using sends_trans [of s "snd (f s)"] by auto
qed simp

lemmas sends_steps = sends_b_write sends_writes

lemma sends_then:
  assumes "sends s (snd r)" and "\<And>s1. sends s1 (snd (f s1))"
  shows "sends s (snd (case r of (ok, s1) \<Rightarrow> if \<not> ok then (b, s1) else f s1))"
  using assms(1) sends_trans [OF assms(1) assms(2)] by (cases r) simp

lemma sends_sendFrame: "sends s (snd (sendFrame dst protocol n s))"
proof -
  have d: "sends s1 (driver_sendFrame l s1)" for l and s1 :: "'a net_scheme"
    unfolding sends_def driver_sendFrame_def transmits_def using rest_same_refl by blast
  show ?thesis
    unfolding sendFrame_def Let_def
    by (subst if_split) (intro conjI impI, simp, rule sends_then, rule sends_seq_ok, auto simp: sends_steps d simp del: seq_ok.simps)
qed

lemma sends_sendARPRequest: "sends s (snd (sendARPRequest ip s))"
  unfolding sendARPRequest_def Let_def
  by (rule sends_then, rule sends_seq_ok) (auto simp: sends_steps sends_sendFrame simp del: seq_ok.simps)

lemma sends_sendPacket: "sends s (snd (sendPacket dst protocol n s))"
proof -
  let ?p = "sendPayloadBuffer s"
  let ?w = "b_write ?p"
  let ?s1 = "run_all [write8 ?w 0 0x45, write8 ?w 1 0x00, writeNet16 ?w 2 (n + IP_HEADER_LENGTH), writeNet16 ?w 4 0,
    writeNet16 ?w 6 0x4000, write8 ?w 8 64, write8 ?w 9 protocol, ?w 12 (ip_ipAddress s), ?w 16 dst] s"
  let ?s2 = "snd (writeNet16 ?w 10 (checksum (b_size ?p) (b_read ?s1 ?p) IP_HEADER_LENGTH 10 0) ?s1)"
  have "sends s ?s1" by (rule sends_run_all) (auto simp: sends_steps)
  then have s2: "sends s ?s2" using sends_trans sends_steps by blast
  have "sends s (snd (sendFrame mac IP_PROTOCOL (n + IP_HEADER_LENGTH) ?s2))" for mac
    by (rule sends_trans [OF s2 sends_sendFrame])
  then show ?thesis unfolding sendPacket_def Let_def by (simp split: option.split)
qed

section \<open>Operations of a socket\<close>

text \<open>At most the socket \<open>x\<close> has changed, of all that is above ARP.\<close>

definition frame :: "nat \<Rightarrow> 'a tcp_scheme \<Rightarrow> 'a tcp_scheme \<Rightarrow> bool" where
  "frame x s s' = ((\<exists>k. arp.more s' = arp.more (upd x (\<lambda>_. k) s)) \<and> now s' = now s)"

lemma upd_const: "upd x (\<lambda>_. sock s x) s = s"
  by (simp add: upd_def sock_def)

lemma more_upd: "arp.more s' = arp.more s \<Longrightarrow> arp.more (upd x f s') = arp.more (upd x f s)"
  by (cases s; cases s') (simp add: upd_def sock_def)

lemma frame_refl [simp, intro]: "frame x s s"
  unfolding frame_def using upd_const [of x s] by metis

lemma frame_upd [simp, intro]: "frame x s (upd x f s)"
proof -
  have "upd x f s = upd x (\<lambda>_. f (sock s x)) s" by (simp add: upd_def)
  then show ?thesis unfolding frame_def by (metis upd_fields(1))
qed

lemma frame_trans:
  assumes "frame x s s1" and "frame x s1 s2"
  shows "frame x s s2"
proof -
  from assms obtain k k' where 1: "arp.more s1 = arp.more (upd x (\<lambda>_. k) s)" and 2: "arp.more s2 = arp.more (upd x (\<lambda>_. k') s1)"
    and n: "now s2 = now s" by (auto simp: frame_def)
  have "arp.more s2 = arp.more (upd x (\<lambda>_. k') (upd x (\<lambda>_. k) s))" using 2 more_upd [OF 1] by simp
  also have "upd x (\<lambda>_. k') (upd x (\<lambda>_. k) s) = upd x (\<lambda>_. k') s" by (simp add: upd_def)
  finally show ?thesis using n by (auto simp: frame_def)
qed

lemma frame_arp: "arp.more s' = arp.more s \<Longrightarrow> now s' = now s \<Longrightarrow> frame x s s'"
  unfolding frame_def using upd_const [of x s] by metis

lemma frame_sends: "sends s s' \<Longrightarrow> frame x s s'"
  using arp_transmits(4) transmits_fields(2) frame_arp unfolding sends_def by blast

text \<open>What is not changed.\<close>

lemma frame_fields:
  assumes "frame x s s'"
  shows "tcp.more s' = tcp.more s" "now s' = now s" "length (sockets s') = length (sockets s)" "registeredSockets s' = registeredSockets s"
    "y \<noteq> x \<Longrightarrow> sock s' y = sock s y"
proof -
  obtain k where k: "arp.more s' = arp.more (upd x (\<lambda>_. k) s)" "now s' = now s" using assms by (auto simp: frame_def)
  then show "tcp.more s' = tcp.more s" "now s' = now s" "length (sockets s') = length (sockets s)"
    "registeredSockets s' = registeredSockets s" by (cases s; cases s'; simp add: upd_def)+
  have "sockets s' = (sockets s)[x := k]" using k by (cases s; cases s') (simp add: upd_def)
  then show "y \<noteq> x \<Longrightarrow> sock s' y = sock s y" by (simp add: sock_def)
qed

lemma frame_request: "frame x s (snd (requestMACAddress ip s))"
proof -
  have t: "arp.more (snd (registerTimer h d s)) = arp.more s \<and> now (snd (registerTimer h d s)) = now s" for h d
    by (cases s) (simp add: registerTimer_def split: option.split)
  have a: "arp.more (snd (sendARPRequest ip s1)) = arp.more s1 \<and> now (snd (sendARPRequest ip s1)) = now s1" for s1 :: "'a tcp_scheme"
    using sends_sendARPRequest [of s1 ip] arp_transmits(4) transmits_fields(2) unfolding sends_def by blast
  have "arp.more (snd (requestMACAddress ip s)) = arp.more s \<and> now (snd (requestMACAddress ip s)) = now s"
    using t unfolding requestMACAddress_def Let_def by (auto simp: a case_prod_beta split: option.split scan.split)
  then show ?thesis by (simp add: frame_arp)
qed

text \<open>What an operation does to the socket.\<close>

definition sock_frame :: "nat \<Rightarrow> (socket \<Rightarrow> socket \<Rightarrow> bool) \<Rightarrow> 'a tcp_scheme \<Rightarrow> 'a tcp_scheme \<Rightarrow> bool" where
  "sock_frame x R s s' = (frame x s s' \<and> R (sock s x) (sock s' x))"

lemma sock_sends: "sends s s' \<Longrightarrow> sock s' y = sock s y"
  unfolding sends_def using sock_transmits by blast

lemma frame_sends_sock: "sends s s' \<Longrightarrow> sock_frame x (=) s s'"
  by (simp add: sock_frame_def frame_sends sock_sends)

lemma sock_request: "sock (snd (requestMACAddress ip s)) y = sock s y"
proof -
  have t: "sock (snd (registerTimer h d s)) y = sock s y" for h d by (simp add: registerTimer_def sock_def split: option.split)
  have a: "sock (snd (sendARPRequest ip s1)) y = sock s1 y" for s1 :: "'a tcp_scheme" by (rule sock_sends [OF sends_sendARPRequest])
  have r: "sock (s1\<lparr>arp_timer := i\<rparr>) y = sock s1 y" "sock (s1\<lparr>routingTable := rs\<rparr>) y = sock s1 y" for s1 :: "'a tcp_scheme" and i rs
    by (simp_all add: sock_def)
  show ?thesis using t unfolding requestMACAddress_def Let_def by (auto simp: a r case_prod_beta split: option.split scan.split)
qed

lemma frame_transmit: "sock_frame x (=) s (snd (transmit x n ol s))"
proof (cases "getMACForIP s (remoteIP (sock s x))")
  case None
  then show ?thesis by (simp add: transmit_def sock_frame_def frame_request sock_request)
next
  case (Some mac)
  have "sends s (snd (transmit x n ol s))"
    unfolding transmit_def Let_def Some option.case
    by (rule sends_then) (simp_all add: sends_steps sends_sendPacket)
  then show ?thesis by (rule frame_sends_sock)
qed

lemma sock_frame_upd: "sends s s1 \<Longrightarrow> sock_frame x (\<lambda>k k'. k' = k \<or> k' = f k) s (upd x f s1)"
  using frame_trans [OF frame_sends frame_upd, of s s1] sock_sends [of s s1]
  by (cases "x < length (sockets s1)") (auto simp: sock_frame_def)

lemma frame_options:
  "sock_frame x (\<lambda>k k'. k' = k \<or> k' = sent c n k) s (snd (segment_options x c n s))"
proof -
  have e: "sock_frame x (\<lambda>k k'. k' = k \<or> k' = sent c n k) s s1" if "sends s s1" for s1
    using frame_sends_sock [OF that] by (simp add: sock_frame_def)
  have u: "sock_frame x (\<lambda>k k'. k' = k \<or> k' = sent c n k) s (upd x (sent c n) s1)" if "sends s s1" for s1
    by (rule sock_frame_upd [OF that])
  let ?w = "b_write (sendPacketBuffer s)"
  show ?thesis
  proof (cases "c AND SYN = SYN")
    case True
    let ?ops = "[write8 ?w 12 0x60, write8 ?w 20 0x02, write8 ?w 21 0x04, writeNet16 ?w 22 (getMaxSegmentSize s)]"
    have "sends s (snd (seq_ok ?ops s))" by (rule sends_seq_ok) (auto simp: sends_steps)
    moreover have "(\<lambda>k. k\<lparr>localSeq := localSeq k + 1\<rparr>) = sent c n" using True by (simp add: sent_def fun_eq_iff)
    ultimately show ?thesis
      using True e u by (simp add: segment_options_def Let_def case_prod_beta del: seq_ok.simps)
  next
    case False
    show ?thesis
    proof (cases "c AND FIN = FIN")
      case True
      have "(\<lambda>k. k\<lparr>localSeq := localSeq k + 1\<rparr>) = sent c n" using True False by (simp add: sent_def fun_eq_iff)
      then show ?thesis using u [of s] False True by (simp add: segment_options_def Let_def)
    next
      case F: False
      have s: "sends s (snd (write8 ?w 12 0x50 s))" by (simp add: sends_steps)
      have "(\<lambda>k. k\<lparr>state := state k OR AWAITING_ACK, lastDataLength := n, localSeq := localSeq k + ucast n\<rparr>) = sent c n"
        if "n > 0" using False F that by (simp add: sent_def fun_eq_iff)
      then show ?thesis
        using False F e [OF s] u [OF s] by (auto simp: segment_options_def Let_def case_prod_beta)
    qed
  qed
qed

lemma sock_frame_then:
  assumes "sock_frame x R s s1" and "\<And>s1. sock_frame x (=) s1 (f s1)"
  shows "sock_frame x R s (f s1)"
  using assms(1) assms(2) [of s1] frame_trans unfolding sock_frame_def by metis

lemma frame_sendSegment:
  assumes "sendSegment v x c n seq ack s = Some (ok, s')"
  shows "frame x s s'" and "sock s' x = sock s x \<or> sock s' x = sent c n (sock s x)"
proof -
  let ?k = "sock s x"
  let ?w = "b_write (sendPacketBuffer s)"
  let ?R = "\<lambda>k k'. k' = k \<or> k' = sent c n k"
  define s1 where "s1 = snd (seq_ok [writeNet16 ?w 0 (localPort ?k), writeNet16 ?w 2 (remotePort ?k),
    writeNet32 ?w 4 (if c AND RST \<noteq> RST then localSeq ?k else seq),
    writeNet32 ?w 8 (if c AND RST \<noteq> RST then remoteSeq ?k else ack)] s)"
  define s2 where "s2 = snd (segment_options x c n s1)"
  define s3 where "s3 = snd (seq_ok [write8 ?w 13 c, (\<lambda>s. writeNet16 ?w 14 (getWindowSize v x s) s), writeNet16 ?w 18 0x0000] s2)"
  have 1: "sends s s1" unfolding s1_def by (rule sends_seq_ok) (auto simp: sends_steps)
  have 3: "sends s2 s3" unfolding s3_def by (rule sends_seq_ok) (auto simp: sends_steps)
  have f1: "sock_frame x ?R s s1" using frame_sends_sock [OF 1] by (simp add: sock_frame_def)
  have f2: "sock_frame x ?R s s2"
    using frame_options [of x c n s1, folded s2_def] frame_sends [OF 1, of x] sock_sends [OF 1] frame_trans
    unfolding sock_frame_def by metis
  have f3: "sock_frame x ?R s s3" "sock_frame x ?R s (snd (transmit x n ol s3))" for ol
    using f2 frame_sends_sock [OF 3, of x] frame_transmit [of x s3 n ol] frame_trans unfolding sock_frame_def by metis+
  have "s' = s1 \<or> s' = s2 \<or> s' = s3 \<or> (\<exists>ol. s' = snd (transmit x n ol s3))"
    using assms unfolding sendSegment_def Let_def s1_def s2_def s3_def
    by (auto simp del: seq_ok.simps split: if_splits prod.splits option.splits) (metis snd_conv)+
  then have "sock_frame x ?R s s'" using f1 f2 f3 by blast
  then show "frame x s s'" "sock s' x = sock s x \<or> sock s' x = sent c n (sock s x)" by (simp_all add: sock_frame_def)
qed

section \<open>Copying and sending data\<close>

lemma rest_same_copy_loop: "rest_same s (snd (copy_loop src dst ds ss off k s))"
proof (induction k arbitrary: off s)
  case (Suc k)
  show ?case
    using Suc.IH rest_same_b_write rest_same_trans
    by (auto simp: write8_def case_prod_beta split: option.split) blast
qed simp

lemma rest_same_if: "rest_same s (snd (if c then p else q)) = (if c then rest_same s (snd p) else rest_same s (snd q))"
  by simp

lemma rest_same_driver_copy: "rest_same s (snd (driver_copy src dst n s))"
proof -
  have "rest_same s (s\<lparr>ram := m\<rparr>)" for m by (simp add: rest_same_def)
  then show ?thesis unfolding driver_copy_def Let_def by (simp only: rest_same_if snd_conv rest_same_refl if_cancel)
qed

lemma rest_same_enc_copyTo: "rest_same s (snd (enc_copyTo src dst ds ss n s))"
  unfolding enc_copyTo_def Let_def
  by (cases src; cases dst) (simp_all only: buffer.case prod.case rest_same_if snd_conv rest_same_refl rest_same_driver_copy if_cancel)

lemma rest_same_copyTo:
  assumes "copyTo src dst ds ss n s = Some r"
  shows "rest_same s (snd r)"
proof (induction rule: copyTo.raw_induct [OF _ assms, case_names step])
  case (step copy src dst ds ss n s r)
  have "rest_same s (snd (Buffer_copyTo src dst ds ss n s))" for src dst ds ss n and s :: "'a store_scheme"
    by (simp add: Buffer_copyTo_def Let_def rest_same_copy_loop)
  then have b: "Some (Buffer_copyTo src dst ds ss n s) = Some r \<Longrightarrow> rest_same s (snd r)" for src dst ds ss n
    by (metis option.inject)
  have e: "Some (enc_copyTo src dst ds ss n s) = Some r \<Longrightarrow> rest_same s (snd r)" for src dst ds ss n
    by (metis option.inject rest_same_enc_copyTo)
  have f: "Some (False, s) = Some r \<Longrightarrow> rest_same s (snd r)" by auto
  note ih = step(1)
  show ?case
  proof (cases src)
    case (MemBuffer p l)
    then show ?thesis using step(2) b by simp
  next
    case (ENC28J60Buffer st en pp l w)
    show ?thesis using step(2) unfolding ENC28J60Buffer buffer.case Let_def by (simp only: split: if_split_asm) (erule b e | (drule ih, simp))+
  next
    case (OffsetBuffer i off l)
    show ?thesis using step(2) unfolding OffsetBuffer buffer.case Let_def by (simp only: split: if_split_asm) ((drule ih, simp) | (erule f) | simp)+
  qed
qed

lemma frame_send:
  assumes "send v x n s = Some (ok, s')"
  shows "frame x s s'"
proof -
  have c: "frame x s1 s2" if "copyTo a b ds ss m s1 = Some (ok1, s2)" for a b ds ss m ok1 and s1 s2 :: "'a tcp_scheme"
    using rest_same_copyTo [OF that] rest_same_transmits frame_sends unfolding sends_def by fastforce
  have g: "frame x s s2" if "copyTo a b ds ss m (upd x f s) = Some (ok1, s2)" for a b ds ss m ok1 f s2
    by (rule frame_trans [OF frame_upd c [OF that]])
  have g2: "frame x s s3" if "copyTo a b ds ss m (upd x f s) = Some (ok1, s2)" "sendSegment v x c n sq ak s2 = Some (ok2, s3)"
    for a b ds ss m ok1 ok2 f s2 s3 c n sq ak
    by (rule frame_trans [OF g [OF that(1)] frame_sendSegment(1) [OF that(2)]])
  show ?thesis
    using assms unfolding send_def Let_def
    by (auto simp del: upd_upd split: if_splits option.splits Option.bind_splits)
      (blast intro: g g2 frame_trans [OF g2 frame_upd])+
qed

lemma frame_send_data: "send_data v x data s = Some (ok, s') \<Longrightarrow> frame x s s'"
  using frame_trans [OF frame_sends [OF sends_b_write] frame_send]
  by (auto simp: send_data_def case_prod_beta intro: frame_sends [OF sends_b_write] split: option.splits if_splits)

section \<open>Changes of state\<close>

lemma frame_setState:
  assumes "setState v x st s = Some s'" and "st \<noteq> CLOSED" and "st \<noteq> ESTABLISHED"
  shows "s' = upd x (\<lambda>k. k\<lparr>state := st, stateTime := now s\<rparr>) s"
  using assms by (simp add: setState_def Let_def)

text \<open>\<^verbatim>\<open>close\<close> fires \<^verbatim>\<open>onLocalClosed\<close> only.\<close>

lemma frame_close:
  assumes "close v x s = Some (ok, s')" and "\<And>s. onLocalClosed v x s = Some s"
  shows "frame x s s'"
proof -
  have n: "FIN_WAIT_1 \<noteq> CLOSED" "FIN_WAIT_1 \<noteq> ESTABLISHED" "LAST_ACK \<noteq> CLOSED" "LAST_ACK \<noteq> ESTABLISHED"
    by (simp_all add: sock_states)
  have st: "frame x s1 s2" if "setState v x st s1 = Some s2" "st = FIN_WAIT_1 \<or> st = LAST_ACK" for s1 s2 st
    using frame_setState [OF that(1)] that(2) n by auto
  have t: "frame x s s2" if "sendSegment v x c n sq ak s = Some (ok1, s1)" "setState v x st (upd x f s1) = Some s2"
      "st = FIN_WAIT_1 \<or> st = LAST_ACK" for c n sq ak ok1 s1 s2 st f
    by (rule frame_trans [OF frame_trans [OF frame_sendSegment(1) [OF that(1)] frame_upd] st [OF that(2,3)]])
  show ?thesis
    using assms(1) unfolding close_def Let_def
    by (auto simp: assms(2) split: if_splits Option.bind_splits)
      (blast intro: t frame_sendSegment(1) frame_trans [OF frame_sendSegment(1) frame_upd])+
qed

end
