(* ===== verification/Transitions.thy ===== *)
theory Transitions
  imports Frames
begin

text \<open>
  The states a socket can be in and how each operation changes them, for every outcome of the operation: the diagram that the code
  implements, where RFC 793 has its own.
\<close>

section \<open>The diagram\<close>

text \<open>The states that can follow a state, but for the ends of a connection, CLOSED and LISTEN, to which every state can lead.\<close>

definition next_states :: "u8 \<Rightarrow> u8 set" where
  "next_states st =
     (if st = CLOSED then {RESOLVING, UNKNOWN_HOST, SYN_SENT}
      else if st = RESOLVING then {UNKNOWN_HOST, SYN_SENT, ESTABLISHED OR AWAITING_ACK, FIN_WAIT_1, CLOSE_WAIT}
      else if st = UNKNOWN_HOST then {RESOLVING}
      else if st = LISTEN then {SYN_RECEIVED}
      else if st = SYN_SENT then {SYN_RECEIVED, ESTABLISHED}
      else if st = SYN_RECEIVED then {ESTABLISHED, FIN_WAIT_1}
      else if st = ESTABLISHED then {ESTABLISHED OR AWAITING_ACK, FIN_WAIT_1, CLOSE_WAIT}
      else if st = ESTABLISHED OR AWAITING_ACK then {ESTABLISHED, FIN_WAIT_1, CLOSE_WAIT}
      else if st = FIN_WAIT_1 then {FIN_WAIT_2}
      else if st = CLOSE_WAIT then {LAST_ACK}
      else {})"

definition socket_states :: "u8 set" where
  "socket_states = {CLOSED, RESOLVING, UNKNOWN_HOST, LISTEN, SYN_SENT, SYN_RECEIVED, ESTABLISHED, ESTABLISHED OR AWAITING_ACK,
     FIN_WAIT_1, FIN_WAIT_2, CLOSE_WAIT, LAST_ACK}"

definition follows :: "u8 \<Rightarrow> u8 set" where
  "follows st = {st, CLOSED, LISTEN} \<union> next_states st"

text \<open>The state of socket \<open>x\<close> is one of \<open>S\<close> afterwards.\<close>

definition becomes :: "nat \<Rightarrow> u8 set \<Rightarrow> 'a tcp_scheme \<Rightarrow> 'a tcp_scheme \<Rightarrow> bool" where
  "becomes x S s s' = (length (sockets s') = length (sockets s) \<and> state (sock s' x) \<in> S)"

abbreviation stays :: "nat \<Rightarrow> 'a tcp_scheme \<Rightarrow> 'a tcp_scheme \<Rightarrow> bool" where
  "stays x s s' \<equiv> becomes x {state (sock s x)} s s'"

lemma stays_trans: "stays x s s1 \<Longrightarrow> becomes x S s1 s2 \<Longrightarrow> becomes x S s s2"
  by (simp add: becomes_def)

lemma becomes_stays: "becomes x S s s1 \<Longrightarrow> stays x s1 s2 \<Longrightarrow> becomes x S s s2"
  by (simp add: becomes_def)

lemma becomes_mono: "becomes x S s s' \<Longrightarrow> S \<subseteq> T \<Longrightarrow> becomes x T s s'"
  by (auto simp: becomes_def)

lemma stays_refl [simp, intro]: "stays x s s"
  by (simp add: becomes_def)

lemma stays_upd [intro]: "(\<And>k. state (f k) = state k) \<Longrightarrow> stays x s (upd x f s)"
  by (simp add: becomes_def)

lemma becomes_upd: "(\<And>k. state (f k) = state k) \<Longrightarrow> becomes x S (upd x f s) s' = becomes x S s s'"
  by (simp add: becomes_def)

lemma stays_sockets: "sockets s' = sockets s \<Longrightarrow> stays x s s'"
  by (simp add: becomes_def sock_def)

section \<open>Sending\<close>

lemma sendSegment_stays: "sendSegment v x c 0 sq ak s = Some (ok, s') \<Longrightarrow> stays x s s'"
  using frame_sendSegment [of v x c 0 sq ak s ok s'] frame_fields(3) [of x s s'] by (auto simp: becomes_def sent_def split: if_splits)

lemma sendSegment_data:
  "sendSegment v x c n sq ak s = Some (ok, s') \<Longrightarrow> becomes x {state (sock s x), state (sock s x) OR AWAITING_ACK} s s'"
  using frame_sendSegment [of v x c n sq ak s ok s'] frame_fields(3) [of x s s'] by (auto simp: becomes_def sent_def split: if_splits)

lemma copyTo_stays: "copyTo b1 b2 ds ss n s = Some (ok, s') \<Longrightarrow> stays x s s'"
  using tcp_transmits [OF rest_same_transmits [OF rest_same_copyTo]] sock_transmits [OF rest_same_transmits [OF rest_same_copyTo]]
  unfolding becomes_def by fastforce

lemma send_becomes:
  assumes "send v x n s = Some (ok, s')"
  shows "becomes x ({state (sock s x)} \<union> (if readyToSend (sock s x) then {state (sock s x) OR AWAITING_ACK} else {})) s s'"
proof (cases "readyToSend (sock s x)")
  case True
  let ?S = "{state (sock s x), state (sock s x) OR AWAITING_ACK}"
  have e: "becomes x {state (sock t x), state (sock t x) OR AWAITING_ACK} t t"
    "becomes x ?S s (upd x (\<lambda>k. k\<lparr>sk_attempts := 1\<rparr>) s)" for t by (simp_all add: becomes_def)
  have c: "becomes x ?S s s1" if "copyTo b1 b2 ds ss m (upd x (\<lambda>k. k\<lparr>sk_attempts := 1\<rparr>) s) = Some (ok1, s1)" for b1 b2 ds ss m ok1 s1
    using copyTo_stays [OF that] by (auto simp: becomes_def)
  have d: "becomes x ?S s s2" "becomes x ?S s (upd x (\<lambda>k. k\<lparr>stateTime := now s2\<rparr>) s2)"
    if "copyTo b1 b2 ds ss m (upd x (\<lambda>k. k\<lparr>sk_attempts := 1\<rparr>) s) = Some (ok1, s1)" "sendSegment v x cc l sq ak s1 = Some (ok2, s2)"
    for b1 b2 ds ss m ok1 s1 cc l sq ak ok2 s2
    using copyTo_stays [OF that(1), of x] sendSegment_data [OF that(2)] by (auto simp: becomes_def split: if_splits)
  have "becomes x ?S s s'"
    using assms True unfolding send_def Let_def
    by (auto simp del: sock_upd split: if_splits option.splits Option.bind_splits) (blast intro: e c d)+
  then show ?thesis using True by (simp add: insert_commute)
qed (use assms in \<open>auto simp: send_def split: if_splits\<close>)

lemma send_data_becomes:
  assumes "send_data v x data s = Some (ok, s')"
  shows "becomes x ({state (sock s x)} \<union> (if readyToSend (sock s x) then {state (sock s x) OR AWAITING_ACK} else {})) s s'"
proof -
  have w: "sock (snd (b_write b 0 data s)) x = sock s x" "length (sockets (snd (b_write b 0 data s))) = length (sockets s)" for b
    using sock_sends [OF sends_b_write] frame_fields(3) [OF frame_sends [OF sends_b_write]] by blast+
  show ?thesis
    using assms w send_becomes unfolding send_data_def
    by (auto simp: becomes_def case_prod_beta split: option.splits if_splits dest!: send_becomes)
qed

section \<open>The name of the peer\<close>

lemma more_sends: "sends s s' \<Longrightarrow> dns.more s' = dns.more s"
  using arp_transmits(4) unfolding sends_def by (cases s; cases s') fastforce

lemma sends_sendDatagram: "sends s (snd (sendDatagram dst dp sp n s))"
  unfolding sendDatagram_def Let_def
  by (subst if_split) (intro conjI impI, simp, rule sends_then, rule sends_seq_ok,
      auto simp: sends_steps sends_sendPacket simp del: seq_ok.simps)

lemma sends_write_labels: "sends s (snd (write_labels b cs off n l s))"
proof (induction cs arbitrary: off n l s)
  case (Cons c cs)
  show ?case by (auto simp: case_prod_beta sends_steps intro: sends_trans [OF sends_writes(1) Cons.IH])
qed simp

lemma sends_option:
  assumes "sends s (snd p)" and "\<And>r s1. sends s1 (snd (f r s1))"
  shows "sends s (snd (case p of (None, s1) \<Rightarrow> (b, s1) | (Some r, s1) \<Rightarrow> f r s1))"
  using assms(1) sends_trans [OF assms(1) assms(2)] by (cases p) (simp split: option.split)

lemma sends_sendDNSRequest: "sends s (snd (sendDNSRequest name rid server s))"
proof -
  have k: "sends s1 (snd (True, snd (sendDatagram d dp sp n s1)))" for d dp sp n and s1 :: "'a dns_scheme"
    by (simp add: sends_sendDatagram)
  have f: "sends s1 (snd (case r of (off, n, l) \<Rightarrow> g off n l s1))" if "\<And>off n l. sends s1 (snd (g off n l s1))"
    for r and g :: "u16 \<Rightarrow> u8 \<Rightarrow> u16 \<Rightarrow> 'a dns_scheme \<Rightarrow> bool \<times> 'a dns_scheme" and s1
    using that by (simp split: prod.split)
  note labels = sends_option [OF sends_write_labels f]
  show ?thesis
    unfolding sendDNSRequest_def Let_def
    apply (simp only: snd_conv sends_refl if_True split: if_split)
    apply (intro conjI impI TrueI)
    apply (rule sends_then)
     apply (rule sends_seq_ok, auto simp: sends_steps)[1]
    apply (rule labels)
    apply (rule sends_then)
     apply (rule sends_seq_ok, auto simp: sends_steps)[1]
    apply (rule k)
    done
qed

lemma more_resolve:
  assumes "resolve allocated name force s = Some (rip, err, s')"
  shows "dns.more s' = dns.more s"
proof -
  have u: "dns.more (upd_entry i f s) = dns.more s" for i f and s :: "'a dns_scheme" by (cases s) (simp add: upd_entry_def)
  have t: "dns.more (start_timer d s) = dns.more s" for d and s :: "'a dns_scheme"
    by (cases s) (simp add: start_timer_def registerTimer_def split: option.split)
  have r: "dns.more (snd (sendDNSRequest n i server s)) = dns.more s" for n i server and s :: "'a dns_scheme"
    by (rule more_sends [OF sends_sendDNSRequest])
  have c: "dns.more (s\<lparr>cacheSize := n\<rparr>) = dns.more s" for n and s :: "'a dns_scheme" by (cases s) simp
  have k: "dns.more (snd (snd (resolve_known i name force s))) = dns.more s" for i
    by (simp add: resolve_known_def Let_def case_prod_beta u t r)
  have n: "dns.more (snd (snd (resolve_new allocated name s))) = dns.more s"
    by (simp add: resolve_new_def Let_def case_prod_beta u t r c)
  show ?thesis using assms k n by (auto simp: resolve_def split: option.splits) (metis snd_conv)+
qed

lemma resolve_stays: "resolve allocated name force s = Some (rip, err, s') \<Longrightarrow> stays x s s'"
  by (intro stays_sockets tcp_same(1) more_resolve)

section \<open>Operations without events\<close>

lemma getPort_stays: "getPort s = (port, s') \<Longrightarrow> stays x s s'"
  by (auto simp: getPort_def intro!: stays_sockets)

text \<open>Events that leave the state of the socket alone.\<close>

locale calm_events = quiet_events v for v :: "'a tcp_scheme vtable" +
  assumes calm: "onDataReceived v x b s = Some (ok, s') \<Longrightarrow> stays x s s'"
begin

lemma setState_becomes: "setState v x st s = Some s' \<Longrightarrow> x < length (sockets s) \<Longrightarrow> becomes x {st} s s'"
  by (auto simp: setState_quiet becomes_def)

lemma closed_becomes: "closed v x s = Some s' \<Longrightarrow> x < length (sockets s) \<Longrightarrow> becomes x {CLOSED, LISTEN} s s'"
  by (auto simp: closed_quiet becomes_def)

lemma reset_stays: "reset v x seq ack s = Some (ok, s') \<Longrightarrow> stays x s s'"
  by (auto simp: reset_def quiet split: if_splits Option.bind_splits dest: sendSegment_stays)

lemma forceClose_becomes:
  assumes "forceClose v x s = Some s'" and "x < length (sockets s)"
  shows "becomes x {CLOSED, LISTEN} s s'"
proof -
  obtain s1 where "closed v x s1 = Some s'" "stays x s s1"
  proof (cases "state (sock s x) = TIME_WAIT")
    case False
    then show thesis using that assms(1) reset_stays unfolding forceClose_def by (auto split: Option.bind_splits)
  qed (use that assms(1) in \<open>simp add: forceClose_def becomes_def\<close>)
  then show ?thesis using closed_becomes [of x s1 s'] assms(2) by (simp add: becomes_def)
qed

lemma close_becomes:
  assumes "close v x s = Some (ok, s')" and "x < length (sockets s)"
  defines "st \<equiv> state (sock s x)"
  shows "becomes x ({st} \<union> (if st AND 0x0F = ESTABLISHED \<or> st = SYN_RECEIVED then {FIN_WAIT_1} else {})
    \<union> (if st = CLOSE_WAIT then {LAST_ACK} else {})) s s'"
proof (cases "localClosed (sock s x)")
  case False
  then obtain ok1 s1 where s1: "sendSegment v x (FIN OR ACK) 0 0 0 s = Some (ok1, s1)"
    using assms(1) by (auto simp: close_def split: Option.bind_splits)
  have k: "stays x s s1" by (rule sendSegment_stays [OF s1])
  have t: "setState v x st' (upd x (\<lambda>k. k\<lparr>sk_attempts := 1\<rparr>) s1) = Some s2 \<Longrightarrow> becomes x {st'} s s2" for st' s2
    using setState_becomes [of x st' "upd x (\<lambda>k. k\<lparr>sk_attempts := 1\<rparr>) s1" s2] k assms(2) by (simp add: becomes_def)
  show ?thesis
    using assms(1) False s1 k assms(2) unfolding st_def
    by (auto simp: close_def Let_def quiet becomes_def setState_quiet split: if_splits Option.bind_splits)
next
  case True
  then have "s' = s" using assms(1) by (simp add: close_def)
  then show ?thesis by (simp add: becomes_def st_def)
qed

end

section \<open>Connecting\<close>

definition connecting :: "u8 \<Rightarrow> u8 set" where
  "connecting st = {st} \<union> (if st = CLOSED then {RESOLVING, UNKNOWN_HOST, SYN_SENT}
     else if st = RESOLVING then {UNKNOWN_HOST, SYN_SENT, CLOSED, LISTEN}
     else if st = UNKNOWN_HOST then {RESOLVING} else {})"

lemma connecting_distinct:
  "CLOSED \<noteq> RESOLVING" "CLOSED \<noteq> UNKNOWN_HOST" "RESOLVING \<noteq> CLOSED" "RESOLVING \<noteq> UNKNOWN_HOST" "UNKNOWN_HOST \<noteq> CLOSED" "UNKNOWN_HOST \<noteq> RESOLVING"
  "LISTEN \<noteq> CLOSED" "LISTEN \<noteq> RESOLVING" "LISTEN \<noteq> UNKNOWN_HOST" "SYN_SENT \<noteq> CLOSED" "SYN_SENT \<noteq> RESOLVING" "SYN_SENT \<noteq> UNKNOWN_HOST"
  by (simp_all add: sock_states)

definition connects :: "('a tcp_scheme vtable \<Rightarrow> nat \<Rightarrow> 'a tcp_scheme \<Rightarrow> (bool \<times> 'a tcp_scheme) option) \<Rightarrow> 'a tcp_scheme vtable \<Rightarrow> nat \<Rightarrow> bool" where
  "connects c v x = (\<forall>s ok s'. c v x s = Some (ok, s') \<longrightarrow> x < length (sockets s) \<longrightarrow> becomes x (connecting (state (sock s x))) s s')"

context calm_events
begin

lemma resolveIP_with_becomes:
  assumes "connects c v x"
  shows "connects (resolveIP_with c) v x"
  unfolding connects_def
proof (intro allI impI)
  fix s s' :: "'a tcp_scheme" and ok
  assume r: "resolveIP_with c v x s = Some (ok, s')" and x: "x < length (sockets s)"
  let ?st = "state (sock s x)"
  show "becomes x (connecting ?st) s s'"
  proof (cases "?st \<in> {RESOLVING, CLOSED, UNKNOWN_HOST} \<and> remoteDomain (sock s x) \<noteq> None")
    case False
    then have "s' = s" using r by (auto simp: resolveIP_with_def split: if_splits option.splits)
    then show ?thesis by (simp add: becomes_def connecting_def)
  next
    case True
    then obtain name where n: "remoteDomain (sock s x) = Some name" by blast
    obtain rip err s1 where s1: "resolve (allocates v) name False s = Some (rip, err, s1)"
      using r n True by (auto simp: resolveIP_with_def split: Option.bind_splits if_splits)
    note k = resolve_stays [OF s1, of x]
    show ?thesis
    proof (cases "err = NO_ERROR \<and> rip \<noteq> None")
      case False
      then have "setState v x UNKNOWN_HOST s1 = Some s' \<or> setState v x RESOLVING s1 = Some s' \<and> err = NO_ERROR"
        using r n True s1 by (auto simp: resolveIP_with_def split: Option.bind_splits option.splits if_splits)
      then show ?thesis using True x k by (auto simp: setState_quiet becomes_def connecting_def)
    next
      case rip: True
      then obtain ip where ip: "rip = Some ip" by blast
      let ?s2 = "upd x (\<lambda>k. k\<lparr>remoteIP := ip\<rparr>) s1"
      have k2: "stays x s ?s2" using k by (simp add: becomes_def)
      show ?thesis
      proof (cases "?st = RESOLVING")
        case False
        then have "s' = ?s2" using r n True s1 rip ip k x by (auto simp: resolveIP_with_def becomes_def)
        then show ?thesis using becomes_mono [OF k2] by (simp add: connecting_def)
      next
        case R: True
        then obtain s3 where s3: "closed v x ?s2 = Some s3"
          and s': "s' = s3 \<or> (\<exists>ok. c v x (upd x (\<lambda>k. k\<lparr>connectOnResolution := False\<rparr>) s3) = Some (ok, s'))"
          using r n s1 rip ip k x by (auto simp: resolveIP_with_def becomes_def Let_def split: Option.bind_splits if_splits)
        have k3: "becomes x {CLOSED, LISTEN} s s3"
          using closed_becomes [OF s3] x k2 by (simp add: becomes_def)
        from s' show ?thesis
        proof
          assume "s' = s3"
          then show ?thesis using k3 R by (auto simp: becomes_def connecting_def connecting_distinct)
        next
          assume "\<exists>ok. c v x (upd x (\<lambda>k. k\<lparr>connectOnResolution := False\<rparr>) s3) = Some (ok, s')"
          then obtain ok' where "c v x (upd x (\<lambda>k. k\<lparr>connectOnResolution := False\<rparr>) s3) = Some (ok', s')" ..
          with assms have "becomes x (connecting (state (sock s3 x))) s3 s'"
            using x k3 unfolding connects_def by (fastforce simp: becomes_def)
          then show ?thesis using k3 R by (auto simp: becomes_def connecting_def connecting_distinct)
        qed
      qed
    qed
  qed
qed

lemma connect_with_becomes:
  assumes "connects r v x"
  shows "connects (connect_with r) v x"
  unfolding connects_def
proof (intro allI impI)
  fix s s' :: "'a tcp_scheme" and ok
  assume c: "connect_with r v x s = Some (ok, s')" and x: "x < length (sockets s)"
  obtain ok1 s1 where s1: "r v x s = Some (ok1, s1)" using c by (auto simp: connect_with_def split: Option.bind_splits)
  then have k: "becomes x (connecting (state (sock s x))) s s1" using assms x by (auto simp: connects_def)
  show "becomes x (connecting (state (sock s x))) s s'"
  proof (cases "ok1 \<and> state (sock s1 x) = CLOSED \<and> sk_tcp (sock s1 x)")
    case False
    then have "s' = s1 \<or> s' = upd x (\<lambda>k. k\<lparr>connectOnResolution := True\<rparr>) s1"
      using c s1 by (auto simp: connect_with_def split: if_splits)
    then show ?thesis using k by (auto simp: becomes_def)
  next
    case True
    obtain port s2 where p: "getPort s1 = (port, s2)" by fastforce
    note k2 = getPort_stays [OF p, of x]
    obtain ok3 s3 where s3: "sendSegment v x SYN 0 0 0 (upd x (\<lambda>k. k\<lparr>localPort := port\<rparr>) s2) = Some (ok3, s3)"
      and s': "s' = s3 \<or> setState v x SYN_SENT (upd x (\<lambda>k. k\<lparr>sk_attempts := 1\<rparr>) s3) = Some s'"
      using c s1 True p by (auto simp: connect_with_def connecting_distinct split: Option.bind_splits if_splits)
    have k3: "becomes x {CLOSED} s s3"
      using sendSegment_stays [OF s3] k2 k True by (simp add: becomes_def)
    have "becomes x {CLOSED, SYN_SENT} s s'" using s' k3 x by (auto simp: becomes_def setState_quiet)
    moreover have "CLOSED \<in> connecting (state (sock s x))" using k True by (simp add: becomes_def)
    then have "{CLOSED, SYN_SENT} \<subseteq> connecting (state (sock s x))" by (auto simp: connecting_def connecting_distinct split: if_splits)
    ultimately show ?thesis by (rule becomes_mono)
  qed
qed

lemma connect_becomes: "connects (connect_depth n) v x" "connects resolveIP v x"
proof -
  show c: "connects (connect_depth n) v x" for n
  proof (induction n)
    case (Suc n)
    have "connects (connect_with (resolveIP_with (connect_depth n))) v x" by (intro connect_with_becomes resolveIP_with_becomes Suc)
    then show ?case by (simp add: connects_def)
  qed (simp add: connects_def)
  show "connects resolveIP v x" unfolding resolveIP_def connect_def by (intro resolveIP_with_becomes c)
qed

section \<open>The timer\<close>

lemma repeat_stays: "repeat_segment v x c s = Some s' \<Longrightarrow> stays x s s'"
  by (auto simp: repeat_segment_def becomes_def dest!: sendSegment_stays)

lemma give_up_becomes:
  assumes "or_give_up v x f s = Some s'" and "x < length (sockets s)"
    and "\<And>t. stays x s t \<Longrightarrow> f t = Some s' \<Longrightarrow> becomes x ({state (sock s x)} \<union> {CLOSED, LISTEN}) s s'"
  shows "becomes x ({state (sock s x)} \<union> {CLOSED, LISTEN}) s s'"
proof -
  let ?t = "upd x (\<lambda>k. k\<lparr>sk_attempts := sk_attempts k + 1\<rparr>) s"
  have k: "stays x s ?t" by (simp add: becomes_def)
  show ?thesis
  proof (cases "sk_attempts (sock s x) > 10")
    case True
    then show ?thesis using assms(1,2) forceClose_becomes [of x ?t s'] k by (auto simp: or_give_up_def Let_def becomes_def)
  next
    case False
    then show ?thesis using assms(1) assms(3) [OF k] by (simp add: or_give_up_def Let_def)
  qed
qed

lemma control_becomes:
  assumes "checkState_control v x elapsed s = Some s'" and "x < length (sockets s)"
  shows "becomes x ({state (sock s x)} \<union> {CLOSED, LISTEN}) s s'"
proof -
  have r: "becomes x ({state (sock s x)} \<union> {CLOSED, LISTEN}) s s'" if "or_give_up v x (repeat_segment v x c) s = Some s'" for c
    by (rule give_up_becomes [OF that assms(2)]) (auto simp: becomes_def dest!: repeat_stays)
  show ?thesis
    using assms closed_becomes [of x s s'] r unfolding checkState_control_def
    by (auto simp: becomes_def split: if_splits)
qed

lemma resendData_stays:
  assumes "resendData v x s = Some (ok, s')" and "state (sock s x) = ESTABLISHED OR AWAITING_ACK"
  shows "stays x s s'"
proof -
  let ?t = "upd x (\<lambda>k. k\<lparr>localSeq := localSeq k - ucast (lastDataLength k)\<rparr>) s"
  have k: "stays x s ?t" by (simp add: becomes_def)
  have c: "stays x s s1" if "copyFrom b1 b2 ds ss n ?t = Some (ok1, s1)" for b1 b2 ds ss n ok1 s1
    using copyTo_stays [of b2 b1 ds ss n ?t ok1 s1 x] that k by (simp add: copyFrom_def becomes_def)
  have d: "stays x s s2" if "copyFrom b1 b2 ds ss n ?t = Some (ok1, s1)" "sendSegment v x cc l sq ak s1 = Some (ok2, s2)"
    for b1 b2 ds ss n ok1 s1 cc l sq ak ok2 s2
    using sendSegment_data [OF that(2)] c [OF that(1)] assms(2) by (auto simp: becomes_def or.assoc)
  show ?thesis
    using assms(1) k unfolding resendData_def Let_def
    by (auto simp del: sock_upd split: option.splits Option.bind_splits if_splits) (blast intro: c d)+
qed

lemma resend_becomes:
  assumes "checkState_resend v x elapsed s = Some s'" and x: "x < length (sockets s)"
  shows "becomes x ({state (sock s x)} \<union> {CLOSED, LISTEN} \<union> connecting (state (sock s x))) s s'"
proof -
  let ?st = "state (sock s x)"
  consider "?st = ESTABLISHED \<or> ?st \<noteq> RESOLVING \<and> elapsed < ACK_WAIT_DURATION" | "?st = RESOLVING"
    | "?st \<noteq> ESTABLISHED" "?st \<noteq> RESOLVING" "\<not> elapsed < ACK_WAIT_DURATION" by blast
  then show ?thesis
  proof cases
    case 1
    then have "s' = s" using assms(1) by (auto simp: checkState_resend_def connecting_distinct split: if_splits)
    then show ?thesis by (simp add: becomes_def)
  next
    case 2
    then obtain ok where "resolveIP v x s = Some (ok, s')" using assms(1) by (auto simp: checkState_resend_def sock_states)
    then show ?thesis using connect_becomes(2) [of x] x unfolding connects_def by (blast intro: becomes_mono)
  next
    case 3
    have "becomes x ({?st} \<union> {CLOSED, LISTEN}) s s'"
    proof (cases "?st = ESTABLISHED OR AWAITING_ACK")
      case False
      then show ?thesis using 3 assms control_becomes by (simp add: checkState_resend_def)
    next
      case True
      show ?thesis
      proof (rule give_up_becomes [OF _ x])
        show "or_give_up v x (\<lambda>s. do { (ok, s) \<leftarrow> resendData v x s; s \<leftarrow> (if \<not> ok then forceClose v x s else Some s);
            checkState_control v x elapsed s }) s = Some s'"
          using 3 True assms(1) by (simp add: checkState_resend_def)
      next
        fix t
        assume t: "stays x s t" and r: "(do { (ok, s) \<leftarrow> resendData v x t; s \<leftarrow> (if \<not> ok then forceClose v x s else Some s);
            checkState_control v x elapsed s }) = Some s'"
        then obtain ok s1 s2 where s1: "resendData v x t = Some (ok, s1)"
          and s2: "(if \<not> ok then forceClose v x s1 else Some s1) = Some s2" "checkState_control v x elapsed s2 = Some s'"
          by (auto split: Option.bind_splits)
        have "stays x s s1" using resendData_stays [OF s1] t True by (simp add: becomes_def)
        then have "becomes x ({?st} \<union> {CLOSED, LISTEN}) s s2"
          using s2(1) forceClose_becomes [of x s1 s2] x by (auto simp: becomes_def split: if_splits)
        then show "becomes x ({?st} \<union> {CLOSED, LISTEN}) s s'"
          using control_becomes [OF s2(2)] x by (auto simp: becomes_def)
      qed
    qed
    then show ?thesis by (rule becomes_mono) blast
  qed
qed

lemma connecting_follows: "{st} \<union> {CLOSED, LISTEN} \<union> connecting st \<subseteq> follows st"
  by (auto simp: connecting_def follows_def next_states_def connecting_distinct)

lemma closing_follows:
  assumes "st \<in> socket_states"
  shows "{st} \<union> (if st AND 0x0F = ESTABLISHED \<or> st = SYN_RECEIVED then {FIN_WAIT_1} else {}) \<union> (if st = CLOSE_WAIT then {LAST_ACK} else {})
    \<subseteq> follows st"
  using assms unfolding socket_states_def by (elim insertE emptyE; simp add: follows_def next_states_def sock_states)

lemma checkState_becomes:
  assumes "checkState v x s = Some s'" and x: "x < length (sockets s)" and "state (sock s x) \<in> socket_states"
  shows "becomes x (follows (state (sock s x))) s s'"
proof -
  consider "s' = s" | "checkState_resend v x (now s - stateTime (sock s x)) s = Some s'" | ok where "close v x s = Some (ok, s')"
    | s1 where "forceClose v x s = Some s1" "checkState_resend v x (now s - stateTime (sock s x)) s1 = Some s'"
  proof (cases "state (sock s x) = CLOSED \<or> state (sock s x) = LISTEN")
    case True
    then show thesis using assms(1) that(1) by (auto simp: checkState_def connecting_distinct split: if_splits)
  next
    case F: False
    let ?e = "now s - stateTime (sock s x)"
    show thesis
    proof (cases "timeout (sock s x) > 0 \<and> ?e > timeout (sock s x)")
      case False
      then show thesis using assms(1) F that(2) by (simp only: checkState_def Let_def if_False if_True de_Morgan_disj simp_thms)
    next
      case T: True
      have c: "checkState v x s = (if \<not> localClosed (sock s x) then map_option snd (close v x s)
          else forceClose v x s \<bind> checkState_resend v x ?e)"
        using F T by (simp only: checkState_def Let_def if_False if_True de_Morgan_disj simp_thms)
      show thesis
      proof (cases "localClosed (sock s x)")
        case True
        then show thesis using assms(1) that(4) unfolding c by (auto split: Option.bind_splits)
      next
        case False
        then show thesis using assms(1) that(3) unfolding c by auto
      qed
    qed
  qed
  then show ?thesis
  proof cases
    case 1
    then show ?thesis by (simp add: becomes_def follows_def)
  next
    case 2
    show ?thesis by (rule becomes_mono [OF resend_becomes [OF 2 x] connecting_follows])
  next
    case 3
    show ?thesis by (rule becomes_mono [OF close_becomes [OF 3 x] closing_follows [OF assms(3)]])
  next
    case 4
    have k: "becomes x {CLOSED, LISTEN} s s1" by (rule forceClose_becomes [OF 4(1) x])
    then have "state (sock s1 x) = CLOSED \<or> state (sock s1 x) = LISTEN" by (simp add: becomes_def)
    then have "checkState_resend v x e s1 = Some s1" for e
      by (elim disjE) (simp_all add: checkState_resend_def checkState_control_def sock_states)
    then show ?thesis using 4(2) k by (auto simp: becomes_def follows_def)
  qed
qed

section \<open>Segments\<close>

lemma intake_stays:
  assumes "segment_intake x src buf s = Some (r, s')"
  shows "stays x s s'"
proof -
  define s1 where "s1 = upd x (\<lambda>k. k\<lparr>recvBuffer := Some (OffsetBuffer_new buf (b_size buf) 0)\<rparr>) s"
  define s2 where "s2 w = upd x (\<lambda>k. k\<lparr>remoteWindow := w\<rparr>) s1" for w
  define s3 where "s3 w c = (if state (sock (s2 w) x) = LISTEN \<and> c = SYN then upd x (\<lambda>k. k\<lparr>remoteIP := src\<rparr>) (s2 w) else s2 w)" for w c
  have k: "stays x s s1" "stays x s (s3 w c)" for w c by (simp_all add: becomes_def s1_def s2_def s3_def)
  define p where "p = do { opt \<leftarrow> read8 (b_read s1 buf) 13; ack \<leftarrow> readNet32 (b_read s1 buf) 8; seq \<leftarrow> readNet32 (b_read s1 buf) 4;
    wnd \<leftarrow> readNet16 (b_read s1 buf) 14; Some (opt, ack, seq, wnd) }"
  have "s' = s1 \<or> (\<exists>w c. s' = s3 w c)"
    using assms
    unfolding segment_intake_def Let_def s1_def [symmetric] p_def [symmetric] s2_def [symmetric] s3_def [symmetric]
    by (auto split: option.split_asm prod.split_asm if_split_asm)
  then show ?thesis using k by auto
qed

lemma rst_becomes:
  assumes "segment_rst v x ack seq s = Some s'" and "x < length (sockets s)"
  shows "becomes x ({state (sock s x)} \<union> {CLOSED, LISTEN}) s s'"
  using assms closed_becomes [of x s s'] unfolding segment_rst_def by (auto simp: quiet becomes_def split: if_splits Option.bind_splits)

lemma segment_reset_stays: "segment_reset v x opt ack seq buf s = Some s' \<Longrightarrow> stays x s s'"
  by (auto simp: segment_reset_def dest: reset_stays split: if_splits)

lemma accept_becomes:
  assumes "segment_accept v x seq buf s = Some s'" and "x < length (sockets s)"
  shows "becomes x {state (sock s x), SYN_RECEIVED} s s'"
  using assms unfolding segment_accept_def Let_def
  by (auto simp: becomes_def setState_quiet split: option.splits Option.bind_splits if_splits dest!: sendSegment_stays)

lemma syn_sent_becomes:
  assumes "segment_syn_sent v x acked seq buf s = Some s'" and "x < length (sockets s)"
  shows "becomes x {state (sock s x), ESTABLISHED, SYN_RECEIVED} s s'"
  using assms unfolding segment_syn_sent_def Let_def
  by (auto simp: becomes_def setState_quiet split: option.splits Option.bind_splits if_splits dest!: sendSegment_stays)

lemma data_stays:
  assumes "segment_data v x opt seq h n buf s = Some s'"
  shows "stays x s s'"
proof -
  define s1 where "s1 = (if opt AND FIN = FIN then upd x (\<lambda>k. k\<lparr>remoteSeq := remoteSeq k + 1\<rparr>) (upd x (\<lambda>k. k\<lparr>recvBuffer := Some (OffsetBuffer_new buf h 0)\<rparr>) s)
    else upd x (\<lambda>k. k\<lparr>recvBuffer := Some (OffsetBuffer_new buf h 0)\<rparr>) s)"
  have k: "stays x s s1" by (simp add: s1_def becomes_def)
  have d: "stays x s s2" if "onDataReceived v x b s1 = Some (ok, s2)" for b ok s2
    using calm [OF that] k by (simp add: becomes_def)
  show ?thesis
    using assms k unfolding segment_data_def Let_def s1_def [symmetric]
    by (auto simp: becomes_def split: if_splits Option.bind_splits dest!: sendSegment_stays d)
qed

lemma fin_becomes:
  assumes "segment_fin v x opt ack n s = Some s'" and "x < length (sockets s)" and "state (sock s x) AND 0x0F = ESTABLISHED"
  shows "becomes x {CLOSE_WAIT} s s'"
proof -
  have d: "state (sock s x) \<noteq> FIN_WAIT_1" "state (sock s x) \<noteq> FIN_WAIT_2" using assms(3) by (auto simp: sock_states)
  obtain s1 where k: "stays x s s1" and s1: "(if state (sock s1 x) = FIN_WAIT_1
           then if opt AND ACK = ACK \<and> ack = localSeq (sock s1 x) then setState v x TIME_WAIT s1
                else setState v x CLOSING s1
           else if state (sock s1 x) = FIN_WAIT_2 then setState v x TIME_WAIT s1
           else if state (sock s1 x) AND 0x0F = ESTABLISHED then setState v x CLOSE_WAIT s1
           else Some s1) = Some s'"
    using assms(1) unfolding segment_fin_def quiet
    by (auto simp: becomes_def split: Option.bind_splits if_split_asm dest!: sendSegment_stays)
  then show ?thesis using assms d by (auto simp: becomes_def setState_quiet)
qed

lemma established_becomes:
  assumes "segment_established v x opt ack seq buf s = Some s'" and x: "x < length (sockets s)"
    and "state (sock s x) \<in> {ESTABLISHED, ESTABLISHED OR AWAITING_ACK, RESOLVING}"
  shows "becomes x (follows (state (sock s x))) s s'"
proof -
  let ?st = "state (sock s x)"
  have low: "?st AND 0x0F = ESTABLISHED" and F: "CLOSE_WAIT \<in> follows ?st" "?st \<in> follows ?st"
    using assms(3) by (auto simp: follows_def next_states_def sock_states)
  define cl where "cl = (ack = localSeq (sock s x) \<and> ?st AND AWAITING_ACK = AWAITING_ACK)"
  have "stays x s s' \<or> (\<exists>h n s1 s2. (if n > 0 then segment_data v x opt seq h n buf s else Some s) = Some s1
      \<and> (if opt AND FIN = FIN then segment_fin v x opt ack n s1 else Some s1) = Some s2
      \<and> (if cl then onReadyToSend v x (upd x (\<lambda>k. k\<lparr>state := state k AND 0x0F\<rparr>) s2) else Some s2) = Some s')"
    using assms(1) unfolding segment_established_def Let_def cl_def [symmetric]
    by (auto split: if_split_asm option.splits Option.bind_splits dest!: sendSegment_stays)
  then show ?thesis
  proof (elim disjE exE conjE)
    assume "stays x s s'"
    then show ?thesis using F(2) by (simp add: becomes_def)
  next
    fix h n s1 s2
    assume s1: "(if n > 0 then segment_data v x opt seq h n buf s else Some s) = Some s1"
      and s2: "(if opt AND FIN = FIN then segment_fin v x opt ack n s1 else Some s1) = Some s2"
      and s': "(if cl then onReadyToSend v x (upd x (\<lambda>k. k\<lparr>state := state k AND 0x0F\<rparr>) s2) else Some s2) = Some s'"
    have k1: "stays x s s1" using s1 by (auto split: if_splits dest: data_stays)
    have k2: "becomes x {?st, CLOSE_WAIT} s s2"
      using s2 k1 fin_becomes [of x opt ack n s1 s2] x low by (auto simp: becomes_def split: if_splits)
    show ?thesis
    proof (cases cl)
      case False
      then show ?thesis using s' k2 F by (auto simp: becomes_def)
    next
      case True
      then have "?st = ESTABLISHED OR AWAITING_ACK" using assms(3) by (auto simp: cl_def sock_states)
      then have "ESTABLISHED \<in> follows ?st" "?st AND 0x0F = ESTABLISHED" "CLOSE_WAIT AND 0x0F = CLOSE_WAIT"
        by (simp_all add: follows_def next_states_def sock_states)
      then show ?thesis using s' True k2 F x by (auto simp: becomes_def quiet)
    qed
  qed
qed

lemma acked_becomes:
  assumes "segment_acked v x s = Some s'" and "x < length (sockets s)" and "state (sock s x) \<in> socket_states"
  shows "becomes x (follows (state (sock s x))) s s'"
proof -
  have "state (sock s x) \<noteq> CLOSING" using assms(3) by (auto simp: socket_states_def sock_states)
  moreover have "ESTABLISHED \<in> follows SYN_RECEIVED" "FIN_WAIT_2 \<in> follows FIN_WAIT_1" "{CLOSED, LISTEN} \<subseteq> follows LAST_ACK"
    "state (sock s x) \<in> follows (state (sock s x))"
    by (simp_all add: follows_def next_states_def sock_states)
  ultimately show ?thesis
    using assms closed_becomes [of x s s'] unfolding segment_acked_def
    by (auto simp: becomes_def setState_quiet split: if_splits)
qed

text \<open>
  What \<^verbatim>\<open>handleSegment\<close> can do behind the checksum. A socket in a state of the diagram is in none of those that only \<^verbatim>\<open>segment_fin\<close> or
  \<^verbatim>\<open>segment_acked\<close> would lead to.
\<close>

lemma process_becomes:
  assumes "segment_process v x opt ack seq buf s = Some s'" and x: "x < length (sockets s)" and st: "state (sock s x) \<in> socket_states"
  shows "becomes x (follows (state (sock s x))) s s'"
proof -
  let ?st = "state (sock s x)"
  have e: "?st AND 0x0F = ESTABLISHED \<Longrightarrow> ?st \<in> {ESTABLISHED, ESTABLISHED OR AWAITING_ACK, RESOLVING}"
    using st unfolding socket_states_def by (elim insertE emptyE; simp add: sock_states)
  have f: "{?st} \<union> {CLOSED, LISTEN} \<subseteq> follows ?st" "{?st} \<subseteq> follows ?st" "{CLOSED, LISTEN} \<subseteq> follows ?st" by (auto simp: follows_def)
  have l: "{LISTEN, SYN_RECEIVED} \<subseteq> follows LISTEN" "{SYN_SENT, ESTABLISHED, SYN_RECEIVED} \<subseteq> follows SYN_SENT"
    by (auto simp: follows_def next_states_def sock_states)
  consider "stays x s s'" | "segment_rst v x ack seq s = Some s'" | "?st = LISTEN" "segment_accept v x seq buf s = Some s'"
    | acked where "?st = SYN_SENT" "segment_syn_sent v x acked seq buf s = Some s'"
    | "?st AND 0x0F = ESTABLISHED" "segment_established v x opt ack seq buf s = Some s'"
    | "segment_acked v x s = Some s'" | "forceClose v x s = Some s'"
    using assms(1) unfolding segment_process_def Let_def
    by (auto split: if_split_asm dest: reset_stays sendSegment_stays segment_reset_stays)
  then show ?thesis
  proof cases
    case 1
    then show ?thesis by (rule becomes_mono) (rule f(2))
  next
    case 2
    show ?thesis by (rule becomes_mono [OF rst_becomes [OF 2 x] f(1)])
  next
    case 3
    show ?thesis using becomes_mono [OF accept_becomes [OF 3(2) x]] l(1) 3(1) by simp
  next
    case 4
    show ?thesis using becomes_mono [OF syn_sent_becomes [OF 4(2) x]] l(2) 4(1) by simp
  next
    case 5
    show ?thesis by (rule established_becomes [OF 5(2) x e [OF 5(1)]])
  next
    case 6
    show ?thesis by (rule acked_becomes [OF 6 x st])
  next
    case 7
    show ?thesis by (rule becomes_mono [OF forceClose_becomes [OF 7 x] f(3)])
  qed
qed

lemma segment_becomes:
  assumes "handleSegment v x src buf s = Some s'" and x: "x < length (sockets s)" and st: "state (sock s x) \<in> socket_states"
  shows "becomes x (follows (state (sock s x))) s s'"
proof -
  obtain r s1 where s1: "segment_intake x src buf s = Some (r, s1)"
    and s': "(case r of None \<Rightarrow> Some s1 | Some (opt, ack, seq) \<Rightarrow> segment_process v x opt ack seq buf s1) = Some s'"
    using assms(1) by (auto simp: handleSegment_def split: Option.bind_splits)
  note k = intake_stays [OF s1]
  show ?thesis
  proof (cases r)
    case None
    then show ?thesis using s' k by (simp add: becomes_def follows_def)
  next
    case (Some p)
    then obtain opt ack seq where "segment_process v x opt ack seq buf s1 = Some s'" using s' by (cases p) auto
    from process_becomes [OF this] have "becomes x (follows (state (sock s1 x))) s1 s'"
      using x st k by (simp add: becomes_def)
    then show ?thesis using k by (simp add: becomes_def)
  qed
qed

end

section \<open>Steps\<close>

text \<open>
  What can happen to the socket \<open>x\<close>: the calls of its API, its registration, a segment for it, the timer, and whatever leaves it alone.
\<close>

inductive socket_step :: "'a tcp_scheme vtable \<Rightarrow> nat \<Rightarrow> 'a tcp_scheme \<Rightarrow> 'a tcp_scheme \<Rightarrow> bool" for v x where
  connect: "connect v x s = Some (ok, s') \<Longrightarrow> socket_step v x s s'"
| send: "send v x n s = Some (ok, s') \<Longrightarrow> socket_step v x s s'"
| send_data: "send_data v x data s = Some (ok, s') \<Longrightarrow> socket_step v x s s'"
| close: "close v x s = Some (ok, s') \<Longrightarrow> socket_step v x s s'"
| forceClose: "forceClose v x s = Some s' \<Longrightarrow> socket_step v x s s'"
| registered: "closed v x s = Some s' \<Longrightarrow> socket_step v x s s'"
| segment: "handleSegment v x src buf s = Some s' \<Longrightarrow> socket_step v x s s'"
| timer: "checkState v x s = Some s' \<Longrightarrow> socket_step v x s s'"
| elsewhere: "stays x s s' \<Longrightarrow> socket_step v x s s'"

lemma follows_states: "st \<in> socket_states \<Longrightarrow> follows st \<subseteq> socket_states"
  unfolding socket_states_def by (elim insertE emptyE; simp add: follows_def next_states_def sock_states)

context calm_events
begin

lemma step_becomes:
  assumes "socket_step v x s s'" and x: "x < length (sockets s)" and st: "state (sock s x) \<in> socket_states"
  shows "becomes x (follows (state (sock s x))) s s'"
  using assms(1)
proof cases
  case (connect ok)
  have "becomes x (connecting (state (sock s x))) s s'"
    using connect connect_becomes(1) [of 2 x] x by (simp add: connect_def connects_def)
  then show ?thesis by (rule becomes_mono) (use connecting_follows in blast)
next
  case (send n ok)
  have "readyToSend (sock s x) \<Longrightarrow> {state (sock s x), state (sock s x) OR AWAITING_ACK} \<subseteq> follows (state (sock s x))"
    using st unfolding socket_states_def by (elim insertE emptyE; simp add: readyToSend_def follows_def next_states_def sock_states)
  then show ?thesis by (intro becomes_mono [OF send_becomes [OF send]]) (auto simp: follows_def)
next
  case (send_data data ok)
  have "readyToSend (sock s x) \<Longrightarrow> {state (sock s x), state (sock s x) OR AWAITING_ACK} \<subseteq> follows (state (sock s x))"
    using st unfolding socket_states_def by (elim insertE emptyE; simp add: readyToSend_def follows_def next_states_def sock_states)
  then show ?thesis by (intro becomes_mono [OF send_data_becomes [OF send_data]]) (auto simp: follows_def)
next
  case (close ok)
  show ?thesis by (rule becomes_mono [OF close_becomes [OF close x] closing_follows [OF st]])
next
  case forceClose
  show ?thesis by (rule becomes_mono [OF forceClose_becomes [OF forceClose x]]) (simp add: follows_def)
next
  case registered
  show ?thesis by (rule becomes_mono [OF closed_becomes [OF registered x]]) (simp add: follows_def)
next
  case (segment src buf)
  show ?thesis by (rule segment_becomes [OF segment x st])
next
  case timer
  show ?thesis by (rule checkState_becomes [OF timer x st])
next
  case elsewhere
  then show ?thesis by (rule becomes_mono) (simp add: follows_def)
qed

lemma run_becomes:
  assumes "(socket_step v x)\<^sup>*\<^sup>* s0 s" and "x < length (sockets s0)" and "state (sock s0 x) \<in> socket_states"
  shows "x < length (sockets s) \<and> state (sock s x) \<in> socket_states"
  using assms(1)
proof (induction rule: rtranclp_induct)
  case (step s1 s2)
  then show ?case using step_becomes [of x s1 s2] follows_states [of "state (sock s1 x)"] by (auto simp: becomes_def)
qed (use assms(2,3) in simp)

end

interpretation calm_buffered: calm_events "BufferedSocket_vtable allocs"
proof unfold_locales
  fix s s' :: "'a buffered_scheme" and x b ok
  assume "onDataReceived (BufferedSocket_vtable allocs) x b s = Some (ok, s')"
  then have "sockets s' = sockets s"
    by (auto simp: BufferedSocket_vtable_def Socket_vtable_def BufferedSocket_onDataReceived_def Let_def bupd_def mem_store_def
        split: if_splits option.splits)
  then show "stays x s s'" by (rule stays_sockets)
qed

section \<open>Properties\<close>

text \<open>
  C6: The states of a connection. Starting from a closed or listening socket, whatever calls, segments and timer events follow and
  however they fail, the state is always one of the twelve of the diagram, and every step from it goes where the diagram allows. In
  particular the states CLOSING and TIME_WAIT that the code tests for are never entered, and FIN_WAIT_2 is left only by a reset, a timeout or
  \<^verbatim>\<open>forceClose\<close>, when the events of the application do not change the state themselves.
\<close>

theorem socket_states_follow_diagram:
  assumes "calm_events v" and "(socket_step v x)\<^sup>*\<^sup>* s0 s" and "x < length (sockets s0)" and "state (sock s0 x) \<in> {CLOSED, LISTEN}"
  shows "state (sock s x) \<in> socket_states \<and> CLOSING \<notin> socket_states \<and> TIME_WAIT \<notin> socket_states
    \<and> (\<forall>s'. socket_step v x s s' \<longrightarrow> state (sock s' x) \<in> {state (sock s x), CLOSED, LISTEN} \<union> next_states (state (sock s x)))
    \<and> next_states FIN_WAIT_2 = {}"
proof -
  have "state (sock s0 x) \<in> socket_states" using assms(4) by (auto simp: socket_states_def)
  note r = calm_events.run_becomes [OF assms(1-3) this]
  then have "state (sock s' x) \<in> follows (state (sock s x))" if "socket_step v x s s'" for s'
    using calm_events.step_becomes [OF assms(1) that] by (simp add: becomes_def)
  moreover have "CLOSING \<notin> socket_states" "TIME_WAIT \<notin> socket_states" "next_states FIN_WAIT_2 = {}"
    by (simp_all add: socket_states_def next_states_def sock_states)
  ultimately show ?thesis using r unfolding follows_def by blast
qed

lemma demo_calm: "calm_events demo_v"
proof -
  have "quiet_events demo_v" unfolding demo_v_def by (rule socket_events.quiet_events_axioms)
  then show ?thesis
    by (rule calm_events.intro) (auto simp: calm_events_axioms_def demo_v_def Socket_vtable_def)
qed

theorem socket_states_follow_diagram_witness:
  "\<exists>s. connect demo_v 0 demo_client = Some (True, s) \<and> state (sock s 0) = SYN_SENT
    \<and> (\<forall>s'. socket_step demo_v 0 s s' \<longrightarrow> state (sock s' 0) \<in> {SYN_SENT, CLOSED, LISTEN, SYN_RECEIVED, ESTABLISHED})"
proof -
  have k: "remoteDomain (sock demo_client 0) = None" "state (sock demo_client 0) = CLOSED" "length (sockets demo_client) = 1"
    by (simp_all add: demo_client_def demo_tcp_fields Socket_new_ip_def Socket_init_def demo_socket_def)
  have q: "quiet_events demo_v" using demo_calm by (simp add: calm_events_def)
  obtain s fs where c: "connect demo_v 0 demo_client = Some (True, s)" and t: "transmits fs
      (upd 0 (\<lambda>k. k\<lparr>localSeq := localSeq k + 1, sk_attempts := 1, state := SYN_SENT, stateTime := now demo_client\<rparr>)
        (upd 0 (\<lambda>k. k\<lparr>localPort := nextPort demo_client\<rparr>) (demo_client\<lparr>nextPort := nextPort demo_client + 1\<rparr>))) s"
    using quiet_events.connect_ok [OF q demo_tcp_hosts(1) k(1,2)] by blast
  have s: "state (sock s 0) = SYN_SENT" "SYN_SENT \<noteq> CLOSED" using k(3) by (simp_all add: sock_transmits [OF t] sock_states)
  have r: "(socket_step demo_v 0)\<^sup>*\<^sup>* demo_client s" using socket_step.connect [OF c] by blast
  have "next_states SYN_SENT = {SYN_RECEIVED, ESTABLISHED}" by (simp add: next_states_def sock_states)
  then have "\<forall>s'. socket_step demo_v 0 s s' \<longrightarrow> state (sock s' 0) \<in> {SYN_SENT, CLOSED, LISTEN, SYN_RECEIVED, ESTABLISHED}"
    using socket_states_follow_diagram [OF demo_calm r] k(2,3) s(1) by auto
  then show ?thesis using c s(1) by blast
qed

text \<open>
  C10: A half-closed connection never ends. A socket that has closed its side and got that acknowledged (FIN_WAIT_2) ignores the FIN of the
  peer: nothing is sent, the state and the sequence number stay, so that the peer waits for an acknowledgement that never comes; and the
  timer does not end the connection either, unless the application has set a timeout.
\<close>

theorem fin_wait_2_ignores_fin:
  assumes "b_ok s q" and "ip_ok s" and "x < length (sockets s)" and "sk_tcp (sock s x)" and "state (sock s x) = FIN_WAIT_2"
    and "length (remoteIP (sock s x)) = 4" and "timeout (sock s x) = 0"
    and "b_bytes s q = tcp_segment (remoteIP (sock s x)) (ip_ipAddress s)
      (tcp_prefix sp dp (remoteSeq (sock s x)) (localSeq (sock s x)) off (FIN OR ACK) wnd) data"
  shows "\<exists>s'. handleSegment v x (remoteIP (sock s x)) q s = Some s' \<and> wire s' = wire s \<and> state (sock s' x) = FIN_WAIT_2
    \<and> remoteSeq (sock s' x) = remoteSeq (sock s x) \<and> (\<forall>t. checkState v x (s'\<lparr>now := t\<rparr>) = Some (s'\<lparr>now := t\<rparr>))"
proof -
  let ?s = "upd x (\<lambda>k. k\<lparr>recvBuffer := Some (OffsetBuffer_new q (b_size q) 0), remoteWindow := wnd, remoteIP := remoteIP (sock s x)\<rparr>) s"
  have "handleSegment v x (remoteIP (sock s x)) q s
      = segment_process v x (FIN OR ACK) (localSeq (sock s x)) (remoteSeq (sock s x)) q ?s"
    using assms(6) by (intro handleSegment_valid [OF assms(1,8,3,4,2)]) simp_all
  also have "\<dots> = Some ?s"
    using assms(3,5) by (simp add: segment_process_def Let_def segment_acked_def sock_states seg_flags)
  finally have h: "handleSegment v x (remoteIP (sock s x)) q s = Some ?s" .
  have k: "sock (?s\<lparr>now := t\<rparr>) x = sock ?s x" for t by (simp add: sock_def)
  have "checkState v x (?s\<lparr>now := t\<rparr>) = Some (?s\<lparr>now := t\<rparr>)" for t
    unfolding checkState_def checkState_resend_def checkState_control_def Let_def k using assms(3,5,7) by (simp add: sock_states)
  then show ?thesis using h assms(3,5) by (intro exI [of _ ?s]) simp
qed

text \<open>The client, half closed, has received a FIN.\<close>

definition demo_fin :: "u8 list" where
  "demo_fin = tcp_segment [10, 0, 0, 2] [10, 0, 0, 1] (tcp_prefix 80 49152 0 41 0x50 (FIN OR ACK) 1000) []"

definition demo_half_closed :: tcp where
  "demo_half_closed = snd (b_write (MemBuffer 0x600 20) 0 demo_fin (upd 0 (\<lambda>k. k\<lparr>state := FIN_WAIT_2\<rparr>) demo_client))"

lemma demo_half_closed:
  shows "b_ok demo_half_closed (MemBuffer 0x600 20)" and "b_bytes demo_half_closed (MemBuffer 0x600 20) = demo_fin"
    and "rest_same (upd 0 (\<lambda>k. k\<lparr>state := FIN_WAIT_2\<rparr>) demo_client) demo_half_closed"
proof -
  let ?t = "upd 0 (\<lambda>k. k\<lparr>state := FIN_WAIT_2\<rparr>) demo_client"
  have w: "b_wok ?t (MemBuffer 0x600 20)" by (rule Mem_wok)
  show rs: "rest_same ?t demo_half_closed" unfolding demo_half_closed_def by (rule rest_same_b_write)
  then show "b_ok demo_half_closed (MemBuffer 0x600 20)" using buf.wok_ok [OF w] by (simp add: rest_same_ok [OF rs])
  show "b_bytes demo_half_closed (MemBuffer 0x600 20) = demo_fin"
    unfolding demo_half_closed_def by (rule fill_bytes [OF w]) (simp_all add: demo_fin_def tcp_segment_def be16_def)
qed

theorem fin_wait_2_ignores_fin_witness:
  "\<exists>s'. handleSegment demo_v 0 [10, 0, 0, 2] (MemBuffer 0x600 20) demo_half_closed = Some s' \<and> wire s' = wire demo_half_closed
    \<and> state (sock s' 0) = FIN_WAIT_2"
proof -
  note t = rest_same_transmits [OF demo_half_closed(3)]
  note f = demo_client_def demo_tcp_fields Socket_new_ip_def Socket_init_def demo_socket_def
  have k: "length (sockets demo_half_closed) = 1" "sk_tcp (sock demo_half_closed 0)" "state (sock demo_half_closed 0) = FIN_WAIT_2"
    "remoteIP (sock demo_half_closed 0) = [10, 0, 0, 2]" "timeout (sock demo_half_closed 0) = 0" "remoteSeq (sock demo_half_closed 0) = 0"
    "localSeq (sock demo_half_closed 0) = 41" "ip_ipAddress demo_half_closed = [10, 0, 0, 1]"
    by (simp_all add: sock_transmits [OF t] tcp_transmits [OF t] ip_transmits [OF t] f demo_ip_simps)
  have "ip_ok demo_half_closed" using demo_tcp_hosts(1) by (simp add: ip_ok_transmits [OF t] can_send_def)
  then show ?thesis
    using fin_wait_2_ignores_fin [of demo_half_closed "MemBuffer 0x600 20" 0 80 49152 "0x50" 1000 "[]" demo_v, unfolded k] demo_half_closed(1,2)
    by (auto simp: demo_fin_def k(2))
qed

end
