(* ===== verification/Recovery.thy ===== *)
theory Recovery
  imports Exchange Transitions
begin

text \<open>
  Data that is lost on the way: the timer sends it again from the stash, which nothing has changed in the meantime, until it is acknowledged
  or the socket gives up.
\<close>

section \<open>Buffers that sending does not touch\<close>

definition apart :: "buffer \<Rightarrow> 'a ip_scheme \<Rightarrow> bool" where
  "apart b s = (ip_ok s \<and> 58 \<le> unat (b_size (drv_send s)) \<and> set (b_cells b) \<inter> set (b_cells (drv_send s)) = {})"

definition untouched :: "buffer \<Rightarrow> 'a ip_scheme \<Rightarrow> 'a ip_scheme \<Rightarrow> bool" where
  "untouched b s s' = (sends s s' \<and> b_bytes s' b = b_bytes s b)"

lemma apart_sends: "sends s s' \<Longrightarrow> apart b s' = apart b s"
  unfolding sends_def apart_def by (elim exE) (simp add: ip_ok_transmits transmits_fields)

lemma untouched_refl [simp]: "untouched b s s"
  by (simp add: untouched_def)

lemma untouched_trans: "untouched b s s1 \<Longrightarrow> untouched b s1 s2 \<Longrightarrow> untouched b s s2"
  by (auto simp: untouched_def intro: sends_trans)

lemma untouched_write:
  assumes "apart b s" and "untouched b s s1" and "w \<in> {drv_send s, sendPayloadBuffer s, sendPacketBuffer s}"
    and "unat off + length xs \<le> 24" and "xs \<noteq> []"
  shows "untouched b s (snd (b_write w off xs s1))"
proof -
  have a1: "apart b s1" and sd: "sends s s1" using assms(1,2) apart_sends by (auto simp: untouched_def)
  have w1: "w \<in> {drv_send s1, sendPayloadBuffer s1, sendPacketBuffer s1}"
    using assms(3) sd unfolding sends_def by (elim exE) (simp add: transmits_fields ip_transmits)
  note z = ip_sizes [of s1] and a = a1 [unfolded apart_def]
  have ok: "b_wok s1 w" "24 \<le> unat (b_size w)" using w1 z a by (auto simp: eth_ok_def)
  have c: "sendPayloadBuffer s1 = after (drv_send s1) HEADER_LENGTH" "sendPacketBuffer s1 = after (sendPayloadBuffer s1) IP_HEADER_LENGTH"
    using z(1) a by (simp_all add: eth_ok_def ip_ok_def)
  have "set (b_cells w) \<subseteq> set (b_cells (drv_send s1))"
    using w1 b_cells_after [of "drv_send s1" HEADER_LENGTH] b_cells_after [of "sendPayloadBuffer s1" IP_HEADER_LENGTH] unfolding c by blast
  then have "set (b_cells b) \<inter> set (b_cells w) = {}" using a by blast
  then have "b_bytes (snd (b_write w off xs s1)) b = b_bytes s1 b"
    using ok assms(4,5) by (intro b_write_frame) (auto simp: neq_Nil_conv)
  then show ?thesis using assms(2) sends_trans [OF sd sends_b_write] by (simp add: untouched_def)
qed

lemma untouched_writes:
  assumes "apart b s" and "untouched b s s1" and "w \<in> {drv_send s, sendPayloadBuffer s, sendPacketBuffer s}"
  shows "unat off8 < 24 \<Longrightarrow> untouched b s (snd (write8 (b_write w) off8 d8 s1))"
    and "unat off16 < 23 \<Longrightarrow> untouched b s (snd (writeNet16 (b_write w) off16 d16 s1))"
    and "unat off32 < 21 \<Longrightarrow> untouched b s (snd (writeNet32 (b_write w) off32 d32 s1))"
proof -
  note w = untouched_write [OF assms] and d = write8_def writeNet16_def write16_def writeNet32_def write32_def mem16_def mem32_def
  show "unat off8 < 24 \<Longrightarrow> untouched b s (snd (write8 (b_write w) off8 d8 s1))"
    "unat off16 < 23 \<Longrightarrow> untouched b s (snd (writeNet16 (b_write w) off16 d16 s1))" using w by (simp_all add: d)
  assume "unat off32 < 21"
  moreover from this have "unat (ucast off32 :: u16) = unat off32" by (simp add: unsigned_ucast_eq take_bit_nat_eq_self)
  ultimately show "untouched b s (snd (writeNet32 (b_write w) off32 d32 s1))" using w by (simp add: d)
qed

lemma untouched_seq:
  assumes "untouched b s s1" and "\<And>f s2. f \<in> set fs \<Longrightarrow> untouched b s s2 \<Longrightarrow> untouched b s (snd (f s2))"
  shows "untouched b s (snd (seq_ok fs s1))" and "untouched b s (run_all fs s1)"
proof -
  show "untouched b s (snd (seq_ok fs s1))" by (rule seq_ok_invariant) (use assms in auto)
  show "untouched b s (run_all fs s1)" using assms by (induction fs arbitrary: s1) auto
qed

lemma untouched_sendFrame:
  assumes "apart b s" and "untouched b s s1" and "length mac = 6"
  shows "untouched b s (snd (sendFrame mac protocol n s1))"
proof -
  have s1: "drv_send s1 = drv_send s" "macAddr s1 = macAddr s"
    using assms(2) unfolding untouched_def sends_def by (auto simp: transmits_fields)
  have own: "length (macAddr s) = 6" using assms(1) ip_sizes(1) [of s] by (simp add: apart_def eth_ok_def)
  have d: "untouched b s (driver_sendFrame l s2)" if "untouched b s s2" for l s2
  proof -
    have "sends s2 (driver_sendFrame l s2)"
      unfolding sends_def driver_sendFrame_def transmits_def using rest_same_refl by blast
    moreover have "fetch (driver_sendFrame l s2) c = fetch s2 c" for c by (cases c) (simp_all add: driver_sendFrame_def)
    ultimately show ?thesis using that sends_trans by (auto simp: untouched_def b_bytes_def)
  qed
  have q: "untouched b s (snd (seq_ok [b_write (drv_send s) 0 mac, b_write (drv_send s) MAC_SIZE (macAddr s),
      writeNet16 (b_write (drv_send s)) (MAC_SIZE + MAC_SIZE) protocol] s1))"
    by (rule untouched_seq(1) [OF assms(2)])
      (use assms(1,3) own in \<open>auto simp: MAC_SIZE_def intro!: untouched_write untouched_writes(2)\<close>)
  show ?thesis
    using q assms(2) d unfolding sendFrame_def Let_def s1 by (simp add: case_prod_beta del: seq_ok.simps)
qed

lemma untouched_sendPacket:
  assumes "apart b s" and "untouched b s s1" and "length dst = 4"
  shows "untouched b s (snd (sendPacket dst protocol n s1))"
proof -
  have ip: "ip_ok s1" "sendPayloadBuffer s1 = sendPayloadBuffer s" "ip_ipAddress s1 = ip_ipAddress s" "length (ip_ipAddress s) = 4"
    using assms(1,2) unfolding untouched_def sends_def apart_def
    by (auto simp: transmits_fields ip_transmits ip_ok_transmits) (simp add: ip_ok_def)
  let ?w = "b_write (sendPayloadBuffer s)"
  let ?s2 = "run_all [write8 ?w 0 0x45, write8 ?w 1 0x00, writeNet16 ?w 2 (n + IP_HEADER_LENGTH), writeNet16 ?w 4 0,
    writeNet16 ?w 6 0x4000, write8 ?w 8 64, write8 ?w 9 protocol, ?w 12 (ip_ipAddress s), ?w 16 dst] s1"
  have "untouched b s ?s2"
    by (rule untouched_seq(2) [OF assms(2)])
      (use assms(1,3) ip(4) in \<open>auto intro!: untouched_write [where off = 12] untouched_write [where off = 16] untouched_writes(1,2)\<close>)
  then have "untouched b s (snd (writeNet16 ?w 10 c ?s2))" for c
    using assms(1) by (intro untouched_writes(2)) simp_all
  then have f: "untouched b s (snd (sendFrame mac IP_PROTOCOL l (snd (writeNet16 ?w 10 c ?s2))))" if "length mac = 6" for mac l c
    using that by (rule untouched_sendFrame [OF assms(1)])
  show ?thesis
    using assms(2) f [OF getMACForIP_length [OF ip(1)]] unfolding sendPacket_def Let_def ip(2,3)
    by (auto split: option.split simp del: run_all.simps)
qed

lemma untouchedD: "untouched b s s' \<Longrightarrow> b_bytes s' b = b_bytes s b" "untouched b s s' \<Longrightarrow> apart b s' = apart b s"
  by (simp_all add: untouched_def apart_sends)

lemma untouched_tcp:
  fixes s :: "'a tcp_scheme"
  assumes "untouched b s s'"
  shows "sock s' x = sock s x" "sendPacketBuffer s' = sendPacketBuffer s" "getMACForIP s' dst = getMACForIP s dst"
  using assms sock_sends unfolding untouched_def sends_def by (auto simp: ip_transmits getMACForIP_transmits)

lemma apart_upd [simp]: "apart b (upd x f s) = apart b s"
  by (simp add: apart_def)

lemma options_bytes:
  assumes "apart b s"
  shows "b_bytes (snd (segment_options x c n s)) b = b_bytes s b" and "apart b (snd (segment_options x c n s))"
    and "sendPacketBuffer (snd (segment_options x c n s)) = sendPacketBuffer s"
    and "remoteIP (sock (snd (segment_options x c n s)) x) = remoteIP (sock s x)"
    and "getMACForIP (snd (segment_options x c n s)) dst = getMACForIP s dst"
proof -
  let ?w = "b_write (sendPacketBuffer s)"
  have 1: "untouched b s (snd (seq_ok [write8 ?w 12 0x60, write8 ?w 20 0x02, write8 ?w 21 0x04, writeNet16 ?w 22 (getMaxSegmentSize s)] s))"
    by (rule untouched_seq(1)) (use assms in \<open>auto intro!: untouched_writes(1,2)\<close>)
  have 2: "untouched b s (snd (write8 ?w 12 0x50 s))" using assms by (intro untouched_writes(1)) simp_all
  note u = untouchedD [OF 1] untouchedD [OF 2] untouched_tcp [OF 1] untouched_tcp [OF 2]
  show "b_bytes (snd (segment_options x c n s)) b = b_bytes s b" "apart b (snd (segment_options x c n s))"
    "sendPacketBuffer (snd (segment_options x c n s)) = sendPacketBuffer s"
    "remoteIP (sock (snd (segment_options x c n s)) x) = remoteIP (sock s x)"
    "getMACForIP (snd (segment_options x c n s)) dst = getMACForIP s dst"
    using u assms unfolding segment_options_def Let_def by (simp_all add: case_prod_beta del: seq_ok.simps)
qed

lemma transmit_bytes:
  assumes "apart b s" and "length (remoteIP (sock s x)) = 4" and "getMACForIP s (remoteIP (sock s x)) = Some mac"
  shows "b_bytes (snd (transmit x n ol s)) b = b_bytes s b"
proof -
  have w: "untouched b s (snd (writeNet16 (b_write (sendPacketBuffer s)) 16 c s))" for c
    using assms(1) by (intro untouched_writes(2)) simp_all
  then have "untouched b s (snd (transmit x n ol s))"
    using untouched_tcp(1) [OF w] untouched_sendPacket [OF assms(1) _ assms(2)] unfolding transmit_def Let_def assms(3) option.case
    by (simp add: case_prod_beta)
  then show ?thesis by (rule untouchedD)
qed

lemma sendSegment_bytes:
  assumes "sendSegment v x c n seq ack s = Some (ok, s')" and "apart b s" and "length (remoteIP (sock s x)) = 4"
    and "getMACForIP s (remoteIP (sock s x)) = Some mac"
  shows "b_bytes s' b = b_bytes s b"
proof -
  let ?k = "sock s x"
  let ?w = "b_write (sendPacketBuffer s)"
  define s1 where "s1 = snd (seq_ok [writeNet16 ?w 0 (localPort ?k), writeNet16 ?w 2 (remotePort ?k),
    writeNet32 ?w 4 (if c AND RST \<noteq> RST then localSeq ?k else seq),
    writeNet32 ?w 8 (if c AND RST \<noteq> RST then remoteSeq ?k else ack)] s)"
  define s2 where "s2 = snd (segment_options x c n s1)"
  define s3 where "s3 = snd (seq_ok [write8 ?w 13 c, (\<lambda>s. writeNet16 ?w 14 (getWindowSize v x s) s), writeNet16 ?w 18 0x0000] s2)"
  have u1: "untouched b s s1"
    unfolding s1_def by (rule untouched_seq(1)) (use assms(2) in \<open>auto intro!: untouched_writes(2,3)\<close>)
  have a1: "apart b s1" using untouchedD(2) [OF u1] assms(2) by simp
  note o = options_bytes [OF a1, of x c n, folded s2_def]
  have u3: "untouched b s2 s3"
    unfolding s3_def
    by (rule untouched_seq(1))
      (use o(2,3) untouched_tcp(2) [OF u1] in \<open>auto intro!: untouched_writes(1,2)\<close>)
  have t: "b_bytes (snd (transmit x n ol s3)) b = b_bytes s3 b" for ol
    by (rule transmit_bytes)
      (use untouchedD(2) [OF u3] o untouched_tcp [OF u3] untouched_tcp [OF u1] assms(3,4) in simp_all)
  have "s' = s1 \<or> s' = s2 \<or> s' = s3 \<or> (\<exists>ol. s' = snd (transmit x n ol s3))"
    using assms(1) unfolding sendSegment_def Let_def s1_def s2_def s3_def
    by (auto simp del: seq_ok.simps split: if_splits prod.splits option.splits) (metis snd_conv)+
  then show ?thesis using t untouchedD(1) [OF u1] untouchedD(1) [OF u3] o(1) by auto
qed

section \<open>Sending again\<close>

text \<open>A socket that waits for the acknowledgement of the \<open>n\<close> bytes in its stash.\<close>

definition can_resend :: "nat \<Rightarrow> u8 list \<Rightarrow> u16 \<Rightarrow> buffer \<Rightarrow> 'a tcp_scheme \<Rightarrow> bool" where
  "can_resend x mac n st s = (can_send x mac s \<and> state (sock s x) = ESTABLISHED OR AWAITING_ACK \<and> lastDataLength (sock s x) = n
     \<and> n \<noteq> 0 \<and> unat n + 58 \<le> unat (b_size (drv_send s))
     \<and> sendBuffer (sock s x) = Some (after (sendPacketBuffer s) 20) \<and> sk_stash (sock s x) = Some st
     \<and> can_copy s st (after (sendPacketBuffer s) 20) n \<and> set (b_cells st) \<inter> set (b_cells (drv_send s)) = {})"

lemma cells_packet: "ip_ok s \<Longrightarrow> set (b_cells (sendPacketBuffer s)) \<subseteq> set (b_cells (drv_send s))"
  using b_cells_after [of "drv_send s" HEADER_LENGTH] b_cells_after [of "sendPayloadBuffer s" IP_HEADER_LENGTH] ip_sizes(1) [of s]
  by (auto simp: ip_ok_def eth_ok_def)

lemma copyFrom_stash:
  assumes "can_resend x mac n st s"
  shows "\<exists>s1. copyFrom (after (sendPacketBuffer s) 20) st 0 0 n s = Some (True, s1) \<and> rest_same s s1 \<and> b_bytes s1 st = b_bytes s st
    \<and> take (unat n) (drop 20 (b_bytes s1 (sendPacketBuffer s))) = take (unat n) (b_bytes s st)"
proof -
  note c = assms [unfolded can_resend_def]
  let ?p = "sendPacketBuffer s" and ?b = "after (sendPacketBuffer s) 20"
  have ip: "ip_ok s" using c by (simp add: can_send_def)
  note sz = ip_sizes [OF ip]
  have p20: "20 \<le> b_size ?p" using sz(5) c by (auto simp: le16_iff)
  have st: "b_ok s st" "getBufferType st = 2" "set (b_cells st) \<inter> set (b_cells ?b) = {}" using c by (simp_all add: can_copy_def)
  obtain s1 where s1: "copyTo st ?b 0 0 n s = Some (True, s1)" "rest_same s s1"
    "take (unat n) (b_bytes s1 ?b) = take (unat n) (b_bytes s st)" "b_bytes s1 st = b_bytes s st"
    using can_copy_copies [of s st ?b n] c st by blast
  have "b_ok s1 ?p" using buf.wok_ok [OF sz(3)] by (simp add: rest_same_ok [OF s1(2)])
  then have "b_bytes s1 ?b = drop 20 (b_bytes s1 ?p)" using p20 by (simp add: b_bytes_after)
  then show ?thesis using s1 by (simp add: copyFrom_def)
qed

context quiet_events
begin

lemma resend_ok:
  fixes s :: "'a tcp_scheme"
  assumes "can_resend x mac n st s"
  shows "\<exists>s'. resendData v x s = Some (True, s') \<and> b_bytes s' st = b_bytes s st
    \<and> transmits [data_frame v x mac ACK (localSeq (sock s x) - ucast n) (take (unat n) (b_bytes s st)) s] s s'"
proof -
  note c = assms [unfolded can_resend_def can_send_def]
  let ?g = "\<lambda>k. k\<lparr>localSeq := localSeq k - ucast (lastDataLength k)\<rparr>" and ?k = "sock s x"
  let ?t = "upd x ?g s" and ?p = "sendPacketBuffer s"
  have kt: "sock ?t x = ?k\<lparr>localSeq := localSeq ?k - ucast n\<rparr>" using c by simp
  have "can_resend x mac n st ?t" using assms by (auto simp: can_resend_def can_send_def)
  from copyFrom_stash [OF this] obtain s1 where s1: "copyFrom (after ?p 20) st 0 0 n ?t = Some (True, s1)"
    and rs: "rest_same ?t s1" and b1: "b_bytes s1 st = b_bytes s st" and d: "take (unat n) (drop 20 (b_bytes s1 ?p)) = take (unat n) (b_bytes s st)" by auto
  note t1 = rest_same_transmits [OF rs]
  have k1: "sock s1 x = ?k\<lparr>localSeq := localSeq ?k - ucast n\<rparr>" using kt by (simp add: sock_transmits [OF t1])
  have f1: "ip_ok s1" "x < length (sockets s1)" "ip_ipAddress s1 = ip_ipAddress s" "macAddr s1 = macAddr s"
    "drv_send s1 = drv_send s" "getMACForIP s1 (remoteIP ?k) = Some mac" "sendPacketBuffer s1 = ?p"
    using c ip_ok_transmits [OF t1] getMACForIP_transmits [OF t1]
    by (simp_all add: ip_transmits [OF t1] transmits_fields [OF t1] tcp_transmits [OF t1])
  have w: "getWindowSize v x s1 = getWindowSize v x s"
    using getWindowSize_transmits [OF t1, of x] getWindowSize_same [of ?t s x] by simp
  obtain s' where s': "sendSegment v x ACK n 0 0 s1 = Some (True, s')"
    and t: "transmits [ip_frame mac (macAddr s1) (ip_ipAddress s1) (remoteIP (sock s1 x)) TCP_PROTOCOL
        (sent_segment v x ACK n 0 0 s1)] (upd x (sent ACK n) s1) s'"
    using sendSegment_ok [OF f1(1,2), of mac n ACK 0 0] c f1 k1 by auto
  have "apart st s1" using c f1 by (auto simp: apart_def)
  from sendSegment_bytes [OF s' this, of mac] have bs: "b_bytes s' st = b_bytes s st" using c k1 f1 b1 by simp
  have seg: "sent_segment v x ACK n 0 0 s1 = tcp_segment (ip_ipAddress s) (remoteIP ?k)
      (tcp_prefix (localPort ?k) (remotePort ?k) (localSeq ?k - ucast n) (remoteSeq ?k) 0x50 ACK (getWindowSize v x s))
      (take (unat n) (b_bytes s st))"
    by (simp add: sent_segment_def seg_prefix_def seg_rest_def seg_opt_def k1 f1 w d seg_flags)
  have "upd x (sent ACK n) ?t = upd x (\<lambda>k. sent ACK n (?g k)) s" by simp
  also have "\<dots> = s"
    using c by (intro upd_same) (simp add: sent_def seg_flags word_neq_0_conv or.assoc)
  finally have "rest_same s (upd x (sent ACK n) s1)" using rest_same_upd [OF rs, of x "sent ACK n"] by simp
  then have "transmits [data_frame v x mac ACK (localSeq ?k - ucast n) (take (unat n) (b_bytes s st)) s] s s'"
    using t by (simp add: seg f1 k1 data_frame_def) (rule transmits_rest_same)
  moreover have "resendData v x s = Some (True, s')"
    using c s1 s' kt k1 by (simp add: resendData_def Let_def getSendDataBuffer_def)
  ultimately show ?thesis using bs by blast
qed

lemma checkState_resends:
  fixes s :: "'a tcp_scheme"
  assumes "can_resend x mac n st s" and "now s \<noteq> stateTime (sock s x)" and "timeout (sock s x) = 0" and "sk_attempts (sock s x) \<le> 10"
  shows "\<exists>s'. checkState v x s = Some s' \<and> b_bytes s' st = b_bytes s st
    \<and> transmits [data_frame v x mac ACK (localSeq (sock s x) - ucast n) (take (unat n) (b_bytes s st)) s]
      (upd x (\<lambda>k. k\<lparr>sk_attempts := sk_attempts k + 1\<rparr>) s) s'"
proof -
  let ?t = "upd x (\<lambda>k. k\<lparr>sk_attempts := sk_attempts k + 1\<rparr>) s"
  note c = assms(1) [unfolded can_resend_def can_send_def]
  have "can_resend x mac n st ?t" using assms(1) by (auto simp: can_resend_def can_send_def)
  from resend_ok [OF this] obtain s' where r: "resendData v x ?t = Some (True, s')" and bs: "b_bytes s' st = b_bytes s st"
    and t: "transmits [data_frame v x mac ACK (localSeq (sock ?t x) - ucast n) (take (unat n) (b_bytes s st)) ?t] ?t s'" by auto
  have k: "state (sock s' x) = ESTABLISHED OR AWAITING_ACK" using c by (simp add: sock_transmits [OF t])
  have e: "\<not> now s - stateTime (sock s x) < ACK_WAIT_DURATION" "\<not> sk_attempts (sock s x) > 10"
    using assms(2,4) by (simp_all add: ACK_WAIT_DURATION_def word_less_1 not_less)
  have "checkState v x s = checkState_control v x (now s - stateTime (sock s x)) s'"
    using c r assms(3) by (simp add: checkState_def checkState_resend_def or_give_up_def Let_def sock_states e)
  also have "\<dots> = Some s'" using k by (simp add: checkState_control_def sock_states)
  finally show ?thesis using t bs c getWindowSize_same [of ?t s x] by (auto simp: data_frame_def)
qed

end

section \<open>A series of timer calls\<close>

text \<open>\<^verbatim>\<open>checkState\<close> is called at each of the times.\<close>

fun ticks :: "'a tcp_scheme vtable \<Rightarrow> nat \<Rightarrow> u32 list \<Rightarrow> 'a tcp_scheme \<Rightarrow> 'a tcp_scheme option" where
  "ticks v x [] s = Some s"
| "ticks v x (t # ts) s = checkState v x (s\<lparr>now := t\<rparr>) \<bind> ticks v x ts"

lemma now_fields [simp]:
  fixes s :: "'a tcp_scheme"
  shows "sock (s\<lparr>now := t\<rparr>) x = sock s x" "upd x f (s\<lparr>now := t\<rparr>) = (upd x f s)\<lparr>now := t\<rparr>" "b_bytes (s\<lparr>now := t\<rparr>) b = b_bytes s b"
    "b_ok (s\<lparr>now := t\<rparr>) b = b_ok s b" "ip_ok (s\<lparr>now := t\<rparr>) = ip_ok s" "getMACForIP (s\<lparr>now := t\<rparr>) dst = getMACForIP s dst"
    "tcp.more (s\<lparr>now := t\<rparr>) = tcp.more s"
proof -
  have f: "fetch (s\<lparr>now := t\<rparr>) c = fetch s c" for c by (cases c) simp_all
  show "sock (s\<lparr>now := t\<rparr>) x = sock s x" "upd x f (s\<lparr>now := t\<rparr>) = (upd x f s)\<lparr>now := t\<rparr>" "b_ok (s\<lparr>now := t\<rparr>) b = b_ok s b"
    "tcp.more (s\<lparr>now := t\<rparr>) = tcp.more s"
    by (simp_all add: sock_def upd_def b_ok_def)
  show "b_bytes (s\<lparr>now := t\<rparr>) b = b_bytes s b" by (simp add: b_bytes_def f)
  show "ip_ok (s\<lparr>now := t\<rparr>) = ip_ok s"
    by (simp add: ip_ok_def arp_ok_def arp_net_ok_def eth_ok_def b_wok_def b_ok_def timers_ok_def)
  show "getMACForIP (s\<lparr>now := t\<rparr>) dst = getMACForIP s dst"
    by (simp add: getMACForIP_def onLocalNetwork_def getMACAddress_def)
qed

lemma now_dispatch [simp]:
  fixes s :: "'a tcp_scheme"
  shows "b_wok (s\<lparr>now := t\<rparr>) b = b_wok s b" "IP_getProtocolHandler (s\<lparr>now := t\<rparr>) p = IP_getProtocolHandler s p"
    "target (s\<lparr>now := t\<rparr>) = target s"
proof -
  have "find_socket (s\<lparr>now := t\<rparr>) = find_socket s"
    by (intro ext find_socket_same) simp_all
  then show "target (s\<lparr>now := t\<rparr>) = target s" unfolding target_def by (simp only:)
qed (simp_all add: b_wok_def IP_getProtocolHandler_def)

lemma transmits_now:
  fixes s :: "'a tcp_scheme"
  assumes "transmits fs s s'"
  shows "transmits fs (s\<lparr>now := t\<rparr>) (s'\<lparr>now := t\<rparr>)"
proof -
  obtain s0 where s0: "rest_same s s0" "s' = s0\<lparr>wire := wire s @ fs\<rparr>" using assms unfolding transmits_def by blast
  have "rest_same (s\<lparr>now := t\<rparr>) (s0\<lparr>now := t\<rparr>)" using s0(1) by (cases s; cases s0) (simp add: rest_same_def)
  then show ?thesis unfolding transmits_def s0(2) by (intro exI [of _ "s0\<lparr>now := t\<rparr>"]) simp
qed

lemma can_copy_now [simp]: "can_copy (s\<lparr>now := t\<rparr>) = can_copy s"
  by (intro ext can_copy_chip) simp

lemma can_resend_transmits: "transmits fs s s' \<Longrightarrow> can_resend x mac n st s' = can_resend x mac n st s"
  by (simp add: can_resend_def can_copy_chip [OF transmits_fields(11)] can_send_transmits sock_transmits transmits_fields ip_transmits)

context quiet_events
begin

lemma ticks_resend:
  fixes s :: "'a tcp_scheme"
  assumes "can_resend x mac n st s" and "\<forall>t\<in>set ts. t \<noteq> stateTime (sock s x)" and "timeout (sock s x) = 0"
    and "unat (sk_attempts (sock s x)) + length ts \<le> 11"
  defines "F \<equiv> data_frame v x mac ACK (localSeq (sock s x) - ucast n) (take (unat n) (b_bytes s st)) s"
  shows "\<exists>s'. ticks v x ts s = Some s' \<and> b_bytes s' st = b_bytes s st
    \<and> transmits (replicate (length ts) F)
        (upd x (\<lambda>k. k\<lparr>sk_attempts := sk_attempts k + word_of_nat (length ts)\<rparr>) (s\<lparr>now := last (now s # ts)\<rparr>)) s'"
  using assms(1-4) unfolding F_def
proof (induction ts arbitrary: s)
  case Nil
  have "upd x (\<lambda>k. k\<lparr>sk_attempts := sk_attempts k + 0\<rparr>) s = s" by (rule upd_same) simp
  then show ?case by (simp add: transmits_none)
next
  case (Cons t ts)
  let ?s = "s\<lparr>now := t\<rparr>" and ?f = "\<lambda>k. k\<lparr>sk_attempts := sk_attempts k + 1\<rparr>"
  let ?F = "data_frame v x mac ACK (localSeq (sock s x) - ucast n) (take (unat n) (b_bytes s st)) s"
  have x: "x < length (sockets s)" using Cons.prems(1) by (simp add: can_resend_def can_send_def)
  have w: "getWindowSize v x ?s = getWindowSize v x s" by (rule getWindowSize_same) simp_all
  have cs: "can_resend x mac n st ?s" using Cons.prems(1) by (simp add: can_resend_def can_send_def)
  have at: "sk_attempts (sock s x) \<le> 10" using Cons.prems(4) by (simp add: word_le_nat_alt)
  obtain s1 where c: "checkState v x ?s = Some s1" and b1: "b_bytes s1 st = b_bytes s st"
    and t1: "transmits [?F] ((upd x ?f s)\<lparr>now := t\<rparr>) s1"
    using checkState_resends [OF cs] Cons.prems(2,3) at by (auto simp: data_frame_def w)
  have k1: "sock s1 x = ?f (sock s x)" using x by (simp add: sock_transmits [OF t1])
  have "can_resend x mac n st s1" unfolding can_resend_transmits [OF t1] using cs by (auto simp: can_resend_def can_send_def)
  moreover have "unat (sk_attempts (sock s x) + 1) = unat (sk_attempts (sock s x)) + 1"
    using Cons.prems(4) by (simp add: unat_word_ariths)
  then have "unat (sk_attempts (sock s1 x)) + length ts \<le> 11" using Cons.prems(4) by (simp add: k1)
  ultimately obtain s' where s': "ticks v x ts s1 = Some s'" "b_bytes s' st = b_bytes s1 st"
    and t2: "transmits (replicate (length ts) (data_frame v x mac ACK (localSeq (sock s1 x) - ucast n) (take (unat n) (b_bytes s1 st)) s1))
        (upd x (\<lambda>k. k\<lparr>sk_attempts := sk_attempts k + word_of_nat (length ts)\<rparr>) (s1\<lparr>now := last (now s1 # ts)\<rparr>)) s'"
    using Cons.IH [of s1] Cons.prems(2,3) by (auto simp: k1)
  have w1: "getWindowSize v x s1 = getWindowSize v x s"
    using getWindowSize_transmits [OF t1, of x] getWindowSize_same [of "(upd x ?f s)\<lparr>now := t\<rparr>" s x] by simp
  have F1: "data_frame v x mac ACK (localSeq (sock s1 x) - ucast n) (take (unat n) (b_bytes s1 st)) s1 = ?F"
    by (simp add: data_frame_def k1 b1 w1 ip_transmits [OF t1] transmits_fields [OF t1])
  let ?g = "\<lambda>k. k\<lparr>sk_attempts := sk_attempts k + word_of_nat (length ts)\<rparr>" and ?l = "last (t # ts)"
  have n1: "last (now s1 # ts) = ?l" by (simp add: transmits_fields(2) [OF t1])
  have "transmits [?F] (upd x ?g ((upd x ?f s)\<lparr>now := ?l\<rparr>)) (upd x ?g (s1\<lparr>now := ?l\<rparr>))"
    using transmits_upd [OF transmits_now [OF t1, of ?l], of x ?g] by simp
  moreover have G: "(\<lambda>k. ?g (?f k)) = (\<lambda>k. k\<lparr>sk_attempts := sk_attempts k + word_of_nat (length (t # ts))\<rparr>)"
    by (simp add: fun_eq_iff add.assoc)
  ultimately have "transmits (replicate (length (t # ts)) ?F)
      (upd x (\<lambda>k. k\<lparr>sk_attempts := sk_attempts k + word_of_nat (length (t # ts))\<rparr>) (s\<lparr>now := last (now s # t # ts)\<rparr>)) s'"
    using transmits_trans t2 unfolding F1 n1 G [symmetric] by fastforce
  then show ?case using c s' b1 by (intro exI [of _ s'] conjI) (simp_all only: ticks.simps bind.bind_lunit)
qed

end

section \<open>Giving up\<close>

context quiet_events
begin

lemma forceClose_ok:
  fixes s :: "'a tcp_scheme"
  assumes "can_send x mac s" and "state (sock s x) \<noteq> TIME_WAIT"
  shows "\<exists>s'. forceClose v x s = Some s' \<and> transmits [data_frame v x mac (RST OR ACK) (localSeq (sock s x)) [] s]
    (upd x (\<lambda>k. k\<lparr>state := (if isHost k then LISTEN else CLOSED), stateTime := now s\<rparr>) s) s'"
proof -
  note c = assms(1) [unfolded can_send_def]
  let ?R = "data_frame v x mac (RST OR ACK) (localSeq (sock s x)) [] s"
  have "sent_segment v x (RST OR ACK) 0 (localSeq (sock s x)) (remoteSeq (sock s x)) s = tcp_segment (ip_ipAddress s) (remoteIP (sock s x))
      (tcp_prefix (localPort (sock s x)) (remotePort (sock s x)) (localSeq (sock s x)) (remoteSeq (sock s x)) 0x50 (RST OR ACK) (getWindowSize v x s)) []"
    by (simp add: sent_segment_def seg_prefix_def seg_rest_def seg_opt_def seg_flags)
  then obtain s2 where s2: "sendSegment v x (RST OR ACK) 0 (localSeq (sock s x)) (remoteSeq (sock s x)) s = Some (True, s2)"
    and t2: "transmits [?R] (upd x (sent (RST OR ACK) 0) s) s2"
    using sendSegment_ok [of s x mac 0 "RST OR ACK" "localSeq (sock s x)" "remoteSeq (sock s x)"] c by (auto simp: data_frame_def)
  have same: "upd x (sent (RST OR ACK) 0) s = s" by (rule upd_same) (simp add: sent_def seg_flags)
  have "reset v x (localSeq (sock s x)) (remoteSeq (sock s x)) s = Some (True, s2)"
    by (simp add: reset_def s2 quiet)
  then have "forceClose v x s = closed v x s2" using assms(2) by (simp add: forceClose_def)
  moreover have k: "sock s2 x = sock s x" "now s2 = now s" using t2 by (simp_all add: same sock_transmits transmits_fields)
  moreover have "upd x (\<lambda>k. k\<lparr>state := (if sk_tcp k \<and> isHost k then LISTEN else CLOSED), stateTime := now s\<rparr>) s2
      = upd x (\<lambda>k. k\<lparr>state := (if isHost k then LISTEN else CLOSED), stateTime := now s\<rparr>) s2"
    using c k by (intro upd_cong) simp
  ultimately show ?thesis
    using transmits_upd [OF t2, of x "\<lambda>k. k\<lparr>state := (if isHost k then LISTEN else CLOSED), stateTime := now s\<rparr>"]
    unfolding same closed_quiet by auto
qed

end

lemma ticks_append: "ticks v x (ts @ us) s = ticks v x ts s \<bind> ticks v x us"
proof (induction ts arbitrary: s)
  case (Cons t ts)
  then show ?case by (cases "checkState v x (s\<lparr>now := t\<rparr>)") simp_all
qed simp

text \<open>The way back of a copy is open when both buffers are of the same kind.\<close>

lemma can_copy_back:
  assumes "can_send_data x mac n st s" and "getBufferType (getRootBuffer st) = getBufferType (getRootBuffer (sendPacketBuffer s))"
  shows "can_copy s st (after (sendPacketBuffer s) 20) n"
proof -
  let ?p = "sendPacketBuffer s"
  note c = assms(1) [unfolded can_send_data_def can_send_def]
  have ip: "ip_ok s" using c by simp
  have "20 \<le> b_size ?p" using c ip_sizes(5) [OF ip] by (auto simp: le16_iff)
  then have "b_wok s (after ?p 20)" using ip_sizes(3) [OF ip] by (simp add: after_wok)
  moreover have "getRootBuffer (after ?p 20) = getRootBuffer ?p" using ip by (simp add: ip_ok_def after_def)
  ultimately show ?thesis using c assms(2) by (auto simp: can_copy_def buf.wok_ok)
qed

section \<open>Properties\<close>

lemma send_stash:
  assumes "can_send_data x mac n st s" and "set (b_cells st) \<inter> set (b_cells (drv_send s)) = {}" and "send v x n s = Some (True, s')"
  shows "take (unat n) (b_bytes s' st) = take (unat n) (drop 20 (b_bytes s (sendPacketBuffer s)))"
proof -
  note c = assms(1) [unfolded can_send_data_def can_send_def]
  let ?p = "sendPacketBuffer s" and ?t = "upd x (\<lambda>k. k\<lparr>sk_attempts := 1\<rparr>) s"
  have "can_send_data x mac n st ?t" using c by (simp add: can_send_data_def can_send_def)
  then obtain s1 where s1: "copyTo (after ?p 20) st 0 0 n ?t = Some (True, s1)" and rs: "rest_same ?t s1"
    and d: "take (unat n) (b_bytes s1 st) = take (unat n) (drop 20 (b_bytes s ?p))"
    using copyTo_stash [of x mac n st ?t] by auto
  note t1 = rest_same_transmits [OF rs]
  have f1: "apart st s1" "length (remoteIP (sock s1 x)) = 4" "getMACForIP s1 (remoteIP (sock s1 x)) = Some mac"
    using c assms(2) by (simp_all add: apart_def ip_ok_transmits [OF t1] transmits_fields [OF t1] sock_transmits [OF t1] getMACForIP_transmits [OF t1])
  have "readyToSend (sock s x)" using c by (simp add: readyToSend_def sock_states)
  then obtain s2 where s2: "sendSegment v x (ACK OR PSH) n 0 0 s1 = Some (True, s2)" and "s' = upd x (\<lambda>k. k\<lparr>stateTime := now s2\<rparr>) s2"
    using assms(3) c s1 by (auto simp: send_def Let_def getSendDataBuffer_def not_less split: Option.bind_splits if_splits)
  then show ?thesis using sendSegment_bytes [OF s2 f1] d by simp
qed

text \<open>
  C3: Lost data arrives. When the segment that \<^verbatim>\<open>send\<close> has put on the wire is lost, each of the next ten calls of the timer repeats it with
  the same bytes at the same sequence number, whatever has been lost of the repetitions before. As soon as one of them reaches the
  peer, its application gets exactly the bytes that were sent, and the acknowledgement makes the sender ready again, with both ends
  in agreement.
\<close>

theorem lost_data_arrives:
  assumes "quiet_events va" and "quiet_events vb" and "peers x y a b"
    and "can_send_data x macb n st a" and "can_send y maca b"
    and "can_receive y p (ip_ipAddress a) (localPort (sock a x)) (localPort (sock b y)) b" and "unat (b_size p) = 40 + unat n"
    and "can_receive x r (ip_ipAddress b) (localPort (sock b y)) (localPort (sock a x)) a" and "unat (b_size r) = 40"
    and "set (b_cells st) \<inter> set (b_cells (drv_send a)) = {}" and "getBufferType (getRootBuffer st) = getBufferType (getRootBuffer (sendPacketBuffer a))"
    and "timeout (sock a x) = 0"
    and "ts \<noteq> []" and "length ts \<le> 10" and "\<forall>t\<in>set ts. t \<noteq> now a"
  defines "data \<equiv> take (unat n) (drop 20 (b_bytes a (sendPacketBuffer a)))"
  shows "\<exists>a1 a2 q s1 b2 a3. send va x n a = Some (True, a1) \<and> ticks va x ts a1 = Some a2
    \<and> b_bytes s1 q = data
    \<and> (\<forall>event. receive_packet (vb\<lparr>onDataReceived := event\<rparr>) appb p (last (wire a2)) b
          = event y q s1 \<bind> acknowledge vb y (localSeq (sock a1 x)))
    \<and> acknowledge vb y (localSeq (sock a1 x)) (True, s1) = Some b2
    \<and> receive_packet va appa r (last (wire b2)) a2 = Some a3
    \<and> readyToSend (sock a3 x) \<and> peers x y a3 b2"
proof -
  let ?ka = "sock a x" and ?kb = "sock b y" and ?ia = "ip_ipAddress a" and ?ib = "ip_ipAddress b"
  note ca = assms(4) [unfolded can_send_data_def can_send_def] and pr = assms(3) [unfolded peers_def]
  have mac: "length macb = 6" using ca getMACForIP_length [of a _ macb] by auto
  have len: "length data = unat n"
    using ca ip_sizes(3,5) [of a] by (auto simp: data_def buf.length_bytes buf.wok_ok)
  then have ne: "data \<noteq> []" using ca by (auto simp: unat_eq_zero)
  obtain a1 fs where c: "send va x n a = Some (True, a1)" and
    t1: "transmits fs (upd x (\<lambda>k. k\<lparr>sk_attempts := 1, state := ESTABLISHED OR AWAITING_ACK, lastDataLength := n,
        localSeq := localSeq k + ucast n, stateTime := now a\<rparr>) a) a1" (is "transmits fs ?A a1")
    using window_law.send_ok [OF quiet_events.axioms(1) [OF assms(1)] assms(4)] by blast
  have k1: "sock a1 x = ?ka\<lparr>sk_attempts := 1, state := ESTABLISHED OR AWAITING_ACK, lastDataLength := n,
      localSeq := localSeq ?ka + ucast n, stateTime := now a\<rparr>"
    using ca by (simp add: sock_transmits [OF t1])
  have "can_resend x macb n st ?A"
    using ca assms(10) can_copy_back [OF assms(4,11)] by (auto simp: can_resend_def can_send_def)
  then have cr: "can_resend x macb n st a1" by (simp add: can_resend_transmits [OF t1])
  have st: "take (unat n) (b_bytes a1 st) = data" unfolding data_def by (rule send_stash [OF assms(4,10) c])
  obtain a2 where c2: "ticks va x ts a1 = Some a2" and t2: "transmits (replicate (length ts) (data_frame va x macb ACK (localSeq ?ka) data a1))
      (upd x (\<lambda>k. k\<lparr>sk_attempts := sk_attempts k + word_of_nat (length ts)\<rparr>) (a1\<lparr>now := last (now a1 # ts)\<rparr>)) a2" (is "transmits ?Fs ?A2 a2")
    using quiet_events.ticks_resend [OF assms(1) cr, of ts] assms(12,14,15) by (auto simp: k1 st)
  have k2: "sock a2 x = (sock a1 x)\<lparr>sk_attempts := sk_attempts (sock a1 x) + word_of_nat (length ts)\<rparr>"
    and a2: "x < length (sockets a2)" "ip_ok a2" "ip_ipAddress a2 = ?ia" "macAddr a2 = macAddr a1"
    using ca by (simp_all add: sock_transmits [OF t2] tcp_transmits [OF t2] ip_ok_transmits [OF t2] ip_transmits [OF t2]
        transmits_fields [OF t2] tcp_transmits [OF t1] ip_ok_transmits [OF t1] ip_transmits [OF t1])
  have wire: "last (wire a2) = data_frame va x macb ACK (localSeq ?ka) data a1"
    using assms(13) transmits_fields(1) [OF t2] by (simp add: last_append)
  have "target ?A = target a"
    using ca by (intro target_upd_same) (simp_all add: equals_remote_def equals_listen_def isHost_def sock_states)
  moreover have "target ?A2 = target a1"
    unfolding now_fields(2) now_dispatch by (intro target_upd_same) (simp_all add: equals_remote_def equals_listen_def isHost_def)
  ultimately have ra: "can_receive x r ?ib (localPort ?kb) (localPort ?ka) a2"
    using assms(8) k1 k2
    by (simp add: can_receive_def protocol_upd ip_ok_transmits [OF t1] transmits_ok(2) [OF t1] tcp_transmits [OF t1] protocol_transmits [OF t1]
        target_transmits [OF t1] ip_ok_transmits [OF t2] transmits_ok(2) [OF t2] tcp_transmits [OF t2] protocol_transmits [OF t2]
        target_transmits [OF t2])
  note arr = arrival [OF assms(1,2,5) _ _ _ _ assms(6) _ ne a2(2,1) _ _ _ _ a2(3) _ _ mac _ ra assms(9),
      where control = ACK and seq = "localSeq ?ka" and wnd = "getWindowSize va x a1" and appa = appa and appb = appb, unfolded a2(4)]
  show ?thesis
    using arr c c2 wire k1 k2 pr len assms(7) by (auto simp: data_frame_def ip_transmits [OF t1])
qed

theorem lost_data_arrives_witness:
  "\<exists>a1 a2 q s1 b2 a3. send demo_v 0 5 demo_sender = Some (True, a1) \<and> ticks demo_v 0 [2000, 3000, 4000] a1 = Some a2
    \<and> (\<forall>event. receive_packet (demo_v\<lparr>onDataReceived := event\<rparr>) demo_app (MemBuffer 0x600 45) (last (wire a2)) demo_reader
          = event 0 q s1 \<bind> acknowledge demo_v 0 (localSeq (sock a1 0))) \<and> length (b_bytes s1 q) = 5
    \<and> acknowledge demo_v 0 (localSeq (sock a1 0)) (True, s1) = Some b2
    \<and> receive_packet demo_v demo_app (MemBuffer 0x600 40) (last (wire b2)) a2 = Some a3 \<and> readyToSend (sock a3 0)"
proof -
  note d = demo_connection
  let ?st = "OffsetBuffer (MemBuffer 0x900 30) 0 30"
  have v: "quiet_events demo_v" unfolding demo_v_def by (rule socket_events.quiet_events_axioms)
  have sz: "unat (b_size (MemBuffer 0x600 45)) = 40 + unat (5 :: u16)" "unat (b_size (MemBuffer 0x600 40)) = 40" by simp_all
  have "set (b_cells ?st) \<inter> set (b_cells (MemBuffer 0x400 100)) = {}" by code_simp
  then have dj: "set (b_cells ?st) \<inter> set (b_cells (drv_send demo_sender)) = {}"
    by (simp add: demo_sender_def demo_tcp_fields demo_ip_simps)
  have rt: "getBufferType (getRootBuffer ?st) = getBufferType (getRootBuffer (sendPacketBuffer demo_sender))" "timeout (sock demo_sender 0) = 0"
    by (simp_all add: demo_sender_def demo_tcp_fields demo_socket_def demo_ip_simps)
  have "now (demo_ip mac ip m i) = 1000" for mac ip m i
    by (simp add: demo_ip_def IPHandler_init_def arp.defs ip.defs registerProtocol_simps demo_arp_simps Let_def split: option.split)
  then have n: "now demo_sender = 1000" by (simp add: demo_sender_def demo_tcp_def ip.defs udp.defs dns.defs)
  have ts: "[2000, 3000, 4000] \<noteq> ([] :: u32 list)" "length [2000, 3000, 4000 :: u32] \<le> 10" "\<forall>t\<in>set [2000, 3000, 4000]. t \<noteq> now demo_sender"
    by (simp_all add: n)
  have len: "length (take 5 (drop 20 (b_bytes demo_sender (sendPacketBuffer demo_sender)))) = 5"
    using d(2) ip_sizes(3,5) [of demo_sender] by (auto simp: can_send_data_def can_send_def buf.length_bytes buf.wok_ok)
  show ?thesis
    using lost_data_arrives [OF v v d(1-3), where p = "MemBuffer 0x600 45" and r = "MemBuffer 0x600 40" and appa = demo_app and appb = demo_app,
        unfolded d(6-9), OF d(4) sz(1) d(5) sz(2) dj rt ts] len
    by (elim exE conjE) (intro exI conjI, assumption+, simp_all)
qed

text \<open>
  C7: A silent peer ends the connection. When nothing is heard of the peer, each of the first ten calls of the timer sends the
  outstanding data of the stash once more, at its sequence number, and nothing else; the eleventh sends one segment, a reset with the current sequence
  numbers, and returns the socket to CLOSED, or to LISTEN if it is a listening one.
\<close>

theorem silent_peer_ends_connection:
  assumes "quiet_events v" and "can_resend x mac n st s" and "sk_attempts (sock s x) = 1" and "timeout (sock s x) = 0"
    and "length ts = 11" and "\<forall>t\<in>set ts. t \<noteq> stateTime (sock s x)"
  shows "\<exists>s1 s'. ticks v x (butlast ts) s = Some s1 \<and> state (sock s1 x) = ESTABLISHED OR AWAITING_ACK
    \<and> wire s1 = wire s @ replicate 10 (data_frame v x mac ACK (localSeq (sock s x) - ucast n) (take (unat n) (b_bytes s st)) s)
    \<and> ticks v x ts s = Some s' \<and> state (sock s' x) = (if isHost (sock s x) then LISTEN else CLOSED)
    \<and> wire s' = wire s1 @ [data_frame v x mac (RST OR ACK) (localSeq (sock s x)) [] s]"
proof -
  let ?F = "data_frame v x mac ACK (localSeq (sock s x) - ucast n) (take (unat n) (b_bytes s st)) s"
  let ?us = "butlast ts" and ?t = "last ts"
  have ts: "ts = ?us @ [?t]" "length ?us = 10" "?t \<in> set ts" "\<forall>t\<in>set ?us. t \<noteq> stateTime (sock s x)"
    using assms(5,6) by (auto simp: append_butlast_last_id [symmetric] dest: in_set_butlastD) (cases ts; auto)+
  obtain s1 where s1: "ticks v x ?us s = Some s1" and t1: "transmits (replicate 10 ?F)
      (upd x (\<lambda>k. k\<lparr>sk_attempts := sk_attempts k + 10\<rparr>) (s\<lparr>now := last (now s # ?us)\<rparr>)) s1"
    using quiet_events.ticks_resend [OF assms(1,2) ts(4) assms(4)] assms(3) ts(2) by auto
  have x: "x < length (sockets s)" and kt: "sk_tcp (sock s x)" and es: "state (sock s x) = ESTABLISHED OR AWAITING_ACK"
    using assms(2) by (simp_all add: can_resend_def can_send_def)
  have k1: "sock s1 x = (sock s x)\<lparr>sk_attempts := 11\<rparr>" using x assms(3) by (simp add: sock_transmits [OF t1])
  let ?s = "upd x (\<lambda>k. k\<lparr>sk_attempts := sk_attempts k + 1\<rparr>) (s1\<lparr>now := ?t\<rparr>)"
  have x1: "x < length (sockets s1)" using x by (simp add: tcp_transmits [OF t1])
  have "?t - stateTime (sock s x) \<noteq> 0" using assms(6) ts(3) by simp
  then have e: "\<not> ?t - stateTime (sock s x) < ACK_WAIT_DURATION" by (simp add: ACK_WAIT_DURATION_def word_less_1)
  have c: "checkState v x (s1\<lparr>now := ?t\<rparr>) = forceClose v x ?s"
    using es assms(4) x1 by (simp add: checkState_def checkState_resend_def or_give_up_def Let_def sock_states e k1)
  have "can_send x mac ?s"
    using assms(2) x1 k1 unfolding can_resend_def can_send_def
    by (auto simp: ip_ok_transmits [OF t1] transmits_fields [OF t1] getMACForIP_transmits [OF t1])
  from quiet_events.forceClose_ok [OF assms(1) this] obtain s' where f: "forceClose v x ?s = Some s'"
    and t2: "transmits [data_frame v x mac (RST OR ACK) (localSeq (sock ?s x)) [] ?s] (upd x (\<lambda>k. k\<lparr>state := (if isHost k then LISTEN else CLOSED), stateTime := now ?s\<rparr>) ?s) s'"
    using es x1 k1 by (auto simp: sock_states)
  have "checkState v x (s1\<lparr>now := ?t\<rparr>) = Some s'" unfolding c by (rule f)
  then have run: "ticks v x (?us @ [?t]) s = Some s'" by (simp add: ticks_append s1)
  have st: "state (sock s' x) = (if isHost (sock s x) then LISTEN else CLOSED)"
    using x1 by (simp add: sock_transmits [OF t2] k1 isHost_def)
  note win = quiet_events.axioms(1) [OF assms(1)]
  have "getWindowSize v x ?s = getWindowSize v x s1" by (rule window_law.getWindowSize_same [OF win]) simp_all
  also have "\<dots> = getWindowSize v x s"
    unfolding window_law.getWindowSize_transmits [OF win t1] by (rule window_law.getWindowSize_same [OF win]) simp_all
  finally have "data_frame v x mac (RST OR ACK) (localSeq (sock ?s x)) [] ?s = data_frame v x mac (RST OR ACK) (localSeq (sock s x)) [] s"
    using x1 k1 by (simp add: data_frame_def ip_transmits [OF t1] transmits_fields [OF t1])
  then have "wire s' = wire s1 @ [data_frame v x mac (RST OR ACK) (localSeq (sock s x)) [] s]" by (simp add: transmits_fields [OF t2])
  moreover have "wire s1 = wire s @ replicate 10 ?F" by (simp add: transmits_fields [OF t1])
  ultimately show ?thesis using s1 es k1 ts(1) run st by auto
qed

text \<open>The sender of the other examples, five bytes of which are on the way.\<close>

definition demo_waiting :: tcp where
  "demo_waiting = upd 0 (\<lambda>k. k\<lparr>state := ESTABLISHED OR AWAITING_ACK, sk_attempts := 1, lastDataLength := 5\<rparr>) demo_sender"

theorem silent_peer_ends_connection_witness:
  "\<exists>s1 s'. ticks demo_v 0 [1, 2, 3, 4, 5, 6, 7, 8, 9, 10] demo_waiting = Some s1 \<and> state (sock s1 0) = ESTABLISHED OR AWAITING_ACK
    \<and> ticks demo_v 0 [1, 2, 3, 4, 5, 6, 7, 8, 9, 10, 11] demo_waiting = Some s' \<and> state (sock s' 0) = CLOSED
    \<and> length (wire s') = length (wire demo_waiting) + 11"
proof -
  let ?st = "OffsetBuffer (MemBuffer 0x900 30) 0 30" and ?ts = "[1, 2, 3, 4, 5, 6, 7, 8, 9, 10, 11] :: u32 list"
  have v: "quiet_events demo_v" unfolding demo_v_def by (rule socket_events.quiet_events_axioms)
  have "set (b_cells ?st) \<inter> set (b_cells (MemBuffer 0x400 100)) = {}" by code_simp
  then have dj: "set (b_cells ?st) \<inter> set (b_cells (drv_send demo_sender)) = {}"
    by (simp add: demo_sender_def demo_tcp_fields demo_ip_simps)
  have x: "0 < length (sockets demo_sender)" by (simp add: demo_sender_def demo_tcp_fields)
  have k: "timeout (sock demo_sender 0) = 0" "stateTime (sock demo_sender 0) = 0" "\<not> isHost (sock demo_sender 0)"
    by (simp_all add: demo_sender_def demo_tcp_fields demo_socket_def isHost_def)
  have rt: "getBufferType (getRootBuffer ?st) = getBufferType (getRootBuffer (sendPacketBuffer demo_sender))"
    by (simp add: demo_sender_def demo_tcp_fields demo_ip_simps)
  have "unat (b_size (drv_send demo_sender)) = 100" by (simp add: demo_sender_def demo_tcp_fields demo_ip_simps)
  then have c: "can_resend 0 [2, 0, 0, 0, 0, 2] 5 ?st demo_waiting"
    using demo_connection(2) can_copy_back [OF demo_connection(2) rt] dj by (auto simp: can_resend_def can_send_data_def can_send_def demo_waiting_def buf.wok_ok)
  have t: "sk_attempts (sock demo_waiting 0) = 1" "timeout (sock demo_waiting 0) = 0" "length ?ts = 11"
    "\<forall>t\<in>set ?ts. t \<noteq> stateTime (sock demo_waiting 0)" "\<not> isHost (sock demo_waiting 0)"
    using x k by (simp_all add: demo_waiting_def isHost_def)
  show ?thesis using silent_peer_ends_connection [OF v c t(1-4)] t(5) by auto
qed

end
