(* ===== verification/Closing.thy ===== *)
theory Closing
  imports Exchange Transitions
begin

text \<open>The end of a connection, data that comes with a FIN, and of a socket.\<close>

lemma unregisterSocket_sockets: "unregisterSocket x s = Some s' \<Longrightarrow> sockets s' = sockets s"
  by (auto simp: unregisterSocket_def unregisterTimer_def Let_def split: if_splits option.splits)

text \<open>Without its TCPHandler a socket cannot reset the connection, in any state but the one that \<^verbatim>\<open>forceClose\<close> excepts.\<close>

lemma forceClose_null: "\<not> sk_tcp (sock s x) \<Longrightarrow> state (sock s x) \<noteq> TIME_WAIT \<Longrightarrow> forceClose v x s = None"
  by (simp add: forceClose_def reset_def sendSegment_def)

section \<open>Properties\<close>

text \<open>
  C8: A FIN that comes with data is not acknowledged. When the last data of the peer carries the FIN, as it usually does, the application gets
  the data and the socket enters CLOSE_WAIT, but the only acknowledgement it sends, and the number it expects next, are those of the data alone: one
  short of the FIN, which the peer will repeat.
\<close>

theorem fin_with_data_is_not_acknowledged:
  fixes s :: "'a tcp_scheme"
  assumes "quiet_events v" and "can_send x mac s" and "b_ok s q" and "state (sock s x) = ESTABLISHED" and "data \<noteq> []"
    and "b_bytes s q = tcp_segment (remoteIP (sock s x)) (ip_ipAddress s)
      (tcp_prefix sp dp (remoteSeq (sock s x)) (localSeq (sock s x)) 0x50 (FIN OR ACK) wnd) data"
    and "\<forall>t. onDataReceived v x (after q 20) t = Some (True, t)"
  shows "\<exists>s' w. handleSegment v x (remoteIP (sock s x)) q s = Some s' \<and> state (sock s' x) = CLOSE_WAIT
    \<and> remoteSeq (sock s' x) = remoteSeq (sock s x) + word_of_nat (length data)
    \<and> wire s' = wire s @ [ack_frame mac (macAddr s) (ip_ipAddress s) (remoteIP (sock s x)) (localPort (sock s x)) (remotePort (sock s x))
        (localSeq (sock s x)) (remoteSeq (sock s x) + word_of_nat (length data)) w]"
proof -
  let ?k = "sock s x" and ?next = "remoteSeq (sock s x) + word_of_nat (length data)"
  note c = assms(2) [unfolded can_send_def]
  let ?r = "upd x (\<lambda>k. k\<lparr>recvBuffer := Some (OffsetBuffer_new q (b_size q) 0), remoteWindow := wnd, remoteIP := remoteIP ?k\<rparr>) s"
  let ?t = "upd x (\<lambda>k. k\<lparr>remoteSeq := remoteSeq k + 1\<rparr>) (upd x (\<lambda>k. k\<lparr>recvBuffer := Some (after q 20)\<rparr>) ?r)"
  have r: "x < length (sockets ?r)" "b_ok ?r q" "state (sock ?r x) = ESTABLISHED" "remoteSeq ?k = remoteSeq (sock ?r x)"
    "localSeq ?k \<le> localSeq (sock ?r x)" "b_bytes ?r q = tcp_segment (remoteIP ?k) (ip_ipAddress s)
      (tcp_prefix sp dp (remoteSeq ?k) (localSeq ?k) 0x50 (FIN OR ACK) wnd) data"
    using c assms(3,4,6) by simp_all
  have "handleSegment v x (remoteIP ?k) q s = segment_process v x (FIN OR ACK) (localSeq ?k) (remoteSeq ?k) q ?r"
    using c by (intro handleSegment_valid [OF assms(3,6)]) simp_all
  also have "\<dots> = acknowledge v x ?next (True, ?t) \<bind> segment_fin v x (FIN OR ACK) (localSeq ?k) (word_of_nat (length data))"
    using segment_process_payload(1) [OF r(1-3,6) _ _ assms(5) r(4,5), of v] assms(7) by (simp add: seg_flags)
  finally have h: "handleSegment v x (remoteIP ?k) q s
      = acknowledge v x ?next (True, ?t) \<bind> segment_fin v x (FIN OR ACK) (localSeq ?k) (word_of_nat (length data))" .
  have "can_send x mac ?t" and kt: "sock ?t x = ?k\<lparr>recvBuffer := Some (after q 20), remoteWindow := wnd, remoteSeq := remoteSeq ?k + 1\<rparr>"
    using assms(2) c by (simp_all add: can_send_def)
  from quiet_events.acknowledge_ok [OF assms(1) this(1), of ?next] obtain s1 where s1: "acknowledge v x ?next (True, ?t) = Some s1"
    and t1: "transmits [ack_frame mac (macAddr ?t) (ip_ipAddress ?t) (remoteIP (sock ?t x)) (localPort (sock ?t x)) (remotePort (sock ?t x))
      (localSeq (sock ?t x)) ?next (getWindowSize v x ?t)] (upd x (\<lambda>k. k\<lparr>remoteSeq := ?next, stateTime := now ?t\<rparr>) ?t) s1" by blast
  have k1: "sock s1 x = (sock ?t x)\<lparr>remoteSeq := ?next, stateTime := now s\<rparr>" and x1: "x < length (sockets s1)"
    using c by (simp_all add: sock_transmits [OF t1] tcp_transmits [OF t1])
  note quiet = quiet_events.quiet [OF assms(1)] quiet_events.setState_quiet [OF assms(1)]
  have "segment_fin v x (FIN OR ACK) (localSeq ?k) (word_of_nat (length data)) s1
      = Some (upd x (\<lambda>k. k\<lparr>state := CLOSE_WAIT, stateTime := now s1\<rparr>) s1)"
    using segment_process_payload(2) [OF r(1-3,6) _ _ assms(5) r(4,5)] assms(4)
    by (simp add: segment_fin_def quiet k1 kt sock_states seg_flags)
  then have "handleSegment v x (remoteIP ?k) q s = Some (upd x (\<lambda>k. k\<lparr>state := CLOSE_WAIT, stateTime := now s1\<rparr>) s1)"
    unfolding h s1 bind.bind_lunit .
  moreover have "wire s1 = wire s @ [ack_frame mac (macAddr s) (ip_ipAddress s) (remoteIP ?k) (localPort ?k) (remotePort ?k) (localSeq ?k) ?next
      (getWindowSize v x ?t)]" by (simp add: transmits_fields [OF t1] kt)
  ultimately show ?thesis
    using x1 by (intro exI [of _ "upd x (\<lambda>k. k\<lparr>state := CLOSE_WAIT, stateTime := now s1\<rparr>) s1"] exI [of _ "getWindowSize v x ?t"]) (simp add: k1)
qed

text \<open>The peer of \<open>demo_reader\<close> has sent its last byte together with the FIN.\<close>

definition demo_last :: "u8 list" where
  "demo_last = tcp_segment [10, 0, 0, 1] [10, 0, 0, 2] (tcp_prefix 49152 80 42 977 0x50 (FIN OR ACK) 1000) [0x21]"

definition demo_leaving :: tcp where
  "demo_leaving = snd (b_write (OffsetBuffer (MemBuffer 0x600 21) 0 21) 0 demo_last demo_reader)"

lemma fin_with_data_is_not_acknowledged_witness:
  "\<exists>s'. handleSegment demo_v 0 [10, 0, 0, 1] (OffsetBuffer (MemBuffer 0x600 21) 0 21) demo_leaving = Some s'
    \<and> state (sock s' 0) = CLOSE_WAIT \<and> remoteSeq (sock s' 0) = 43"
proof -
  let ?b = "OffsetBuffer (MemBuffer 0x600 21) 0 21"
  have v: "quiet_events demo_v" unfolding demo_v_def by (rule socket_events.quiet_events_axioms)
  have w: "b_wok demo_reader ?b" by (rule Offset_wok [OF Mem_wok]) simp_all
  have rs: "rest_same demo_reader demo_leaving" unfolding demo_leaving_def by (rule rest_same_b_write)
  note t = rest_same_transmits [OF rs] and f = demo_tcp_fields demo_reader_def demo_socket_def
  have k: "sock demo_leaving 0 = sock demo_reader 0" "ip_ipAddress demo_leaving = [10, 0, 0, 2]"
    by (simp_all add: sock_transmits [OF t] ip_transmits [OF t] f demo_ip_simps)
  have c: "can_send 0 [2, 0, 0, 0, 0, 1] demo_leaving"
    using demo_connection(3) by (simp add: can_send_transmits [OF t])
  have ok: "b_ok demo_leaving ?b" using buf.wok_ok [OF w] by (simp add: rest_same_ok [OF rs])
  have es: "state (sock demo_leaving 0) = ESTABLISHED" by (simp add: k f)
  have "b_bytes demo_leaving ?b = demo_last"
    unfolding demo_leaving_def by (rule fill_bytes [OF w]) (simp_all add: demo_last_def tcp_segment_def be16_def)
  then have B: "b_bytes demo_leaving ?b = tcp_segment (remoteIP (sock demo_leaving 0)) (ip_ipAddress demo_leaving)
      (tcp_prefix 49152 80 (remoteSeq (sock demo_leaving 0)) (localSeq (sock demo_leaving 0)) 0x50 (FIN OR ACK) 1000) [0x21]"
    by (simp add: demo_last_def k f)
  have d: "\<forall>t. onDataReceived demo_v 0 (after ?b 20) t = Some (True, t)" by (simp add: demo_v_def Socket_vtable_def)
  have r: "remoteIP (sock demo_leaving 0) = [10, 0, 0, 1]" "remoteSeq (sock demo_leaving 0) = 42" by (simp_all add: k f)
  show ?thesis
    using fin_with_data_is_not_acknowledged [OF v c ok es _ B d] unfolding r by auto
qed

text \<open>
  C9: A socket that is registered cannot be unregistered. \<^verbatim>\<open>unregisterTCPHandler\<close> sets the pointer to the handler to null and then calls
  \<^verbatim>\<open>forceClose\<close>, which sends a segment through that pointer. Whatever the state of the connection, the call ends in undefined behaviour,
  and so does the destructor of the socket; only for a socket that is not registered they do nothing and free its buffers.
\<close>

theorem unregistering_follows_null:
  assumes "calm_events v" and x: "x < length (sockets s)"
  shows "unregisterTCPHandler v x s = (if sk_tcp (sock s x) then None else Some s)
    \<and> Socket_delete v x s = (if sk_tcp (sock s x) then None
        else Some (upd x (\<lambda>k. k\<lparr>recvBuffer := None, sendBuffer := None\<rparr>) s))"
proof -
  have "forceClose v x (upd x (\<lambda>k. k\<lparr>sk_tcp := False, sk_stash := None\<rparr>) s2) = None"
    if f: "forceClose v x s = Some s1" and u: "unregisterSocket x s1 = Some s2" for s1 s2
  proof -
    have b: "becomes x {CLOSED, LISTEN} s s1" by (rule calm_events.forceClose_becomes [OF assms(1) f x])
    then have "state (sock s2 x) \<noteq> TIME_WAIT" and "x < length (sockets s2)"
      using x unregisterSocket_sockets [OF u] by (auto simp: becomes_def sock_states sock_def)
    then show ?thesis by (intro forceClose_null) simp_all
  qed
  then have "forceClose v x s \<bind> (\<lambda>s. unregisterSocket x s
      \<bind> (\<lambda>s. forceClose v x (upd x (\<lambda>k. k\<lparr>sk_tcp := False, sk_stash := None\<rparr>) s))) = None"
    by (auto split: Option.bind_splits)
  then have "unregisterTCPHandler v x s = (if sk_tcp (sock s x) then None else Some s)"
    unfolding unregisterTCPHandler_def by simp
  then show ?thesis by (simp add: Socket_delete_def)
qed

lemma unregistering_follows_null_witness: "unregisterTCPHandler demo_v 0 demo_reader = None \<and> Socket_delete demo_v 0 demo_reader = None"
proof -
  have "0 < length (sockets demo_reader)" "sk_tcp (sock demo_reader 0)" by (simp_all add: demo_tcp_fields demo_reader_def demo_socket_def)
  then show ?thesis using unregistering_follows_null [OF demo_calm, of 0 demo_reader] by simp
qed

end
