(* ===== verification/Base64.thy ===== *)
theory Base64
  imports Prelude
begin

text \<open>
  Base64.cpp: Base64::Encode and Base64::Decode, verified against the encoding of RFC 4648. C
  strings are lists of bytes without the terminating 0. \<^verbatim>\<open>char\<close> is signed on the target, so the
  casts of an input character to \<^verbatim>\<open>uint32_t\<close> extend its sign; sizes are 16 bits wide.
\<close>

section \<open>The code\<close>

definition codec :: "u8 list" where
  "codec = map of_char ''ABCDEFGHIJKLMNOPQRSTUVWXYZabcdefghijklmnopqrstuvwxyz0123456789+/''"

definition neededChars :: "u16 \<Rightarrow> u16" where
  "neededChars len =
     (let n = len * 8 div 6
      in if (len * 8) mod 6 > 6 then n + 2 else if (len * 8) mod 6 > 0 then n + 1 else n)"

definition outputLength :: "u16 \<Rightarrow> u16" where
  "outputLength len =
     (let n = neededChars len in if n mod 4 > 0 then n + (4 - n mod 4) else n)"

text \<open>The 24 bits of the group that character \<open>i\<close> of the output belongs to.\<close>

definition encode_bank :: "u8 list \<Rightarrow> u16 \<Rightarrow> nat \<Rightarrow> u32" where
  "encode_bank input len i =
     (let startIndex = (word_of_nat ((i div 4) * 3) :: u16);
          bank = (if startIndex < len then push_bit 16 (scast (input ! unat startIndex)) else 0);
          bank = (if startIndex + 1 < len
                  then bank OR push_bit 8 (scast (input ! unat (startIndex + 1))) else bank)
      in if startIndex + 2 < len then bank OR scast (input ! unat (startIndex + 2)) else bank)"

definition encode_char :: "u8 list \<Rightarrow> u16 \<Rightarrow> nat \<Rightarrow> u8" where
  "encode_char input len i =
     (let bank = encode_bank input len i
      in if i < unat (neededChars len)
         then let index = (case i mod 4 of
                             0 \<Rightarrow> ucast (drop_bit 26 (push_bit 8 bank))
                           | Suc 0 \<Rightarrow> ucast (drop_bit 26 (push_bit 14 bank))
                           | Suc (Suc 0) \<Rightarrow> ucast (drop_bit 26 (push_bit 20 bank))
                           | _ \<Rightarrow> ucast (drop_bit 26 (push_bit 26 bank))) :: u8
              in codec ! unat index
         else of_char CHR ''='')"

text \<open>\<open>malloc_ok\<close> tells whether the allocation of the result succeeds.\<close>

definition Encode :: "bool \<Rightarrow> u8 list \<Rightarrow> u8 list option" where
  "Encode malloc_ok input =
     (let len = (word_of_nat (length input) :: u16)
      in if \<not> malloc_ok then None
         else Some (map (encode_char input len) [0 ..< unat (outputLength len)]))"

text \<open>The loop over the 64 values of the code, for one group of four input characters.\<close>

definition decode_step :: "u8 list \<Rightarrow> nat \<Rightarrow> nat \<Rightarrow> u32 \<Rightarrow> u32" where
  "decode_step input i q bank =
     (let bank = (if codec ! q = input ! i then bank OR push_bit 26 (word_of_nat q) else bank);
          bank = (if codec ! q = input ! (i + 1) then bank OR push_bit 20 (word_of_nat q) else bank);
          bank = (if codec ! q = input ! (i + 2) then bank OR push_bit 14 (word_of_nat q) else bank)
      in if codec ! q = input ! (i + 3) then bank OR push_bit 8 (word_of_nat q) else bank)"

definition decode_bank :: "u8 list \<Rightarrow> nat \<Rightarrow> u32" where
  "decode_bank input i = fold (decode_step input i) [0 ..< 64] 0"

text \<open>
  The loop over the groups. When \<open>inPlace\<close> is set the buffer written is the input itself;
  \<open>input\<close> is the array as the loop sees it, \<open>buffer\<close> the array it fills.
\<close>

fun decode_loop :: "bool \<Rightarrow> nat \<Rightarrow> nat \<Rightarrow> nat \<Rightarrow> u8 list \<Rightarrow> u8 list \<Rightarrow> u8 list" where
  "decode_loop inPlace 0 i b input buffer = buffer"
| "decode_loop inPlace (Suc k) i b input buffer =
     (let bank = decode_bank input i;
          buffer = buffer[b := ucast (drop_bit 24 bank), b + 1 := ucast (drop_bit 16 bank),
                          b + 2 := ucast (drop_bit 8 bank)];
          input = (if inPlace then buffer else input)
      in decode_loop inPlace k (i + 4) (b + 3) input buffer)"

text \<open>
  The array that Decode leaves; the input array is the string and its terminating 0. \<open>fresh\<close> is
  the memory \<^verbatim>\<open>malloc\<close> returns when the decoding is not in place, \<open>None\<close> when it fails.
\<close>

definition Decode :: "bool \<Rightarrow> u8 list option \<Rightarrow> u8 list \<Rightarrow> u8 list option" where
  "Decode inPlace fresh str =
     (let len = (word_of_nat (length str) :: u16);
          input = str @ [0];
          outlen = len * 6 div 8
      in if len mod 4 \<noteq> 0 then None
         else if \<not> inPlace \<and> fresh = None then None
         else let buffer = (if inPlace then input else the fresh)
              in Some ((decode_loop inPlace (unat len div 4) 0 0 input buffer)[unat outlen := 0]))"

text \<open>The C string at the start of an array.\<close>

definition cstring :: "u8 list \<Rightarrow> u8 list" where
  "cstring = takeWhile (\<lambda>c. c \<noteq> 0)"

section \<open>The encoding of RFC 4648\<close>

definition pad :: u8 where
  "pad = of_char CHR ''=''"

fun rfc_encode :: "u8 list \<Rightarrow> u8 list" where
  "rfc_encode [] = []"
| "rfc_encode [a] =
     [codec ! unat (drop_bit 2 a), codec ! unat (push_bit 4 (a AND 3)), pad, pad]"
| "rfc_encode [a, b] =
     [codec ! unat (drop_bit 2 a), codec ! unat (push_bit 4 (a AND 3) OR drop_bit 4 b),
      codec ! unat (push_bit 2 (b AND 15)), pad]"
| "rfc_encode (a # b # c # rest) =
     [codec ! unat (drop_bit 2 a), codec ! unat (push_bit 4 (a AND 3) OR drop_bit 4 b),
      codec ! unat (push_bit 2 (b AND 15) OR drop_bit 6 c), codec ! unat (c AND 63)]
     @ rfc_encode rest"

lemma length_codec [simp]: "length codec = 64"
  by (simp add: codec_def)

lemma distinct_codec: "distinct codec"
  by code_simp

lemma pad_not_codec: "pad \<notin> set codec"
  by code_simp

lemma length_rfc_encode: "length (rfc_encode xs) = 4 * ((length xs + 2) div 3)"
proof (induction xs rule: rfc_encode.induct)
  case (4 a b c rest)
  have "(length rest + 5) div 3 = (length rest + 2) div 3 + 1" by presburger
  with 4 show ?case by (simp add: add.commute)
qed auto

section \<open>Encode\<close>

lemma needed_nat:
  assumes "n = 3 * k + r" and "r < 3" and "n < 8192"
  shows "unat (neededChars (word_of_nat n)) = 4 * k + (if r = 0 then 0 else r + 1)"
    and "unat (outputLength (word_of_nat n)) = 4 * k + (if r = 0 then 0 else 4)"
proof -
  let ?w = "word_of_nat n * 8 :: u16" and ?N = "neededChars (word_of_nat n)"
  have n8: "unat ?w = 8 * n"
    using assms(3) by (subst unat_word_ariths) (simp add: unat_of_nat16)
  have k: "k < 2731" using assms by linarith
  have r: "r = 0 \<or> r = 1 \<or> r = 2" using assms(2) by linarith
  have "8 * n div 6 = 4 * k + r \<and> 8 * n mod 6 = 2 * r"
    unfolding assms(1) using r by (elim disjE) (simp_all, presburger+)
  then have m: "unat (?w div 6) = 4 * k + r" "unat (?w mod 6) = 2 * r"
    by (simp_all add: unat_div unat_mod n8)
  have c: "(?w mod 6 > 0) = (r > 0)" "\<not> ?w mod 6 > 6"
    using m(2) assms(2) by (simp_all add: less16)
  have "?N = (if r = 0 then ?w div 6 else ?w div 6 + 1)"
    using c by (simp add: neededChars_def)
  moreover have "unat (?w div 6 + 1) = 4 * k + r + 1"
    using m k assms(2) unat_add16 [of "?w div 6" 1] by simp
  ultimately show N: "unat ?N = 4 * k + (if r = 0 then 0 else r + 1)"
    using m(1) by simp
  have "(4 * k + (if r = 0 then 0 else r + 1)) mod 4 = (if r = 0 then 0 else (r + 1) mod 4)"
    by (simp only: mod_mult_self4 split: if_split) simp
  then have N4: "unat (?N mod 4) = (if r = 0 then 0 else (r + 1) mod 4)"
    by (simp add: unat_mod N)
  then have "\<not> ?N mod 4 > 0 \<longleftrightarrow> r = 0" and "?N mod 4 \<le> 4"
    using r by (auto simp: less16 le16_iff)
  moreover from this(2) have "unat (4 - ?N mod 4) = 4 - unat (?N mod 4)"
    by (simp add: unat_sub16)
  ultimately show "unat (outputLength (word_of_nat n)) = 4 * k + (if r = 0 then 0 else 4)"
    using r k N N4 unat_add16 [of ?N "4 - ?N mod 4"] by (auto simp: outputLength_def Let_def)
qed

text \<open>The four indices of a group, from its 24 bits.\<close>

definition bank_of :: "u8 \<Rightarrow> u8 \<Rightarrow> u8 \<Rightarrow> u32" where
  "bank_of a b c = push_bit 16 (ucast a) OR push_bit 8 (ucast b) OR ucast c"

lemma low_bits: "(a :: u8) AND 3 = take_bit 2 a" "(a :: u8) AND 15 = take_bit 4 a" "(a :: u8) AND 63 = take_bit 6 a"
  by (simp_all add: take_bit_eq_mask mask_eq_exp_minus_1)

lemma bank_bit:
  "bit (bank_of a b c) n \<longleftrightarrow> n < 24 \<and>
     (if n < 8 then bit c n else if n < 16 then bit b (n - 8) else bit a (n - 16))"
  unfolding bank_of_def by (auto simp: bit_simps not_less dest: bit_imp_le_length)

lemma bank_index:
  "ucast (drop_bit 26 (push_bit 8 (bank_of a b c))) = drop_bit 2 a"
  "ucast (drop_bit 26 (push_bit 14 (bank_of a b c))) = push_bit 4 (a AND 3) OR drop_bit 4 b"
  "ucast (drop_bit 26 (push_bit 20 (bank_of a b c))) = push_bit 2 (b AND 15) OR drop_bit 6 c"
  "ucast (drop_bit 26 (push_bit 26 (bank_of a b c))) = c AND 63"
  unfolding low_bits
  by ((intro bit_word_eqI, simp add: bit_simps bank_bit; intro impI conjI iffI)?;
      auto simp: ac_simps numeral_eq_Suc dest: bit_imp_le_length)+

lemma ascii_scast:
  assumes "(a :: u8) < 128"
  shows "(scast a :: u32) = ucast a"
proof -
  have "unat a < 2 ^ 7" using assms by (simp add: word_less_nat_alt)
  then have "unat (take_bit 7 a) = unat a"
    unfolding unsigned_take_bit_eq by (rule take_bit_nat_eq_self)
  then have "take_bit 7 a = a" by (simp only: word_unat_eq_iff)
  then have "\<not> bit a n" if "7 \<le> n" for n
    using that by (metis bit_take_bit_iff not_less)
  then show ?thesis by (intro bit_word_eqI) (auto simp: bit_simps min_def)
qed

lemma map_chunks: "map f [0 ..< 4 * m] = concat (map (\<lambda>k. map f [4 * k ..< 4 * k + 4]) [0 ..< m])"
proof (induction m)
  case (Suc m)
  have "[0 ..< 4 * Suc m] = [0 ..< 4 * m] @ [4 * m ..< 4 * m + 4]"
    using upt_add_eq_append [of 0 "4 * m" 4] by (simp add: add.commute)
  with Suc show ?case by simp
qed simp

lemma rfc_chunks:
  "rfc_encode xs = concat (map (\<lambda>k. rfc_encode (take 3 (drop (3 * k) xs))) [0 ..< (length xs + 2) div 3])"
proof (induction xs rule: rfc_encode.induct)
  case (4 a b c rest)
  let ?f = "\<lambda>k. rfc_encode (take 3 (drop (3 * k) (a # b # c # rest)))"
  let ?U = "[0 ..< (length rest + 2) div 3]"
  have "(length (a # b # c # rest) + 2) div 3 = Suc ((length rest + 2) div 3)" by simp
  then have U: "[0 ..< (length (a # b # c # rest) + 2) div 3] = 0 # map Suc ?U"
    by (simp add: upt_conv_Cons map_Suc_upt del: upt_Suc)
  have "?f (Suc k) = rfc_encode (take 3 (drop (3 * k) rest))" for k by (simp add: numeral_3_eq_3)
  moreover have "?f 0 = rfc_encode [a, b, c]" by (simp add: numeral_3_eq_3)
  ultimately have "concat (map ?f (0 # map Suc ?U))
      = rfc_encode [a, b, c] @ concat (map (\<lambda>k. rfc_encode (take 3 (drop (3 * k) rest))) ?U)"
    by (simp only: list.map map_map comp_def concat.simps)
  then show ?case unfolding U "4.IH" [symmetric] by simp
qed simp_all

lemma encode_bank_at:
  assumes "word_of_nat ((i div 4) * 3) = (w :: u16)" and "unat w = p" and "unat (w + 1) = p + 1"
    and "unat (w + 2) = p + 2" and "unat len = length xs" and "\<forall>c \<in> set xs. c < 128"
    and "p < length xs"
  shows "encode_bank xs len i = bank_of (xs ! p) (if p + 1 < length xs then xs ! (p + 1) else 0)
    (if p + 2 < length xs then xs ! (p + 2) else 0)"
proof -
  have sc: "(scast (xs ! i) :: u32) = ucast (xs ! i)" if "i < length xs" for i
    using that assms(6) by (intro ascii_scast) auto
  show ?thesis
    using assms(2-5,7) unfolding encode_bank_def assms(1) Let_def less16 bank_of_def
    by (simp add: sc or.assoc)
qed

text \<open>How many characters of a group are not padding.\<close>

lemma needed_group:
  assumes "n < 8192" and "3 * k < n" and "j < 4"
  shows "4 * k + j < unat (neededChars (word_of_nat n)) \<longleftrightarrow> j \<le> 1 \<or> 3 * k + j \<le> n"
proof -
  obtain q r where qr: "n = 3 * q + r" "r < 3"
    using mod_less_divisor [of 3 n] by (metis mult_div_mod_eq zero_less_numeral)
  have "k < q \<or> k = q \<and> 0 < r" using assms(2) qr by linarith
  moreover have "unat (neededChars (word_of_nat n)) = 4 * q + (if r = 0 then 0 else r + 1)"
    using qr assms(1) by (intro needed_nat)
  ultimately show ?thesis using assms(3) qr by auto
qed

lemma rfc_group:
  "p < length xs \<Longrightarrow> rfc_encode (take 3 (drop p xs)) =
    (let b = (if p + 1 < length xs then xs ! (p + 1) else 0);
         c = (if p + 2 < length xs then xs ! (p + 2) else 0)
     in [codec ! unat (drop_bit 2 (xs ! p)), codec ! unat (push_bit 4 (xs ! p AND 3) OR drop_bit 4 b),
         if p + 1 < length xs then codec ! unat (push_bit 2 (b AND 15) OR drop_bit 6 c) else pad,
         if p + 2 < length xs then codec ! unat (c AND 63) else pad])"
  by (cases "length xs - p"; cases "length xs - p - 1"; cases "length xs - p - 2")
    (auto simp: Let_def Cons_nth_drop_Suc [symmetric] numeral_3_eq_3)

lemma encode_char_group:
  assumes len: "length xs < 8192" and ascii: "\<forall>c \<in> set xs. c < 128" and k: "3 * k < length xs"
  shows "map (encode_char xs (word_of_nat (length xs))) [4 * k ..< 4 * k + 4]
    = rfc_encode (take 3 (drop (3 * k) xs))"
proof -
  let ?n = "word_of_nat (length xs) :: u16" and ?w = "word_of_nat (3 * k) :: u16"
  let ?b = "if 3 * k + 1 < length xs then xs ! (3 * k + 1) else 0"
  let ?c = "if 3 * k + 2 < length xs then xs ! (3 * k + 2) else 0"
  have n: "unat ?n = length xs" using len by (simp add: unat_of_nat16)
  have u: "unat ?w = 3 * k" using len k by (intro unat_of_nat16) linarith
  have u1: "unat (?w + 1) = 3 * k + 1" "unat (?w + 2) = 3 * k + 2"
    using u len k unat_add16 [of ?w 1] unat_add16 [of ?w 2] by simp_all
  have bank: "encode_bank xs ?n (4 * k + j) = bank_of (xs ! (3 * k)) ?b ?c" if "j < 4" for j
    using that u u1 n ascii k by (intro encode_bank_at [where w = ?w]) (simp_all add: mult.commute)
  define bk where "bk = bank_of (xs ! (3 * k)) ?b ?c"
  define E where "E j = (if j \<le> 1 \<or> 3 * k + j \<le> length xs
    then codec ! unat (case j of 0 \<Rightarrow> ucast (drop_bit 26 (push_bit 8 bk)) :: u8
      | Suc 0 \<Rightarrow> ucast (drop_bit 26 (push_bit 14 bk))
      | Suc (Suc 0) \<Rightarrow> ucast (drop_bit 26 (push_bit 20 bk))
      | _ \<Rightarrow> ucast (drop_bit 26 (push_bit 26 bk))) else pad)" for j
  have E: "encode_char xs ?n (4 * k + j) = E j" if "j < 4" for j
    using that unfolding encode_char_def bank [OF that] needed_group [OF len k that] E_def bk_def pad_def Let_def
    by simp
  have "[4 * k ..< 4 * k + 4] = map (\<lambda>j. 4 * k + j) [0 ..< 4]"
    by (simp add: map_add_upt add.commute)
  then have "map (encode_char xs ?n) [4 * k ..< 4 * k + 4] = map E [0 ..< 4]"
    by (simp only: map_map comp_def) (intro map_cong refl E, simp)
  also have "\<dots> = [E 0, E 1, E 2, E 3]" by (simp add: upt_conv_Cons numeral_2_eq_2 numeral_3_eq_3)
  finally show ?thesis
    unfolding rfc_group [OF k] by (simp add: E_def Let_def bank_index bk_def numeral_2_eq_2 numeral_3_eq_3)
qed

lemma output_length:
  assumes "n < 8192"
  shows "unat (outputLength (word_of_nat n)) = 4 * ((n + 2) div 3)"
proof -
  obtain q r where qr: "n = 3 * q + r" "r < 3"
    using mod_less_divisor [of 3 n] by (metis mult_div_mod_eq zero_less_numeral)
  then have "(n + 2) div 3 = q + (if r = 0 then 0 else 1)" by auto
  then show ?thesis using needed_nat(2) [OF qr assms] by simp
qed

lemma Encode_ascii:
  assumes "length xs < 8192" and "\<forall>c \<in> set xs. c < 128"
  shows "Encode True xs = Some (rfc_encode xs)"
proof -
  let ?e = "encode_char xs (word_of_nat (length xs))"
  have "map ?e [0 ..< 4 * ((length xs + 2) div 3)]
      = concat (map (\<lambda>k. map ?e [4 * k ..< 4 * k + 4]) [0 ..< (length xs + 2) div 3])"
    by (rule map_chunks)
  also have "map (\<lambda>k. map ?e [4 * k ..< 4 * k + 4]) [0 ..< (length xs + 2) div 3]
      = map (\<lambda>k. rfc_encode (take 3 (drop (3 * k) xs))) [0 ..< (length xs + 2) div 3]"
    by (intro map_cong refl encode_char_group assms) auto
  also have "concat \<dots> = rfc_encode xs" by (rule rfc_chunks [symmetric])
  finally show ?thesis by (simp only: Encode_def output_length [OF assms(1)] Let_def simp_thms if_False)
qed

section \<open>Decode\<close>

text \<open>The 6-bit value a character stands for; padding contributes no bits.\<close>

definition stands_for :: "u8 \<Rightarrow> nat \<Rightarrow> bool" where
  "stands_for c x = (x < 64 \<and> c = codec ! x \<or> c = pad \<and> x = 0)"

lemma decode_step_bit:
  "bit (fold (decode_step input i) qs bank) m \<longleftrightarrow> bit bank m \<or> (\<exists>q \<in> set qs.
     codec ! q = input ! i \<and> bit (push_bit 26 (word_of_nat q :: u32)) m \<or>
     codec ! q = input ! (i + 1) \<and> bit (push_bit 20 (word_of_nat q :: u32)) m \<or>
     codec ! q = input ! (i + 2) \<and> bit (push_bit 14 (word_of_nat q :: u32)) m \<or>
     codec ! q = input ! (i + 3) \<and> bit (push_bit 8 (word_of_nat q :: u32)) m)"
proof (induction qs arbitrary: bank)
  case Nil
  then show ?case by simp
next
  case (Cons q qs)
  have "bit (decode_step input i q bank) m \<longleftrightarrow> bit bank m \<or>
     codec ! q = input ! i \<and> bit (push_bit 26 (word_of_nat q :: u32)) m \<or>
     codec ! q = input ! (i + 1) \<and> bit (push_bit 20 (word_of_nat q :: u32)) m \<or>
     codec ! q = input ! (i + 2) \<and> bit (push_bit 14 (word_of_nat q :: u32)) m \<or>
     codec ! q = input ! (i + 3) \<and> bit (push_bit 8 (word_of_nat q :: u32)) m"
    unfolding decode_step_def Let_def by (simp only: bit_or_iff split: if_split) blast
  with Cons show ?case by (simp only: fold.simps comp_def list.set bex_simps) blast
qed

lemma stands_for_bits:
  assumes "stands_for c x"
  shows "(\<exists>q \<in> set [0 ..< 64]. codec ! q = c \<and> bit (push_bit k (word_of_nat q :: u32)) m)
    \<longleftrightarrow> bit (push_bit k (word_of_nat x :: u32)) m"
proof (cases "c = pad")
  case True
  then have "codec ! q \<noteq> c" if "q < 64" for q
    using that pad_not_codec by (metis length_codec nth_mem)
  moreover have "x = 0 \<or> x < 64 \<and> c = codec ! x" using assms by (auto simp: stands_for_def)
  ultimately show ?thesis by auto
next
  case False
  then have "x < 64" "c = codec ! x" using assms by (auto simp: stands_for_def)
  then show ?thesis using distinct_codec by (auto simp: nth_eq_iff_index_eq)
qed

lemma decode_bank_value:
  assumes "stands_for (input ! i) a" and "stands_for (input ! (i + 1)) b"
    and "stands_for (input ! (i + 2)) c" and "stands_for (input ! (i + 3)) d"
  shows "decode_bank input i = push_bit 26 (word_of_nat a) OR push_bit 20 (word_of_nat b)
    OR push_bit 14 (word_of_nat c) OR push_bit 8 (word_of_nat d)"
  using stands_for_bits [OF assms(1), of 26] stands_for_bits [OF assms(2), of 20]
    stands_for_bits [OF assms(3), of 14] stands_for_bits [OF assms(4), of 8]
  unfolding decode_bank_def
  by (intro bit_word_eqI) (simp only: decode_step_bit bit_or_iff bit_0_eq bot_apply bot_bool_def
    bex_disj_distrib simp_thms)

definition bytes3 :: "u32 \<Rightarrow> u8 list" where
  "bytes3 bank = [ucast (drop_bit 24 bank), ucast (drop_bit 16 bank), ucast (drop_bit 8 bank)]"

text \<open>The loop fills the buffer, in place or not: a group is read before its cells are overwritten.\<close>

lemma decode_bank_cong:
  assumes "\<And>j. i \<le> j \<Longrightarrow> j < i + 4 \<Longrightarrow> input ! j = input' ! j"
  shows "decode_bank input i = decode_bank input' i"
proof -
  have "decode_step input i q = decode_step input' i q" for q
    using assms [of i] assms [of "i + 1"] assms [of "i + 2"] assms [of "i + 3"]
    by (simp add: decode_step_def fun_eq_iff)
  then have "decode_step input i = decode_step input' i" by (rule ext)
  then show ?thesis by (simp only: decode_bank_def)
qed

lemma length_bytes3 [simp]: "length (bytes3 w) = 3"
  by (simp add: bytes3_def)

lemma length_groups [simp]: "length (concat (map (\<lambda>j. bytes3 (B j)) js)) = 3 * length js"
  by (induction js) auto

lemma decode_loop_fills:
  assumes "\<forall>j. k \<le> j \<and> j < k + n \<longrightarrow> decode_bank input (4 * j) = B j"
    and "inPlace \<longrightarrow> input = buffer" and "3 * (k + n) \<le> length buffer"
  shows "decode_loop inPlace n (4 * k) (3 * k) input buffer
    = put (3 * k) (concat (map (\<lambda>j. bytes3 (B j)) [k ..< k + n])) buffer"
  using assms
proof (induction n arbitrary: k input buffer)
  case 0
  then show ?case by (simp add: put_def)
next
  case (Suc n)
  let ?b = "buffer[3 * k := ucast (drop_bit 24 (B k)), 3 * k + 1 := ucast (drop_bit 16 (B k)),
    3 * k + 2 := ucast (drop_bit 8 (B k))]"
  let ?i = "if inPlace then ?b else input"
  let ?ys = "concat (map (\<lambda>j. bytes3 (B j)) [Suc k ..< Suc k + n])"
  have B: "decode_bank input (4 * k) = B k" using Suc.prems by simp
  have same: "decode_bank ?i (4 * j) = B j" if "Suc k \<le> j" "j < Suc k + n" for j
  proof -
    have "decode_bank ?i (4 * j) = decode_bank input (4 * j)"
      using that Suc.prems(2) by (intro decode_bank_cong) auto
    then show ?thesis using Suc.prems(1) that by simp
  qed
  have "decode_loop inPlace (Suc n) (4 * k) (3 * k) input buffer
      = decode_loop inPlace n (4 * Suc k) (3 * Suc k) ?i ?b"
    by (simp add: Let_def B add.commute)
  also have "\<dots> = put (3 * Suc k) ?ys ?b"
    using Suc.prems same by (intro Suc.IH) auto
  also have "?b = put (3 * k) (bytes3 (B k)) buffer"
    using Suc.prems(3) by (intro nth_equalityI) (auto simp: nth_put bytes3_def nth_list_update nth_Cons')
  also have "put (3 * Suc k) ?ys \<dots> = put (3 * k) (bytes3 (B k) @ ?ys) buffer"
    using Suc.prems(3) put_append [of "3 * k" "bytes3 (B k)" ?ys buffer]
    by (simp add: add.commute del: upt_Suc)
  also have "bytes3 (B k) @ ?ys = concat (map (\<lambda>j. bytes3 (B j)) [k ..< k + Suc n])"
    by (simp add: upt_conv_Cons del: upt_Suc)
  finally show ?case .
qed

text \<open>What the four characters of a group stand for, and the bytes they decode to.\<close>

lemma rfc_nth:
  "3 * j < length xs \<Longrightarrow> t < 4 \<Longrightarrow>
    rfc_encode xs ! (4 * j + t) = rfc_encode (take 3 (drop (3 * j) xs)) ! t"
proof (induction xs arbitrary: j rule: rfc_encode.induct)
  case (4 a b c rest)
  show ?case
  proof (cases j)
    case 0
    then show ?thesis using 4 by (auto simp: less_Suc_eq eval_nat_numeral)
  next
    case (Suc i)
    have "rfc_encode (a # b # c # rest) ! (4 * Suc i + t) = rfc_encode rest ! (4 * i + t)"
      by (simp add: eval_nat_numeral)
    also have "\<dots> = rfc_encode (take 3 (drop (3 * i) rest)) ! t" using 4 Suc by simp
    also have "drop (3 * i) rest = drop (3 * Suc i) (a # b # c # rest)" by (simp add: eval_nat_numeral)
    finally show ?thesis using Suc by simp
  qed
next
  case (3 a b)
  then have "j = 0" by simp
  then show ?case by simp
qed simp_all

lemma index6:
  "unat (ucast (drop_bit 26 w) :: u8) < 64"
  "word_of_nat (unat (ucast (drop_bit 26 w) :: u8)) = drop_bit 26 (w :: u32)"
proof -
  have u: "unat (drop_bit 26 w) < 64"
    using unat32_less [of w] unfolding unat_drop_bit_eq by (simp add: drop_bit_eq_div less_mult_imp_div_less)
  then have "unat (ucast (drop_bit 26 w) :: u8) = unat (drop_bit 26 w)"
    by (simp add: unsigned_ucast_eq take_bit_eq_mod)
  then show "unat (ucast (drop_bit 26 w) :: u8) < 64"
    "word_of_nat (unat (ucast (drop_bit 26 w) :: u8)) = drop_bit 26 w"
    using u by simp_all
qed

lemma sextets:
  "push_bit 26 (drop_bit 26 (push_bit 8 w)) OR push_bit 20 (drop_bit 26 (push_bit 14 w))
    OR push_bit 14 (drop_bit 26 (push_bit 20 w)) OR push_bit 8 (drop_bit 26 (push_bit 26 w))
    = push_bit 8 (w :: u32)"
proof (rule bit_word_eqI)
  fix n
  assume "n < LENGTH(32)"
  then consider "n < 8" | m where "n = 8 + m" "m < 6" | m where "n = 14 + m" "m < 6"
    | m where "n = 20 + m" "m < 6" | m where "n = 26 + m" "m < 6"
    by (cases "n < 8"; cases "n < 14"; cases "n < 20"; cases "n < 26")
      (auto dest!: le_Suc_ex simp: not_less)
  then show "bit (push_bit 26 (drop_bit 26 (push_bit 8 w)) OR push_bit 20 (drop_bit 26 (push_bit 14 w))
      OR push_bit 14 (drop_bit 26 (push_bit 20 w)) OR push_bit 8 (drop_bit 26 (push_bit 26 w))) n
    = bit (push_bit 8 w) n"
    by cases (simp_all add: bit_simps)
qed

lemma bytes3_bank: "bytes3 (push_bit 8 (bank_of a b c)) = [a, b, c]"
  unfolding bytes3_def by (auto intro!: bit_word_eqI simp: bit_simps bank_bit ac_simps)

text \<open>The bytes of the message, continued with zeros.\<close>

definition byte_at :: "u8 list \<Rightarrow> nat \<Rightarrow> u8" where
  "byte_at xs i = (if i < length xs then xs ! i else 0)"

lemma rfc_stands_for:
  assumes "3 * j < length xs"
  shows "decode_bank (rfc_encode xs @ rest) (4 * j)
    = push_bit 8 (bank_of (byte_at xs (3 * j)) (byte_at xs (3 * j + 1)) (byte_at xs (3 * j + 2)))"
proof -
  let ?a = "byte_at xs (3 * j)" and ?b = "byte_at xs (3 * j + 1)" and ?c = "byte_at xs (3 * j + 2)"
  let ?w = "bank_of ?a ?b ?c" and ?s = "rfc_encode xs @ rest"
  let ?i = "\<lambda>k. ucast (drop_bit 26 (push_bit k ?w)) :: u8"
  have "j < (length xs + 2) div 3" using assms by linarith
  then have "4 * j + 3 < length (rfc_encode xs)"
    unfolding length_rfc_encode by linarith
  then have nth: "?s ! (4 * j + t) = rfc_encode (take 3 (drop (3 * j) xs)) ! t" if "t < 4" for t
    using that rfc_nth [OF assms that] by (simp add: nth_append)
  note g = rfc_group [OF assms, folded byte_at_def, unfolded Let_def]
  have bounds: "unat (?i k) < 64" for k by (rule index6)
  have a: "xs ! (3 * j) = ?a" using assms by (simp add: byte_at_def)
  have "stands_for (?s ! (4 * j)) (unat (?i 8))"
    using nth [of 0] bounds [of 8] unfolding g a bank_index stands_for_def by simp
  moreover have "stands_for (?s ! (4 * j + 1)) (unat (?i 14))"
    using nth [of 1] bounds [of 14] unfolding g a bank_index stands_for_def by simp
  moreover have "stands_for (?s ! (4 * j + 2)) (unat (?i 20))"
    using nth [of 2] bounds [of 20] unfolding g a bank_index stands_for_def
    by (simp add: byte_at_def)
  moreover have "stands_for (?s ! (4 * j + 3)) (unat (?i 26))"
    using nth [of 3] bounds [of 26] unfolding g a bank_index stands_for_def
    by (simp add: byte_at_def)
  ultimately show ?thesis
    by (simp only: decode_bank_value index6(2) sextets)
qed

lemma concat_triples: "concat (map (\<lambda>j. [f (3 * j), f (3 * j + 1), f (3 * j + 2)]) [0 ..< m]) = map f [0 ..< 3 * m]"
proof (induction m)
  case (Suc m)
  have "[0 ..< 3 * Suc m] = [0 ..< 3 * m] @ [3 * m, 3 * m + 1, 3 * m + 2]"
    by (simp add: eval_nat_numeral)
  with Suc show ?case by simp
qed simp

lemma decode_loop_rfc:
  assumes "length xs \<le> 8190" and "inPlace \<longrightarrow> rfc_encode xs @ [0] = buffer"
    and m: "m = (length xs + 2) div 3" and "3 * m \<le> length buffer"
  shows "decode_loop inPlace m 0 0 (rfc_encode xs @ [0]) buffer = put 0 (map (byte_at xs) [0 ..< 3 * m]) buffer"
proof -
  let ?B = "\<lambda>j. push_bit 8 (bank_of (byte_at xs (3 * j)) (byte_at xs (3 * j + 1)) (byte_at xs (3 * j + 2)))"
  have "3 * j < length xs" if "j < m" for j using that m by linarith
  then have "decode_loop inPlace m (4 * 0) (3 * 0) (rfc_encode xs @ [0]) buffer
      = put (3 * 0) (concat (map (\<lambda>j. bytes3 (?B j)) [0 ..< 0 + m])) buffer"
    using assms(2,4) by (intro decode_loop_fills) (simp_all add: rfc_stands_for)
  then show ?thesis by (simp only: bytes3_bank concat_triples add_0 mult_0_right)
qed

lemma takeWhile_cut:
  "(0 :: u8) \<notin> set xs \<Longrightarrow> length xs < length bs \<Longrightarrow> take (length xs) bs = xs \<Longrightarrow> bs ! length xs = 0 \<Longrightarrow>
    takeWhile (\<lambda>c. c \<noteq> 0) bs = xs"
proof -
  assume a: "0 \<notin> set xs" "length xs < length bs" "take (length xs) bs = xs" "bs ! length xs = 0"
  then have "bs = xs @ 0 # drop (Suc (length xs)) bs"
    by (metis append_take_drop_id Cons_nth_drop_Suc)
  with a(1) show ?thesis by (metis (mono_tags, lifting) takeWhile_append2 takeWhile.simps(2) append_Nil2)
qed

lemma Decode_rfc:
  assumes "length xs \<le> 8190" and "0 \<notin> set xs"
    and "\<not> inPlace \<Longrightarrow> \<exists>buf. fresh = Some buf \<and> 3 * ((length xs + 2) div 3) < length buf"
  shows "\<exists>arr. Decode inPlace fresh (rfc_encode xs) = Some arr \<and> cstring arr = xs"
proof -
  define m where "m = (length xs + 2) div 3"
  let ?buf = "if inPlace then rfc_encode xs @ [0] else the fresh"
  let ?len = "word_of_nat (4 * m) :: u16"
  have m: "m \<le> 2730" "length xs \<le> 3 * m" using assms(1) by (auto simp: m_def)
  have len: "length (rfc_encode xs) = 4 * m" by (simp add: length_rfc_encode m_def)
  have u: "unat ?len = 4 * m" using m by (intro unat_of_nat16) simp
  have "unat (?len * 6) = 24 * m" using m by (subst unat_word_ariths) (simp only: u, simp)
  then have out: "unat (?len * 6 div 8) = 3 * m" by (simp add: unat_div)
  have "unat (?len mod 4) = 4 * m mod 4" by (simp only: unat_mod u) simp
  then have "unat (?len mod 4) = 0" by simp
  then have mod: "?len mod 4 = 0" by (simp only: unat_eq_zero)
  have fits: "3 * m < length ?buf" using assms(3) by (auto simp: len m_def)
  have loop: "decode_loop inPlace m 0 0 (rfc_encode xs @ [0]) ?buf = put 0 (map (byte_at xs) [0 ..< 3 * m]) ?buf"
    using assms(1) fits by (intro decode_loop_rfc) (auto simp: m_def)
  let ?arr = "(put 0 (map (byte_at xs) [0 ..< 3 * m]) ?buf)[3 * m := 0]"
  have "Decode inPlace fresh (rfc_encode xs) = Some ?arr"
    using assms(3) loop unfolding Decode_def Let_def len out u mod by auto
  moreover have "cstring ?arr = xs"
    unfolding cstring_def
  proof (rule takeWhile_cut)
    show "length xs < length ?arr" using fits m by simp
    show "take (length xs) ?arr = xs"
      using fits m by (intro nth_equalityI) (auto simp: nth_put nth_list_update byte_at_def)
    show "?arr ! length xs = 0"
      using fits m by (cases "length xs = 3 * m") (auto simp: nth_put byte_at_def)
  qed (rule assms(2))
  ultimately show ?thesis by blast
qed

section \<open>Properties\<close>

text \<open>
  C27: Encode is the encoding of RFC 4648 on ASCII input: for a string of fewer than 8192 characters
  (where \<^verbatim>\<open>length * 8\<close> does not wrap), all below 128, and a successful allocation, the result is the
  encoding of the string, with the padding the standard prescribes.
\<close>

theorem Encode_is_rfc4648:
  assumes "length xs < 8192" and "\<forall>c \<in> set xs. c < 128"
  shows "Encode True xs = Some (rfc_encode xs) \<and> length (rfc_encode xs) = 4 * ((length xs + 2) div 3)"
  using assms by (simp add: Encode_ascii length_rfc_encode)

lemma Encode_is_rfc4648_witness:
  "Encode True (map of_char ''Aladdin'') = Some (map of_char ''QWxhZGRpbg=='')"
proof -
  have "\<forall>c \<in> set (map of_char ''Aladdin''). (c :: u8) < 128" by code_simp
  then have "Encode True (map of_char ''Aladdin'') = Some (rfc_encode (map of_char ''Aladdin''))"
    using Encode_is_rfc4648 [of "map of_char ''Aladdin''"] by simp
  moreover have "rfc_encode (map of_char ''Aladdin'') = map of_char ''QWxhZGRpbg==''" by code_simp
  ultimately show ?thesis by (simp only:)
qed

text \<open>
  C26: Decode inverts Encode. For a non-empty or empty C string of at most 8190 ASCII characters, decoding its
  encoding, in place or into fresh memory of the size requested, gives a C string equal to the
  original: the padding decodes to the terminating zeros.
\<close>

theorem Decode_inverts_Encode:
  assumes "length xs \<le> 8190" and "\<forall>c \<in> set xs. c < 128 \<and> c \<noteq> 0"
    and "\<not> inPlace \<Longrightarrow> \<exists>buf. fresh = Some buf \<and> 3 * ((length xs + 2) div 3) < length buf"
  shows "\<exists>enc arr. Encode True xs = Some enc \<and> Decode inPlace fresh enc = Some arr \<and> cstring arr = xs"
proof -
  have "Encode True xs = Some (rfc_encode xs)" using assms(1,2) by (intro Encode_ascii) auto
  moreover have "\<exists>arr. Decode inPlace fresh (rfc_encode xs) = Some arr \<and> cstring arr = xs"
    using assms(2) by (intro Decode_rfc assms(1,3)) auto
  ultimately show ?thesis by blast
qed

lemma Decode_inverts_Encode_witness:
  "\<exists>enc arr. Encode True (map of_char ''a:b'') = Some enc \<and> Decode False (Some (replicate 4 7)) enc = Some arr
    \<and> cstring arr = map of_char ''a:b''"
proof (rule Decode_inverts_Encode)
  show "\<forall>c \<in> set (map of_char ''a:b''). (c :: u8) < 128 \<and> c \<noteq> 0" by code_simp
qed simp_all

lemma high_bit:
  assumes "(128 :: u8) \<le> b"
  shows "bit b 7"
proof -
  have "unat b div 128 = 1"
    using assms unat8_less [of b] by (simp add: word_le_nat_alt del: unat8_less)
  then have "bit (unat b) 7" by (simp add: bit_iff_odd)
  then show ?thesis by (simp add: bit_unsigned_iff)
qed

lemma encode_bank_high:
  assumes "128 \<le> b" and "i < 4"
  shows "encode_bank [a, b] 2 i = encode_bank [a', b] 2 i"
proof -
  have i: "i div 4 = 0" using assms(2) by simp
  have "push_bit 16 (scast a) OR push_bit 8 (scast b) = push_bit 16 (scast a') OR (push_bit 8 (scast b) :: u32)"
    using high_bit [OF assms(1)] by (intro bit_word_eqI) (auto simp: bit_simps min_def)
  then show ?thesis by (simp add: encode_bank_def i)
qed

text \<open>
  A character with its top bit set is encoded wrongly. The cast of the signed \<^verbatim>\<open>char\<close> to
  \<^verbatim>\<open>uint32_t\<close> extends the sign over the bits of the characters before it in the group: when the
  second of two characters is at least 128, the encoding does not depend on the first.
\<close>

theorem high_byte_hides_predecessor:
  assumes "128 \<le> b"
  shows "Encode True [a, b] = Encode True [a', b]"
proof -
  have "unat (outputLength 2) = 4" by code_simp
  then show ?thesis
    using encode_bank_high [OF assms, of _ a a'] by (simp add: Encode_def encode_char_def)
qed

lemma high_byte_hides_predecessor_witness:
  "Encode True [0x41, 0xE9] = Encode True [0x7A, 0xE9]"
  by (rule high_byte_hides_predecessor) simp

end
