(* ===== verification/SMTPClient.thy ===== *)
theory SMTPClient
  imports Stack Base64
begin

text \<open>
  SMTPClient.h/.cpp: a socket that sends one email after another. A C string is the list of its characters without the terminating 0, a
  null pointer is \<open>None\<close>. The events of the class call operations of its base class, which may fire events again: \<open>v\<close> is the table
  for these.
\<close>

section \<open>State\<close>

definition EMAIL_INIT :: u8 where "EMAIL_INIT = 0"
definition EMAIL_SENDING :: u8 where "EMAIL_SENDING = 1"
definition EMAIL_SENT :: u8 where "EMAIL_SENT = 2"
definition EMAIL_FAIL :: u8 where "EMAIL_FAIL = 3"

lemmas email_states = EMAIL_INIT_def EMAIL_SENDING_def EMAIL_SENT_def EMAIL_FAIL_def

definition SMTP_INIT :: u8 where "SMTP_INIT = 0"
definition SMTP_SERVER_READY :: u8 where "SMTP_SERVER_READY = 1"
definition SMTP_CLIENT_GREETED :: u8 where "SMTP_CLIENT_GREETED = 2"
definition SMTP_READY_FOR_AUTH :: u8 where "SMTP_READY_FOR_AUTH = 3"
definition SMTP_CLIENT_SET_AUTH :: u8 where "SMTP_CLIENT_SET_AUTH = 4"
definition SMTP_READY_FOR_USER :: u8 where "SMTP_READY_FOR_USER = 5"
definition SMTP_CLIENT_SET_USER :: u8 where "SMTP_CLIENT_SET_USER = 6"
definition SMTP_READY_FOR_PASS :: u8 where "SMTP_READY_FOR_PASS = 7"
definition SMTP_CLIENT_SET_PASS :: u8 where "SMTP_CLIENT_SET_PASS = 8"
definition SMTP_READY_FOR_FROM :: u8 where "SMTP_READY_FOR_FROM = 9"
definition SMTP_CLIENT_SET_FROM :: u8 where "SMTP_CLIENT_SET_FROM = 10"
definition SMTP_READY_FOR_RCPT :: u8 where "SMTP_READY_FOR_RCPT = 11"
definition SMTP_CLIENT_SET_RCPT :: u8 where "SMTP_CLIENT_SET_RCPT = 12"
definition SMTP_READY_FOR_DATA :: u8 where "SMTP_READY_FOR_DATA = 13"
definition SMTP_CLIENT_SET_DATA :: u8 where "SMTP_CLIENT_SET_DATA = 14"
definition SMTP_READY_FOR_EMAIL :: u8 where "SMTP_READY_FOR_EMAIL = 15"
definition SMTP_CLIENT_SET_EMAIL :: u8 where "SMTP_CLIENT_SET_EMAIL = 16"
definition SMTP_READY_FOR_QUIT :: u8 where "SMTP_READY_FOR_QUIT = 17"

lemmas smtp_states = SMTP_INIT_def SMTP_SERVER_READY_def SMTP_CLIENT_GREETED_def SMTP_READY_FOR_AUTH_def
  SMTP_CLIENT_SET_AUTH_def SMTP_READY_FOR_USER_def SMTP_CLIENT_SET_USER_def SMTP_READY_FOR_PASS_def SMTP_CLIENT_SET_PASS_def
  SMTP_READY_FOR_FROM_def SMTP_CLIENT_SET_FROM_def SMTP_READY_FOR_RCPT_def SMTP_CLIENT_SET_RCPT_def SMTP_READY_FOR_DATA_def
  SMTP_CLIENT_SET_DATA_def SMTP_READY_FOR_EMAIL_def SMTP_CLIENT_SET_EMAIL_def SMTP_READY_FOR_QUIT_def

record mail =
  m_user :: "u8 list option"
  m_pass :: "u8 list option"
  m_status :: u8
  protocolState :: u8
  m_to :: "u8 list option"
  m_from :: "u8 list option"
  m_subject :: "u8 list option"
  m_body :: "u8 list option"
  recvLine :: "u8 list"          \<comment> \<open>an array of 40 characters\<close>

record smtp = tcp +
  mails :: "mail list"           \<comment> \<open>the part of the class SMTPClient of each socket\<close>

definition mail :: "'a smtp_scheme \<Rightarrow> nat \<Rightarrow> mail" where
  "mail s x = mails s ! x"

definition mupd :: "nat \<Rightarrow> (mail \<Rightarrow> mail) \<Rightarrow> 'a smtp_scheme \<Rightarrow> 'a smtp_scheme" where
  "mupd x f s = s\<lparr>mails := (mails s)[x := f (mail s x)]\<rparr>"

abbreviation str :: "string \<Rightarrow> u8 list" where
  "str cs \<equiv> map of_char cs"

text \<open>The string at the start of an array; \<open>None\<close> if it is not terminated.\<close>

definition cstr :: "u8 list \<Rightarrow> u8 list option" where
  "cstr a = (if 0 \<in> set a then Some (takeWhile (\<lambda>c. c \<noteq> 0) a) else None)"

section \<open>Constructor and API\<close>

text \<open>
  The constructor of the class; \<open>junk\<close> is the object as it was allocated and \<open>a1\<close>, \<open>a2\<close> tell whether the two allocations
  succeed. When the first fails, \<^verbatim>\<open>pass\<close> is not initialised.
\<close>

definition SMTPClient_new :: "bool \<Rightarrow> bool \<Rightarrow> u8 list option \<Rightarrow> u8 list option \<Rightarrow> mail \<Rightarrow> mail" where
  "SMTPClient_new a1 a2 user pass junk =
     (let k = (case (user, pass) of
                 (Some user, Some pass) \<Rightarrow>
                   (let k = junk\<lparr>m_user := Encode a1 user\<rparr>
                    in if m_user k \<noteq> None
                       then let k = k\<lparr>m_pass := Encode a2 pass\<rparr>
                            in if m_pass k = None then k\<lparr>m_user := None\<rparr> else k
                       else k)
               | _ \<Rightarrow> junk\<lparr>m_user := None, m_pass := None\<rparr>)
      in k\<lparr>m_to := None, m_from := None, m_subject := None, m_body := None, m_status := EMAIL_INIT\<rparr>)"

definition readyToEmail :: "'a smtp_scheme \<Rightarrow> nat \<Rightarrow> bool" where
  "readyToEmail s x =
     (if m_status (mail s x) = EMAIL_SENDING then False else if getState (sock s x) \<noteq> CLOSED then False else True)"

definition email :: "'a smtp_scheme vtable \<Rightarrow> nat \<Rightarrow> u8 list option \<Rightarrow> u8 list option \<Rightarrow> u8 list option \<Rightarrow> u8 list option
    \<Rightarrow> 'a smtp_scheme \<Rightarrow> (bool \<times> 'a smtp_scheme) option" where
  "email v x sender recipient subject body s =
     (if \<not> readyToEmail s x then Some (False, s)
      else let s = mupd x (\<lambda>k. k\<lparr>m_status := EMAIL_SENDING, m_to := recipient, m_from := sender, m_subject := subject,
                 m_body := body\<rparr>) s
      in do { (_, s) \<leftarrow> connect v x s; Some (True, s) })"

definition getStatus :: "'a smtp_scheme \<Rightarrow> nat \<Rightarrow> u8" where
  "getStatus s x = m_status (mail s x)"

section \<open>Lines from the server\<close>

fun parse_code :: "u8 list \<Rightarrow> u16 \<Rightarrow> u16 option" where
  "parse_code [] number = Some number"
| "parse_code (c # cs) number =
     (if c < 48 \<or> c > 57 then None else parse_code cs (number * 10 + (ucast c - 48)))"

definition checkCode :: "u8 list \<Rightarrow> u16 \<Rightarrow> bool" where
  "checkCode line code =
     (if 32 \<notin> set line then False
      else case parse_code (takeWhile (\<lambda>c. c \<noteq> 32) line) 0 of
             None \<Rightarrow> False
           | Some number \<Rightarrow> if number = code then True else False)"

definition checkMessage :: "u8 list \<Rightarrow> u8 list \<Rightarrow> bool" where
  "checkMessage line message =
     (if 32 \<notin> set line then False
      else let start = tl (dropWhile (\<lambda>c. c \<noteq> 32) line);
               word = takeWhile (\<lambda>c. c \<noteq> 32) start
           in if length word \<noteq> length message then False
              else list_all (\<lambda>i. word ! i = message ! i) [0 ..< length word])"

section \<open>Commands\<close>

text \<open>\<^verbatim>\<open>send(const char*)\<close> of the base class.\<close>

definition send_string :: "'a tcp_scheme vtable \<Rightarrow> nat \<Rightarrow> u8 list \<Rightarrow> 'a tcp_scheme \<Rightarrow> (bool \<times> 'a tcp_scheme) option" where
  "send_string v x data s = send_data v x data s"

text \<open>
  Text written piece by piece into the send buffer and sent; the results of the writes and of \<^verbatim>\<open>send\<close> are ignored. A piece that is a null pointer
  is undefined behaviour, and so is the send buffer of a socket without handler.
\<close>

fun write_pieces :: "buffer \<Rightarrow> u16 \<Rightarrow> u8 list option list \<Rightarrow> 'a store_scheme \<Rightarrow> (u16 \<times> 'a store_scheme) option" where
  "write_pieces sb offset [] s = Some (offset, s)"
| "write_pieces sb offset (None # ps) s = None"
| "write_pieces sb offset (Some p # ps) s =
     write_pieces sb (offset + word_of_nat (length p)) ps (snd (b_write sb offset p s))"

definition send_pieces :: "'a tcp_scheme vtable \<Rightarrow> nat \<Rightarrow> u8 list option list \<Rightarrow> 'a tcp_scheme \<Rightarrow> 'a tcp_scheme option" where
  "send_pieces v x ps s =
     (case getSendDataBuffer (sock s x) of
        None \<Rightarrow> None
      | Some sb \<Rightarrow> do { (len, s) \<leftarrow> write_pieces sb 0 ps s; map_option snd (send v x len s) })"

definition email_pieces :: "mail \<Rightarrow> u8 list option list" where
  "email_pieces k =
     [Some (str ''From: ''), m_from k, Some [13, 10]]
     @ (case m_subject k of None \<Rightarrow> [] | Some t \<Rightarrow> [Some (str ''Subject: ''), Some t, Some [13, 10]])
     @ [Some [13, 10], m_body k, Some [13, 10], Some [46, 13, 10]]"

definition set_protocol :: "nat \<Rightarrow> u8 \<Rightarrow> 'a smtp_scheme \<Rightarrow> 'a smtp_scheme option" where
  "set_protocol x st s = Some (mupd x (\<lambda>k. k\<lparr>protocolState := st\<rparr>) s)"

definition SMTP_onReadyToSend :: "'a smtp_scheme vtable \<Rightarrow> nat \<Rightarrow> 'a smtp_scheme \<Rightarrow> 'a smtp_scheme option" where
  "SMTP_onReadyToSend v x s =
     (let k = mail s x; st = protocolState k
      in if st = SMTP_SERVER_READY
         then send_pieces v x [Some (str ''HELO ''), remoteDomain (sock s x), Some [10]] s \<bind> set_protocol x SMTP_CLIENT_GREETED
         else if st = SMTP_READY_FOR_AUTH
         then do { (_, s) \<leftarrow> send_string v x (str ''auth login'' @ [10]) s; set_protocol x SMTP_CLIENT_SET_AUTH s }
         else if st = SMTP_READY_FOR_USER
         then send_pieces v x [m_user k, Some [10]] s \<bind> set_protocol x SMTP_CLIENT_SET_USER
         else if st = SMTP_READY_FOR_PASS
         then send_pieces v x [m_pass k, Some [10]] s \<bind> set_protocol x SMTP_CLIENT_SET_PASS
         else if st = SMTP_READY_FOR_FROM
         then send_pieces v x [Some (str ''MAIL FROM:''), m_from k, Some [10]] s \<bind> set_protocol x SMTP_CLIENT_SET_FROM
         else if st = SMTP_READY_FOR_RCPT
         then send_pieces v x [Some (str ''RCPT TO:''), m_to k, Some [10]] s \<bind> set_protocol x SMTP_CLIENT_SET_RCPT
         else if st = SMTP_READY_FOR_DATA
         then do { (_, s) \<leftarrow> send_string v x (str ''DATA'' @ [10]) s; set_protocol x SMTP_CLIENT_SET_DATA s }
         else if st = SMTP_READY_FOR_EMAIL
         then send_pieces v x (email_pieces k) s \<bind> set_protocol x SMTP_CLIENT_SET_EMAIL
         else if st = SMTP_READY_FOR_QUIT
         then do { (_, s) \<leftarrow> send_string v x (str ''QUIT'' @ [13, 10]) s; map_option snd (close v x s) }
         else Some s)"

section \<open>Events\<close>

text \<open>What \<^verbatim>\<open>onLineReceived\<close> waits for in each protocol state, and the state then entered.\<close>

definition expected :: "u8 \<Rightarrow> u8 list \<Rightarrow> (bool \<times> u8) option" where
  "expected st line =
     (if st = SMTP_INIT then Some (checkCode line 220, SMTP_SERVER_READY)
      else if st = SMTP_CLIENT_GREETED then Some (checkCode line 250, SMTP_READY_FOR_AUTH)
      else if st = SMTP_CLIENT_SET_AUTH then Some (checkCode line 334 \<and> checkMessage line (str ''VXNlcm5hbWU6''), SMTP_READY_FOR_USER)
      else if st = SMTP_CLIENT_SET_USER then Some (checkCode line 334 \<and> checkMessage line (str ''UGFzc3dvcmQ6''), SMTP_READY_FOR_PASS)
      else if st = SMTP_CLIENT_SET_PASS then Some (checkCode line 235, SMTP_READY_FOR_FROM)
      else if st = SMTP_CLIENT_SET_FROM then Some (checkCode line 250, SMTP_READY_FOR_RCPT)
      else if st = SMTP_CLIENT_SET_RCPT then Some (checkCode line 250, SMTP_READY_FOR_DATA)
      else if st = SMTP_CLIENT_SET_DATA then Some (checkCode line 354, SMTP_READY_FOR_EMAIL)
      else if st = SMTP_CLIENT_SET_EMAIL then Some (checkCode line 250, SMTP_READY_FOR_QUIT)
      else None)"

definition onLineReceived :: "'a smtp_scheme vtable \<Rightarrow> nat \<Rightarrow> u8 list \<Rightarrow> 'a smtp_scheme \<Rightarrow> 'a smtp_scheme option" where
  "onLineReceived v x line s = do {
     s \<leftarrow> (if checkCode line 500 then map_option snd (close v x s) else Some s);
     s \<leftarrow> (case expected (protocolState (mail s x)) line of
             None \<Rightarrow> Some s
           | Some (True, next) \<Rightarrow>
               Some (mupd x (\<lambda>k. k\<lparr>protocolState := next,
                 m_status := (if protocolState k = SMTP_CLIENT_SET_EMAIL then EMAIL_SENT else m_status k)\<rparr>) s)
           | Some (False, next) \<Rightarrow> map_option snd (close v x s));
     if readyToSend (sock s x) then SMTP_onReadyToSend v x s else Some s
   }"

definition SMTP_onEstablished :: "'a smtp_scheme vtable \<Rightarrow> nat \<Rightarrow> 'a smtp_scheme \<Rightarrow> 'a smtp_scheme option" where
  "SMTP_onEstablished v x s =
     (let k = mail s x
      in do {
        s \<leftarrow> (if m_to k = None \<or> m_from k = None \<or> m_subject k = None \<and> m_body k = None
              then map_option snd (close v x s) else Some s);
        Some (mupd x (\<lambda>k. k\<lparr>protocolState := SMTP_INIT, recvLine := replicate 40 0\<rparr>) s)
      })"

definition setLine :: "nat \<Rightarrow> nat \<Rightarrow> u8 \<Rightarrow> 'a smtp_scheme \<Rightarrow> 'a smtp_scheme" where
  "setLine x i c s = mupd x (\<lambda>k. k\<lparr>recvLine := (recvLine k)[i := c]\<rparr>) s"

text \<open>
  The loop of \<^verbatim>\<open>onDataReceived\<close> over the \<open>n\<close> characters left from \<open>bufIdx\<close> on. \<open>lineReceived\<close> is \<^verbatim>\<open>onLineReceived\<close> with the line.
\<close>

fun receive_loop :: "(u8 list \<Rightarrow> 'a smtp_scheme \<Rightarrow> 'a smtp_scheme option) \<Rightarrow> nat \<Rightarrow> buffer \<Rightarrow> nat \<Rightarrow> u16 \<Rightarrow> nat \<Rightarrow> 'a smtp_scheme
    \<Rightarrow> (bool \<times> 'a smtp_scheme) option" where
  "receive_loop lineReceived x buf 0 bufIdx lineIdx s = Some (True, s)"
| "receive_loop lineReceived x buf (Suc n) bufIdx lineIdx s =
     (case read8 (b_read s buf) bufIdx of
        None \<Rightarrow> Some (False, s)
      | Some c \<Rightarrow>
          if c = 10 \<or> c = 13
          then do {
            s \<leftarrow> Some (if lineIdx < 39 then setLine x lineIdx 0 s else s);
            line \<leftarrow> cstr (recvLine (mail s x));
            s \<leftarrow> (if length line > 0 then lineReceived line s else Some s);
            receive_loop lineReceived x buf n (bufIdx + 1) 0 (setLine x 0 0 s)
          }
          else if lineIdx < 39
          then receive_loop lineReceived x buf n (bufIdx + 1) (lineIdx + 1) (setLine x lineIdx c s)
          else receive_loop lineReceived x buf n (bufIdx + 1) lineIdx s)"

definition SMTP_receive :: "(u8 list \<Rightarrow> 'a smtp_scheme \<Rightarrow> 'a smtp_scheme option) \<Rightarrow> nat \<Rightarrow> buffer \<Rightarrow> 'a smtp_scheme
    \<Rightarrow> (bool \<times> 'a smtp_scheme) option" where
  "SMTP_receive lineReceived x buf s = do {
     line \<leftarrow> cstr (recvLine (mail s x));
     receive_loop lineReceived x buf (unat (b_size buf)) 0 (length line) s
   }"

definition SMTP_onDataReceived :: "'a smtp_scheme vtable \<Rightarrow> nat \<Rightarrow> buffer \<Rightarrow> 'a smtp_scheme \<Rightarrow> (bool \<times> 'a smtp_scheme) option" where
  "SMTP_onDataReceived v x buf s = SMTP_receive (onLineReceived v x) x buf s"

definition SMTP_onRemoteClosed :: "'a smtp_scheme vtable \<Rightarrow> nat \<Rightarrow> 'a smtp_scheme \<Rightarrow> 'a smtp_scheme option" where
  "SMTP_onRemoteClosed v x s = map_option snd (close v x s)"

definition email_failed :: "nat \<Rightarrow> 'a smtp_scheme \<Rightarrow> 'a smtp_scheme" where
  "email_failed x s = (if m_status (mail s x) = EMAIL_SENDING then mupd x (\<lambda>k. k\<lparr>m_status := EMAIL_FAIL\<rparr>) s else s)"

definition SMTP_onClosed :: "'a smtp_scheme vtable \<Rightarrow> nat \<Rightarrow> 'a smtp_scheme \<Rightarrow> 'a smtp_scheme option" where
  "SMTP_onClosed v x s =
     (let s = email_failed x s in if getState (sock s x) \<noteq> CLOSED then forceClose v x s else Some s)"

definition SMTP_onReset :: "nat \<Rightarrow> bool \<Rightarrow> 'a smtp_scheme \<Rightarrow> 'a smtp_scheme option" where
  "SMTP_onReset x resetByRemoteHost s = Some (email_failed x s)"

section \<open>The table of virtual methods\<close>

text \<open>
  The class overrides the events below and inherits the others. \<open>n\<close> bounds how deep events are nested in each other; an event that would be
  nested deeper has no outcome.
\<close>

fun SMTP_vtable :: "nat \<Rightarrow> bool \<Rightarrow> 'a smtp_scheme vtable" where
  "SMTP_vtable 0 allocs = (Socket_vtable (\<lambda>x buf s. None) allocs)
     \<lparr>onEstablished := (\<lambda>x s. None), onReadyToSend := (\<lambda>x s. None), onRemoteClosed := (\<lambda>x s. None), onClosed := (\<lambda>x s. None),
      onReset := (\<lambda>x b s. None)\<rparr>"
| "SMTP_vtable (Suc n) allocs =
     (let v = SMTP_vtable n allocs
      in (Socket_vtable (SMTP_onDataReceived v) allocs)
        \<lparr>onEstablished := SMTP_onEstablished v, onReadyToSend := SMTP_onReadyToSend v, onRemoteClosed := SMTP_onRemoteClosed v,
         onClosed := SMTP_onClosed v, onReset := SMTP_onReset\<rparr>)"

end
