(* ===== verification/SMTP_Lines.thy ===== *)
theory SMTP_Lines
  imports SMTPClient Connections
begin

text \<open>
  How SMTPClient splits what it receives into lines, against a description on lists.
\<close>

section \<open>Lines of a text\<close>

text \<open>
  The lines of a text that follows the unfinished line \<open>p\<close>, and the unfinished line behind it. A line keeps its first 39 characters, and of
  these the ones before a 0; empty lines are dropped.
\<close>

fun lines :: "u8 list \<Rightarrow> u8 list \<Rightarrow> u8 list list \<times> u8 list" where
  "lines p [] = ([], p)"
| "lines p (c # cs) =
     (if c = 10 \<or> c = 13
      then case lines [] cs of (ls, q) \<Rightarrow>
        (let l = takeWhile (\<lambda>c. c \<noteq> 0) p in if l = [] then (ls, q) else (l # ls, q))
      else lines (if length p < 39 then p @ [c] else p) cs)"

text \<open>The states \<open>s\<close> and \<open>s'\<close> are the same but for the array of client \<open>x\<close>.\<close>

definition same_but_line :: "nat \<Rightarrow> 'a smtp_scheme \<Rightarrow> 'a smtp_scheme \<Rightarrow> bool" where
  "same_but_line x s s' = (mupd x (\<lambda>k. k\<lparr>recvLine := []\<rparr>) s' = mupd x (\<lambda>k. k\<lparr>recvLine := []\<rparr>) s)"

text \<open>From \<open>s\<close> to \<open>s'\<close> nothing happens but that \<open>h\<close> is called for each of the lines in turn, and the array changes.\<close>

inductive calls :: "(u8 list \<Rightarrow> 'a smtp_scheme \<Rightarrow> 'a smtp_scheme option) \<Rightarrow> nat \<Rightarrow> u8 list list \<Rightarrow> 'a smtp_scheme
    \<Rightarrow> 'a smtp_scheme \<Rightarrow> bool" for h x where
  none: "same_but_line x s s' \<Longrightarrow> calls h x [] s s'"
| call: "same_but_line x s s1 \<Longrightarrow> h l s1 = Some s2 \<Longrightarrow> calls h x ls s2 s' \<Longrightarrow> calls h x (l # ls) s s'"

lemma same_but_line_refl [simp]: "same_but_line x s s"
  by (simp add: same_but_line_def)

lemma same_but_line_trans: "same_but_line x s s1 \<Longrightarrow> same_but_line x s1 s2 \<Longrightarrow> same_but_line x s s2"
  by (simp add: same_but_line_def)

lemma mail_mupd [simp]:
  "mail (mupd x f s) y = (if y = x \<and> x < length (mails s) then f (mail s x) else mail s y)" "length (mails (mupd x f s)) = length (mails s)"
  by (auto simp: mail_def mupd_def nth_list_update list_update_beyond)

lemma mupd_mupd [simp]: "mupd x f (mupd x g s) = mupd x (\<lambda>k. f (g k)) s"
  by (cases "x < length (mails s)") (simp_all add: mupd_def mail_def list_update_beyond)

lemma mupd_store [simp]: "b_read (mupd x f s) b = b_read s b" "b_bytes (mupd x f s) b = b_bytes s b" "sock (mupd x f s) y = sock s y"
  "b_ok (mupd x f s) b = b_ok s b"
proof -
  have "b_read (s\<lparr>mails := c\<rparr>) b off n = b_read s b off n" for c off n
    by (induction b arbitrary: off) (auto simp: driver_read_def split: option.split)
  then show "b_read (mupd x f s) b = b_read s b" by (simp add: mupd_def fun_eq_iff)
  have "fetch (mupd x f s) c = fetch s c" for c by (cases c) (auto simp: mupd_def)
  then show "b_bytes (mupd x f s) b = b_bytes s b" by (simp add: b_bytes_def)
qed (simp_all add: mupd_def sock_def b_ok_def)

lemma same_setLine [simp]: "same_but_line x s (setLine x i c s)"
  by (simp add: same_but_line_def setLine_def)

lemma calls_same: "same_but_line x s s1 \<Longrightarrow> calls h x ls s1 s' \<Longrightarrow> calls h x ls s s'"
  by (erule calls.cases) (auto intro: calls.intros same_but_line_trans)

section \<open>The array\<close>

text \<open>The array holds the unfinished line \<open>p\<close>, and its last character stays 0.\<close>

definition holds :: "u8 list \<Rightarrow> u8 list \<Rightarrow> bool" where
  "holds a p = (length a = 40 \<and> a ! 39 = 0 \<and> length p \<le> 39 \<and> take (length p) a = p \<and> (p = [] \<longrightarrow> a ! 0 = 0))"

lemma holds_reset: "length a = 40 \<Longrightarrow> a ! 39 = 0 \<Longrightarrow> holds (a[0 := 0]) []"
  by (simp add: holds_def)

lemma holds_char:
  assumes "holds a p"
  shows "length p < 39 \<Longrightarrow> holds (a[length p := c]) (p @ [c])"
    and "cstr (if length p < 39 then a[length p := 0] else a) = Some (takeWhile (\<lambda>c. c \<noteq> 0) p)"
proof -
  have a: "length a = 40" "a ! 39 = 0" "length p \<le> 39" "take (length p) a = p" using assms by (simp_all add: holds_def)
  show "length p < 39 \<Longrightarrow> holds (a[length p := c]) (p @ [c])"
    using a by (simp add: holds_def take_Suc_conv_app_nth)
  let ?b = "if length p < 39 then a[length p := 0] else a"
  have b: "?b ! length p = 0" "length ?b = 40" "take (length p) ?b = p"
    using a by (auto simp: le_less)
  then have e: "?b = p @ 0 # drop (Suc (length p)) ?b"
    using id_take_nth_drop [of "length p" ?b] a(3) by simp
  have "0 \<in> set (p @ 0 # r)" "takeWhile (\<lambda>c. c \<noteq> 0) (p @ 0 # r) = takeWhile (\<lambda>c. c \<noteq> 0) p" for r :: "u8 list"
    by (simp_all add: takeWhile_tail)
  then show "cstr ?b = Some (takeWhile (\<lambda>c. c \<noteq> 0) p)" by (subst e) (simp only: cstr_def if_True)
qed

section \<open>The loop\<close>

text \<open>
  A handler that does its work but leaves the array and what the buffer holds alone, as long as \<open>I\<close> holds, which it keeps and which
  does not look at the array.
\<close>

definition keeps_line :: "nat \<Rightarrow> buffer \<Rightarrow> ('a smtp_scheme \<Rightarrow> bool) \<Rightarrow> (u8 list \<Rightarrow> 'a smtp_scheme \<Rightarrow> 'a smtp_scheme option) \<Rightarrow> bool" where
  "keeps_line x buf I h =
     ((\<forall>s. I s \<longrightarrow> b_ok s buf \<and> (\<forall>i c. I (setLine x i c s)))
      \<and> (\<forall>l s. I s \<longrightarrow> (\<exists>s'. h l s = Some s' \<and> I s' \<and> recvLine (mail s' x) = recvLine (mail s x)
          \<and> length (mails s') = length (mails s) \<and> b_bytes s' buf = b_bytes s buf)))"

lemma receive_loop_calls:
  assumes "keeps_line x buf I h" and "I s" and "x < length (mails s)" and "holds (recvLine (mail s x)) p"
    and "unat i + n \<le> unat (b_size buf)"
  shows "\<exists>s'. receive_loop h x buf n i (length p) s = Some (True, s') \<and> calls h x (fst (lines p (take n (drop (unat i) (b_bytes s buf))))) s s'
    \<and> holds (recvLine (mail s' x)) (snd (lines p (take n (drop (unat i) (b_bytes s buf))))) \<and> I s' \<and> b_bytes s' buf = b_bytes s buf"
  using assms(2-5)
proof (induction n arbitrary: i p s)
  case 0
  then show ?case by (auto intro: calls.none)
next
  case (Suc n)
  let ?data = "b_bytes s buf"
  let ?c = "?data ! unat i"
  have line: "I (setLine x j c s1)" if "I s1" for s1 j c using assms(1) that by (simp add: keeps_line_def)
  have ok: "b_ok s buf" using assms(1) Suc.prems(1) by (simp add: keeps_line_def)
  have len: "length ?data = unat (b_size buf)" using ok by (rule buf.length_bytes)
  have i: "unat i < unat (b_size buf)" using Suc.prems(4) by simp
  have i1: "unat (i + 1) = unat i + 1" using i unat16_less [of "b_size buf"] by (intro unat_Suc16 [of i "b_size buf"])
  have rd: "read8 (b_read s buf) i = Some ?c" using i ok by (simp add: buf.read8_inside)
  have d: "take (Suc n) (drop (unat i) ?data) = ?c # take n (drop (unat (i + 1)) ?data)"
    using i len by (simp add: i1 Cons_nth_drop_Suc [symmetric])
  have le: "unat (i + 1) + n \<le> unat (b_size buf)" using Suc.prems(4) i1 by simp
  note hc = holds_char [OF Suc.prems(3)]
  show ?case
  proof (cases "?c = 10 \<or> ?c = 13")
    case True
    define s1 where "s1 = (if length p < 39 then setLine x (length p) 0 s else s)"
    let ?l = "takeWhile (\<lambda>c. c \<noteq> 0) p"
    have l1: "recvLine (mail s1 x) = (if length p < 39 then (recvLine (mail s x))[length p := 0] else recvLine (mail s x))"
      using Suc.prems(2) by (simp add: s1_def setLine_def)
    have s1: "same_but_line x s s1" "b_bytes s1 buf = ?data" "length (mails s1) = length (mails s)" "I s1"
      using Suc.prems(1) by (simp_all add: s1_def setLine_def [of x "length p" 0 s] same_but_line_def) (simp add: line flip: setLine_def)
    have h0: "holds ((recvLine (mail s1 x))[0 := 0]) []"
      using Suc.prems(3) unfolding l1 by (intro holds_reset) (auto simp: holds_def nth_list_update)
    obtain s2 where s2: "(if length ?l > 0 then h ?l s1 else Some s1) = Some s2" and k: "recvLine (mail s2 x) = recvLine (mail s1 x)"
      "length (mails s2) = length (mails s1)" "b_bytes s2 buf = b_bytes s1 buf" "I s2"
      using assms(1) s1(4) unfolding keeps_line_def by (cases "length ?l > 0") (auto, metis)
    obtain ls q where lq: "lines [] (take n (drop (unat (i + 1)) ?data)) = (ls, q)" by fastforce
    let ?s3 = "setLine x 0 0 s2"
    have s3: "b_bytes ?s3 buf = ?data" "x < length (mails ?s3)" "holds (recvLine (mail ?s3 x)) []"
      using k s1 h0 Suc.prems(2) by (simp_all add: setLine_def)
    obtain s' where r: "receive_loop h x buf n (i + 1) 0 ?s3 = Some (True, s')" and "calls h x ls ?s3 s'"
      and s': "holds (recvLine (mail s' x)) q" "I s'" "b_bytes s' buf = ?data"
      using Suc.IH [OF line [OF k(4)] s3(2,3) le] s3(1) lq by auto
    then have c: "calls h x ls s2 s'" using calls_same [OF same_setLine] by blast
    have "calls h x (if ?l = [] then ls else ?l # ls) s s'"
    proof (cases "?l = []")
      case True
      then show ?thesis using s2 calls_same [OF s1(1), of h ls] c by simp
    next
      case False
      then show ?thesis using s2 calls.call [OF s1(1) _ c, of ?l] by simp
    qed
    moreover have "receive_loop h x buf (Suc n) i (length p) s = Some (True, s')"
      using True rd hc(2) s2 r unfolding l1 [symmetric] by (simp add: s1_def [symmetric] l1)
    ultimately show ?thesis
      using True s' unfolding d by (auto simp: lq Let_def split: if_splits)
  next
    case False
    define s1 where "s1 = (if length p < 39 then setLine x (length p) ?c s else s)"
    define p1 where "p1 = (if length p < 39 then p @ [?c] else p)"
    have s1: "same_but_line x s s1" "b_bytes s1 buf = ?data" "length (mails s1) = length (mails s)" "I s1"
      using Suc.prems(1) by (simp_all add: s1_def setLine_def [of x "length p" ?c s] same_but_line_def) (simp add: line flip: setLine_def)
    have h1: "holds (recvLine (mail s1 x)) p1"
      using Suc.prems(2,3) hc(1) by (simp add: s1_def p1_def setLine_def)
    have "receive_loop h x buf (Suc n) i (length p) s = receive_loop h x buf n (i + 1) (length p1) s1"
      using False rd by (auto simp: s1_def p1_def)
    then show ?thesis
      using Suc.IH [OF s1(4) _ h1 le] s1(2,3) Suc.prems(2) False calls_same [OF s1(1)] unfolding d by (auto simp: p1_def)
  qed
qed

text \<open>All of a buffer, when the data follows a complete line.\<close>

lemma receive_lines:
  assumes "keeps_line x buf I h" and "I s" and "x < length (mails s)"
    and "length (recvLine (mail s x)) = 40" and "recvLine (mail s x) ! 39 = 0" and "recvLine (mail s x) ! 0 = 0"
  shows "\<exists>s'. SMTP_receive h x buf s = Some (True, s') \<and> calls h x (fst (lines [] (b_bytes s buf))) s s'
    \<and> holds (recvLine (mail s' x)) (snd (lines [] (b_bytes s buf)))"
proof -
  have h: "holds (recvLine (mail s x)) []" using assms(4-6) by (simp add: holds_def)
  obtain cs where "recvLine (mail s x) = 0 # cs" using assms(4,6) by (cases "recvLine (mail s x)") auto
  then have "cstr (recvLine (mail s x)) = Some []" by (simp add: cstr_def)
  then have r: "SMTP_receive h x buf s = receive_loop h x buf (unat (b_size buf)) 0 (length ([] :: u8 list)) s"
    by (simp add: SMTP_receive_def)
  have "b_ok s buf" using assms(1,2) by (simp add: keeps_line_def)
  then have "length (b_bytes s buf) = unat (b_size buf)" by (rule buf.length_bytes)
  with receive_loop_calls [OF assms(1-3) h, of 0 "unat (b_size buf)"] show ?thesis unfolding r by auto
qed

text \<open>The characters of a buffer, as the loop reads them.\<close>

lemma bytes_size: "b_ok s buf \<Longrightarrow> length (b_bytes s buf) = unat (b_size buf)"
  by (rule buf.length_bytes)

lemma read_text:
  assumes "b_ok s buf" and "k < length (b_bytes s buf)"
  shows "read8 (b_read s buf) (0 + word_of_nat k) = Some (b_bytes s buf ! k)"
proof -
  have "unat (word_of_nat k :: u16) = k"
    using assms bytes_size [OF assms(1)] unat16_less [of "b_size buf"] by (intro unat_of_nat16) linarith
  then show ?thesis using assms bytes_size [OF assms(1)] by (simp add: buf.read8_inside)
qed

text \<open>What the loop does to the array and which lines it reports, for a handler that only notes them.\<close>

fun scan_lines :: "u8 list \<Rightarrow> nat \<Rightarrow> u8 list \<Rightarrow> u8 list \<times> u8 list list" where
  "scan_lines a i [] = (a, [])"
| "scan_lines a i (c # cs) =
     (if c = 10 \<or> c = 13
      then let a = (if i < 39 then a[i := 0] else a); l = takeWhile (\<lambda>c. c \<noteq> 0) a
           in case scan_lines (a[0 := 0]) 0 cs of (b, ls) \<Rightarrow> (b, if l = [] then ls else l # ls)
      else if i < 39 then scan_lines (a[i := c]) (i + 1) cs else scan_lines a i cs)"

definition note_line :: "u8 list \<Rightarrow> u8 list list smtp_scheme \<Rightarrow> u8 list list smtp_scheme option" where
  "note_line l s = Some (s\<lparr>smtp.more := smtp.more s @ [l]\<rparr>)"

lemma more_line [simp]:
  "mail (s\<lparr>smtp.more := m\<rparr>) y = mail s y" "mails (s\<lparr>smtp.more := m\<rparr>) = mails s"
  "smtp.more (setLine x i c s) = smtp.more s" "length (mails (setLine x i c s)) = length (mails s)"
  by (simp_all add: mail_def setLine_def mupd_def)

abbreviation same_buffers :: "'a smtp_scheme \<Rightarrow> 'a smtp_scheme \<Rightarrow> bool" where
  "same_buffers s t \<equiv> b_read t = b_read s \<and> b_ok t = b_ok s \<and> b_bytes t = b_bytes s"

lemma same_buffers_line [simp]: "same_buffers s (s\<lparr>smtp.more := m\<rparr>)" "same_buffers s (setLine x i c s)"
proof -
  have "b_read (s\<lparr>smtp.more := m\<rparr>) b off n = b_read s b off n" for b off n
    by (induction b arbitrary: off) (auto simp: driver_read_def split: option.split)
  moreover have "fetch (s\<lparr>smtp.more := m\<rparr>) c = fetch s c" for c by (cases c) auto
  ultimately show "same_buffers s (s\<lparr>smtp.more := m\<rparr>)" by (simp add: fun_eq_iff b_bytes_def b_ok_def)
qed (simp add: setLine_def fun_eq_iff)

lemma recvLine_setLine [simp]: "x < length (mails s) \<Longrightarrow> recvLine (mail (setLine x i c s) x) = (recvLine (mail s x))[i := c]"
  by (simp add: setLine_def)

lemma receive_loop_scan:
  assumes "x < length (mails s)" and "length (recvLine (mail s x)) = 40" and "recvLine (mail s x) ! 39 = 0"
    and "\<And>k. k < length cs \<Longrightarrow> read8 (b_read s buf) (i + word_of_nat k) = Some (cs ! k)"
  shows "\<exists>t. receive_loop note_line x buf (length cs) i li s = Some (True, t)
    \<and> recvLine (mail t x) = fst (scan_lines (recvLine (mail s x)) li cs) \<and> smtp.more t = smtp.more s @ snd (scan_lines (recvLine (mail s x)) li cs)
    \<and> length (mails t) = length (mails s) \<and> same_buffers s t
    \<and> length (recvLine (mail t x)) = 40 \<and> recvLine (mail t x) ! 39 = 0"
  using assms
proof (induction cs arbitrary: i li s)
  case (Cons c cs)
  have c: "read8 (b_read s buf) i = Some c" using Cons.prems(4) [of 0] by simp
  have cs: "read8 (b_read s buf) (i + 1 + word_of_nat k) = Some (cs ! k)" if "k < length cs" for k
    using Cons.prems(4) [of "Suc k"] that by (simp add: add.assoc)
  show ?case
  proof (cases "c = 10 \<or> c = 13")
    case True
    define s1 where "s1 = (if li < 39 then setLine x li 0 s else s)"
    let ?a = "if li < 39 then (recvLine (mail s x))[li := 0] else recvLine (mail s x)"
    let ?l = "takeWhile (\<lambda>c. c \<noteq> 0) ?a"
    define s2 where "s2 = (if ?l = [] then s1 else s1\<lparr>smtp.more := smtp.more s1 @ [?l]\<rparr>)"
    have a: "length ?a = 40" "?a ! 39 = 0" using Cons.prems(2,3) by (auto simp: nth_list_update)
    have s1: "recvLine (mail s1 x) = ?a" "length (mails s1) = length (mails s)" "smtp.more s1 = smtp.more s" "same_buffers s s1"
      using Cons.prems(1) by (auto simp: s1_def)
    have s2: "recvLine (mail s2 x) = ?a" "length (mails s2) = length (mails s)" "same_buffers s s2"
      "smtp.more s2 = smtp.more s @ (if ?l = [] then [] else [?l])"
      using s1 by (auto simp: s2_def)
    have "0 \<in> set ?a" using a nth_mem [of 39 ?a] by simp
    then have cs0: "cstr ?a = Some ?l" by (simp add: cstr_def)
    have "receive_loop note_line x buf (length (c # cs)) i li s
        = receive_loop note_line x buf (length cs) (i + 1) 0 (setLine x 0 0 s2)"
      using True c cs0 unfolding s1(1) [symmetric] s2_def
      by (auto simp: s1_def [symmetric] note_line_def s1)
    moreover have "x < length (mails (setLine x 0 0 s2))" "length (recvLine (mail (setLine x 0 0 s2) x)) = 40"
      "recvLine (mail (setLine x 0 0 s2) x) ! 39 = 0" "recvLine (mail (setLine x 0 0 s2) x) = ?a[0 := 0]"
      using Cons.prems(1) s2 a by (simp_all del: if_split)
    ultimately show ?thesis
      using Cons.IH [of "setLine x 0 0 s2" "i + 1" 0] cs True s2
      by (auto simp: Let_def simp del: if_split split: prod.split)
  next
    case False
    then show ?thesis
      using Cons.IH [of "if li < 39 then setLine x li c s else s" "i + 1" "if li < 39 then li + 1 else li"] Cons.prems(1-3) c cs
      by auto
  qed
qed (auto intro: exI)

lemma receive_scan:
  assumes "b_ok s buf" and "b_bytes s buf = cs" and "x < length (mails s)" and "recvLine (mail s x) = a" and "length a = 40" and "a ! 39 = 0"
    and "cstr a = Some l" and "scan_lines a (length l) cs = (a', ls)" and "smtp.more s = ms"
  shows "\<exists>t. SMTP_receive note_line x buf s = Some (True, t) \<and> recvLine (mail t x) = a' \<and> smtp.more t = ms @ ls
    \<and> length (mails t) = length (mails s) \<and> same_buffers s t \<and> length a' = 40 \<and> a' ! 39 = 0"
proof -
  have n: "length cs = unat (b_size buf)" using bytes_size [OF assms(1)] assms(2) by simp
  show ?thesis
    using receive_loop_scan [of x s cs buf 0 "length l"] read_text [OF assms(1)] assms(2-)
    unfolding SMTP_receive_def n [symmetric] by auto
qed

section \<open>Properties\<close>

text \<open>A client whose memory holds three segments of text, and notes the lines it is given.\<close>

definition demo_mail :: mail where
  "demo_mail = \<lparr>m_user = None, m_pass = None, m_status = EMAIL_SENDING, protocolState = SMTP_INIT, m_to = None, m_from = None,
     m_subject = None, m_body = None, recvLine = replicate 40 0\<rparr>"

definition demo_text :: "u8 list" where
  "demo_text = str ''250 ok'' @ [10] @ str ''2'' @ str ''21 bye'' @ [10]"

definition demo_smtp :: "u8 list list smtp_scheme" where
  "demo_smtp = smtp.extend (tcp.extend (demo_client\<lparr>sram := (\<lambda>a. demo_text ! unat (a - 0x100))\<rparr>) \<lparr>mails = [demo_mail]\<rparr>) []"

lemma demo_smtp_fields:
  "mails demo_smtp = [demo_mail]" "mail demo_smtp 0 = demo_mail" "smtp.more demo_smtp = []" "b_ok demo_smtp (MemBuffer a n)"
  "b_bytes demo_smtp (MemBuffer 0x100 7) = str ''250 ok'' @ [10]" "b_bytes demo_smtp (MemBuffer 0x107 1) = str ''2''"
  "b_bytes demo_smtp (MemBuffer 0x108 7) = str ''21 bye'' @ [10]"
proof -
  have "sram demo_smtp = (\<lambda>a. demo_text ! unat (a - 0x100))" by (simp add: demo_smtp_def tcp.defs smtp.defs)
  then have f: "b_bytes demo_smtp (MemBuffer a n) = map (\<lambda>a. demo_text ! unat (a - 0x100)) (addrs (\<lambda>a. a + 1) a (unat n))" for a n
    by (simp add: b_bytes_def)
  show "b_bytes demo_smtp (MemBuffer 0x100 7) = str ''250 ok'' @ [10]" "b_bytes demo_smtp (MemBuffer 0x107 1) = str ''2''"
    "b_bytes demo_smtp (MemBuffer 0x108 7) = str ''21 bye'' @ [10]" unfolding f by code_simp+
qed (simp_all add: demo_smtp_def tcp.defs smtp.defs mail_def b_ok_def)

text \<open>
  C34: A line that arrives in two segments is spoilt by the line before it. After the reply \<^verbatim>\<open>250 ok\<close>, the reply \<^verbatim>\<open>221 bye\<close>
  whose first character comes in a segment of its own is handed to \<^verbatim>\<open>onLineReceived\<close> with the end of the old line in the middle, so that its
  code is read as 250: only the first character of the array is cleared after a line, and the length of the unfinished line is taken to be \<^verbatim>\<open>strlen\<close>.
\<close>

theorem split_line_is_spoilt:
  fixes s :: "u8 list list smtp_scheme" and first second third :: buffer
  assumes "x < length (mails s)" and "recvLine (mail s x) = replicate 40 0" and "smtp.more s = []"
    and "b_ok s first" and "b_bytes s first = str ''250 ok'' @ [10]"
    and "b_ok s second" and "b_bytes s second = str ''2''"
    and "b_ok s third" and "b_bytes s third = str ''21 bye'' @ [10]"
  shows "\<exists>s'. do { (_, s) \<leftarrow> SMTP_receive note_line x first s; (_, s) \<leftarrow> SMTP_receive note_line x second s;
      SMTP_receive note_line x third s } = Some (True, s')
    \<and> smtp.more s' = [str ''250 ok'', str ''250 ok21 bye''] \<and> checkCode (str ''250 ok21 bye'') 250 \<and> \<not> checkCode (str ''221 bye'') 250"
proof -
  define a0 :: "u8 list" where "a0 = replicate 40 0"
  define a1 :: "u8 list" where "a1 = 0 # str ''50 ok'' @ replicate 34 0"
  define a2 :: "u8 list" where "a2 = str ''250 ok'' @ replicate 34 0"
  define a3 :: "u8 list" where "a3 = fst (scan_lines a2 6 (str ''21 bye'' @ [10]))"
  have a: "length a0 = 40" "a0 ! 39 = 0" "length a1 = 40" "a1 ! 39 = 0" "length a2 = 40" "a2 ! 39 = 0"
    unfolding a0_def a1_def a2_def by code_simp+
  have c: "cstr a0 = Some []" "cstr a1 = Some []" "cstr a2 = Some (str ''250 ok'')" unfolding a0_def a1_def a2_def by code_simp+
  have e: "scan_lines a0 (length []) (str ''250 ok'' @ [10]) = (a1, [str ''250 ok''])"
    "scan_lines a1 (length []) (str ''2'') = (a2, [])"
    "scan_lines a2 (length (str ''250 ok'')) (str ''21 bye'' @ [10]) = (a3, [str ''250 ok21 bye''])"
    unfolding a0_def a1_def a2_def a3_def by code_simp+
  obtain t1 where t1: "SMTP_receive note_line x first s = Some (True, t1)" "recvLine (mail t1 x) = a1"
    "smtp.more t1 = [str ''250 ok'']" "length (mails t1) = length (mails s)" "same_buffers s t1"
    using receive_scan [OF assms(4,5,1) assms(2) [folded a0_def] a(1,2) c(1) e(1) assms(3)] by (auto simp del: list.map)
  obtain t2 where t2: "SMTP_receive note_line x second t1 = Some (True, t2)" "recvLine (mail t2 x) = a2"
    "smtp.more t2 = [str ''250 ok'']" "length (mails t2) = length (mails s)" "same_buffers s t2"
    using receive_scan [OF _ _ _ t1(2) a(3,4) c(2) e(2) t1(3), of second] assms(1,6,7) t1(4,5) by (auto simp del: list.map)
  obtain t3 where t3: "SMTP_receive note_line x third t2 = Some (True, t3)" "smtp.more t3 = [str ''250 ok'', str ''250 ok21 bye'']"
    using receive_scan [OF _ _ _ t2(2) a(5,6) c(3) e(3) t2(3), of third] assms(1,8,9) t2(4,5) by (auto simp del: list.map)
  have k: "checkCode (str ''250 ok21 bye'') 250" "\<not> checkCode (str ''221 bye'') 250" by code_simp+
  show ?thesis using t1(1) t2(1) t3 k by (simp del: list.map)
qed

theorem split_line_is_spoilt_witness:
  "\<exists>s'. do { (_, s) \<leftarrow> SMTP_receive note_line 0 (MemBuffer 0x100 7) demo_smtp; (_, s) \<leftarrow> SMTP_receive note_line 0 (MemBuffer 0x107 1) s;
      SMTP_receive note_line 0 (MemBuffer 0x108 7) s } = Some (True, s') \<and> smtp.more s' = [str ''250 ok'', str ''250 ok21 bye'']"
proof -
  have "recvLine demo_mail = replicate 40 0" by (simp add: demo_mail_def)
  then show ?thesis
    using split_line_is_spoilt [of 0 demo_smtp "MemBuffer 0x100 7" "MemBuffer 0x107 1" "MemBuffer 0x108 7"]
    unfolding demo_smtp_fields by (auto simp: demo_smtp_fields(4) simp del: list.map)
qed

end
