(* ===== verification/HTTPClient.thy ===== *)
theory HTTPClient
  imports SMTPClient
begin

text \<open>
  HTTPClient.h/.cpp: a socket that sends one HTTP request after another and ignores the answers. Strings and events are as in SMTPClient.
\<close>

section \<open>State\<close>

record request =
  h_path :: "u8 list option"
  h_method :: "u8 list option"
  h_body :: "u8 list option"
  h_contentType :: "u8 list option"
  sendInProgress :: bool

record http = tcp +
  requests :: "request list"     \<comment> \<open>the part of the class HTTPClient of each socket\<close>

definition req :: "'a http_scheme \<Rightarrow> nat \<Rightarrow> request" where
  "req s x = requests s ! x"

definition hupd :: "nat \<Rightarrow> (request \<Rightarrow> request) \<Rightarrow> 'a http_scheme \<Rightarrow> 'a http_scheme" where
  "hupd x f s = s\<lparr>requests := (requests s)[x := f (req s x)]\<rparr>"

text \<open>Both constructors; \<open>junk\<close> is the object as it was allocated.\<close>

definition HTTPClient_new :: "request \<Rightarrow> request" where
  "HTTPClient_new junk = junk\<lparr>sendInProgress := False\<rparr>"

section \<open>API\<close>

definition HTTP_readyToSend :: "'a http_scheme \<Rightarrow> nat \<Rightarrow> bool" where
  "HTTP_readyToSend s x =
     (if sendInProgress (req s x) then False else if getState (sock s x) \<noteq> CLOSED then False else True)"

definition HTTP_send :: "'a http_scheme vtable \<Rightarrow> nat \<Rightarrow> u8 list option \<Rightarrow> u8 list option \<Rightarrow> u8 list option \<Rightarrow> u8 list option
    \<Rightarrow> 'a http_scheme \<Rightarrow> (bool \<times> 'a http_scheme) option" where
  "HTTP_send v x method path contentType body s =
     (if \<not> HTTP_readyToSend s x then Some (False, s)
      else let s = hupd x (\<lambda>k. k\<lparr>sendInProgress := True\<rparr>) s;
               s = hupd x (\<lambda>k. k\<lparr>h_method := method, h_path := path, h_body := body, h_contentType := contentType\<rparr>) s
           in do { (_, s) \<leftarrow> connect v x s; Some (True, s) })"

section \<open>Events\<close>

text \<open>The decimal digits of a number, as \<^verbatim>\<open>itoa\<close> writes them; the array for them holds 4 digits and the terminating 0.\<close>

fun itoa :: "nat \<Rightarrow> u8 list" where
  "itoa n = (if n < 10 then [word_of_nat (48 + n)] else itoa (n div 10) @ [word_of_nat (48 + n mod 10)])"

declare itoa.simps [simp del]

definition not_empty :: "u8 list option \<Rightarrow> bool" where
  "not_empty t = (case t of None \<Rightarrow> False | Some cs \<Rightarrow> length cs > 0)"

definition content_length :: "u8 list \<Rightarrow> u8 list option" where
  "content_length body = (let digits = itoa (length body) in if length digits < 5 then Some digits else None)"

definition request_pieces :: "request \<Rightarrow> u8 list option list" where
  "request_pieces k =
     [h_method k, Some [32], h_path k, Some [10]]
     @ (if not_empty (h_body k)
        then (if not_empty (h_contentType k) then [Some (str ''Content-Type: ''), h_contentType k, Some [10]] else [])
             @ [Some (str ''Content-Length: ''), h_body k \<bind> content_length, Some [10]]
        else [])
     @ [Some [10]]
     @ (if not_empty (h_body k) then [h_body k] else [])"

definition HTTP_onEstablished :: "'a http_scheme vtable \<Rightarrow> nat \<Rightarrow> 'a http_scheme \<Rightarrow> 'a http_scheme option" where
  "HTTP_onEstablished v x s = send_pieces v x (request_pieces (req s x)) s"

definition HTTP_onDataReceived :: "nat \<Rightarrow> buffer \<Rightarrow> 'a http_scheme \<Rightarrow> (bool \<times> 'a http_scheme) option" where
  "HTTP_onDataReceived x buf s = Some (True, s)"

definition HTTP_onRemoteClosed :: "'a http_scheme vtable \<Rightarrow> nat \<Rightarrow> 'a http_scheme \<Rightarrow> 'a http_scheme option" where
  "HTTP_onRemoteClosed v x s = map_option snd (close v x (hupd x (\<lambda>k. k\<lparr>sendInProgress := False\<rparr>) s))"

definition HTTP_onClosed :: "'a http_scheme vtable \<Rightarrow> nat \<Rightarrow> 'a http_scheme \<Rightarrow> 'a http_scheme option" where
  "HTTP_onClosed v x s = do {
     s \<leftarrow> (if sendInProgress (req s x) then forceClose v x s else Some s);
     Some (hupd x (\<lambda>k. k\<lparr>sendInProgress := False\<rparr>) s)
   }"

definition HTTP_onReset :: "nat \<Rightarrow> bool \<Rightarrow> 'a http_scheme \<Rightarrow> 'a http_scheme option" where
  "HTTP_onReset x resetByRemoteHost s = Some (hupd x (\<lambda>k. k\<lparr>sendInProgress := False\<rparr>) s)"

text \<open>The table of virtual methods; \<open>n\<close> bounds the nesting of events.\<close>

fun HTTP_vtable :: "nat \<Rightarrow> bool \<Rightarrow> 'a http_scheme vtable" where
  "HTTP_vtable 0 allocs = (Socket_vtable (\<lambda>x buf s. None) allocs)
     \<lparr>onEstablished := (\<lambda>x s. None), onRemoteClosed := (\<lambda>x s. None), onClosed := (\<lambda>x s. None), onReset := (\<lambda>x b s. None)\<rparr>"
| "HTTP_vtable (Suc n) allocs =
     (let v = HTTP_vtable n allocs
      in (Socket_vtable HTTP_onDataReceived allocs)
        \<lparr>onEstablished := HTTP_onEstablished v, onRemoteClosed := HTTP_onRemoteClosed v, onClosed := HTTP_onClosed v,
         onReset := HTTP_onReset\<rparr>)"

end
