(* ===== verification/Messages.thy ===== *)
theory Messages
  imports Exchange SMTP_Lines HTTPClient
begin

text \<open>
  What the two clients put on the wire: a text written piece by piece into the send buffer of the socket, and sent as one segment.
\<close>

section \<open>Writing a text\<close>

definition text_of :: "u8 list option list \<Rightarrow> u8 list" where
  "text_of ps = concat (map the ps)"

lemma text_of_simps [simp]: "text_of [] = []" "text_of (Some p # ps) = p @ text_of ps"
  by (simp_all add: text_of_def)

lemma text_of_append [simp]: "text_of (ps @ qs) = text_of ps @ text_of qs"
  by (simp add: text_of_def)

lemma b_write_nil: "snd (b_write b off [] s) = s"
  by (induction b arbitrary: off) (auto simp: driver_write_def split: option.split)

lemma write_pieces_ok:
  assumes "b_wok s b" and "None \<notin> set ps" and "unat off + length (text_of ps) \<le> unat (b_size b)"
  shows "\<exists>s'. write_pieces b off ps s = Some (off + word_of_nat (length (text_of ps)), s') \<and> rest_same s s'
    \<and> b_bytes s' b = put (unat off) (text_of ps) (b_bytes s b)"
  using assms
proof (induction ps arbitrary: off s)
  case Nil
  then show ?case by (auto simp: put_def)
next
  case (Cons q ps)
  then obtain p where q: "q = Some p" by (cases q) auto
  let ?s = "snd (b_write b off p s)" and ?o = "off + word_of_nat (length p)"
  have len: "length p + length (text_of ps) < 65536" using Cons.prems(3) unat16_less [of "b_size b"] by (simp add: q del: unat16_less)
  then have o: "unat ?o = unat off + length p"
    using Cons.prems(3) unat16_less [of "b_size b"] by (subst unat_add16) (simp_all add: q unat_of_nat16 del: unat16_less)
  have w: "b_bytes ?s b = put (unat off) p (b_bytes s b)"
  proof (cases "p = []")
    case True
    then show ?thesis by (simp add: b_write_nil put_def)
  next
    case False
    then have "unat off < unat (b_size b)" using Cons.prems(3) by (cases p) (simp_all add: q)
    then show ?thesis using buf.wr_inside [of s b off p] Cons.prems(1,3) by (simp add: q)
  qed
  have "b_wok ?s b" using Cons.prems(1) rest_same_wok [OF rest_same_b_write] by blast
  then obtain s' where s': "write_pieces b ?o ps ?s = Some (?o + word_of_nat (length (text_of ps)), s')" "rest_same ?s s'"
    "b_bytes s' b = put (unat ?o) (text_of ps) (b_bytes ?s b)"
    using Cons.IH [of ?s ?o] Cons.prems(2,3) o by (auto simp: q)
  have "length (b_bytes s b) = unat (b_size b)" using Cons.prems(1) by (simp add: buf.length_bytes buf.wok_ok)
  then have "put (unat off + length p) (text_of ps) (put (unat off) p (b_bytes s b)) = put (unat off) (p @ text_of ps) (b_bytes s b)"
    using Cons.prems(3) by (cases p) (auto simp: put_def q min_def ac_simps)
  then show ?case using s' w o rest_same_trans [OF rest_same_b_write s'(2)] by (simp add: q add.assoc)
qed

section \<open>Sending a text\<close>

lemma payload_wok:
  assumes "can_send_data x mac n st s"
  shows "b_wok s (after (sendPacketBuffer s) 20)" and "unat n \<le> unat (b_size (after (sendPacketBuffer s) 20))"
    and "b_bytes s (after (sendPacketBuffer s) 20) = drop 20 (b_bytes s (sendPacketBuffer s))"
proof -
  let ?p = "sendPacketBuffer s"
  note c = assms [unfolded can_send_data_def can_send_def]
  have ip: "ip_ok s" using c by simp
  have "20 \<le> b_size ?p" using c ip_sizes(5) [OF ip] by (auto simp: le16_iff)
  then show "b_wok s (after ?p 20)" "b_bytes s (after ?p 20) = drop 20 (b_bytes s ?p)"
    using ip_sizes(3) [OF ip] by (simp_all add: after_wok b_bytes_after buf.wok_ok)
  show "unat n \<le> unat (b_size (after ?p 20))" using c by (simp add: can_copy_def le16_iff)
qed

lemma bytes_taken: "length xs \<le> length ys \<Longrightarrow> take (length xs) (put 0 xs ys) = xs"
  by (simp add: put_def)

definition data_sent :: "nat \<Rightarrow> u16 \<Rightarrow> 'a tcp_scheme \<Rightarrow> 'a tcp_scheme" where
  "data_sent x n s = upd x (\<lambda>k. k\<lparr>sk_attempts := 1, state := ESTABLISHED OR AWAITING_ACK, lastDataLength := n,
     localSeq := localSeq k + ucast n, stateTime := now s\<rparr>) s"

context window_law
begin

text \<open>What is in the send buffer when \<^verbatim>\<open>send\<close> is called goes out.\<close>

lemma send_written:
  fixes s :: "'a tcp_scheme"
  assumes "can_send_data x mac n st s" and "rest_same s s1" and "unat n = length xs"
    and "b_bytes s1 (after (sendPacketBuffer s) 20) = put 0 xs (b_bytes s (after (sendPacketBuffer s) 20))"
  shows "\<exists>s'. send v x n s1 = Some (True, s') \<and> transmits [data_frame v x mac (ACK OR PSH) (localSeq (sock s x)) xs s] (data_sent x n s) s'"
proof -
  note t1 = rest_same_transmits [OF assms(2)]
  have c1: "can_send_data x mac n st s1" using assms(1) by (simp add: can_send_data_transmits [OF t1])
  have "length (b_bytes s (after (sendPacketBuffer s) 20)) = unat (b_size (after (sendPacketBuffer s) 20))"
    using payload_wok(1) [OF assms(1)] by (simp add: buf.length_bytes buf.wok_ok)
  then have "take (unat n) (b_bytes s1 (after (sendPacketBuffer s) 20)) = xs"
    using payload_wok(2) [OF assms(1)] assms(3,4) by (simp add: bytes_taken)
  then have "take (unat n) (drop 20 (b_bytes s1 (sendPacketBuffer s1))) = xs"
    using payload_wok(3) [OF c1] by (simp add: ip_transmits [OF t1])
  then obtain s' where "send v x n s1 = Some (True, s')" and
    t: "transmits [data_frame v x mac (ACK OR PSH) (localSeq (sock s x)) xs s] (data_sent x n s1) s'"
    using send_ok [OF c1] unfolding data_frame_def data_sent_def sock_transmits [OF t1] transmits_fields [OF t1] ip_transmits [OF t1]
      getWindowSize_transmits [OF t1] by auto
  moreover have "rest_same (data_sent x n s) (data_sent x n s1)"
    unfolding data_sent_def transmits_fields [OF t1] by (rule rest_same_upd [OF assms(2)])
  ultimately show ?thesis using transmits_rest_same by blast
qed

lemma send_pieces_ok:
  fixes s :: "'a tcp_scheme"
  assumes "can_send_data x mac n st s" and "None \<notin> set ps" and "length (text_of ps) = unat n"
  shows "\<exists>s'. send_pieces v x ps s = Some s'
    \<and> transmits [data_frame v x mac (ACK OR PSH) (localSeq (sock s x)) (text_of ps) s] (data_sent x n s) s'"
proof -
  let ?b = "after (sendPacketBuffer s) 20"
  obtain s1 where s1: "write_pieces ?b 0 ps s = Some (n, s1)" "rest_same s s1" "b_bytes s1 ?b = put 0 (text_of ps) (b_bytes s ?b)"
    using write_pieces_ok [OF payload_wok(1) [OF assms(1)] assms(2), of 0] payload_wok(2) [OF assms(1)] assms(3) by auto
  obtain s' where "send v x n s1 = Some (True, s')"
    "transmits [data_frame v x mac (ACK OR PSH) (localSeq (sock s x)) (text_of ps) s] (data_sent x n s) s'"
    using send_written [OF assms(1) s1(2) _ s1(3)] assms(3) by auto
  then show ?thesis using s1(1) assms(1) by (simp add: send_pieces_def getSendDataBuffer_def can_send_data_def can_send_def)
qed

lemma send_data_ok:
  fixes s :: "'a tcp_scheme"
  assumes "can_send_data x mac n st s" and "length xs = unat n"
  shows "\<exists>s'. send_data v x xs s = Some (True, s') \<and> transmits [data_frame v x mac (ACK OR PSH) (localSeq (sock s x)) xs s] (data_sent x n s) s'"
proof -
  let ?b = "after (sendPacketBuffer s) 20"
  have "n \<noteq> 0" using assms(1) by (simp add: can_send_data_def)
  then have "0 < unat n" by (simp add: unat_gt_0)
  then have w: "fst (b_write ?b 0 xs s)" "b_bytes (snd (b_write ?b 0 xs s)) ?b = put 0 xs (b_bytes s ?b)"
    using buf.wr_inside [OF payload_wok(1) [OF assms(1)], of 0 xs] payload_wok(2) [OF assms(1)] assms(2) by auto
  obtain s' where "send v x n (snd (b_write ?b 0 xs s)) = Some (True, s')"
    "transmits [data_frame v x mac (ACK OR PSH) (localSeq (sock s x)) xs s] (data_sent x n s) s'"
    using send_written [OF assms(1) rest_same_b_write _ w(2)] assms(2) by auto
  then show ?thesis
    using w(1) assms by (simp add: send_data_def getSendDataBuffer_def can_send_data_def can_send_def case_prod_beta)
qed

end

interpretation http_window: window_law "HTTP_vtable k allocs"
  by unfold_locales (cases k; simp add: Let_def Socket_vtable_def getMaxSegmentSize_def IP_getMaxReceivePayload_def getMaxReceivePayload_def)

interpretation smtp_window: window_law "SMTP_vtable k allocs"
  by unfold_locales (cases k; simp add: Let_def Socket_vtable_def getMaxSegmentSize_def IP_getMaxReceivePayload_def getMaxReceivePayload_def)

section \<open>A request of the HTTP client\<close>

definition http_text :: "u8 list \<Rightarrow> u8 list \<Rightarrow> u8 list option \<Rightarrow> u8 list option \<Rightarrow> u8 list" where
  "http_text method path contentType body =
     method @ str '' '' @ path @ [10] @
     (case body of
        Some (b # bs) \<Rightarrow>
          (case contentType of Some (c # cs) \<Rightarrow> str ''Content-Type: '' @ (c # cs) @ [10] | _ \<Rightarrow> [])
          @ str ''Content-Length: '' @ itoa (length (b # bs)) @ [10, 10] @ (b # bs)
      | _ \<Rightarrow> [10])"

definition decimal :: "u8 list \<Rightarrow> nat" where
  "decimal ds = foldl (\<lambda>n d. 10 * n + (unat d - 48)) 0 ds"

lemma decimal_itoa: "decimal (itoa n) = n"
proof (induction n rule: less_induct)
  case (less n)
  have d: "unat (48 + word_of_nat k :: u8) = 48 + k" if "k < 10" for k
  proof -
    have "unat (word_of_nat (48 + k) :: u8) = 48 + k" by (simp only: unat_of_nat) (use that in simp)
    then show ?thesis by simp
  qed
  show ?case
  proof (cases "n < 10")
    case True
    then show ?thesis using d [of n] by (subst itoa.simps) (simp add: decimal_def)
  next
    case False
    have "itoa n = itoa (n div 10) @ [word_of_nat (48 + n mod 10)]" using False by (subst itoa.simps) simp
    then have "decimal (itoa n) = 10 * decimal (itoa (n div 10)) + n mod 10" using d [of "n mod 10"] by (simp add: decimal_def)
    then show ?thesis using less.IH [of "n div 10"] False by simp
  qed
qed

lemma length_itoa: "n < 10 ^ Suc k \<Longrightarrow> length (itoa n) \<le> Suc k"
proof (induction k arbitrary: n)
  case 0
  then show ?case by (subst itoa.simps) simp
next
  case (Suc k)
  have "n div 10 < 10 ^ Suc k" using Suc.prems by (simp add: div_less_iff_less_mult mult.commute)
  then show ?case using Suc.IH [of "n div 10"] by (subst itoa.simps) simp
qed

lemma request_pieces_text:
  assumes "h_method k = Some m" and "h_path k = Some p" and "\<forall>t. h_body k = Some t \<longrightarrow> length t < 10000"
  shows "None \<notin> set (request_pieces k)" and "text_of (request_pieces k) = http_text m p (h_contentType k) (h_body k)"
proof -
  have c: "content_length t = Some (itoa (length t))" if "h_body k = Some t" for t
    using length_itoa [of "length t" 3] assms(3) that by (simp add: content_length_def Let_def)
  show "None \<notin> set (request_pieces k)" "text_of (request_pieces k) = http_text m p (h_contentType k) (h_body k)"
    using assms(1,2) c by (auto simp: request_pieces_def http_text_def not_empty_def text_of_def split: option.splits list.splits)
qed

section \<open>The dialogue of the SMTP client\<close>

text \<open>
  The dialogue, row by row: the state in which the client waits, the code and, if it looks at it, the first word of the line that it waits for, the
  text it sends then and the state in which it waits next.
\<close>

definition mail_text :: "u8 list \<Rightarrow> u8 list option \<Rightarrow> u8 list \<Rightarrow> u8 list" where
  "mail_text sender subject body =
     str ''From: '' @ sender @ [13, 10] @ (case subject of None \<Rightarrow> [] | Some t \<Rightarrow> str ''Subject: '' @ t @ [13, 10])
     @ [13, 10] @ body @ [13, 10] @ [46, 13, 10]"

definition dialogue :: "u8 list \<Rightarrow> u8 list \<Rightarrow> u8 list \<Rightarrow> u8 list \<Rightarrow> u8 list \<Rightarrow> u8 list \<Rightarrow> (u8 \<times> u16 \<times> u8 list option \<times> u8 list \<times> u8) list" where
  "dialogue domain user pass sender recipient text =
     [(SMTP_INIT, 220, None, str ''HELO '' @ domain @ [10], SMTP_CLIENT_GREETED),
      (SMTP_CLIENT_GREETED, 250, None, str ''auth login'' @ [10], SMTP_CLIENT_SET_AUTH),
      (SMTP_CLIENT_SET_AUTH, 334, Some (str ''VXNlcm5hbWU6''), user @ [10], SMTP_CLIENT_SET_USER),
      (SMTP_CLIENT_SET_USER, 334, Some (str ''UGFzc3dvcmQ6''), pass @ [10], SMTP_CLIENT_SET_PASS),
      (SMTP_CLIENT_SET_PASS, 235, None, str ''MAIL FROM:'' @ sender @ [10], SMTP_CLIENT_SET_FROM),
      (SMTP_CLIENT_SET_FROM, 250, None, str ''RCPT TO:'' @ recipient @ [10], SMTP_CLIENT_SET_RCPT),
      (SMTP_CLIENT_SET_RCPT, 250, None, str ''DATA'' @ [10], SMTP_CLIENT_SET_DATA),
      (SMTP_CLIENT_SET_DATA, 354, None, text, SMTP_CLIENT_SET_EMAIL)]"

lemma mupd_tcp [simp]:
  fixes s :: "'a smtp_scheme"
  shows "tcp.sockets (mupd x f s) = tcp.sockets s" "drv_send (mupd x f s) = drv_send s" "sendPacketBuffer (mupd x f s) = sendPacketBuffer s"
    "macAddr (mupd x f s) = macAddr s" "ip_ipAddress (mupd x f s) = ip_ipAddress s" "chip (mupd x f s) = chip s" "wire (mupd x f s) = wire s"
    "now (mupd x f s) = now s" "ip_ok (mupd x f s) = ip_ok s" "getMACForIP (mupd x f s) dst = getMACForIP s dst"
    "getWindowSize (SMTP_vtable n allocs) y (mupd x f s) = getWindowSize (SMTP_vtable n allocs) y s"
proof -
  show "tcp.sockets (mupd x f s) = tcp.sockets s" "drv_send (mupd x f s) = drv_send s" "sendPacketBuffer (mupd x f s) = sendPacketBuffer s"
    "macAddr (mupd x f s) = macAddr s" "ip_ipAddress (mupd x f s) = ip_ipAddress s" "chip (mupd x f s) = chip s" "wire (mupd x f s) = wire s"
    "now (mupd x f s) = now s" by (simp_all add: mupd_def)
  show "ip_ok (mupd x f s) = ip_ok s"
    by (simp add: mupd_def ip_ok_def arp_ok_def arp_net_ok_def eth_ok_def b_wok_def b_ok_def timers_ok_def)
  show "getMACForIP (mupd x f s) dst = getMACForIP s dst"
    by (simp add: mupd_def getMACForIP_def onLocalNetwork_def getMACAddress_def)
  show "getWindowSize (SMTP_vtable n allocs) y (mupd x f s) = getWindowSize (SMTP_vtable n allocs) y s"
    by (cases n) (simp_all add: mupd_def sock_def getWindowSize_def Let_def Socket_vtable_def getMaxSegmentSize_def
        IP_getMaxReceivePayload_def getMaxReceivePayload_def)
qed

lemma can_send_data_mupd [simp]: "can_send_data x mac n st (mupd y f s) = can_send_data x mac n st s"
  by (simp add: can_send_data_def can_send_def can_copy_chip [of "mupd y f s" s])

lemma data_frame_mupd [simp]:
  "data_frame (SMTP_vtable n allocs) x mac c q xs (mupd y f s) = data_frame (SMTP_vtable n allocs) x mac c q xs s"
  by (simp add: data_frame_def)

lemma checkCode_unique: "checkCode line c \<Longrightarrow> checkCode line d \<Longrightarrow> c = d"
  by (auto simp: checkCode_def split: if_splits option.splits)

text \<open>The email is there to be sent.\<close>

definition composed :: "mail \<Rightarrow> u8 list \<Rightarrow> u8 list \<Rightarrow> u8 list \<Rightarrow> u8 list \<Rightarrow> u8 list \<Rightarrow> bool" where
  "composed k user pass sender recipient text =
     (m_user k = Some user \<and> m_pass k = Some pass \<and> m_from k = Some sender \<and> m_to k = Some recipient
      \<and> (\<exists>body. m_body k = Some body \<and> text = mail_text sender (m_subject k) body))"

lemma email_pieces_text:
  assumes "composed k user pass sender recipient text"
  shows "None \<notin> set (email_pieces k)" and "text_of (email_pieces k) = text"
  using assms by (auto simp: composed_def email_pieces_def mail_text_def split: option.split)

lemma expected_rows:
  "expected SMTP_INIT line = Some (checkCode line 220, SMTP_SERVER_READY)"
  "expected SMTP_CLIENT_GREETED line = Some (checkCode line 250, SMTP_READY_FOR_AUTH)"
  "expected SMTP_CLIENT_SET_AUTH line = Some (checkCode line 334 \<and> checkMessage line (str ''VXNlcm5hbWU6''), SMTP_READY_FOR_USER)"
  "expected SMTP_CLIENT_SET_USER line = Some (checkCode line 334 \<and> checkMessage line (str ''UGFzc3dvcmQ6''), SMTP_READY_FOR_PASS)"
  "expected SMTP_CLIENT_SET_PASS line = Some (checkCode line 235, SMTP_READY_FOR_FROM)"
  "expected SMTP_CLIENT_SET_FROM line = Some (checkCode line 250, SMTP_READY_FOR_RCPT)"
  "expected SMTP_CLIENT_SET_RCPT line = Some (checkCode line 250, SMTP_READY_FOR_DATA)"
  "expected SMTP_CLIENT_SET_DATA line = Some (checkCode line 354, SMTP_READY_FOR_EMAIL)"
  by (simp_all add: expected_def smtp_states)

lemma ready_rows:
  "protocolState (mail s x) = SMTP_SERVER_READY \<Longrightarrow> SMTP_onReadyToSend v x s
    = send_pieces v x [Some (str ''HELO ''), remoteDomain (sock s x), Some [10]] s \<bind> set_protocol x SMTP_CLIENT_GREETED"
  "protocolState (mail s x) = SMTP_READY_FOR_AUTH \<Longrightarrow> SMTP_onReadyToSend v x s
    = send_string v x (str ''auth login'' @ [10]) s \<bind> (\<lambda>(_, s). set_protocol x SMTP_CLIENT_SET_AUTH s)"
  "protocolState (mail s x) = SMTP_READY_FOR_USER \<Longrightarrow> SMTP_onReadyToSend v x s
    = send_pieces v x [m_user (mail s x), Some [10]] s \<bind> set_protocol x SMTP_CLIENT_SET_USER"
  "protocolState (mail s x) = SMTP_READY_FOR_PASS \<Longrightarrow> SMTP_onReadyToSend v x s
    = send_pieces v x [m_pass (mail s x), Some [10]] s \<bind> set_protocol x SMTP_CLIENT_SET_PASS"
  "protocolState (mail s x) = SMTP_READY_FOR_FROM \<Longrightarrow> SMTP_onReadyToSend v x s
    = send_pieces v x [Some (str ''MAIL FROM:''), m_from (mail s x), Some [10]] s \<bind> set_protocol x SMTP_CLIENT_SET_FROM"
  "protocolState (mail s x) = SMTP_READY_FOR_RCPT \<Longrightarrow> SMTP_onReadyToSend v x s
    = send_pieces v x [Some (str ''RCPT TO:''), m_to (mail s x), Some [10]] s \<bind> set_protocol x SMTP_CLIENT_SET_RCPT"
  "protocolState (mail s x) = SMTP_READY_FOR_DATA \<Longrightarrow> SMTP_onReadyToSend v x s
    = send_string v x (str ''DATA'' @ [10]) s \<bind> (\<lambda>(_, s). set_protocol x SMTP_CLIENT_SET_DATA s)"
  "protocolState (mail s x) = SMTP_READY_FOR_EMAIL \<Longrightarrow> SMTP_onReadyToSend v x s
    = send_pieces v x (email_pieces (mail s x)) s \<bind> set_protocol x SMTP_CLIENT_SET_EMAIL"
  unfolding SMTP_onReadyToSend_def Let_def smtp_states by simp_all

lemma dialogue_sends:
  fixes s :: "'a smtp_scheme" and depth :: nat and allocs :: bool
  defines "v \<equiv> SMTP_vtable depth allocs"
  assumes "(w, code, msg, text, w') \<in> set (dialogue domain user pass sender recipient mailtext)"
    and "composed (mail s x) user pass sender recipient mailtext" and "remoteDomain (sock s x) = Some domain"
    and "expected w line = Some (ok, protocolState (mail s x))"
    and "can_send_data x mac n st s" and "length text = unat n"
  shows "\<exists>s'. SMTP_onReadyToSend v x s = Some (mupd x (\<lambda>k. k\<lparr>protocolState := w'\<rparr>) s')
    \<and> transmits [data_frame v x mac (ACK OR PSH) (localSeq (sock s x)) text s] (data_sent x n s) s'"
proof -
  have pieces: "\<exists>s'. send_pieces v x ps s \<bind> set_protocol x w' = Some (mupd x (\<lambda>k. k\<lparr>protocolState := w'\<rparr>) s')
      \<and> transmits [data_frame v x mac (ACK OR PSH) (localSeq (sock s x)) text s] (data_sent x n s) s'"
    if "None \<notin> set ps" "text_of ps = text" for ps
    using smtp_window.send_pieces_ok [OF assms(6) that(1), of depth allocs] that(2) assms(7) by (auto simp: set_protocol_def v_def)
  have string: "\<exists>s'. send_string v x text s \<bind> (\<lambda>(_, s). set_protocol x w' s) = Some (mupd x (\<lambda>k. k\<lparr>protocolState := w'\<rparr>) s')
      \<and> transmits [data_frame v x mac (ACK OR PSH) (localSeq (sock s x)) text s] (data_sent x n s) s'"
    using smtp_window.send_data_ok [OF assms(6,7), of depth allocs] by (auto simp: set_protocol_def send_string_def v_def)
  note c = assms(3) [unfolded composed_def] and mail = email_pieces_text [OF assms(3)]
  show ?thesis
    using assms(2) unfolding dialogue_def list.set insert_iff empty_iff prod.inject
  proof (elim disjE conjE FalseE)
    assume "w = SMTP_INIT" "w' = SMTP_CLIENT_GREETED" "text = str ''HELO '' @ domain @ [10]"
    then show ?thesis using assms(4,5) pieces [of "[Some (str ''HELO ''), Some domain, Some [10]]"] by (simp add: expected_rows ready_rows)
  next
    assume "w = SMTP_CLIENT_GREETED" "w' = SMTP_CLIENT_SET_AUTH" "text = str ''auth login'' @ [10]"
    then show ?thesis using assms(5) string by (simp add: expected_rows ready_rows)
  next
    assume "w = SMTP_CLIENT_SET_AUTH" "w' = SMTP_CLIENT_SET_USER" "text = user @ [10]"
    then show ?thesis using assms(5) c pieces [of "[Some user, Some [10]]"] by (simp add: expected_rows ready_rows)
  next
    assume "w = SMTP_CLIENT_SET_USER" "w' = SMTP_CLIENT_SET_PASS" "text = pass @ [10]"
    then show ?thesis using assms(5) c pieces [of "[Some pass, Some [10]]"] by (simp add: expected_rows ready_rows)
  next
    assume "w = SMTP_CLIENT_SET_PASS" "w' = SMTP_CLIENT_SET_FROM" "text = str ''MAIL FROM:'' @ sender @ [10]"
    then show ?thesis using assms(5) c pieces [of "[Some (str ''MAIL FROM:''), Some sender, Some [10]]"] by (simp add: expected_rows ready_rows)
  next
    assume "w = SMTP_CLIENT_SET_FROM" "w' = SMTP_CLIENT_SET_RCPT" "text = str ''RCPT TO:'' @ recipient @ [10]"
    then show ?thesis using assms(5) c pieces [of "[Some (str ''RCPT TO:''), Some recipient, Some [10]]"] by (simp add: expected_rows ready_rows)
  next
    assume "w = SMTP_CLIENT_SET_RCPT" "w' = SMTP_CLIENT_SET_DATA" "text = str ''DATA'' @ [10]"
    then show ?thesis using assms(5) string by (simp add: expected_rows ready_rows)
  next
    assume "w = SMTP_CLIENT_SET_DATA" "w' = SMTP_CLIENT_SET_EMAIL" "text = mailtext"
    then show ?thesis using assms(5) mail pieces [of "email_pieces (mail s x)"] by (simp add: expected_rows ready_rows)
  qed
qed

lemma dialogue_expected:
  assumes "(w, code, msg, text, w') \<in> set (dialogue domain user pass sender recipient mailtext)"
    and "checkCode line code" and "\<forall>m. msg = Some m \<longrightarrow> checkMessage line m"
  shows "\<exists>r. expected w line = Some (True, r)" and "w \<noteq> SMTP_CLIENT_SET_EMAIL" and "\<not> checkCode line 500"
proof -
  have "(\<exists>r. expected w line = Some (True, r)) \<and> w \<noteq> SMTP_CLIENT_SET_EMAIL \<and> code \<noteq> 500"
    using assms unfolding dialogue_def list.set insert_iff empty_iff prod.inject
    by (elim disjE conjE FalseE) (simp_all add: expected_rows, simp_all add: smtp_states)
  then show "\<exists>r. expected w line = Some (True, r)" "w \<noteq> SMTP_CLIENT_SET_EMAIL" "\<not> checkCode line 500"
    using checkCode_unique assms(2) by auto
qed

lemma smtp_more: "tcp.more s = \<lparr>mails = mails s, \<dots> = smtp.more s\<rparr>"
  by (cases s) (simp only: tcp.select_convs smtp.select_convs)

lemma smtp_same: "tcp.more s' = tcp.more s \<Longrightarrow> mails s' = mails s"
  by (simp only: smtp_more smtp.ext_inject)

lemma data_sent_more [simp]: "tcp.more (data_sent x n s) = tcp.more s"
  by (simp add: data_sent_def)

section \<open>Properties\<close>

text \<open>
  C11: The SMTP dialogue advances. For every row of the dialogue: when the client waits in the state of the row and a line with the code (and the
  word) of the row comes, one segment with exactly the text of the row goes out, and the client waits for the next reply; nothing else of the mail
  changes. The last row sends the email, its headers and its body, closed by a line with a dot.
\<close>

theorem smtp_dialogue_advances:
  fixes s :: "'a smtp_scheme" and depth :: nat and allocs :: bool
  defines "v \<equiv> SMTP_vtable depth allocs"
  assumes "(w, code, msg, text, w') \<in> set (dialogue domain user pass sender recipient mailtext)"
    and "protocolState (mail s x) = w" and "composed (mail s x) user pass sender recipient mailtext" and "x < length (mails s)"
    and "remoteDomain (sock s x) = Some domain" and "can_send_data x mac n st s" and "length text = unat n"
    and "checkCode line code" and "\<forall>m. msg = Some m \<longrightarrow> checkMessage line m"
  shows "\<exists>s'. onLineReceived v x line s = Some s' \<and> mail s' x = (mail s x)\<lparr>protocolState := w'\<rparr>
    \<and> wire s' = wire s @ [data_frame v x mac (ACK OR PSH) (localSeq (sock s x)) text s]
    \<and> state (sock s' x) = ESTABLISHED OR AWAITING_ACK"
proof -
  note e = dialogue_expected [OF assms(2,9,10)]
  obtain r where r: "expected w line = Some (True, r)" using e(1) by blast
  let ?s = "mupd x (\<lambda>k. k\<lparr>protocolState := r\<rparr>) s"
  have pm: "expected w line = Some (True, protocolState (mail ?s x))" "composed (mail ?s x) user pass sender recipient mailtext"
    "remoteDomain (sock ?s x) = Some domain" "can_send_data x mac n st ?s"
    using r assms(4-7) by (simp_all add: composed_def)
  obtain s' where s': "SMTP_onReadyToSend v x ?s = Some (mupd x (\<lambda>k. k\<lparr>protocolState := w'\<rparr>) s')"
    and t: "transmits [data_frame v x mac (ACK OR PSH) (localSeq (sock s x)) text s] (data_sent x n ?s) s'"
    using dialogue_sends [OF assms(2) pm(2,3,1,4) assms(8), of depth allocs] unfolding v_def by auto
  note c = assms(7) [unfolded can_send_data_def can_send_def]
  have rdy: "readyToSend (sock s x)" using c by (simp add: readyToSend_def sock_states)
  have "mupd x (\<lambda>k. k\<lparr>protocolState := r, m_status := (if protocolState k = SMTP_CLIENT_SET_EMAIL then EMAIL_SENT else m_status k)\<rparr>) s = ?s"
    using assms(3) e(2) by (simp add: mupd_def)
  then have "onLineReceived v x line s = SMTP_onReadyToSend v x ?s"
    using e(3) r rdy assms(3) by (simp add: onLineReceived_def)
  moreover have "mails s' = mails ?s"
    using smtp_same [of s' ?s] by (simp add: tcp_transmits [OF t])
  then have "mail s' x = mail ?s x" "length (mails s') = length (mails s)" by (simp_all add: mail_def mupd_def)
  moreover have "wire s' = wire s @ [data_frame v x mac (ACK OR PSH) (localSeq (sock s x)) text s]"
    by (simp add: transmits_fields [OF t] data_sent_def)
  moreover have "state (sock s' x) = ESTABLISHED OR AWAITING_ACK"
    using c by (simp add: sock_transmits [OF t] data_sent_def)
  ultimately show ?thesis using s' assms(5) by simp
qed

text \<open>The sender of the earlier examples, as a client of either kind.\<close>

lemma extend_tcp [simp]:
  fixes s :: tcp
  shows "sock (tcp.extend s r) x = sock s x" "tcp.sockets (tcp.extend s r) = tcp.sockets s" "drv_send (tcp.extend s r) = drv_send s"
    "sendPacketBuffer (tcp.extend s r) = sendPacketBuffer s" "chip (tcp.extend s r) = chip s" "ip_ok (tcp.extend s r) = ip_ok s"
    "getMACForIP (tcp.extend s r) dst = getMACForIP s dst" "wire (tcp.extend s r) = wire s"
  by (simp_all add: tcp.defs sock_def ip_ok_def arp_ok_def arp_net_ok_def eth_ok_def b_wok_def b_ok_def timers_ok_def
      getMACForIP_def onLocalNetwork_def getMACAddress_def)

lemma can_send_data_extend [simp]:
  fixes s :: tcp
  shows "can_send_data x mac n st (tcp.extend s r) = can_send_data x mac n st s"
  by (simp add: can_send_data_def can_send_def can_copy_def b_ok_def b_wok_def)

lemma can_send_data_domain:
  "x < length (tcp.sockets s) \<Longrightarrow> can_send_data x mac n st (upd x (\<lambda>k. k\<lparr>remoteDomain := d\<rparr>) s) = can_send_data x mac n st s"
  by (simp add: can_send_data_def can_send_def getMaxSendPayload_def Let_def)

definition demo_smtp :: smtp where
  "demo_smtp = tcp.extend (upd 0 (\<lambda>k. k\<lparr>remoteDomain := Some (str ''m.org'')\<rparr>) demo_sender)
     \<lparr>mails = [\<lparr>m_user = Some (str ''YQ==''), m_pass = Some (str ''Yg==''), m_status = EMAIL_SENDING, protocolState = SMTP_CLIENT_SET_AUTH,
        m_to = Some (str ''<b@m.org>''), m_from = Some (str ''<a@m.org>''), m_subject = None, m_body = Some (str ''Hi''), recvLine = replicate 40 0\<rparr>]\<rparr>"

lemma smtp_dialogue_advances_witness:
  "\<exists>s'. onLineReceived (SMTP_vtable 3 True) 0 (str ''334 VXNlcm5hbWU6'') demo_smtp = Some s' \<and> length (wire s') = Suc (length (wire demo_smtp))
    \<and> protocolState (mail s' 0) = SMTP_CLIENT_SET_USER"
proof -
  have x: "0 < length (tcp.sockets demo_sender)" by (simp add: demo_sender_def demo_tcp_fields)
  have cs: "can_send_data 0 [2, 0, 0, 0, 0, 2] 5 (OffsetBuffer (MemBuffer 0x900 30) 0 30) demo_smtp"
    unfolding demo_smtp_def can_send_data_extend can_send_data_domain [OF x] by (rule demo_can_send) simp_all
  have m: "mail demo_smtp 0 = \<lparr>m_user = Some (str ''YQ==''), m_pass = Some (str ''Yg==''), m_status = EMAIL_SENDING, protocolState = SMTP_CLIENT_SET_AUTH,
        m_to = Some (str ''<b@m.org>''), m_from = Some (str ''<a@m.org>''), m_subject = None, m_body = Some (str ''Hi''), recvLine = replicate 40 0\<rparr>"
    "0 < length (mails demo_smtp)" by (simp_all add: demo_smtp_def mail_def tcp.defs)
  have dom: "remoteDomain (sock demo_smtp 0) = Some (str ''m.org'')" using x by (simp add: demo_smtp_def)
  let ?text = "mail_text (str ''<a@m.org>'') None (str ''Hi'')"
  have row: "(SMTP_CLIENT_SET_AUTH, 334, Some (str ''VXNlcm5hbWU6''), str ''YQ=='' @ [10], SMTP_CLIENT_SET_USER)
      \<in> set (dialogue (str ''m.org'') (str ''YQ=='') (str ''Yg=='') (str ''<a@m.org>'') (str ''<b@m.org>'') ?text)"
    by (simp add: dialogue_def)
  have c: "composed (mail demo_smtp 0) (str ''YQ=='') (str ''Yg=='') (str ''<a@m.org>'') (str ''<b@m.org>'') ?text"
    by (simp add: composed_def m)
  have line: "checkCode (str ''334 VXNlcm5hbWU6'') 334" "checkMessage (str ''334 VXNlcm5hbWU6'') (str ''VXNlcm5hbWU6'')" by code_simp+
  have len: "length (str ''YQ=='' @ [10]) = unat (5 :: u16)" by simp
  show ?thesis
    using smtp_dialogue_advances [OF row _ c m(2) dom cs len line(1), of 3 True] line(2) by (auto simp: m(1))
qed

text \<open>
  C12: The HTTP client sends its request. When the connection is established, one segment goes out with exactly the method, the path and, if
  there is a body, its type and its length in decimal, an empty line and the body.
\<close>

theorem http_request_is_sent:
  fixes s :: "'a http_scheme" and depth :: nat and allocs :: bool
  assumes "can_send_data x mac n st s" and "h_method (req s x) = Some m" and "h_path (req s x) = Some p"
    and "\<forall>t. h_body (req s x) = Some t \<longrightarrow> length t < 10000"
    and "length (http_text m p (h_contentType (req s x)) (h_body (req s x))) = unat n"
  shows "\<exists>s'. onEstablished (HTTP_vtable (Suc depth) allocs) x s = Some s'
    \<and> transmits [data_frame (HTTP_vtable depth allocs) x mac (ACK OR PSH) (localSeq (sock s x))
        (http_text m p (h_contentType (req s x)) (h_body (req s x))) s] (data_sent x n s) s'
    \<and> (\<forall>t. h_body (req s x) = Some t \<longrightarrow> decimal (itoa (length t)) = length t)"
proof -
  note ps = request_pieces_text [OF assms(2-4)]
  have "length (text_of (request_pieces (req s x))) = unat n" using ps(2) assms(5) by simp
  from http_window.send_pieces_ok [OF assms(1) ps(1) this, of depth allocs] show ?thesis
    by (auto simp: HTTP_onEstablished_def Let_def ps(2) decimal_itoa)
qed

definition demo_http :: http where
  "demo_http = tcp.extend demo_sender
     \<lparr>requests = [\<lparr>h_path = Some (str ''/''), h_method = Some (str ''PUT''), h_body = Some (str ''x''), h_contentType = None, sendInProgress = True\<rparr>]\<rparr>"

lemma http_request_is_sent_witness:
  "\<exists>s'. onEstablished (HTTP_vtable 1 True) 0 demo_http = Some s'
    \<and> wire s' = [data_frame (HTTP_vtable 0 True) 0 [2, 0, 0, 0, 0, 2] (ACK OR PSH) 42 (str ''PUT /'' @ [10] @ str ''Content-Length: 1'' @ [10, 10, 120]) demo_http]"
proof -
  let ?text = "str ''PUT /'' @ [10] @ str ''Content-Length: 1'' @ [10, 10, 120]"
  have i: "itoa 1 = str ''1''" by (subst itoa.simps) simp
  have r: "h_method (req demo_http 0) = Some (str ''PUT'')" "h_path (req demo_http 0) = Some (str ''/'')"
    "h_body (req demo_http 0) = Some (str ''x'')" "h_contentType (req demo_http 0) = None"
    by (simp_all add: demo_http_def req_def tcp.defs)
  have cs: "can_send_data 0 [2, 0, 0, 0, 0, 2] 26 (OffsetBuffer (MemBuffer 0x900 30) 0 30) demo_http"
    unfolding demo_http_def can_send_data_extend by (rule demo_can_send) simp_all
  have t: "http_text (str ''PUT'') (str ''/'') None (Some (str ''x'')) = ?text" using i by (simp add: http_text_def)
  have len: "length (http_text (str ''PUT'') (str ''/'') (h_contentType (req demo_http 0)) (h_body (req demo_http 0))) = unat (26 :: u16)"
    unfolding r t by simp
  have b: "\<forall>t. h_body (req demo_http 0) = Some t \<longrightarrow> length t < 10000" by (simp add: r)
  have "localSeq (sock demo_http 0) = 42" by (simp add: demo_http_def demo_sender_def demo_tcp_fields)
  moreover have "wire demo_http = []"
    by (simp add: demo_http_def demo_sender_def demo_tcp_def ip.defs udp.defs dns.defs demo_ip_simps)
  ultimately show ?thesis
    using http_request_is_sent [OF cs r(1,2) b len, of 0 True] unfolding r(3,4) t
    by (auto simp: data_sent_def dest!: transmits_fields(1))
qed

end
