(* ===== verification/SMTP_Receive.thy ===== *)
theory SMTP_Receive
  imports Messages Recovery
begin

text \<open>
  Received lines and the client's own answers to them: \<^verbatim>\<open>onLineReceived\<close> sends, and closes the connection, while the loop of
  \<^verbatim>\<open>onDataReceived\<close> goes on reading the buffer. Whatever it does, it returns, and it leaves alone what the loop works with.
\<close>

section \<open>Sending with a buffer in use\<close>

text \<open>From \<open>s\<close> to \<open>s'\<close> frames are sent and socket \<open>x\<close> changes, but neither its peer and its buffers nor the bytes in \<open>b\<close>.\<close>

definition same_ends :: "socket \<Rightarrow> socket \<Rightarrow> bool" where
  "same_ends k k' = (remoteIP k' = remoteIP k \<and> sk_tcp k' = sk_tcp k \<and> sendBuffer k' = sendBuffer k \<and> sk_stash k' = sk_stash k
     \<and> remoteDomain k' = remoteDomain k)"

definition replies :: "nat \<Rightarrow> buffer \<Rightarrow> 'a tcp_scheme \<Rightarrow> 'a tcp_scheme \<Rightarrow> bool" where
  "replies x b s s' = ((\<exists>k. sends (upd x (\<lambda>_. k) s) s' \<and> same_ends (sock s x) k) \<and> b_bytes s' b = b_bytes s b)"

lemma same_ends_refl [simp]: "same_ends k k"
  by (simp add: same_ends_def)

lemma replies_untouched: "untouched b s s' \<Longrightarrow> replies x b s s'"
  unfolding replies_def untouched_def using upd_const [of x s] same_ends_refl by metis

lemma replies_upd:
  assumes "same_ends (sock s x) (f (sock s x))"
  shows "replies x b s (upd x f s)"
proof -
  have "upd x f s = upd x (\<lambda>_. f (sock s x)) s" by (simp add: upd_def)
  then show ?thesis unfolding replies_def using assms sends_refl [of "upd x f s"] by (intro conjI exI [of _ "f (sock s x)"]) simp_all
qed

lemma replies_sock: "replies x b s s' \<Longrightarrow> same_ends (sock s x) (sock s' x)"
  unfolding replies_def by (elim exE conjE) (simp add: sock_sends)

lemma sends_upd: "sends s s' \<Longrightarrow> sends (upd x f s) (upd x f s')"
  unfolding sends_def using transmits_upd by blast

lemma replies_trans:
  assumes "replies x b s s1" and "replies x b s1 s2"
  shows "replies x b s s2"
proof -
  from assms obtain k k' where k: "sends (upd x (\<lambda>_. k) s) s1" and k': "sends (upd x (\<lambda>_. k') s1) s2" "same_ends (sock s1 x) k'"
    and b: "b_bytes s2 b = b_bytes s b" by (auto simp: replies_def)
  have "sends (upd x (\<lambda>_. k') s) s2" using sends_trans [OF sends_upd [OF k, of x "\<lambda>_. k'"] k'(1)] by simp
  moreover have "same_ends (sock s x) k'" using replies_sock [OF assms(1)] k'(2) by (simp add: same_ends_def)
  ultimately show ?thesis using b by (auto simp: replies_def)
qed

text \<open>What is the same afterwards.\<close>

lemma replies_same:
  assumes "replies x b s s'"
  shows "can_send x mac s' = can_send x mac s" and "apart c s' = apart c s" and "sendPacketBuffer s' = sendPacketBuffer s"
    and "tcp.more s' = tcp.more s" and "chip s' = chip s" and "b_bytes s' b = b_bytes s b"
proof -
  from assms obtain k fs where t: "transmits fs (upd x (\<lambda>_. k) s) s'" and k: "same_ends (sock s x) k" and b: "b_bytes s' b = b_bytes s b"
    by (auto simp: replies_def sends_def)
  have "can_send x mac (upd x (\<lambda>_. k) s) = can_send x mac s" using k by (auto simp: can_send_def same_ends_def)
  then show "can_send x mac s' = can_send x mac s" using can_send_transmits [OF t] by simp
  have "sends (upd x (\<lambda>_. k) s) s'" using t by (auto simp: sends_def)
  then show "apart c s' = apart c s" using apart_sends by fastforce
  show "sendPacketBuffer s' = sendPacketBuffer s" "tcp.more s' = tcp.more s" "chip s' = chip s" "b_bytes s' b = b_bytes s b"
    using b by (simp_all add: ip_transmits [OF t] tcp_transmits [OF t] transmits_fields [OF t])
qed

section \<open>A segment, whatever becomes of it\<close>

lemma transmit_untouched:
  assumes "apart b s" and "length (remoteIP (sock s x)) = 4" and "getMACForIP s (remoteIP (sock s x)) = Some mac"
  shows "untouched b s (snd (transmit x n ol s))"
proof -
  have w: "untouched b s (snd (writeNet16 (b_write (sendPacketBuffer s)) 16 c s))" for c
    using assms(1) by (intro untouched_writes(2)) simp_all
  then show ?thesis
    using untouched_tcp(1) [OF w] untouched_sendPacket [OF assms(1) _ assms(2)] unfolding transmit_def Let_def assms(3) option.case
    by (simp add: case_prod_beta)
qed

lemma options_reply:
  assumes "apart b s"
  shows "replies x b s (snd (segment_options x c n s))"
proof -
  let ?w = "b_write (sendPacketBuffer s)"
  have 1: "untouched b s (snd (seq_ok [write8 ?w 12 0x60, write8 ?w 20 0x02, write8 ?w 21 0x04, writeNet16 ?w 22 (getMaxSegmentSize s)] s))"
    by (rule untouched_seq(1)) (use assms in \<open>auto intro!: untouched_writes(1,2)\<close>)
  have 2: "untouched b s (snd (write8 ?w 12 0x50 s))" using assms by (intro untouched_writes(1)) simp_all
  have u: "replies x b s (upd x f s1)" if "replies x b s s1" "\<And>k. same_ends k (f k)" for f s1
    by (rule replies_trans [OF that(1)], rule replies_upd) (rule that(2))
  note r = replies_untouched [OF untouched_refl, of x b s] replies_untouched [OF 1, of x] replies_untouched [OF 2, of x]
  show ?thesis
    using r u [OF r(1)] u [OF r(2)] u [OF r(3)] unfolding segment_options_def Let_def
    by (simp add: case_prod_beta same_ends_def del: seq_ok.simps)
qed

lemma sendSegment_replies:
  fixes s :: "'a tcp_scheme"
  assumes "can_send x mac s" and "apart b s"
  shows "\<exists>ok s'. sendSegment v x c n seq ack s = Some (ok, s') \<and> replies x b s s'"
proof -
  let ?k = "sock s x"
  let ?w = "b_write (sendPacketBuffer s)"
  define s1 where "s1 = snd (seq_ok [writeNet16 ?w 0 (localPort ?k), writeNet16 ?w 2 (remotePort ?k),
    writeNet32 ?w 4 (if c AND RST \<noteq> RST then localSeq ?k else seq),
    writeNet32 ?w 8 (if c AND RST \<noteq> RST then remoteSeq ?k else ack)] s)"
  define s2 where "s2 = snd (segment_options x c n s1)"
  define s3 where "s3 = snd (seq_ok [write8 ?w 13 c, (\<lambda>s. writeNet16 ?w 14 (getWindowSize v x s) s), writeNet16 ?w 18 0x0000] s2)"
  have r1: "replies x b s s1"
    unfolding s1_def by (intro replies_untouched untouched_seq(1)) (use assms(2) in \<open>auto intro!: untouched_writes(2,3)\<close>)
  have "replies x b s1 s2" unfolding s2_def by (rule options_reply) (simp add: replies_same(2) [OF r1] assms(2))
  then have r2: "replies x b s s2" by (rule replies_trans [OF r1])
  have "untouched b s2 s3"
    unfolding s3_def
    by (rule untouched_seq(1)) (use assms(2) replies_same(2,3) [OF r2] in \<open>auto intro!: untouched_writes(1,2)\<close>)
  then have r3: "replies x b s s3" by (intro replies_trans [OF r2] replies_untouched)
  have c3: "can_send x mac s3" "apart b s3" using assms replies_same(1,2) [OF r3] by auto
  have "replies x b s3 (snd (transmit x n ol s3))" for ol
    by (intro replies_untouched transmit_untouched) (use c3 in \<open>auto simp: can_send_def\<close>)
  then have r4: "replies x b s (snd (transmit x n ol s3))" for ol by (rule replies_trans [OF r3])
  obtain ok s' where s': "sendSegment v x c n seq ack s = Some (ok, s')"
    using sendSegment_returns [of s x v c n seq ack] assms(1) by (auto simp: can_send_def)
  then have "s' = s1 \<or> s' = s2 \<or> s' = s3 \<or> (\<exists>ol. s' = snd (transmit x n ol s3))"
    unfolding sendSegment_def Let_def s1_def s2_def s3_def
    by (auto simp del: seq_ok.simps split: if_splits prod.splits option.splits) (metis snd_conv)+
  then show ?thesis using s' r1 r2 r3 r4 by auto
qed

section \<open>Data, whatever becomes of it\<close>

text \<open>A socket that can send from its buffers while \<open>b\<close>, a buffer of received data, is in use.\<close>

definition can_answer :: "nat \<Rightarrow> u8 list \<Rightarrow> buffer \<Rightarrow> buffer \<Rightarrow> 'a tcp_scheme \<Rightarrow> bool" where
  "can_answer x mac st b s = (can_send x mac s \<and> sendBuffer (sock s x) = Some (after (sendPacketBuffer s) 20) \<and> sk_stash (sock s x) = Some st
     \<and> can_copy s (after (sendPacketBuffer s) 20) st (b_size st)
     \<and> b_ok s b \<and> receive_side b \<and> set (b_cells b) \<inter> set (b_cells (drv_send s)) = {} \<and> set (b_cells b) \<inter> set (b_cells st) = {})"

lemma can_answer_apart: "can_answer x mac st b s \<Longrightarrow> can_send x mac s" "can_answer x mac st b s \<Longrightarrow> apart b s"
  by (simp_all add: can_answer_def can_send_def apart_def)

lemma can_answer_replies:
  assumes "replies x b s s'" and "can_answer x mac st b s"
  shows "can_answer x mac st b s'"
proof -
  have "apart b s'" using assms can_answer_apart(2) by (simp add: replies_same(2) [OF assms(1)])
  then show ?thesis
    using assms(2) replies_same [OF assms(1)] replies_sock [OF assms(1)] can_copy_chip [of s' s]
    by (auto simp: can_answer_def same_ends_def apart_def b_ok_def)
qed

lemma send_area:
  assumes "can_answer x mac st b s"
  shows "b_wok s (after (sendPacketBuffer s) 20)" and "set (b_cells b) \<inter> set (b_cells (after (sendPacketBuffer s) 20)) = {}"
proof -
  have ip: "ip_ok s" "58 \<le> unat (b_size (drv_send s))" using assms by (simp_all add: can_answer_def can_send_def)
  have "20 \<le> b_size (sendPacketBuffer s)" using ip ip_sizes(5) [OF ip(1)] by (auto simp: le16_iff)
  then show "b_wok s (after (sendPacketBuffer s) 20)" using ip_sizes(3) [OF ip(1)] by (simp add: after_wok)
  show "set (b_cells b) \<inter> set (b_cells (after (sendPacketBuffer s) 20)) = {}"
    using assms cells_packet [OF ip(1)] b_cells_after [of "sendPacketBuffer s" 20] by (fastforce simp: can_answer_def)
qed

lemma send_replies:
  fixes s :: "'a tcp_scheme"
  assumes "can_answer x mac st b s"
  shows "\<exists>ok s'. send v x n s = Some (ok, s') \<and> replies x b s s'"
proof (cases "n = 0 \<or> \<not> readyToSend (sock s x) \<or> n > getMaxSendPayload (sock s x)")
  case True
  then show ?thesis using replies_untouched [OF untouched_refl, of x b s] by (auto simp: send_def)
next
  case False
  let ?s = "upd x (\<lambda>k. k\<lparr>sk_attempts := 1\<rparr>) s"
  have r: "replies x b s ?s" by (rule replies_upd) (simp add: same_ends_def)
  note c = assms [unfolded can_answer_def can_send_def]
  have "getMaxSendPayload (sock s x) \<le> b_size st" using c by (auto simp: getMaxSendPayload_def Let_def)
  then have "n \<le> b_size st" using False by auto
  then have cc: "can_copy ?s (after (sendPacketBuffer s) 20) st n" using c False can_copy_smaller by auto
  obtain s1 where s1: "copyTo (after (sendPacketBuffer s) 20) st 0 0 n ?s = Some (True, s1)" "rest_same ?s s1" "b_bytes s1 b = b_bytes ?s b"
    using can_copy_copies [OF cc] c by auto
  have "untouched b ?s s1" using s1(2,3) rest_same_transmits unfolding untouched_def sends_def by blast
  then have r1: "replies x b s s1" by (intro replies_trans [OF r] replies_untouched)
  obtain ok s2 where s2: "sendSegment v x (ACK OR PSH) n 0 0 s1 = Some (ok, s2)" "replies x b s1 s2"
    using sendSegment_replies [OF can_answer_apart [OF can_answer_replies [OF r1 assms]]] by blast
  have "replies x b s2 (upd x (\<lambda>k. k\<lparr>stateTime := now s2\<rparr>) s2)" by (rule replies_upd) (simp add: same_ends_def)
  then have "replies x b s s2" "replies x b s (upd x (\<lambda>k. k\<lparr>stateTime := now s2\<rparr>) s2)"
    using replies_trans [OF r1 s2(2)] replies_trans by blast+
  then show ?thesis using False c s1(1) s2(1) by (cases ok) (auto simp: send_def getSendDataBuffer_def)
qed

lemma write_untouched:
  assumes "b_wok s w" and "getBufferType w = 2" and "unat off + length xs < 65536" and "set (b_cells b) \<inter> set (b_cells w) = {}"
  shows "untouched b s (snd (b_write w off xs s))"
proof (cases "xs = [] \<or> off + word_of_nat (length xs) > b_size w")
  case True
  then have "snd (b_write w off xs s) = s" using assms(2) by (cases w) (auto simp: b_write_nil simp del: b_write.simps, simp)
  then show ?thesis by simp
next
  case False
  have "unat (off + word_of_nat (length xs)) = unat off + length xs" using assms(3) by (subst unat_add16) (simp_all add: unat_of_nat16)
  then have "unat off + length xs \<le> unat (b_size w)" using False by (simp add: not_less le16_iff)
  then have "b_bytes (snd (b_write w off xs s)) b = b_bytes s b"
    using False assms(1,4) by (intro b_write_frame) (auto simp: neq_Nil_conv)
  then show ?thesis using sends_b_write by (simp add: untouched_def)
qed

lemma write_pieces_untouched:
  assumes "b_wok s w" and "getBufferType w = 2" and "None \<notin> set ps" and "unat off + length (text_of ps) < 65536"
    and "set (b_cells b) \<inter> set (b_cells w) = {}"
  shows "\<exists>m s'. write_pieces w off ps s = Some (m, s') \<and> untouched b s s'"
  using assms
proof (induction ps arbitrary: off s)
  case (Cons q ps)
  then obtain p where q: "q = Some p" by (cases q) auto
  let ?s = "snd (b_write w off p s)"
  have "unat (off + word_of_nat (length p)) = unat off + length p" using Cons.prems(4) by (subst unat_add16) (simp_all add: q unat_of_nat16)
  moreover have "b_wok ?s w" using Cons.prems(1) rest_same_wok [OF rest_same_b_write] by blast
  ultimately obtain m s' where "write_pieces w (off + word_of_nat (length p)) ps ?s = Some (m, s')" "untouched b ?s s'"
    using Cons.IH [of ?s "off + word_of_nat (length p)"] Cons.prems by (auto simp: q)
  moreover have "untouched b s ?s" using Cons.prems by (intro write_untouched) (simp_all add: q)
  ultimately show ?case using untouched_trans by (fastforce simp: q)
qed simp

lemma send_pieces_replies:
  fixes s :: "'a tcp_scheme"
  assumes "can_answer x mac st b s" and "None \<notin> set ps" and "length (text_of ps) < 65536"
  shows "\<exists>s'. send_pieces v x ps s = Some s' \<and> replies x b s s'"
proof -
  obtain m s1 where s1: "write_pieces (after (sendPacketBuffer s) 20) 0 ps s = Some (m, s1)" "untouched b s s1"
    using write_pieces_untouched [of s "after (sendPacketBuffer s) 20" ps 0 b] send_area [OF assms(1)] assms(2,3) by (auto simp: after_def)
  note r = replies_untouched [OF s1(2), of x]
  obtain ok s' where "send v x m s1 = Some (ok, s')" "replies x b s1 s'"
    using send_replies [OF can_answer_replies [OF r assms(1)]] by blast
  then show ?thesis
    using s1(1) replies_trans [OF r] assms(1) by (auto simp: send_pieces_def getSendDataBuffer_def can_answer_def can_send_def)
qed

lemma send_data_replies:
  fixes s :: "'a tcp_scheme"
  assumes "can_answer x mac st b s" and "length xs < 65536"
  shows "\<exists>ok s'. send_data v x xs s = Some (ok, s') \<and> replies x b s s'"
proof -
  let ?w = "after (sendPacketBuffer s) 20"
  have "untouched b s (snd (b_write ?w 0 xs s))" using send_area [OF assms(1)] assms(2) by (intro write_untouched) (simp_all add: after_def)
  note r = replies_untouched [OF this, of x]
  obtain ok s' where "send v x (word_of_nat (length xs)) (snd (b_write ?w 0 xs s)) = Some (ok, s')" "replies x b (snd (b_write ?w 0 xs s)) s'"
    using send_replies [OF can_answer_replies [OF r assms(1)]] by blast
  then show ?thesis
    using r replies_trans [OF r] assms(1)
    by (auto simp: send_data_def getSendDataBuffer_def can_answer_def can_send_def case_prod_beta simp del: b_write.simps)
qed

lemma close_replies:
  fixes s :: "'a tcp_scheme"
  assumes "can_answer x mac st b s" and "\<And>s. onLocalClosed v x s = Some s"
  shows "\<exists>ok s'. close v x s = Some (ok, s') \<and> replies x b s s'"
proof (cases "localClosed (sock s x)")
  case True
  then show ?thesis using replies_untouched [OF untouched_refl, of x b s] by (auto simp: close_def)
next
  case False
  obtain ok s1 where s1: "sendSegment v x (FIN OR ACK) 0 0 0 s = Some (ok, s1)" "replies x b s s1"
    using sendSegment_replies [OF can_answer_apart [OF assms(1)]] by blast
  have u: "replies x b s (upd x f s1)" if "\<And>k. same_ends k (f k)" for f
    by (rule replies_trans [OF s1(2)], rule replies_upd) (rule that)
  have n: "FIN_WAIT_1 \<noteq> CLOSED" "FIN_WAIT_1 \<noteq> ESTABLISHED" "LAST_ACK \<noteq> CLOSED" "LAST_ACK \<noteq> ESTABLISHED"
    by (simp_all add: sock_states)
  show ?thesis using False s1 u assms(2) by (auto simp: close_def Let_def setState_def n same_ends_def)
qed

section \<open>The answers of the SMTP client\<close>

text \<open>The strings of the email are there, and with the commands around them they fit in 16 bits.\<close>

definition mail_complete :: "mail \<Rightarrow> u8 list option \<Rightarrow> bool" where
  "mail_complete k d = (\<exists>domain user pass sender recipient body. d = Some domain \<and> m_user k = Some user \<and> m_pass k = Some pass
     \<and> m_from k = Some sender \<and> m_to k = Some recipient \<and> m_body k = Some body
     \<and> length domain + length user + length pass + length sender + length recipient + length body
       + (case m_subject k of None \<Rightarrow> 0 | Some t \<Rightarrow> length t) < 65000)"

definition can_reply :: "nat \<Rightarrow> u8 list \<Rightarrow> buffer \<Rightarrow> buffer \<Rightarrow> 'a smtp_scheme \<Rightarrow> bool" where
  "can_reply x mac st b s = (can_answer x mac st b s \<and> x < length (mails s) \<and> mail_complete (mail s x) (remoteDomain (sock s x)))"

definition reply_keeps :: "nat \<Rightarrow> u8 list \<Rightarrow> buffer \<Rightarrow> buffer \<Rightarrow> 'a smtp_scheme \<Rightarrow> 'a smtp_scheme \<Rightarrow> bool" where
  "reply_keeps x mac st b s s' = (can_reply x mac st b s' \<and> recvLine (mail s' x) = recvLine (mail s x)
     \<and> length (mails s') = length (mails s) \<and> b_bytes s' b = b_bytes s b)"

lemma reply_keeps_trans: "reply_keeps x mac st b s s1 \<Longrightarrow> reply_keeps x mac st b s1 s' \<Longrightarrow> reply_keeps x mac st b s s'"
  by (simp add: reply_keeps_def)

lemma reply_keeps_refl: "can_reply x mac st b s \<Longrightarrow> reply_keeps x mac st b s s"
  by (simp add: reply_keeps_def)

lemma reply_keeps_replies:
  fixes s :: "'a smtp_scheme"
  assumes "can_reply x mac st b s" and "replies x b s s'"
  shows "reply_keeps x mac st b s s'"
proof -
  have m: "mails s' = mails s" by (rule smtp_same) (rule replies_same(4) [OF assms(2)])
  then have "mail s' x = mail s x" by (simp add: mail_def)
  then show ?thesis
    using assms m can_answer_replies [OF assms(2)] replies_sock [OF assms(2)] replies_same(6) [OF assms(2)]
    by (simp add: reply_keeps_def can_reply_def same_ends_def)
qed

lemma can_answer_mupd [simp]: "can_answer x mac st b (mupd y f s) = can_answer x mac st b s"
  by (simp add: can_answer_def can_send_def can_copy_chip [of "mupd y f s" s])

lemma reply_keeps_mupd:
  assumes "can_reply x mac st b s" and "\<And>k. recvLine (f k) = recvLine k \<and> mail_complete (f k) = mail_complete k"
  shows "reply_keeps x mac st b s (mupd x f s)"
  using assms by (simp add: reply_keeps_def can_reply_def)

lemma can_reply_setLine: "can_reply x mac st b s \<Longrightarrow> can_reply x mac st b (setLine x i c s)"
  by (simp add: can_reply_def setLine_def mail_complete_def)

lemma mail_complete_fields [simp]:
  "mail_complete (k\<lparr>protocolState := p\<rparr>) = mail_complete k" "mail_complete (k\<lparr>protocolState := p, m_status := q\<rparr>) = mail_complete k"
  by (simp_all add: fun_eq_iff mail_complete_def)

text \<open>What \<^verbatim>\<open>onReadyToSend\<close> sends is there.\<close>

lemma pieces_complete:
  assumes "mail_complete k d"
  shows "ps \<in> {[Some (str ''HELO ''), d, Some [10]], [m_user k, Some [10]], [m_pass k, Some [10]], [Some (str ''MAIL FROM:''), m_from k, Some [10]],
      [Some (str ''RCPT TO:''), m_to k, Some [10]], email_pieces k} \<Longrightarrow> None \<notin> set ps \<and> length (text_of ps) < 65536"
  using assms by (auto simp: mail_complete_def email_pieces_def split: option.splits)

lemma smtp_local_closed: "onLocalClosed (SMTP_vtable depth allocs) x s = Some s"
  by (cases depth) (simp_all add: Socket_vtable_def Let_def)

lemma close_keeps:
  fixes s :: "'a smtp_scheme"
  assumes "can_reply x mac st b s"
  shows "\<exists>s'. map_option snd (close (SMTP_vtable depth allocs) x s) = Some s' \<and> reply_keeps x mac st b s s'"
proof -
  have "can_answer x mac st b s" using assms by (simp add: can_reply_def)
  from close_replies [OF this smtp_local_closed] obtain ok s' where "close (SMTP_vtable depth allocs) x s = Some (ok, s')" "replies x b s s'"
    by blast
  then show ?thesis using reply_keeps_replies [OF assms] by auto
qed

text \<open>One after the other.\<close>

lemma reply_keeps_then: 
  assumes "reply_keeps x mac st b s s1" and "\<And>s. can_reply x mac st b s \<Longrightarrow> \<exists>s'. f s = Some s' \<and> reply_keeps x mac st b s s'"
  shows "\<exists>s'. f s1 = Some s' \<and> reply_keeps x mac st b s s'"
proof -
  obtain s' where "f s1 = Some s'" "reply_keeps x mac st b s1 s'" using assms(2) [of s1] assms(1) by (auto simp: reply_keeps_def)
  then show ?thesis using reply_keeps_trans [OF assms(1)] by blast
qed

lemma ready_keeps:
  fixes s :: "'a smtp_scheme" and depth :: nat and allocs :: bool
  assumes "can_reply x mac st b s"
  shows "\<exists>s'. SMTP_onReadyToSend (SMTP_vtable depth allocs) x s = Some s' \<and> reply_keeps x mac st b s s'"
proof -
  let ?v = "SMTP_vtable depth allocs :: 'a smtp_scheme vtable" and ?k = "mail s x"
  note c = assms [unfolded can_reply_def]
  have set: "reply_keeps x mac st b s (mupd x (\<lambda>k. k\<lparr>protocolState := w\<rparr>) s1)" if "replies x b s s1" for w s1
  proof (rule reply_keeps_trans [OF reply_keeps_replies [OF assms that] reply_keeps_mupd])
    show "can_reply x mac st b s1" using reply_keeps_replies [OF assms that] by (simp add: reply_keeps_def)
  qed simp
  have pieces: "\<exists>s'. send_pieces ?v x ps s \<bind> set_protocol x w = Some s' \<and> reply_keeps x mac st b s s'"
    if "ps \<in> {[Some (str ''HELO ''), remoteDomain (sock s x), Some [10]], [m_user ?k, Some [10]], [m_pass ?k, Some [10]],
      [Some (str ''MAIL FROM:''), m_from ?k, Some [10]], [Some (str ''RCPT TO:''), m_to ?k, Some [10]], email_pieces ?k}" for ps w
  proof -
    have "None \<notin> set ps \<and> length (text_of ps) < 65536" using pieces_complete that c by blast
    then obtain s1 where "send_pieces ?v x ps s = Some s1" "replies x b s s1" using send_pieces_replies c by blast
    then show ?thesis using set by (simp add: set_protocol_def)
  qed
  have string: "\<exists>ok s1. send_string ?v x xs s = Some (ok, s1) \<and> replies x b s s1" if "length xs < 65536" for xs
    using send_data_replies [of x mac st b s xs] that c by (simp add: send_string_def)
  have command: "\<exists>s'. send_string ?v x xs s \<bind> (\<lambda>(_, s). set_protocol x w s) = Some s' \<and> reply_keeps x mac st b s s'"
    if "length xs < 65536" for xs w
    using string [OF that] set by (auto simp: set_protocol_def)
  have quit: "\<exists>s'. send_string ?v x xs s \<bind> (\<lambda>(_, s). map_option snd (close ?v x s)) = Some s' \<and> reply_keeps x mac st b s s'"
    if l: "length xs < 65536" for xs
  proof -
    obtain ok s1 where s1: "send_string ?v x xs s = Some (ok, s1)" "replies x b s s1" using string [OF l] by blast
    show ?thesis using s1(1) reply_keeps_then [OF reply_keeps_replies [OF assms s1(2)] close_keeps [of x mac st b _ depth allocs]] by simp
  qed
  show ?thesis
    unfolding SMTP_onReadyToSend_def Let_def
    using pieces command quit reply_keeps_refl [OF assms] by (simp del: list.map)
qed

lemma line_keeps:
  fixes s :: "'a smtp_scheme" and depth :: nat and allocs :: bool
  assumes "can_reply x mac st b s"
  shows "\<exists>s'. onLineReceived (SMTP_vtable depth allocs) x line s = Some s' \<and> reply_keeps x mac st b s s'"
proof -
  let ?v = "SMTP_vtable depth allocs :: 'a smtp_scheme vtable"
  let ?R = "reply_keeps x mac st b"
  have close: "\<exists>s2. map_option snd (close ?v x s1) = Some s2 \<and> ?R s s2" if "?R s s1" for s1
    by (rule reply_keeps_then [OF that close_keeps])
  obtain s1 where s1: "(if checkCode line 500 then map_option snd (close ?v x s) else Some s) = Some s1" "?R s s1"
    using close_keeps [OF assms] reply_keeps_refl [OF assms] by (cases "checkCode line 500") fastforce+
  have "\<exists>s2. (case expected (protocolState (mail s1 x)) line of None \<Rightarrow> Some s1
      | Some (True, next) \<Rightarrow> Some (mupd x (\<lambda>k. k\<lparr>protocolState := next,
          m_status := (if protocolState k = SMTP_CLIENT_SET_EMAIL then EMAIL_SENT else m_status k)\<rparr>) s1)
      | Some (False, next) \<Rightarrow> map_option snd (close ?v x s1)) = Some s2 \<and> ?R s s2"
  proof (cases "expected (protocolState (mail s1 x)) line")
    case None
    then show ?thesis using s1(2) by simp
  next
    case (Some r)
    have "?R s (mupd x (\<lambda>k. k\<lparr>protocolState := w, m_status := (if protocolState k = SMTP_CLIENT_SET_EMAIL then EMAIL_SENT else m_status k)\<rparr>) s1)" for w
      by (rule reply_keeps_trans [OF s1(2)], rule reply_keeps_mupd) (use s1(2) in \<open>simp_all add: reply_keeps_def\<close>)
    then show ?thesis using Some close [OF s1(2)] by (cases r; cases "fst r") auto
  qed
  then obtain s2 where s2: "(case expected (protocolState (mail s1 x)) line of None \<Rightarrow> Some s1
      | Some (True, next) \<Rightarrow> Some (mupd x (\<lambda>k. k\<lparr>protocolState := next,
          m_status := (if protocolState k = SMTP_CLIENT_SET_EMAIL then EMAIL_SENT else m_status k)\<rparr>) s1)
      | Some (False, next) \<Rightarrow> map_option snd (close ?v x s1)) = Some s2" and k2: "?R s s2" by blast
  have "onLineReceived ?v x line s = (if readyToSend (sock s2 x) then SMTP_onReadyToSend ?v x s2 else Some s2)"
    unfolding onLineReceived_def s1(1) bind.bind_lunit s2 ..
  then show ?thesis
    using k2 reply_keeps_then [OF k2 ready_keeps [of x mac st b _ depth allocs]] by (cases "readyToSend (sock s2 x)") simp_all
qed

lemma client_keeps_line:
  "keeps_line x b (can_reply x mac st b :: 'a smtp_scheme \<Rightarrow> bool) (onLineReceived (SMTP_vtable depth allocs) x)"
  unfolding keeps_line_def
proof (intro conjI allI impI)
  fix s :: "'a smtp_scheme" and i c l assume s: "can_reply x mac st b s"
  then show "b_ok s b" by (simp add: can_reply_def can_answer_def)
  show "can_reply x mac st b (setLine x i c s)" by (rule can_reply_setLine [OF s])
  show "\<exists>s'. onLineReceived (SMTP_vtable depth allocs) x l s = Some s' \<and> can_reply x mac st b s' \<and> recvLine (mail s' x) = recvLine (mail s x)
      \<and> length (mails s') = length (mails s) \<and> b_bytes s' b = b_bytes s b"
    using line_keeps [OF s, of depth allocs l] by (simp add: reply_keeps_def)
qed

section \<open>Properties\<close>

text \<open>
  C33: Received text is handled line by line. Let the SMTP client be able to answer (\<open>can_reply\<close>: the route to the server is known, its send buffer and
  stash are those of its stack, the strings of the email are there, and the received data lies in a buffer of its own, in the RAM or the
  receive buffer of the controller), and the data it receives follow a complete line. Then \<^verbatim>\<open>onDataReceived\<close> returns true; it calls \<^verbatim>\<open>onLineReceived\<close>
  for exactly the non-empty lines of the data, in order and each cut to 39 characters, whatever commands, emails and closing segments these calls
  send meanwhile, and does nothing else but write to the array \<^verbatim>\<open>recvLine\<close>; it writes only inside the array, whose last character stays 0, and when the
  data ends a line the array is ready for the next.
\<close>

theorem lines_are_received:
  fixes s :: "'a smtp_scheme" and depth :: nat and allocs :: bool
  assumes "can_reply x mac st buf s"
    and "length (recvLine (mail s x)) = 40" and "recvLine (mail s x) ! 39 = 0" and "recvLine (mail s x) ! 0 = 0"
  defines "v \<equiv> SMTP_vtable depth allocs" and "ls \<equiv> fst (lines [] (b_bytes s buf))" and "rest \<equiv> snd (lines [] (b_bytes s buf))"
  shows "\<exists>s'. SMTP_onDataReceived v x buf s = Some (True, s') \<and> calls (onLineReceived v x) x ls s s'
    \<and> length (recvLine (mail s' x)) = 40 \<and> recvLine (mail s' x) ! 39 = 0
    \<and> take (length rest) (recvLine (mail s' x)) = rest \<and> (rest = [] \<longrightarrow> recvLine (mail s' x) ! 0 = 0)"
proof -
  have "x < length (mails s)" using assms(1) by (simp add: can_reply_def)
  from receive_lines [OF client_keeps_line assms(1) this assms(2-4), of depth allocs] show ?thesis
    unfolding v_def ls_def rest_def SMTP_onDataReceived_def holds_def by blast
qed

text \<open>The client of the last example, when the reply of the server has come.\<close>

definition demo_reply :: "u8 list" where
  "demo_reply = str ''334 VXNlcm5hbWU6'' @ [13, 10]"

definition demo_replied :: smtp where
  "demo_replied = snd (b_write (MemBuffer 0x100 18) 0 demo_reply Messages.demo_smtp)"

lemma demo_can_reply:
  shows "can_reply 0 [2, 0, 0, 0, 0, 2] (OffsetBuffer (MemBuffer 0x900 30) 0 30) (MemBuffer 0x100 18) demo_replied"
    and "b_bytes demo_replied (MemBuffer 0x100 18) = demo_reply" and "recvLine (mail demo_replied 0) = replicate 40 0"
proof -
  let ?b = "MemBuffer 0x100 18" and ?st = "OffsetBuffer (MemBuffer 0x900 30) 0 30"
  have x: "0 < length (tcp.sockets demo_sender)" by (simp add: demo_sender_def demo_tcp_fields)
  have rs: "rest_same Messages.demo_smtp demo_replied" unfolding demo_replied_def by (rule rest_same_b_write)
  note t = rest_same_transmits [OF rs]
  have cs: "can_send_data 0 [2, 0, 0, 0, 0, 2] 30 ?st demo_replied"
    unfolding can_send_data_transmits [OF t] Messages.demo_smtp_def can_send_data_extend can_send_data_domain [OF x]
    by (rule demo_can_send) simp_all
  have "drv_send demo_sender = MemBuffer 0x400 100" by (simp add: demo_sender_def demo_tcp_fields demo_ip_simps)
  then have drv: "drv_send demo_replied = MemBuffer 0x400 100" by (simp add: transmits_fields [OF t] Messages.demo_smtp_def)
  have dj: "set (b_cells ?b) \<inter> set (b_cells (MemBuffer 0x400 100)) = {}" "set (b_cells ?b) \<inter> set (b_cells ?st) = {}" by code_simp+
  have side: "receive_side ?b" by (auto simp: receive_side_def)
  have m: "mails demo_replied = mails Messages.demo_smtp" by (rule smtp_same) (rule tcp_transmits [OF t])
  then have k: "mail demo_replied 0 = mail Messages.demo_smtp 0" by (simp add: mail_def)
  have d: "remoteDomain (sock demo_replied 0) = Some (str ''m.org'')"
    using x by (simp add: sock_transmits [OF t] Messages.demo_smtp_def)
  have c: "mail_complete (mail demo_replied 0) (remoteDomain (sock demo_replied 0))" "0 < length (mails demo_replied)"
    unfolding k d m by (simp_all add: Messages.demo_smtp_def mail_def tcp.defs mail_complete_def)
  show "can_reply 0 [2, 0, 0, 0, 0, 2] ?st ?b demo_replied"
    using cs drv dj side c by (simp add: can_reply_def can_answer_def can_send_data_def b_ok_def)
  show "b_bytes demo_replied ?b = demo_reply"
    unfolding demo_replied_def by (rule fill_bytes [OF Mem_wok]) (simp_all add: demo_reply_def)
  show "recvLine (mail demo_replied 0) = replicate 40 0" unfolding k by (simp add: Messages.demo_smtp_def mail_def tcp.defs)
qed

theorem lines_are_received_witness:
  "\<exists>s'. SMTP_onDataReceived (SMTP_vtable 3 True) 0 (MemBuffer 0x100 18) demo_replied = Some (True, s')
    \<and> calls (onLineReceived (SMTP_vtable 3 True) 0) 0 [str ''334 VXNlcm5hbWU6''] demo_replied s'"
proof -
  have l: "fst (lines [] demo_reply) = [str ''334 VXNlcm5hbWU6'']" unfolding demo_reply_def by code_simp
  have a: "length (recvLine (mail demo_replied 0)) = 40" "recvLine (mail demo_replied 0) ! 39 = 0" "recvLine (mail demo_replied 0) ! 0 = 0"
    unfolding demo_can_reply(3) by simp_all
  from lines_are_received [OF demo_can_reply(1) a, of 3 True] show ?thesis unfolding demo_can_reply(2) l by blast
qed

end
