(* ===== verification/Receive_Queue.thy ===== *)
theory Receive_Queue
  imports Exchange
begin

text \<open>
  The buffer of a BufferedSocket is a queue of bytes: what the application reads is what has been received, in the same order.
\<close>

section \<open>Queues of bytes\<close>

text \<open>
  \<open>enq\<close> takes all of the bytes an item carries or refuses them, \<open>deq\<close> hands out the first bytes. The lemmas say what this means for all the
  bytes ever received, \<open>r\<close>, and all the bytes ever read, \<open>d\<close>.
\<close>

locale byte_queue =
  fixes content :: "'s \<Rightarrow> u8 list" and valid :: "'s \<Rightarrow> bool"
    and enq :: "'d \<Rightarrow> 's \<Rightarrow> bool \<times> 's" and item :: "'s \<Rightarrow> 'd \<Rightarrow> u8 list" and fits :: "'s \<Rightarrow> 'd \<Rightarrow> bool"
    and deq :: "u16 \<Rightarrow> 's \<Rightarrow> u8 list \<times> 's"
  assumes enq_valid: "valid s \<Longrightarrow> fits s b \<Longrightarrow> valid (snd (enq b s))"
    and enq_content: "valid s \<Longrightarrow> fits s b \<Longrightarrow> content (snd (enq b s)) = (if fst (enq b s) then content s @ item s b else content s)"
    and deq_valid: "valid s \<Longrightarrow> valid (snd (deq n s))"
    and deq_content: "valid s \<Longrightarrow> fst (deq n s) @ content (snd (deq n s)) = content s"
begin

definition in_order :: "'s \<Rightarrow> u8 list \<Rightarrow> u8 list \<Rightarrow> bool" where
  "in_order s r d = (valid s \<and> r = d @ content s)"

lemma enq_in_order:
  "in_order s r d \<Longrightarrow> fits s b \<Longrightarrow> in_order (snd (enq b s)) (r @ (if fst (enq b s) then item s b else [])) d"
  by (simp add: in_order_def enq_valid enq_content)

lemma deq_in_order: "in_order s r d \<Longrightarrow> in_order (snd (deq n s)) r (d @ fst (deq n s))"
  by (simp add: in_order_def deq_valid deq_content)

end

section \<open>The buffer of the socket\<close>

definition array :: "'a buffered_scheme \<Rightarrow> nat \<Rightarrow> buffer" where
  "array s x = MemBuffer (bs_recvBuffer (bsock s x)) (bufferCapacity (bsock s x))"

definition stored :: "nat \<Rightarrow> 'a buffered_scheme \<Rightarrow> u8 list" where
  "stored x s = take (unat (bufferSize (bsock s x))) (b_bytes s (array s x))"

text \<open>The capacity leaves room for the sum with the size of a frame in 16 bits.\<close>

definition buffered_ok :: "nat \<Rightarrow> 'a buffered_scheme \<Rightarrow> bool" where
  "buffered_ok x s = (x < length (bsockets s) \<and> bufferSize (bsock s x) \<le> bufferCapacity (bsock s x) \<and> unat (bufferCapacity (bsock s x)) + 1500 < 65536)"

definition is_frame_part :: "'a buffered_scheme \<Rightarrow> buffer \<Rightarrow> bool" where
  "is_frame_part s b = (b_ok s b \<and> 0 < unat (b_size b) \<and> unat (b_size b) \<le> 1500)"

lemma mem_load_array:
  assumes "unat off + n \<le> unat l"
  shows "mem_load s (p + off) n = window (unat off) n (b_bytes s (MemBuffer p l))"
  using sram_addrs_window [OF assms, of p] by (simp add: mem_load_def b_bytes_def map_window comp_def)

lemma mem_store_array:
  assumes "unat off + length xs \<le> unat l"
  shows "b_bytes (mem_store (p + off) xs s) (MemBuffer p l) = put (unat off) xs (b_bytes s (MemBuffer p l))"
    and "length (b_bytes s (MemBuffer p l)) = unat l"
proof -
  show len: "length (b_bytes s (MemBuffer p l)) = unat l" using Mem_wok [of s p l] by (simp add: buf.length_bytes buf.wok_ok)
  show "b_bytes (mem_store (p + off) xs s) (MemBuffer p l) = put (unat off) xs (b_bytes s (MemBuffer p l))"
  proof (cases "xs = []")
    case True
    then show ?thesis by (simp add: mem_store_def put_def)
  next
    case False
    have "unat (word_of_nat (length xs) :: u16) = length xs" using assms unat16_less [of l] by (intro unat_of_nat16) linarith
    then have "\<not> off + word_of_nat (length xs) > l" using assms by (intro sum_fits16) simp
    then have "snd (b_write (MemBuffer p l) off xs s) = mem_store (p + off) xs s" by (simp add: mem_store_def)
    moreover have "unat off < unat l" using assms False by (cases xs) simp_all
    ultimately show ?thesis using buf.wr_inside [OF Mem_wok, of off p l xs s] assms by simp
  qed
qed

lemma bupd_simps [simp]:
  "bsock (bupd x f s) x = (if x < length (bsockets s) then f (bsock s x) else bsock s x)" "length (bsockets (bupd x f s)) = length (bsockets s)"
  "b_bytes (bupd x f s) b = b_bytes s b" "bsock (mem_store p xs s) y = bsock s y" "bsockets (mem_store p xs s) = bsockets s"
proof -
  have "fetch (bupd x f s) c = fetch s c" for c by (cases c) (simp_all add: bupd_def)
  then show "b_bytes (bupd x f s) b = b_bytes s b" by (simp add: b_bytes_def)
qed (simp_all add: bsock_def bupd_def mem_store_def list_update_beyond)

interpretation received: byte_queue "stored x" "buffered_ok x" "BufferedSocket_onDataReceived x" b_bytes is_frame_part "BufferedSocket_read x"
proof
  fix s :: "'a buffered_scheme" and b
  assume ok: "buffered_ok x s" and b: "is_frame_part s b"
  let ?k = "bsock s x" and ?B = "b_bytes s (array s x)"
  let ?z = "bufferSize (bsock s x)"
  have sum: "unat (?z + b_size b) = unat ?z + unat (b_size b)"
    using ok b by (intro unat_add16) (simp add: buffered_ok_def is_frame_part_def le16_iff)
  have rd: "b_read s b 0 (b_size b) = Some (b_bytes s b)" and len: "length (b_bytes s b) = unat (b_size b)"
    using b buf.rd_inside [of s b 0 "b_size b"] buf.length_bytes [of s b] by (simp_all add: is_frame_part_def window_def)
  have "buffered_ok x (snd (BufferedSocket_onDataReceived x b s)) \<and> stored x (snd (BufferedSocket_onDataReceived x b s))
    = (if fst (BufferedSocket_onDataReceived x b s) then stored x s @ b_bytes s b else stored x s)"
  proof (cases "?z + b_size b > bufferCapacity ?k")
    case True
    then show ?thesis using ok by (simp add: BufferedSocket_onDataReceived_def)
  next
    case False
    then have f: "unat ?z + length (b_bytes s b) \<le> unat (bufferCapacity ?k)" using sum len by (simp add: not_less le16_iff)
    note st = mem_store_array [OF f, where p = "bs_recvBuffer ?k" and s = s]
    have "take (unat ?z + unat (b_size b)) (put (unat ?z) (b_bytes s b) ?B) = take (unat ?z) ?B @ b_bytes s b"
      using f st(2) len by (simp add: put_def array_def)
    then show ?thesis
      using False ok sum st(1) by (simp add: BufferedSocket_onDataReceived_def Let_def rd stored_def array_def buffered_ok_def not_less)
  qed
  then show "buffered_ok x (snd (BufferedSocket_onDataReceived x b s))"
    "stored x (snd (BufferedSocket_onDataReceived x b s)) = (if fst (BufferedSocket_onDataReceived x b s) then stored x s @ b_bytes s b else stored x s)"
    by simp_all
next
  fix s :: "'a buffered_scheme" and n
  assume ok: "buffered_ok x s"
  let ?k = "bsock s x" and ?B = "b_bytes s (array s x)"
  let ?z = "bufferSize ?k" and ?c = "bufferCapacity ?k" and ?p = "bs_recvBuffer ?k"
  define l where "l = (if n > ?z then ?z else n)"
  have l: "unat l \<le> unat ?z" "unat (?z - l) = unat ?z - unat l"
    by (auto simp: l_def le16_iff [symmetric] unat_sub16 not_less)
  have z: "unat ?z \<le> unat ?c" using ok by (simp add: buffered_ok_def le16_iff)
  have len: "length ?B = unat ?c" unfolding array_def by (rule mem_store_array(2) [of 0 "[]"]) simp
  define xs where "xs = take (unat ?z - unat l) (drop (unat l) ?B)"
  have mv: "mem_load s (?p + l) (unat (?z - l)) = xs"
    using mem_load_array [of l "unat (?z - l)" ?c s ?p] l z by (simp add: xs_def array_def window_def)
  have lx: "length xs = unat ?z - unat l" unfolding xs_def using l z len by simp
  have rd: "BufferedSocket_read x n s = (mem_load s ?p (unat l),
      bupd x (\<lambda>k. k\<lparr>bufferSize := bufferSize k - l\<rparr>) (if ?c > 1 then mem_store ?p xs s else s))"
    by (simp add: BufferedSocket_read_def Let_def mv flip: l_def)
  have "mem_load s ?p (unat l) = take (unat l) ?B"
    using mem_load_array [of 0 "unat l" ?c s ?p] l z by (simp add: window_def array_def)
  moreover have "take (unat ?z - unat l) (b_bytes (if ?c > 1 then mem_store ?p xs s else s) (array s x)) = xs"
  proof (cases "?c > 1")
    case True
    have "unat (0 :: u16) + length xs \<le> unat ?c" using lx z by simp
    from mem_store_array(1) [OF this, where p = ?p and s = s] show ?thesis using True lx by (simp add: array_def put_def)
  next
    case False
    then have "unat l = 0 \<or> unat ?z - unat l = 0" using z l(1) by (auto simp: not_less le16_iff)
    then show ?thesis using False by (auto simp: xs_def)
  qed
  then have "stored x (snd (BufferedSocket_read x n s)) = xs"
    using ok l(2) by (simp add: rd stored_def array_def buffered_ok_def split: if_split_asm)
  moreover have "buffered_ok x (snd (BufferedSocket_read x n s))"
    using ok l z by (auto simp: rd buffered_ok_def le16_iff)
  moreover have "take (unat l) ?B @ xs = stored x s"
    using l by (simp add: stored_def xs_def flip: take_add)
  ultimately show "buffered_ok x (snd (BufferedSocket_read x n s))"
    "fst (BufferedSocket_read x n s) @ stored x (snd (BufferedSocket_read x n s)) = stored x s" by (simp_all add: rd)
qed

section \<open>Runs\<close>

text \<open>
  A run of one socket from its construction on: data arrives, the application reads, and the rest of the program does what leaves the object
  and its array alone. The lists are all the bytes accepted and all the bytes read so far.
\<close>

inductive received_run :: "nat \<Rightarrow> 'a buffered_scheme \<Rightarrow> u8 list \<Rightarrow> u8 list \<Rightarrow> bool" for x where
  start: "buffered_ok x s \<Longrightarrow> bufferSize (bsock s x) = 0 \<Longrightarrow> received_run x s [] []"
| arrives: "received_run x s r d \<Longrightarrow> is_frame_part s b \<Longrightarrow> BufferedSocket_onDataReceived x b s = (ok, s')
    \<Longrightarrow> received_run x s' (r @ (if ok then b_bytes s b else [])) d"
| reads: "received_run x s r d \<Longrightarrow> BufferedSocket_read x n s = (out, s') \<Longrightarrow> received_run x s' r (d @ out)"
| other: "received_run x s r d \<Longrightarrow> bsock s' x = bsock s x \<Longrightarrow> x < length (bsockets s') \<Longrightarrow> b_bytes s' (array s x) = b_bytes s (array s x)
    \<Longrightarrow> received_run x s' r d"

lemma run_in_order: "received_run x s r d \<Longrightarrow> received.in_order x s r d"
proof (induction rule: received_run.induct)
  case (start s)
  then show ?case unfolding received.in_order_def by (simp add: stored_def)
next
  case (arrives s r d b ok s')
  then show ?case using received.enq_in_order [of x s r d b] by simp
next
  case (reads s r d n out s')
  then show ?case using received.deq_in_order [of x s r d n] by simp
next
  case (other s r d s')
  then show ?case unfolding received.in_order_def by (simp add: stored_def buffered_ok_def array_def)
qed

lemma queue_facts:
  assumes "received_run x s r d"
  shows "r = d @ stored x s" and "unat (dataAvailable s x) = length (stored x s)"
    and "unat (BufferedSocket_getApplicationWindowSize x s) + length (stored x s) = unat (bufferCapacity (bsock s x))"
    and "\<forall>b. is_frame_part s b \<longrightarrow> fst (BufferedSocket_onDataReceived x b s)
      = (length (b_bytes s b) \<le> unat (BufferedSocket_getApplicationWindowSize x s))"
    and "fst (BufferedSocket_read x n s) = take (unat n) (stored x s)"
proof -
  have ok: "buffered_ok x s" and o: "r = d @ stored x s" using run_in_order [OF assms] by (simp_all add: received.in_order_def)
  then show "r = d @ stored x s" by simp
  let ?k = "bsock s x"
  have z: "unat (bufferSize ?k) \<le> unat (bufferCapacity ?k)" using ok by (simp add: buffered_ok_def le16_iff)
  have "length (b_bytes s (array s x)) = unat (bufferCapacity ?k)" unfolding array_def by (rule mem_store_array(2) [of 0 "[]"]) simp
  then have l: "length (stored x s) = unat (bufferSize ?k)" using z by (simp add: stored_def)
  then show "unat (dataAvailable s x) = length (stored x s)" by (simp add: dataAvailable_def)
  have w: "unat (BufferedSocket_getApplicationWindowSize x s) = unat (bufferCapacity ?k) - unat (bufferSize ?k)"
    using z by (simp add: BufferedSocket_getApplicationWindowSize_def unat_sub16 le16_iff)
  then show "unat (BufferedSocket_getApplicationWindowSize x s) + length (stored x s) = unat (bufferCapacity ?k)" using l z by simp
  show "\<forall>b. is_frame_part s b \<longrightarrow> fst (BufferedSocket_onDataReceived x b s)
      = (length (b_bytes s b) \<le> unat (BufferedSocket_getApplicationWindowSize x s))"
  proof (intro allI impI)
    fix b assume b: "is_frame_part s b"
    then have "unat (bufferSize ?k + b_size b) = unat (bufferSize ?k) + unat (b_size b)"
      using ok by (intro unat_add16) (simp add: buffered_ok_def is_frame_part_def le16_iff)
    moreover have "b_read s b 0 (b_size b) = Some (b_bytes s b)" "length (b_bytes s b) = unat (b_size b)"
      using b buf.rd_inside [of s b 0 "b_size b"] buf.length_bytes [of s b] by (simp_all add: is_frame_part_def window_def)
    ultimately show "fst (BufferedSocket_onDataReceived x b s) = (length (b_bytes s b) \<le> unat (BufferedSocket_getApplicationWindowSize x s))"
      using z w by (auto simp: BufferedSocket_onDataReceived_def Let_def less16)
  qed
  have "unat (if n > bufferSize ?k then bufferSize ?k else n) = min (unat n) (unat (bufferSize ?k))" by (simp add: less16)
  then have "fst (BufferedSocket_read x n s) = mem_load s (bs_recvBuffer ?k + 0) (min (unat n) (unat (bufferSize ?k)))"
    by (simp add: BufferedSocket_read_def Let_def)
  also have "\<dots> = take (unat n) (stored x s)"
    using z by (subst mem_load_array [where l = "bufferCapacity ?k"]) (simp_all add: window_def stored_def array_def min_def)
  finally show "fst (BufferedSocket_read x n s) = take (unat n) (stored x s)" .
qed

section \<open>Properties\<close>

text \<open>
  C5: A BufferedSocket is a queue. Whatever arrives and whenever it is read, the bytes accepted so far are the bytes read so far followed by those
  stored, of which \<^verbatim>\<open>dataAvailable\<close> is the number; data is accepted exactly when all of it fits, the window that is announced is the room left, and a
  read gives the first bytes stored, as many as it asks for if there are that many.
\<close>

theorem buffered_socket_is_queue:
  assumes "received_run x s r d"
  shows "r = d @ stored x s \<and> unat (dataAvailable s x) = length (stored x s)
    \<and> unat (BufferedSocket_getApplicationWindowSize x s) + length (stored x s) = unat (bufferCapacity (bsock s x))
    \<and> (\<forall>b. is_frame_part s b \<longrightarrow> fst (BufferedSocket_onDataReceived x b s)
        = (length (b_bytes s b) \<le> unat (BufferedSocket_getApplicationWindowSize x s)))
    \<and> (\<forall>n. fst (BufferedSocket_read x n s) = take (unat n) (stored x s))"
  using queue_facts [OF assms] by simp

text \<open>Five bytes arrive in a buffer for eight, two are read.\<close>

definition demo_buffered :: buffered where
  "demo_buffered = mem_store 0x600 [1, 2, 3, 4, 5] (tcp.extend demo_reader \<lparr>bsockets = [BufferedSocket_init 0x200 8]\<rparr>)"

lemma buffered_socket_is_queue_witness:
  "\<exists>s1 s2. BufferedSocket_onDataReceived 0 (MemBuffer 0x600 5) demo_buffered = (True, s1) \<and> BufferedSocket_read 0 2 s1 = ([1, 2], s2)
    \<and> stored 0 s2 = [3, 4, 5] \<and> dataAvailable s2 0 = 3"
proof -
  let ?s = demo_buffered and ?b = "MemBuffer 0x600 5"
  have k: "bsock ?s 0 = BufferedSocket_init 0x200 8" "bsockets ?s = [BufferedSocket_init 0x200 8]"
    by (simp_all add: demo_buffered_def tcp.defs bsock_def mem_store_def)
  have five: "unat (0 :: u16) + length [1, 2, 3, 4, 5 :: u8] \<le> unat (5 :: u16)" by simp
  have b: "b_bytes ?s ?b = [1, 2, 3, 4, 5]"
    using mem_store_array [OF five, where p = "0x600" and s = "tcp.extend demo_reader \<lparr>bsockets = [BufferedSocket_init 0x200 8]\<rparr>"]
    by (simp add: demo_buffered_def put_def)
  have fp: "is_frame_part ?s ?b" by (simp add: is_frame_part_def b_ok_def)
  have r0: "received_run 0 ?s [] []" by (rule start) (simp_all add: k buffered_ok_def BufferedSocket_init_def)
  note q0 = buffered_socket_is_queue [OF r0]
  have "unat (BufferedSocket_getApplicationWindowSize 0 ?s) = 8"
    by (simp add: k BufferedSocket_getApplicationWindowSize_def BufferedSocket_init_def)
  then have acc: "fst (BufferedSocket_onDataReceived 0 ?b ?s)" using q0 fp b by auto
  then obtain s1 where s1: "BufferedSocket_onDataReceived 0 ?b ?s = (True, s1)" by (metis prod.collapse)
  have r1: "received_run 0 s1 [1, 2, 3, 4, 5] []" using arrives [OF r0 fp s1] b by simp
  have "stored 0 s1 = [1, 2, 3, 4, 5]" "fst (BufferedSocket_read 0 2 s1) = take (unat (2 :: u16)) (stored 0 s1)"
    using buffered_socket_is_queue [OF r1] by auto
  then have "fst (BufferedSocket_read 0 2 s1) = [1, 2]" by simp
  then obtain s2 where s2: "BufferedSocket_read 0 2 s1 = ([1, 2], s2)" by (metis prod.collapse)
  note q2 = buffered_socket_is_queue [OF reads [OF r1 s2]]
  then have "stored 0 s2 = [3, 4, 5]" by simp
  moreover from this q2 have "unat (dataAvailable s2 0) = 3" by simp
  ultimately show ?thesis using s1 s2 by (simp add: word_unat_eq_iff)
qed

end
