(* ===== verification/Spec2Isabelle.thy ===== *)
theory Spec2Isabelle
  imports Controller Recovery Closing SMTP_Receive Receive_Queue
begin

text \<open>
  A verification of the network stack in \<^verbatim>\<open>src/\<close>: Ethernet, ARP, IPv4, UDP, DNS and TCP for an AVR microcontroller with an
  ENC28J60 controller, and clients for HTTP and SMTP.

  \<^bold>\<open>The program.\<close> \<^verbatim>\<open>EtherControl\<close> owns the driver, dispatches received frames to the handlers registered for their type and
  runs the timers. \<^verbatim>\<open>ARPHandler\<close> and \<^verbatim>\<open>IPHandler\<close> are registered there; \<^verbatim>\<open>UDPHandler\<close> and \<^verbatim>\<open>TCPHandler\<close> are registered with the IP handler,
  \<^verbatim>\<open>DNSHandler\<close> is a client of the UDP handler, and the sockets are registered with the TCP handler. The layers share one packet buffer:
  each sends through an \<^verbatim>\<open>OffsetBuffer\<close> on the payload of the layer below. Nothing blocks; all work is done in calls of
  \<^verbatim>\<open>processFrame\<close> and of the API.

  \<^bold>\<open>The state\<close> is one record, extended layer by layer: \<open>store\<close> (the RAM, the memory of the controller and what has been put on the wire), \<open>net\<close>
  (EtherControl), \<open>arp\<close>, \<open>ip\<close>, \<open>udp\<close>, \<open>dns\<close>, \<open>tcp\<close> (with all sockets) and \<open>buffered\<close>, \<open>smtp\<close> or \<open>http\<close> (what a class derived from Socket adds). An operation of the source is a function from the state to the new
  one, with the result of the source beside it; \<open>None\<close> as an outcome stands for undefined behaviour, a null pointer, or (where a
  \<open>partial_function\<close> is used) a call that never returns. Handlers, listeners and the virtual methods of a socket are arguments. A machine integer is a
  word of its width.

  \<^item> \<open>Prelude\<close>: byte order (hostutil.h, Host.h), words, lists.
  \<^item> \<open>Buffers\<close>: Buffer.cpp, MemBuffer.cpp, OffsetBuffer.cpp, ENC28J60Buffer.cpp and the accesses of ENC28J60Driver.cpp to the packet memory.
  \<^item> \<open>Buffer_Laws\<close>: the interface \<open>reader\<close>/\<open>writer\<close> of a buffer as locales with their laws, and their interpretation
    \<open>buf\<close>; access through nested offsets, copying. \<open>Header_Writes\<close>: sequences of header fields.
  \<^item> \<open>Checksum\<close>: Buffer::checksum and RFC 1071. \<open>Base64\<close>: Base64.cpp and RFC 4648.
  \<^item> \<open>Registry\<close>, \<open>EtherControl\<close>: EtherControl.cpp, with protocols, timers and frames.
  \<^item> \<open>ARPHandler\<close>, \<open>IPHandler\<close>, \<open>UDPHandler\<close>, \<open>DNSHandler\<close>: the files of these names. \<open>Transport\<close>: what UDP and TCP share, the
    one's complement sum with the pseudo header.
  \<^item> \<open>Socket\<close>, \<open>TCPHandler\<close>, \<open>BufferedSocket\<close>: the files of these names. \<open>Stack\<close>: which handler the code registers for what.
  \<^item> \<open>Segments\<close>: the format of a segment, that \<^verbatim>\<open>sendSegment\<close> puts it on the wire and that \<^verbatim>\<open>handleSegment\<close> reads it back.
    \<open>Connections\<close>: the locale \<open>quiet_events\<close> of sockets whose events do nothing (interpreted on Socket and
    BufferedSocket), dispatch to sockets, and the handshake between two hosts. \<open>Exchange\<close>: data and acknowledgements.
  \<^item> \<open>Transitions\<close>: the diagram of the states of a socket, as a step relation over all its operations (locale \<open>calm_events\<close>).
    \<open>Recovery\<close>: the timer, which repeats lost data from the stash and gives up after ten times. \<open>Closing\<close>: a FIN that comes with data, and the
    end of a socket. \<open>Receive_Queue\<close>: the locale \<open>byte_queue\<close> and a BufferedSocket as an instance of it. \<open>Messages\<close>: the texts
    that the two clients put on the wire.

  \<^item> \<open>Frames\<close>: what the operations of a socket leave alone.
  \<^item> \<open>SMTPClient\<close>, \<open>HTTPClient\<close>: the files of these names. \<open>SMTP_Lines\<close>: how the data from the server is split into lines, for any handler
    of lines; \<open>SMTP_Receive\<close>: that \<^verbatim>\<open>onLineReceived\<close>, which sends commands and closes the connection while the data is being read, is such a handler.
  \<^item> \<open>ENC28J60Registers\<close>, \<open>ENC28J60Driver\<close>: the files of these names, down to the bytes on the SPI bus. \<open>Controller\<close>: what the data sheet says of
    the controller, as hypotheses on an arbitrary device (\<open>resets\<close> and \<open>selection\<close>, which hold at any time, and \<open>datasheet\<close> for the states in which nothing is
    received or sent), that the driver knows the selected bank of such a device, and that it implements the packet memory which \<open>Buffers\<close> describes. \<open>Controller_Copies\<close>: the copies inside this memory, with what the data sheet says of
    them as the hypothesis \<open>copies_by_dma\<close>; the buffers of a socket may lie there or in the RAM (\<open>can_copy\<close>).

  \<^bold>\<open>What is shown.\<close> Bottom up: a buffer is a list of bytes and an access to nested buffers is an access to the root; the checksum is
  that of RFC 1071, a sum written by a sender verifies, and a changed word is detected; frames and packets on the wire have the prescribed format and
  what one host sends the other hands to the right handler; bad packets are dropped; the ARP table is well-formed in every
  reachable state and requests resolve; UDP delivers datagrams; a DNS reply completes the entry it answers, and its handler always returns; two TCP
  sockets connect, and what one sends the application of the other gets, once, in order and acknowledged, also when segments are lost, as
  long as one of eleven arrives; a socket stays within its diagram; a BufferedSocket is a queue; the clients send exactly their texts; the driver
  always knows the bank of registers the controller has selected, finds the frames it stores, and copies within bounds. Where the code does not do what it means to,
  the theorem states what it does: among others, CLOSING and TIME_WAIT are never entered, FIN_WAIT_2 ignores the FIN of the peer, a FIN with data is
  acknowledged one short, a full stash reaches into the next, and unregistering a socket follows a null pointer.

  \<^bold>\<open>Bounds.\<close> \<^verbatim>\<open>connect\<close> and \<^verbatim>\<open>resolveIP\<close> call each other; the nested call finds the name resolved, so that a depth of two
  is enough (\<open>connect_depth\<close>). \<^verbatim>\<open>registerTCPHandler\<close> and \<^verbatim>\<open>registerSocket\<close> call each other to a depth of three. Everything else is structural, has
  a measure, or is a \<open>partial_function\<close> with a theorem that says when it returns.

  \<^bold>\<open>Not modelled.\<close> The pins and control registers of the SPI bus (\<^verbatim>\<open>initSPI\<close>), which belong to the
  device: they are one of its operations. \<^verbatim>\<open>Host::init\<close> and the clock: \<open>now\<close> is a field of the state. Functions that only print, and what destructors do to free memory.
\<close>

end
